(* ===== verification/Prelude.thy ===== *)
theory Prelude
  imports Main "HOL-Library.Word" "HOL-Library.Multiset"
begin

section \<open>Shared notions\<close>

text \<open>
  What every component of the model uses: the outcomes an operation of the library
  can have besides returning (\<open>error\<close>), the sequencing of such operations
  (\<open>rbind\<close>, \<open>rfold\<close>), the collections of rewrite rules of the development, and
  generic lemmas on lists of pairwise disjoint blocks.
\<close>

unbundle bit_operations_syntax

named_theorems res_simps \<open>sequencing of operations that can fail\<close>
named_theorems epoch_simps \<open>the epoch word and its phase bits\<close>
named_theorems log_simps \<open>blocks, block pools and block logs\<close>

subsection \<open>Outcomes\<close>

text \<open>
  \<open>AssertFailed\<close>: an \<^verbatim>\<open>assert\<close> of the source fires. \<open>QuickExit\<close>: \<^verbatim>\<open>DEBUG_ERROR\<close>,
  that is \<^verbatim>\<open>std::quick_exit\<close>. \<open>OutOfBounds\<close>: an array is accessed outside its bounds.
  \<open>NullDeref\<close>: a null pointer is dereferenced. \<open>DivByZero\<close>: an integer is divided by zero.
  \<open>Terminated\<close>: \<^verbatim>\<open>std::terminate\<close>, by a \<^verbatim>\<open>std::thread\<close> that is used wrongly.
  \<open>Diverges\<close>: a loop of the source never ends.

  The assertions are part of the model. \<^verbatim>\<open>src/Makefile\<close> compiles \<^verbatim>\<open>libescort.so\<close> with \<^verbatim>\<open>-DNDEBUG\<close>, which removes
  them, and \<^verbatim>\<open>libescortdbg.so\<close> with them: since no assertion of the source has a side effect, a result \<open>Inr\<close> is that of both builds,
  and \<open>Inl AssertFailed\<close> says that the build with assertions stops there, and that the one without goes on although the
  condition does not hold.
\<close>

datatype error = AssertFailed | QuickExit | OutOfBounds | NullDeref | DivByZero | Terminated | Diverges

type_synonym 'a res = "error + 'a"

definition rbind :: "'a res \<Rightarrow> ('a \<Rightarrow> 'b res) \<Rightarrow> 'b res" where
  "rbind m f = (case m of Inl e \<Rightarrow> Inl e | Inr x \<Rightarrow> f x)"

definition rassert :: "bool \<Rightarrow> unit res" where
  "rassert b = (if b then Inr () else Inl AssertFailed)"

fun rfold :: "('a \<Rightarrow> 's \<Rightarrow> 's res) \<Rightarrow> 'a list \<Rightarrow> 's \<Rightarrow> 's res" where
  "rfold f [] s = Inr s"
| "rfold f (x # xs) s = rbind (f x s) (rfold f xs)"

lemma rbind_Inr [simp]: "rbind (Inr x) f = f x"
  by (simp add: rbind_def)

lemma rbind_Inl [simp]: "rbind (Inl e) f = Inl e"
  by (simp add: rbind_def)

lemma rbind_eq_Inr [res_simps]: "rbind m f = Inr y \<longleftrightarrow> (\<exists>x. m = Inr x \<and> f x = Inr y)"
  by (auto simp: rbind_def split: sum.splits)

lemma rbind_eq_Inl [res_simps]:
  "rbind m f = Inl e \<longleftrightarrow> m = Inl e \<or> (\<exists>x. m = Inr x \<and> f x = Inl e)"
  by (auto simp: rbind_def split: sum.splits)

lemma rbind_assoc: "rbind (rbind m f) g = rbind m (\<lambda>x. rbind (f x) g)"
  by (simp add: rbind_def split: sum.splits)

lemma rbind_cong [fundef_cong]:
  "m = m' \<Longrightarrow> (\<And>x. m' = Inr x \<Longrightarrow> f x = g x) \<Longrightarrow> rbind m f = rbind m' g"
  by (auto simp: rbind_def split: sum.splits)

lemma rassert_True [simp]: "rassert True = Inr ()"
  by (simp add: rassert_def)

lemma rassert_eq_Inr [res_simps]: "rassert b = Inr u \<longleftrightarrow> b"
  by (simp add: rassert_def)

lemma rfold_append: "rfold f (xs @ ys) s = rbind (rfold f xs s) (rfold f ys)"
  by (induction xs arbitrary: s) (auto simp: rbind_assoc intro!: rbind_cong)

lemma rfold_map: "rfold f (map g xs) s = rfold (\<lambda>x. f (g x)) xs s"
  by (induction xs arbitrary: s) (auto intro!: rbind_cong)

lemma rfold_concat: "rfold f (concat xss) s = rfold (rfold f) xss s"
  by (induction xss arbitrary: s) (auto simp: rfold_append intro!: rbind_cong)

text \<open>Two loops whose rounds agree in the states of an invariant agree.\<close>

lemma rfold_cong_inv:
  assumes "I s"
    and "\<And>x a. x \<in> set xs \<Longrightarrow> I a \<Longrightarrow> f x a = g x a"
    and "\<And>x a b. x \<in> set xs \<Longrightarrow> I a \<Longrightarrow> g x a = Inr b \<Longrightarrow> I b"
  shows "rfold f xs s = rfold g xs s"
  using assms
proof (induction xs arbitrary: s)
  case Nil
  then show ?case by simp
next
  case (Cons x xs)
  have "f x s = g x s" by (rule Cons.prems(2) [OF _ Cons.prems(1)]) simp
  moreover have "rfold f xs u = rfold g xs u" if u: "g x s = Inr u" for u
  proof (rule Cons.IH)
    show "I u" by (rule Cons.prems(3) [OF _ Cons.prems(1) u]) simp
  next
    fix y a assume "y \<in> set xs" "I a"
    then show "f y a = g y a" by (intro Cons.prems(2)) simp_all
  next
    fix y a b assume "y \<in> set xs" "I a" "g y a = Inr b"
    then show "I b" by (intro Cons.prems(3) [of y a b]) simp_all
  qed
  ultimately show ?case by (auto intro!: rbind_cong)
qed

text \<open>An invariant of every round is an invariant of the loop.\<close>

lemma rfold_invariant:
  assumes "rfold f xs s = Inr t" and "I s"
    and "\<And>x a b. x \<in> set xs \<Longrightarrow> I a \<Longrightarrow> f x a = Inr b \<Longrightarrow> I b"
  shows "I t"
  using assms
proof (induction xs arbitrary: s)
  case Nil
  then show ?case by simp
next
  case (Cons x xs)
  from Cons.prems(1) obtain u where u: "f x s = Inr u" "rfold f xs u = Inr t"
    by (auto simp: res_simps)
  have "I u" by (rule Cons.prems(3) [OF _ Cons.prems(2) u(1)]) simp
  show ?case
    by (rule Cons.IH [OF u(2) \<open>I u\<close>]) (rule Cons.prems(3), simp_all)
qed

text \<open>A loop whose rounds all succeed under an invariant succeeds.\<close>

lemma rfold_total:
  assumes "I s"
    and "\<And>x a. x \<in> set xs \<Longrightarrow> I a \<Longrightarrow> \<exists>b. f x a = Inr b \<and> I b"
  shows "\<exists>t. rfold f xs s = Inr t \<and> I t"
  using assms
proof (induction xs arbitrary: s)
  case Nil
  then show ?case by simp
next
  case (Cons x xs)
  obtain u where u: "f x s = Inr u" "I u"
    using Cons.prems(2) [of x s] Cons.prems(1) by auto
  have "\<exists>t. rfold f xs u = Inr t \<and> I t"
    by (rule Cons.IH [OF u(2)]) (rule Cons.prems(2), simp_all)
  with u(1) show ?case by simp
qed

subsection \<open>Lists\<close>

lemma butlast_last_snoc: "xs \<noteq> [] \<Longrightarrow> butlast xs @ [last xs] = xs"
  by simp

lemma distinct_butlast_last:
  "distinct xs \<Longrightarrow> xs \<noteq> [] \<Longrightarrow> last xs \<notin> set (butlast xs)"
  by (metis append_butlast_last_id distinct_append disjoint_iff list.set_intros(1))

lemma set_butlast_last: "xs \<noteq> [] \<Longrightarrow> set xs = insert (last xs) (set (butlast xs))"
  by (metis Un_insert_right append_butlast_last_id list.set(1,2) set_append sup_bot.right_neutral)

lemma filter_neq_id: "b \<notin> set xs \<Longrightarrow> filter (\<lambda>x. x \<noteq> b) xs = xs"
  by (induction xs) auto

lemma mset_filter_neq:
  "distinct us \<Longrightarrow> b \<in> set us \<Longrightarrow> add_mset b (mset (filter (\<lambda>x. x \<noteq> b) us)) = mset us"
proof (induction us)
  case Nil
  then show ?case by simp
next
  case (Cons a us)
  show ?case
  proof (cases "a = b")
    case True
    with Cons.prems show ?thesis by (simp add: filter_neq_id)
  next
    case False
    with Cons show ?thesis by (simp add: add_mset_commute)
  qed
qed

lemma concat_map_cong_set:
  "(\<And>x. x \<in> set xs \<Longrightarrow> f x = g x) \<Longrightarrow> concat (map f xs) = concat (map g xs)"
  by (metis map_cong)

lemma update_nth_in_map: "map f (xs[i := x]) = (map f xs)[i := f x]"
  by (rule map_update)

end
