(* ===== verification/GlobalEscort.thy ===== *)
theory GlobalEscort
  imports Prelude "HOL-Library.Signed_Division"
begin

section \<open>Global constants, the epoch word and address arithmetic\<close>

text \<open>
  \<^verbatim>\<open>src/src/globalEscort.hpp\<close> and \<^verbatim>\<open>src/src/globalEscort.cpp\<close>: the sizes of the heap and
  of a cache line, the 64-bit epoch whose two high bits hold the checkpointing phase,
  and the pointer arithmetic of the library. A pointer is a \<open>64 word\<close>.
\<close>

type_synonym ptr = "64 word"
type_synonym epoch_t = "64 word"
type_synonym size_t = "64 word"

definition LOG_CACHE_LINE_SIZE :: nat where
  "LOG_CACHE_LINE_SIZE = 6"

definition CACHE_LINE_SIZE :: nat where
  "CACHE_LINE_SIZE = push_bit LOG_CACHE_LINE_SIZE 1"

definition calc_heapsize :: "size_t \<Rightarrow> size_t" where
  "calc_heapsize a = a * push_bit 30 1"

definition HEAP_SIZE :: size_t where
  "HEAP_SIZE = calc_heapsize 8"

definition DRAM_BASE :: ptr where
  "DRAM_BASE = 0x7f9f14abd000"

datatype epoch_phase = Multi_Epoch_Existence | Log_Persistence | NVM_Heap_Update | Default

text \<open>The numbers of the enumerators; a scoped enumeration is ordered by them, here in the order in which a checkpoint passes the phases.\<close>

fun phase_rank :: "epoch_phase \<Rightarrow> nat" where
  "phase_rank Multi_Epoch_Existence = 0"
| "phase_rank Log_Persistence = 1"
| "phase_rank NVM_Heap_Update = 2"
| "phase_rank Default = 3"

lemma phase_rank_inj: "phase_rank p = phase_rank q \<longleftrightarrow> p = q"
  by (cases p; cases q) simp_all

instantiation epoch_phase :: linorder
begin

definition less_eq_epoch_phase :: "epoch_phase \<Rightarrow> epoch_phase \<Rightarrow> bool" where
  "p \<le> q \<longleftrightarrow> phase_rank p \<le> phase_rank q"

definition less_epoch_phase :: "epoch_phase \<Rightarrow> epoch_phase \<Rightarrow> bool" where
  "p < q \<longleftrightarrow> phase_rank p < phase_rank q"

instance
  by standard (auto simp: less_eq_epoch_phase_def less_epoch_phase_def phase_rank_inj)

end

definition epoch_mask :: epoch_t where
  "epoch_mask = 0x3fffffffffffffff"

definition mask_multiple_epoch_existence :: epoch_t where
  "mask_multiple_epoch_existence = 0x8000000000000000"

definition mask_log_persistence :: epoch_t where
  "mask_log_persistence = 0x4000000000000000"

definition mask_nvm_heap_update :: epoch_t where
  "mask_nvm_heap_update = 0x0000000000000000"

definition Epoch :: "epoch_t \<Rightarrow> epoch_t" where
  "Epoch epoch = epoch AND epoch_mask"

definition set_phase :: "epoch_t \<Rightarrow> epoch_phase \<Rightarrow> epoch_t res" where
  "set_phase epoch phase =
     (let epoch = epoch AND epoch_mask in
      case phase of
        Multi_Epoch_Existence \<Rightarrow> Inr (epoch OR mask_multiple_epoch_existence)
      | Log_Persistence \<Rightarrow> Inr (epoch OR mask_log_persistence)
      | NVM_Heap_Update \<Rightarrow> Inr (epoch OR mask_nvm_heap_update)
      | Default \<Rightarrow> Inl QuickExit)"

definition get_phase :: "epoch_t \<Rightarrow> epoch_phase res" where
  "get_phase epoch =
     (let mask_phase = (epoch AND epoch_mask) XOR epoch in
      if mask_phase = mask_multiple_epoch_existence then Inr Multi_Epoch_Existence
      else if mask_phase = mask_log_persistence then Inr Log_Persistence
      else if mask_phase = mask_nvm_heap_update then Inr NVM_Heap_Update
      else Inl QuickExit)"

text \<open>\<^verbatim>\<open>static_cast<bool>(epoch & 0x1)\<close>, which selects one of the two halves of every
  double-buffered structure.\<close>

definition epoch_bit :: "epoch_t \<Rightarrow> bool" where
  "epoch_bit epoch \<longleftrightarrow> epoch AND 1 \<noteq> 0"

definition add_addr :: "ptr \<Rightarrow> size_t \<Rightarrow> ptr" where
  "add_addr addr offset = addr + offset"

definition diff_addr :: "ptr \<Rightarrow> int" where
  "diff_addr addr = sint (addr - DRAM_BASE)"

subsection \<open>The epoch word\<close>

lemma epoch_mask_mask: "epoch_mask = mask 62"
  by (simp add: epoch_mask_def mask_eq_exp_minus_1)

lemma Epoch_take_bit: "Epoch e = take_bit 62 e"
  by (simp add: Epoch_def epoch_mask_mask take_bit_eq_mask)

lemma mask_multiple_exp: "mask_multiple_epoch_existence = 2 ^ 63"
  by (simp add: mask_multiple_epoch_existence_def)

lemma mask_log_exp: "mask_log_persistence = 2 ^ 62"
  by (simp add: mask_log_persistence_def)

lemma bit_epoch_mask: "bit epoch_mask n \<longleftrightarrow> n < 62"
  by (auto simp: epoch_mask_mask bit_mask_iff possible_bit_def)

lemma bit_mask_multiple: "bit mask_multiple_epoch_existence n \<longleftrightarrow> n = 63"
  by (simp only: mask_multiple_exp bit_exp_iff) (auto simp: possible_bit_def)

lemma bit_mask_log: "bit mask_log_persistence n \<longleftrightarrow> n = 62"
  by (simp only: mask_log_exp bit_exp_iff) (auto simp: possible_bit_def)

lemma bit_mask_heap_update: "\<not> bit mask_nvm_heap_update n"
  by (simp add: mask_nvm_heap_update_def)

lemmas phase_bits = bit_epoch_mask bit_mask_multiple bit_mask_log bit_mask_heap_update

lemma word64_cases: "n < 64 \<Longrightarrow> n < 62 \<or> n = 62 \<or> n = (63::nat)"
  by arith
lemma less_64_iff: "n < 64 \<longleftrightarrow> n < 62 \<or> n = 62 \<or> n = (63::nat)"
  by arith

lemma phase_part_eq:
  "(e AND epoch_mask) XOR e = m \<longleftrightarrow>
     (\<forall>n < 62. \<not> bit m n) \<and> (bit e 62 \<longleftrightarrow> bit m 62) \<and> (bit e 63 \<longleftrightarrow> bit m 63)"
  for e m :: epoch_t
proof -
  have "(e AND epoch_mask) XOR e = m \<longleftrightarrow>
    (\<forall>n < 64. (\<not> n < 62 \<and> bit e n) = bit m n)"
    by (auto simp: bit_eq_iff bit_simps phase_bits possible_bit_def)
  also have "\<dots> \<longleftrightarrow> (\<forall>n < 62. \<not> bit m n) \<and> (bit e 62 \<longleftrightarrow> bit m 62) \<and> (bit e 63 \<longleftrightarrow> bit m 63)"
    by (auto simp: less_64_iff)
  finally show ?thesis .
qed

lemma get_phase_bits:
  "get_phase e =
     (if bit e 63 then (if bit e 62 then Inl QuickExit else Inr Multi_Epoch_Existence)
      else if bit e 62 then Inr Log_Persistence else Inr NVM_Heap_Update)"
  by (auto simp: get_phase_def Let_def phase_part_eq phase_bits)

lemma set_phase_bits:
  assumes "set_phase e p = Inr e'"
  shows "Epoch e' = Epoch e"
    and "bit e' 63 \<longleftrightarrow> p = Multi_Epoch_Existence"
    and "bit e' 62 \<longleftrightarrow> p = Log_Persistence"
  using assms
  by (auto simp: set_phase_def Let_def Epoch_def phase_bits bit_simps
      intro!: bit_eqI split: epoch_phase.splits)

lemma set_phase_total: "p \<noteq> Default \<Longrightarrow> \<exists>e'. set_phase e p = Inr e'"
  by (cases p) (auto simp: set_phase_def Let_def)

lemma set_phase_not_Default: "set_phase e p = Inr e' \<Longrightarrow> p \<noteq> Default"
  by (auto simp: set_phase_def Let_def)

lemma get_set_phase: "set_phase e p = Inr e' \<Longrightarrow> get_phase e' = Inr p"
  using set_phase_bits(2,3) [of e p e'] set_phase_not_Default [of e p e']
  by (cases p) (auto simp: get_phase_bits)

lemma get_phase_Epoch: "get_phase (Epoch e) = Inr NVM_Heap_Update"
  by (simp add: get_phase_bits Epoch_take_bit bit_take_bit_iff)

lemma Epoch_idem: "Epoch (Epoch e) = Epoch e"
  by (simp add: Epoch_take_bit)

lemma unat_Epoch: "unat (Epoch e) = unat e mod 2 ^ 62"
  unfolding Epoch_take_bit unsigned_take_bit_eq by (rule take_bit_eq_mod)

lemma set_phase_Epoch: "set_phase (Epoch e) p = set_phase e p"
  by (simp add: set_phase_def Let_def Epoch_def and.assoc)

lemma set_get_phase: "get_phase e = Inr p \<Longrightarrow> set_phase e p = Inr e"
  by (auto simp: get_phase_bits set_phase_def phase_bits bit_simps split: if_splits intro!: bit_eqI
      dest: word64_cases simp del: not_less)

lemma epoch_bit_odd: "epoch_bit e \<longleftrightarrow> odd e"
  by (simp add: epoch_bit_def and_one_eq odd_iff_mod_2_eq_one)

lemma epoch_bit_Epoch: "epoch_bit (Epoch e) = epoch_bit e"
  by (simp add: epoch_bit_odd Epoch_take_bit even_take_bit_eq)

lemma epoch_bit_pred: "epoch_bit (e - 1) \<longleftrightarrow> \<not> epoch_bit e"
  by (simp add: epoch_bit_odd)
lemma epoch_bit_succ: "epoch_bit (e + 1) \<longleftrightarrow> \<not> epoch_bit e"
  by (simp add: epoch_bit_odd)

lemma unat_Epoch_succ:
  "unat (Epoch e) + 1 < 2 ^ 62 \<Longrightarrow> unat (Epoch (e + 1)) = unat (Epoch e) + 1"
proof -
  assume small: "unat (Epoch e) + 1 < 2 ^ 62"
  have "unat (Epoch (e + 1)) = (unat e + 1) mod 2 ^ 64 mod 2 ^ 62"
    by (simp only: unat_Epoch unat_word_ariths(1)) simp
  also have "\<dots> = (unat e + 1) mod 2 ^ 62"
    by (rule mod_mod_cancel) simp
  also have "\<dots> = unat e mod 2 ^ 62 + 1"
    using small by (simp add: unat_Epoch mod_Suc)
  finally show ?thesis by (simp add: unat_Epoch)
qed

lemma Epoch_succ: "unat (Epoch e) + 1 < 2 ^ 62 \<Longrightarrow> Epoch (e + 1) = Epoch e + 1"
  by (simp add: word_unat_eq_iff unat_Epoch_succ unat_word_ariths(1))

subsection \<open>Cache lines of the heap\<close>

text \<open>The number of cache lines of the DRAM heap and the address of its \<open>i\<close>-th line.\<close>

definition heap_lines :: nat where
  "heap_lines = unat HEAP_SIZE div CACHE_LINE_SIZE"

definition line_ptr :: "nat \<Rightarrow> ptr" where
  "line_ptr i = DRAM_BASE + word_of_nat (CACHE_LINE_SIZE * i)"

lemma CACHE_LINE_SIZE_64 [simp]: "CACHE_LINE_SIZE = 64"
  by (simp add: CACHE_LINE_SIZE_def LOG_CACHE_LINE_SIZE_def)

lemma HEAP_SIZE_eq: "HEAP_SIZE = 8589934592"
  by (simp add: HEAP_SIZE_def calc_heapsize_def)

lemma heap_lines_eq: "heap_lines = 134217728"
  by (simp add: heap_lines_def HEAP_SIZE_eq)

lemma sint_word_of_nat_small: "n < 2 ^ 63 \<Longrightarrow> sint (word_of_nat n :: 64 word) = int n"
  by (simp add: signed_of_nat signed_take_bit_int_eq_self)
lemma diff_addr_offset:
  "n < 2 ^ 63 \<Longrightarrow> diff_addr (DRAM_BASE + word_of_nat n) = int n"
  by (simp add: diff_addr_def sint_word_of_nat_small)

lemma diff_addr_line_ptr:
  "i < heap_lines \<Longrightarrow> k < 64 \<Longrightarrow> diff_addr (line_ptr i + word_of_nat k) = int (64 * i + k)"
  using diff_addr_offset [of "64 * i + k"]
  by (simp add: line_ptr_def heap_lines_eq algebra_simps)

lemma line_ptr_Suc: "line_ptr (Suc i) = add_addr (line_ptr i) (word_of_nat CACHE_LINE_SIZE)"
  by (simp add: line_ptr_def add_addr_def)

lemma line_ptr_add: "line_ptr i + word_of_nat (64 * j) = line_ptr (i + j)"
  by (simp add: line_ptr_def algebra_simps)

lemma line_ptr_inj: "line_ptr i = line_ptr j \<Longrightarrow> i < heap_lines \<Longrightarrow> j < heap_lines \<Longrightarrow> i = j"
  using diff_addr_line_ptr [of i 0] diff_addr_line_ptr [of j 0] by simp
lemma sint_heap_ptr:
  assumes "i < heap_lines" "k < 64"
  shows "sint (line_ptr i + word_of_nat k) = 0x7f9f14abd000 + int (64 * i + k)"
proof -
  have "line_ptr i + word_of_nat k = word_of_nat (0x7f9f14abd000 + (64 * i + k))"
    by (simp add: line_ptr_def DRAM_BASE_def)
  then show ?thesis
    using assms by (simp only:) (subst sint_word_of_nat_small, simp_all add: heap_lines_eq)
qed
text \<open>\<^verbatim>\<open>addr_ptr -= addr_ptr % CACHE_LINE_SIZE\<close> on a signed \<^verbatim>\<open>intptr_t\<close>, whose remainder truncates
  towards zero.\<close>
definition align_down :: "ptr \<Rightarrow> ptr" where
  "align_down addr = addr - word_of_int (sint addr smod int CACHE_LINE_SIZE)"
lemma align_down_heap:
  assumes "i < heap_lines" "k < 64"
  shows "align_down (line_ptr i + word_of_nat k) = line_ptr i"
proof -
  have "sint (line_ptr i + word_of_nat k) smod 64 = (0x7f9f14abd000 + int (64 * i + k)) mod 64"
    by (simp add: sint_heap_ptr [OF assms] signed_modulo_int_def sgn_if)
  also have "\<dots> = (int k + 64 * (2192519114560 + int i)) mod 64"
    by (rule arg_cong [of _ _ "\<lambda>x. x mod 64"]) simp
  also have "\<dots> = int k"
    using assms(2) by (simp only: mod_mult_self2) simp
  finally show ?thesis by (simp add: align_down_def)
qed

lemma ucast_heap_ptr:
  assumes "i < heap_lines" and "k < 64"
  shows "unat (ucast (line_ptr i + word_of_nat k) :: 6 word) = k"
proof -
  have "line_ptr i + word_of_nat k = word_of_nat (64 * (2192519114560 + i) + k)"
    by (simp add: line_ptr_def DRAM_BASE_def)
  then have "unat (ucast (line_ptr i + word_of_nat k) :: 6 word) =
      take_bit 6 (take_bit 64 (64 * (2192519114560 + i) + k))"
    by (simp only: unsigned_ucast_eq unsigned_of_nat) simp
  moreover have "take_bit 6 (take_bit 64 (64 * a + k)) = k" for a
    using assms(2) by (simp only: take_bit_take_bit) (simp add: take_bit_eq_mod)
  ultimately show ?thesis by (simp only:)
qed

end
