(* ===== verification/AddrlistT.thy ===== *)
theory AddrlistT
  imports GlobalEscort
begin

section \<open>Address lists\<close>

text \<open>
  \<^verbatim>\<open>src/src/addrlist_t.hpp\<close> (the variant without \<^verbatim>\<open>OLD_VERSION\<close>): the vector of the
  regions a thread has marked in an epoch, as pairs of the address of the first line and
  the number of lines.
\<close>

type_synonym addrlist_t = "(ptr \<times> nat) list"

definition addrlist_append :: "addrlist_t \<Rightarrow> ptr \<times> nat \<Rightarrow> addrlist_t" where
  "addrlist_append l entry = l @ [entry]"

definition addrlist_size :: "addrlist_t \<Rightarrow> nat" where
  "addrlist_size l = length l"

definition addrlist_empty :: "addrlist_t \<Rightarrow> bool" where
  "addrlist_empty l \<longleftrightarrow> addrlist_size l = 0"

text \<open>Popping an empty vector reads \<^verbatim>\<open>_list[-1]\<close>.\<close>

definition addrlist_pop :: "addrlist_t \<Rightarrow> ((ptr \<times> nat) \<times> addrlist_t) res" where
  "addrlist_pop l = (if l = [] then Inl OutOfBounds else Inr (last l, butlast l))"

definition addrlist_clear :: "addrlist_t \<Rightarrow> addrlist_t" where
  "addrlist_clear l = []"

lemma addrlist_pop_append: "addrlist_pop (addrlist_append l e) = Inr (e, l)"
  by (simp add: addrlist_pop_def addrlist_append_def)

lemma addrlist_pop_fails: "(\<exists>e. addrlist_pop l = Inl e) \<longleftrightarrow> addrlist_empty l"
  by (simp add: addrlist_pop_def addrlist_empty_def addrlist_size_def)

end
