(* ===== verification/BitmapT.thy ===== *)
theory BitmapT
  imports GlobalEscort
begin

section \<open>The bitmaps of modified cache lines\<close>

text \<open>
  \<^verbatim>\<open>src/src/bitmap_t.hpp\<close>: one flag per cache line of the DRAM heap. An access outside the
  array, which the C++ code does not check, is the outcome \<open>OutOfBounds\<close>; the assertion
  in \<^verbatim>\<open>set\<close> (the program is free of data races on lines) is the outcome \<open>AssertFailed\<close>.
\<close>

record bitmap_t =
  bm_bits :: "nat \<Rightarrow> bool"
  bm_size :: nat

definition bitmap_new :: "size_t \<Rightarrow> bitmap_t" where
  "bitmap_new arraysize = \<lparr>bm_bits = (\<lambda>_. False), bm_size = unat arraysize div CACHE_LINE_SIZE\<rparr>"

definition bitmap_get_index :: "ptr \<Rightarrow> nat res" where
  "bitmap_get_index addr =
     (let diff = diff_addr addr in
      rbind (rassert (0 \<le> diff)) (\<lambda>_. Inr (nat (diff div int CACHE_LINE_SIZE))))"

definition bitmap_is_set :: "bitmap_t \<Rightarrow> nat \<Rightarrow> bool res" where
  "bitmap_is_set bm index = (if index < bm_size bm then Inr (bm_bits bm index) else Inl OutOfBounds)"

definition bitmap_set :: "nat \<Rightarrow> bitmap_t \<Rightarrow> bitmap_t res" where
  "bitmap_set index bm =
     (if index < bm_size bm then
        rbind (rassert (\<not> bm_bits bm index)) (\<lambda>_. Inr (bm\<lparr>bm_bits := (bm_bits bm)(index := True)\<rparr>))
      else Inl OutOfBounds)"

definition bitmap_clear :: "nat \<Rightarrow> bitmap_t \<Rightarrow> bitmap_t res" where
  "bitmap_clear index bm =
     (if index < bm_size bm then Inr (bm\<lparr>bm_bits := (bm_bits bm)(index := False)\<rparr>) else Inl OutOfBounds)"

fun bitmap_is_clear_from :: "nat \<Rightarrow> bitmap_t \<Rightarrow> bool" where
  "bitmap_is_clear_from 0 bm = True"
| "bitmap_is_clear_from (Suc i) bm = (if bm_bits bm (bm_size bm - Suc i) then False else bitmap_is_clear_from i bm)"

definition bitmap_is_clear :: "bitmap_t \<Rightarrow> bool" where
  "bitmap_is_clear bm = bitmap_is_clear_from (bm_size bm) bm"

lemma bitmap_get_index_heap:
  "i < heap_lines \<Longrightarrow> k < 64 \<Longrightarrow> bitmap_get_index (line_ptr i + word_of_nat k) = Inr i"
  by (simp add: bitmap_get_index_def diff_addr_line_ptr)

lemma bitmap_get_index_line: "i < heap_lines \<Longrightarrow> bitmap_get_index (line_ptr i) = Inr i"
  using bitmap_get_index_heap [of i 0] by simp

text \<open>An address below the heap is refused.\<close>

lemma bitmap_get_index_below: "diff_addr a < 0 \<Longrightarrow> bitmap_get_index a = Inl AssertFailed"
  by (simp add: bitmap_get_index_def rassert_def)

lemma bitmap_is_clear_from_iff:
  "n \<le> bm_size bm \<Longrightarrow>
   bitmap_is_clear_from n bm \<longleftrightarrow> (\<forall>i. bm_size bm - n \<le> i \<and> i < bm_size bm \<longrightarrow> \<not> bm_bits bm i)"
proof (induction n)
  case 0
  then show ?case by auto
next
  case (Suc n)
  have "(bm_size bm - Suc n \<le> i \<and> i < bm_size bm) \<longleftrightarrow>
    (i = bm_size bm - Suc n \<or> (bm_size bm - n \<le> i \<and> i < bm_size bm))" for i
    using Suc.prems by arith
  with Suc show ?case by auto
qed

lemma bitmap_is_clear_iff: "bitmap_is_clear bm \<longleftrightarrow> (\<forall>i < bm_size bm. \<not> bm_bits bm i)"
  by (simp add: bitmap_is_clear_def bitmap_is_clear_from_iff)

end
