(* ===== verification/BytemapT.thy ===== *)
theory BytemapT
  imports GlobalEscort
begin

section \<open>The byte maps of allocated objects\<close>

text \<open>
  \<^verbatim>\<open>src/src/bytemap_t.hpp\<close>: one signed byte (\<^verbatim>\<open>char\<close>, an \<open>8 word\<close> read by \<open>sint\<close>) per cache
  line of the heap. In the two DRAM maps the byte of the first line of an object is 1, or
  -1 after \<^verbatim>\<open>reverse\<close>, while the object's record of the epoch is pending; in the NVM map it holds the
  size of the object in cache lines.
\<close>

record bytemap_t =
  by_bytes :: "nat \<Rightarrow> 8 word"
  by_size :: nat

definition bytemap_get_index :: "ptr \<Rightarrow> nat res" where
  "bytemap_get_index addr =
     (let diff = diff_addr addr in
      rbind (rassert (0 \<le> diff)) (\<lambda>_. Inr (nat (diff div int CACHE_LINE_SIZE))))"

definition bytemap_write :: "nat \<Rightarrow> 8 word \<Rightarrow> bytemap_t \<Rightarrow> bytemap_t res" where
  "bytemap_write index v bm =
     (if index < by_size bm then Inr (bm\<lparr>by_bytes := (by_bytes bm)(index := v)\<rparr>) else Inl OutOfBounds)"

definition bytemap_clear :: "nat \<Rightarrow> bytemap_t \<Rightarrow> bytemap_t res" where
  "bytemap_clear index bm = bytemap_write index 0 bm"

definition bytemap_get_byte :: "bytemap_t \<Rightarrow> nat \<Rightarrow> (8 word) res" where
  "bytemap_get_byte bm index = (if index < by_size bm then Inr (by_bytes bm index) else Inl OutOfBounds)"

subsection \<open>The maps on DRAM\<close>

text \<open>The constructor takes memory from \<^verbatim>\<open>std::malloc\<close> and does not initialise it.\<close>

definition bytemap_dram_new :: "(nat \<Rightarrow> 8 word) \<Rightarrow> size_t \<Rightarrow> bytemap_t" where
  "bytemap_dram_new mem arraysize = \<lparr>by_bytes = mem, by_size = unat arraysize div CACHE_LINE_SIZE\<rparr>"

definition bytemap_is_set :: "bytemap_t \<Rightarrow> nat \<Rightarrow> bool res" where
  "bytemap_is_set bm index = rbind (bytemap_get_byte bm index) (\<lambda>b. Inr (sint b = 1))"

definition bytemap_set :: "nat \<Rightarrow> bytemap_t \<Rightarrow> bytemap_t res" where
  "bytemap_set index bm = bytemap_write index 1 bm"

definition bytemap_reverse :: "nat \<Rightarrow> bytemap_t \<Rightarrow> bytemap_t res" where
  "bytemap_reverse index bm = rbind (bytemap_get_byte bm index) (\<lambda>b. bytemap_write index (b * -1) bm)"

subsection \<open>The map on NVM\<close>

definition bytemap_nvm_new :: "(nat \<Rightarrow> 8 word) \<Rightarrow> size_t \<Rightarrow> bytemap_t" where
  "bytemap_nvm_new mem arraysize = \<lparr>by_bytes = mem, by_size = unat arraysize div CACHE_LINE_SIZE\<rparr>"

definition bytemap_nvm_set :: "nat \<Rightarrow> size_t \<Rightarrow> bytemap_t \<Rightarrow> bytemap_t res" where
  "bytemap_nvm_set index num_bytes bm = bytemap_write index (ucast num_bytes) bm"

fun set_obj_loop :: "nat \<Rightarrow> nat \<Rightarrow> bytemap_t \<Rightarrow> bytemap_t res" where
  "set_obj_loop index obj_bytes_sum bm =
     (if obj_bytes_sum > 0 then
        if obj_bytes_sum \<ge> 64 then
          rbind (bytemap_write index 64 bm) (set_obj_loop (index + 1) (obj_bytes_sum - 64))
        else
          rbind (bytemap_write index (word_of_nat obj_bytes_sum) bm) (set_obj_loop (index + 1) 0)
      else Inr bm)"

declare set_obj_loop.simps [simp del]

definition set_obj_size :: "nat \<Rightarrow> size_t \<Rightarrow> bytemap_t \<Rightarrow> bytemap_t res" where
  "set_obj_size index obj_size bm =
     (let arraysize = unat HEAP_SIZE div CACHE_LINE_SIZE;
          obj_bytes_sum = unat obj_size div CACHE_LINE_SIZE;
          debug_block_array_num = (obj_bytes_sum + CACHE_LINE_SIZE - 1) div 2 ^ LOG_CACHE_LINE_SIZE
      in rbind (rassert (index + debug_block_array_num \<le> arraysize)) (\<lambda>_.
         set_obj_loop index obj_bytes_sum bm))"

lemma bytemap_get_index_heap:
  "i < heap_lines \<Longrightarrow> k < 64 \<Longrightarrow> bytemap_get_index (line_ptr i + word_of_nat k) = Inr i"
  by (simp add: bytemap_get_index_def diff_addr_line_ptr)

text \<open>
  The loop stores 64 in each full group of 64 lines and the remainder in the last byte:
  the stored bytes add up to the number of lines, and no other byte changes.
\<close>

lemma set_obj_loop_ok:
  assumes "index + (n + 63) div 64 \<le> by_size bm"
  shows "\<exists>bm'. set_obj_loop index n bm = Inr bm' \<and> by_size bm' = by_size bm \<and>
    (\<forall>j. by_bytes bm' j =
      (if index \<le> j \<and> j < index + (n + 63) div 64
       then word_of_nat (min 64 (n - 64 * (j - index))) else by_bytes bm j))"
  using assms
proof (induction n arbitrary: index bm rule: less_induct)
  case (less n)
  consider "n = 0" | "0 < n" "n < 64" | "64 \<le> n" by arith
  then show ?case
  proof cases
    case 1
    then show ?thesis by (auto simp: set_obj_loop.simps)
  next
    case 2
    then have one: "(n + 63) div 64 = 1" by simp
    with less.prems have "index < by_size bm" by simp
    with 2 one show ?thesis
      by (auto simp: set_obj_loop.simps [of index n] set_obj_loop.simps [of "Suc index" 0] bytemap_write_def)
  next
    case 3
    define bm1 where "bm1 = bm\<lparr>by_bytes := (by_bytes bm)(index := 64)\<rparr>"
    have groups: "(n + 63) div 64 = Suc ((n - 64 + 63) div 64)"
      using 3 div_add_self2 [of 64 "n - 64 + 63"] by simp
    with less.prems have bound: "index < by_size bm" "index + 1 + (n - 64 + 63) div 64 \<le> by_size bm1"
      by (simp_all add: bm1_def)
    have step: "set_obj_loop index n bm = set_obj_loop (index + 1) (n - 64) bm1"
      using 3 bound(1) by (simp add: set_obj_loop.simps [of index n] bytemap_write_def bm1_def)
    obtain bm' where ih: "set_obj_loop (index + 1) (n - 64) bm1 = Inr bm'" "by_size bm' = by_size bm1"
      "\<And>j. by_bytes bm' j = (if index + 1 \<le> j \<and> j < index + 1 + (n - 64 + 63) div 64
         then word_of_nat (min 64 (n - 64 - 64 * (j - (index + 1)))) else by_bytes bm1 j)"
      using less.IH [of "n - 64", OF _ bound(2)] 3 by auto
    have "by_bytes bm' j = (if index \<le> j \<and> j < index + (n + 63) div 64
       then word_of_nat (min 64 (n - 64 * (j - index))) else by_bytes bm j)" for j
    proof (cases "index < j")
      case True
      then have "n - 64 - 64 * (j - (index + 1)) = n - 64 * (j - index)"
        by (cases "j - index") (simp_all add: algebra_simps)
      with True show ?thesis by (auto simp: ih(3) groups bm1_def)
    next
      case False
      with 3 show ?thesis by (auto simp: ih(3) groups bm1_def)
    qed
    with step ih(1,2) show ?thesis by (auto simp: bm1_def)
  qed
qed

lemma sum_groups: "(\<Sum>j < (n + 63) div 64. min 64 (n - 64 * j)) = (n::nat)"
proof (induction n rule: less_induct)
  case (less n)
  consider "n = 0" | "0 < n" "n < 64" | "64 \<le> n" by arith
  then show ?case
  proof cases
    case 3
    have groups: "(n + 63) div 64 = Suc ((n - 64 + 63) div 64)"
      using 3 div_add_self2 [of 64 "n - 64 + 63"] by simp
    have "(\<Sum>j < (n - 64 + 63) div 64. min 64 (n - 64 * Suc j)) = n - 64"
      using less.IH [of "n - 64"] 3 by (simp add: algebra_simps)
    with 3 show ?thesis by (simp only: groups sum.lessThan_Suc_shift)
  next
    case 2
    then have "(n + 63) div 64 = 1" by simp
    with 2 show ?thesis by simp
  next
    case 1
    then show ?thesis by simp
  qed
qed

text \<open>Recording an object of the heap succeeds, and the bytes read back give its size in lines.\<close>

lemma set_obj_size_ok:
  assumes "by_size bm = heap_lines" and "index + (unat sz div 64 + 63) div 64 \<le> heap_lines"
  defines "n \<equiv> unat sz div 64"
  shows "\<exists>bm'. set_obj_size index sz bm = Inr bm' \<and> by_size bm' = by_size bm \<and>
    (\<Sum>j < (n + 63) div 64. unat (by_bytes bm' (index + j))) = n \<and>
    (\<forall>j. j < index \<or> index + (n + 63) div 64 \<le> j \<longrightarrow> by_bytes bm' j = by_bytes bm j)"
proof -
  obtain bm' where l: "set_obj_loop index n bm = Inr bm'" "by_size bm' = by_size bm"
    "\<And>j. by_bytes bm' j = (if index \<le> j \<and> j < index + (n + 63) div 64
       then word_of_nat (min 64 (n - 64 * (j - index))) else by_bytes bm j)"
    using set_obj_loop_ok [of index n bm] assms by auto
  have "set_obj_size index sz bm = Inr bm'"
    using l(1) assms(2) by (simp add: set_obj_size_def Let_def n_def heap_lines_def LOG_CACHE_LINE_SIZE_def add.commute [of 63])
  moreover have "(\<Sum>j < (n + 63) div 64. unat (by_bytes bm' (index + j))) =
      (\<Sum>j < (n + 63) div 64. min 64 (n - 64 * j))"
    by (rule sum.cong [OF refl]) (simp add: l(3) unsigned_of_nat take_bit_nat_eq_self)
  ultimately show ?thesis using l(2,3) by (auto simp: sum_groups)
qed

text \<open>The assertion of \<^verbatim>\<open>set_obj_size\<close> refuses an object that does not fit.\<close>

lemma set_obj_size_fails:
  "heap_lines < index + (unat sz div 64 + 63) div 64 \<Longrightarrow> set_obj_size index sz bm = Inl AssertFailed"
  by (simp add: set_obj_size_def Let_def heap_lines_def LOG_CACHE_LINE_SIZE_def rassert_def add.commute [of 63])

end
