(* ===== verification/BlockPool.thy ===== *)
theory BlockPool
  imports Prelude
begin

section \<open>Block pools and block logs: the interface\<close>

text \<open>
  The redo log (\<^verbatim>\<open>plog_t\<close>) and the allocator log (\<^verbatim>\<open>allocatorlog_t\<close>) are the same
  structure over two kinds of entries: a list of fixed-size blocks that are taken from
  and returned to a pool shared by all threads. This theory states what a log relies
  on (the pool, the memory of the blocks, one block) as locales, and proves
  once, inside them, what a log promises: appending appends, clearing empties, a log
  never touches a block of another log, and no block is ever lost or owned twice.
  \<^verbatim>\<open>PlogT\<close> and \<^verbatim>\<open>AllocatorlogT\<close> interpret the locales on the definitions of the code.
\<close>

type_synonym block_id = nat

text \<open>
  \<open>contents ent bl\<close>: the entries of a log made of the blocks \<open>bl\<close>, in append order.
  \<open>pool_ok cap ent fr us\<close>: free and used blocks are disjoint, a free block is empty, no
  block holds more than \<open>cap\<close> entries. \<open>log_ok us bl\<close>: a log owns distinct used blocks.
\<close>

definition contents :: "(block_id \<Rightarrow> 'e list) \<Rightarrow> block_id list \<Rightarrow> 'e list" where
  "contents ent bl = concat (map ent bl)"

definition pool_ok :: "nat \<Rightarrow> (block_id \<Rightarrow> 'e list) \<Rightarrow> block_id list \<Rightarrow> block_id list \<Rightarrow> bool" where
  "pool_ok cap ent fr us \<longleftrightarrow>
     distinct (fr @ us) \<and> (\<forall>b \<in> set fr. ent b = []) \<and> (\<forall>b \<in> set us. length (ent b) \<le> cap)"

definition log_ok :: "block_id list \<Rightarrow> block_id list \<Rightarrow> bool" where
  "log_ok us bl \<longleftrightarrow> distinct bl \<and> set bl \<subseteq> set us"

lemma contents_Nil [simp]: "contents ent [] = []"
  by (simp add: contents_def)

lemma contents_append [log_simps]: "contents ent (xs @ ys) = contents ent xs @ contents ent ys"
  by (simp add: contents_def)

lemma contents_snoc [log_simps]: "contents ent (xs @ [b]) = contents ent xs @ ent b"
  by (simp add: contents_def)

lemma contents_cong:
  "(\<And>b. b \<in> set bl \<Longrightarrow> ent b = ent' b) \<Longrightarrow> contents ent bl = contents ent' bl"
  unfolding contents_def by (rule concat_map_cong_set)

lemma contents_upd_other [log_simps]: "b \<notin> set bl \<Longrightarrow> contents (ent(b := x)) bl = contents ent bl"
  by (rule contents_cong) auto

lemma contents_upd_last:
  assumes "bl \<noteq> []" and "distinct bl"
  shows "contents (ent(last bl := ent (last bl) @ es)) bl = contents ent bl @ es"
proof -
  have bl: "bl = butlast bl @ [last bl]" using assms(1) by simp
  have "contents (ent(last bl := ent (last bl) @ es)) (butlast bl @ [last bl]) =
        contents ent (butlast bl @ [last bl]) @ es"
    using distinct_butlast_last [OF assms(2,1)] by (simp add: contents_snoc contents_upd_other)
  with bl show ?thesis by simp
qed

lemma contents_empty: "(\<And>b. b \<in> set bl \<Longrightarrow> ent b = []) \<Longrightarrow> contents ent bl = []"
  by (induction bl) (auto simp: contents_def)

lemma pool_ok_put:
  "pool_ok cap ent fr us \<Longrightarrow> b \<notin> set fr \<Longrightarrow> length x \<le> cap \<Longrightarrow> pool_ok cap (ent(b := x)) fr us"
  by (auto simp: pool_ok_def)

lemma pool_ok_pop:
  assumes "pool_ok cap ent fr us" and "fr \<noteq> []"
  shows "pool_ok cap ent (butlast fr) (us @ [last fr])"
    and "last fr \<notin> set (butlast fr)" and "last fr \<notin> set us" and "ent (last fr) = []"
    and "set fr = insert (last fr) (set (butlast fr))"
proof -
  have fr: "set fr = insert (last fr) (set (butlast fr))"
    using assms(2) by (rule set_butlast_last)
  have d: "distinct fr" "distinct us" "set fr \<inter> set us = {}"
    using assms(1) by (auto simp: pool_ok_def)
  show "last fr \<notin> set (butlast fr)" using d(1) assms(2) by (rule distinct_butlast_last)
  show "last fr \<notin> set us" using d(3) fr by auto
  show "ent (last fr) = []" using assms(1) fr by (auto simp: pool_ok_def)
  then show "pool_ok cap ent (butlast fr) (us @ [last fr])"
    using assms d fr distinct_butlast_last [OF d(1) assms(2)]
    by (auto simp: pool_ok_def distinct_butlast)
  show "set fr = insert (last fr) (set (butlast fr))" by (rule fr)
qed

lemma pool_ok_push:
  "pool_ok cap ent fr us \<Longrightarrow> b \<in> set us \<Longrightarrow> ent b = [] \<Longrightarrow>
   pool_ok cap ent (fr @ [b]) (filter (\<lambda>x. x \<noteq> b) us)"
  by (auto simp: pool_ok_def)

subsection \<open>A pool of blocks\<close>

text \<open>
  The management object: \<open>pop\<close> hands out the last free block and fails when there is
  none, \<open>push\<close> takes a block back.
\<close>

locale block_pool =
  fixes pop :: "'m \<Rightarrow> (block_id \<times> 'm) res"
    and push :: "block_id \<Rightarrow> 'm \<Rightarrow> 'm"
    and free_of :: "'m \<Rightarrow> block_id list"
    and used_of :: "'m \<Rightarrow> block_id list"
  assumes pop_empty: "free_of m = [] \<Longrightarrow> \<exists>e. pop m = Inl e"
    and pop_some: "free_of m \<noteq> [] \<Longrightarrow> \<exists>m'. pop m = Inr (last (free_of m), m') \<and>
      free_of m' = butlast (free_of m) \<and> used_of m' = used_of m @ [last (free_of m)]"
    and push_free: "free_of (push b m) = free_of m @ [b]"
    and push_used: "used_of (push b m) = filter (\<lambda>x. x \<noteq> b) (used_of m)"
begin

lemma pop_Inr_iff:
  "(\<exists>b m'. pop m = Inr (b, m')) \<longleftrightarrow> free_of m \<noteq> []"
  using pop_empty [of m] pop_some [of m] by fastforce

lemma pop_Inr:
  assumes "pop m = Inr (b, m')"
  shows "free_of m \<noteq> []" and "b = last (free_of m)" and "free_of m' = butlast (free_of m)"
    and "used_of m' = used_of m @ [b]"
proof -
  show ne: "free_of m \<noteq> []" using assms pop_empty [of m] by fastforce
  from pop_some [OF ne] assms show "b = last (free_of m)" "free_of m' = butlast (free_of m)"
    "used_of m' = used_of m @ [b]" by auto
qed

text \<open>No block is lost: free and used blocks together are the same multiset.\<close>

lemma pop_conserves:
  assumes "pop m = Inr (b, m')"
  shows "mset (free_of m') + mset (used_of m') = mset (free_of m) + mset (used_of m)"
proof -
  note p = pop_Inr [OF assms]
  have "butlast (free_of m) @ [b] = free_of m"
    using p(1,2) by simp
  then have "mset (butlast (free_of m) @ [b]) = mset (free_of m)" by (rule arg_cong)
  with p(3,4) show ?thesis by simp
qed

lemma push_conserves:
  assumes "distinct (used_of m)" and "b \<in> set (used_of m)"
  shows "mset (free_of (push b m)) + mset (used_of (push b m)) = mset (free_of m) + mset (used_of m)"
  using mset_filter_neq [OF assms] by (simp add: push_free push_used)

end

subsection \<open>A pool together with the memory of its blocks\<close>

text \<open>
  \<open>blk m b\<close> is the block \<open>b\<close>, \<open>put b x m\<close> overwrites it, and the pool operations move
  ownership only. A block is read as a list of entries; \<open>blk_append\<close> returns whether the
  entry was stored (it is not in a full block), and \<open>fresh x\<close> is what the log does to a
  block it has just taken (the allocator log stamps the epoch \<open>x\<close>).
\<close>

locale block_store = block_pool pop push free_of used_of
  for pop :: "'m \<Rightarrow> (block_id \<times> 'm) res" and push and free_of and used_of +
  fixes blk :: "'m \<Rightarrow> block_id \<Rightarrow> 'b"
    and put :: "block_id \<Rightarrow> 'b \<Rightarrow> 'm \<Rightarrow> 'm"
    and entries :: "'b \<Rightarrow> 'e list"
    and blk_append :: "'e \<Rightarrow> 'b \<Rightarrow> (bool \<times> 'b) res"
    and blk_clear :: "'b \<Rightarrow> 'b"
    and fresh :: "'x \<Rightarrow> 'b \<Rightarrow> 'b"
    and cap :: nat
  assumes blk_pop: "pop m = Inr (b, m') \<Longrightarrow> blk m' = blk m"
    and blk_push: "blk (push b m) = blk m"
    and blk_put: "blk (put b x m) = (blk m)(b := x)"
    and free_put: "free_of (put b x m) = free_of m"
    and used_put: "used_of (put b x m) = used_of m"
    and cap_pos: "0 < cap"
    and append_room: "length (entries x) < cap \<Longrightarrow>
      \<exists>x'. blk_append e x = Inr (True, x') \<and> entries x' = entries x @ [e]"
    and append_full: "length (entries x) = cap \<Longrightarrow> blk_append e x = Inr (False, x)"
    and entries_clear: "entries (blk_clear x) = []"
    and entries_fresh: "entries (fresh k x) = entries x"
begin

lemma ent_put: "entries \<circ> blk (put b x m) = (entries \<circ> blk m)(b := entries x)"
  by (auto simp: blk_put)

lemma ent_pop: "pop m = Inr (b, m') \<Longrightarrow> entries \<circ> blk m' = entries \<circ> blk m"
  by (simp add: blk_pop)

lemma ent_push: "entries \<circ> blk (push b m) = entries \<circ> blk m"
  by (simp add: blk_push)

end

subsection \<open>A log: a list of blocks of the pool\<close>

text \<open>
  The shape shared by \<^verbatim>\<open>plog_t::push_back_and_clwb\<close> and \<^verbatim>\<open>allocatorlog_t::append\<close> (take a first
  block, try the last block, take another when it is full) and by the two \<^verbatim>\<open>clear\<close>
  functions (empty and return the blocks from the back).
\<close>

locale block_log = block_store pop push free_of used_of blk put entries blk_append blk_clear fresh cap
  for pop :: "'m \<Rightarrow> (block_id \<times> 'm) res" and push and free_of and used_of
    and blk :: "'m \<Rightarrow> block_id \<Rightarrow> 'b" and put
    and entries :: "'b \<Rightarrow> 'e list" and blk_append and blk_clear
    and fresh :: "'x \<Rightarrow> 'b \<Rightarrow> 'b" and cap +
  fixes acquire :: "'x \<Rightarrow> block_id list \<times> 'm \<Rightarrow> (block_id list \<times> 'm) res"
    and log_append :: "'x \<Rightarrow> 'e \<Rightarrow> block_id list \<times> 'm \<Rightarrow> (block_id list \<times> 'm) res"
    and log_clear :: "block_id list \<times> 'm \<Rightarrow> block_id list \<times> 'm"
  assumes acquire_eq: "acquire k (bl, m) =
      rbind (pop m) (\<lambda>(b, m'). Inr (bl @ [b], put b (fresh k (blk m' b)) m'))"
    and log_append_eq: "log_append k e (bl, m) =
      rbind (if bl = [] then acquire k (bl, m) else Inr (bl, m)) (\<lambda>(bl, m).
      rbind (blk_append e (blk m (last bl))) (\<lambda>(succ, x).
      let m = put (last bl) x m in
      if succ then Inr (bl, m)
      else rbind (acquire k (bl, m)) (\<lambda>(bl, m).
           rbind (blk_append e (blk m (last bl))) (\<lambda>(_, x). Inr (bl, put (last bl) x m)))))"
    and log_clear_Nil: "log_clear ([], m) = ([], m)"
    and log_clear_step: "bl \<noteq> [] \<Longrightarrow> log_clear (bl, m) =
      log_clear (butlast bl, push (last bl) (put (last bl) (blk_clear (blk m (last bl))) m))"
begin

text \<open>
  \<open>extends\<close>: the effect of appending the entries \<open>es\<close> to the log \<open>bl\<close>: the log and the pool
  stay well formed, and every block outside the log and the free list is untouched.
\<close>

definition extends :: "'e list \<Rightarrow> block_id list \<times> 'm \<Rightarrow> block_id list \<times> 'm \<Rightarrow> bool" where
  "extends es s t \<longleftrightarrow> (case (s, t) of ((bl, m), (bl', m')) \<Rightarrow>
     pool_ok cap (entries \<circ> blk m') (free_of m') (used_of m') \<and>
     log_ok (used_of m') bl' \<and>
     contents (entries \<circ> blk m') bl' = contents (entries \<circ> blk m) bl @ es \<and>
     set bl \<subseteq> set bl' \<and> set bl' \<subseteq> set bl \<union> set (free_of m) \<and>
     set (used_of m') = set (used_of m) \<union> set bl' \<and>
     set (free_of m') \<subseteq> set (free_of m) \<and>
     (\<forall>b. b \<notin> set bl \<longrightarrow> b \<notin> set (free_of m) \<longrightarrow> (entries \<circ> blk m') b = (entries \<circ> blk m) b))"

lemma acquire_ok:
  assumes "pool_ok cap (entries \<circ> blk m) (free_of m) (used_of m)" and "log_ok (used_of m) bl"
    and "acquire k (bl, m) = Inr (bl', m')"
  shows "extends [] (bl, m) (bl', m')" and "bl' \<noteq> []" and "(entries \<circ> blk m') (last bl') = []"
proof -
  from assms(3) obtain b m1 where p: "pop m = Inr (b, m1)" and bl': "bl' = bl @ [b]"
    and m': "m' = put b (fresh k (blk m1 b)) m1"
    by (auto simp: acquire_eq res_simps)
  note pop = pop_Inr [OF p]
  note ok = pool_ok_pop [OF assms(1) pop(1), folded pop(2)]
  have ent: "entries \<circ> blk m' = entries \<circ> blk m"
    by (auto simp: m' blk_put blk_pop [OF p] entries_fresh)
  then have ent_at: "entries (blk m' c) = entries (blk m c)" for c
    by (metis comp_apply)
  have fu: "free_of m' = butlast (free_of m)" "used_of m' = used_of m @ [b]"
    using pop(3,4) by (simp_all add: m' free_put used_put)
  have b: "b \<notin> set bl" using assms(2) ok(3) by (auto simp: log_ok_def)
  show "extends [] (bl, m) (bl', m')"
    using ok assms(2) b ent_at
    by (auto simp: extends_def log_ok_def bl' fu ent contents_snoc)
  show "bl' \<noteq> []" by (simp add: bl')
  show "(entries \<circ> blk m') (last bl') = []" using ok(4) by (simp add: ent_at bl')
qed

lemma acquire_fails: "(\<exists>e. acquire k (bl, m) = Inl e) \<longleftrightarrow> free_of m = []"
  using pop_empty [of m] pop_some [of m] by (cases "free_of m = []") (auto simp: acquire_eq res_simps)

lemma extends_refl:
  "pool_ok cap (entries \<circ> blk m) (free_of m) (used_of m) \<Longrightarrow> log_ok (used_of m) bl \<Longrightarrow>
   extends [] (bl, m) (bl, m)"
  by (auto simp: extends_def log_ok_def)

text \<open>Storing into the last block of a log that has room there.\<close>

lemma store_ok:
  assumes "pool_ok cap (entries \<circ> blk m) (free_of m) (used_of m)" and "log_ok (used_of m) bl"
    and "bl \<noteq> []" and "length (entries (blk m (last bl))) < cap"
    and "blk_append e (blk m (last bl)) = Inr (sc, x)"
  shows "sc" and "extends [e] (bl, m) (bl, put (last bl) x m)"
proof -
  from append_room [OF assms(4), of e] assms(5)
  have sc and x: "entries x = entries (blk m (last bl)) @ [e]" by auto
  show sc by (rule \<open>sc\<close>)
  have used: "last bl \<in> set bl" "last bl \<in> set (used_of m)" "last bl \<notin> set (free_of m)"
    using assms(1,2) last_in_set [OF assms(3)] by (auto simp: log_ok_def pool_ok_def)
  have "contents ((entries \<circ> blk m)(last bl := entries x)) bl = contents (entries \<circ> blk m) bl @ [e]"
    using contents_upd_last [of bl "entries \<circ> blk m" "[e]"] assms(2,3) x by (simp add: log_ok_def)
  moreover have "pool_ok cap ((entries \<circ> blk m)(last bl := entries x)) (free_of m) (used_of m)"
    using assms(4) x by (intro pool_ok_put [OF assms(1) used(3)]) simp
  moreover have "entries (blk (put (last bl) x m) b) = entries (blk m b)" if "b \<notin> set bl" for b
    using that used(1) by (auto simp: blk_put)
  ultimately show "extends [e] (bl, m) (bl, put (last bl) x m)"
    using assms(2) used by (auto simp: extends_def ent_put free_put used_put log_ok_def)
qed

lemma extends_trans:
  assumes "extends es s t" and "extends es' t u"
  shows "extends (es @ es') s u"
proof -
  obtain bl m bl1 m1 bl2 m2 where s: "s = (bl, m)" "t = (bl1, m1)" "u = (bl2, m2)"
    by (metis prod.collapse)
  have "(entries \<circ> blk m2) b = (entries \<circ> blk m) b" if "b \<notin> set bl" "b \<notin> set (free_of m)" for b
  proof -
    have "b \<notin> set bl1" "b \<notin> set (free_of m1)" "(entries \<circ> blk m1) b = (entries \<circ> blk m) b"
      using that assms(1) unfolding extends_def s by auto
    then show ?thesis using assms(2) unfolding extends_def s by auto
  qed
  moreover have "contents (entries \<circ> blk m2) bl2 = contents (entries \<circ> blk m) bl @ es @ es'"
    using assms by (simp add: extends_def s)
  ultimately show ?thesis
    using assms unfolding extends_def s by (simp, blast)
qed

text \<open>Appending to a log appends exactly the entry, when it returns.\<close>

lemma log_append_extends:
  assumes ok: "pool_ok cap (entries \<circ> blk m) (free_of m) (used_of m)" "log_ok (used_of m) bl"
    and ret: "log_append k e (bl, m) = Inr (bl', m')"
  shows "extends [e] (bl, m) (bl', m')"
proof -
  obtain bl1 m1 where first: "(if bl = [] then acquire k (bl, m) else Inr (bl, m)) = Inr (bl1, m1)"
    using ret by (auto simp: log_append_eq res_simps)
  have e1: "extends [] (bl, m) (bl1, m1)" and ne: "bl1 \<noteq> []"
    using first acquire_ok(1,2) [OF ok] extends_refl [OF ok] by (auto split: if_splits)
  have ok1: "pool_ok cap (entries \<circ> blk m1) (free_of m1) (used_of m1)" "log_ok (used_of m1) bl1"
    using e1 by (auto simp: extends_def)
  obtain sc x where app: "blk_append e (blk m1 (last bl1)) = Inr (sc, x)"
    using ret first by (auto simp: log_append_eq res_simps)
  have le: "length (entries (blk m1 (last bl1))) \<le> cap"
    using ok1 last_in_set [OF ne] by (auto simp: pool_ok_def log_ok_def)
  show ?thesis
  proof (cases "length (entries (blk m1 (last bl1))) < cap")
    case True
    note st = store_ok [OF ok1 ne True app]
    then have "(bl', m') = (bl1, put (last bl1) x m1)"
      using ret first app by (auto simp: log_append_eq res_simps)
    then show ?thesis using extends_trans [OF e1 st(2)] by simp
  next
    case False
    then have x: "sc = False" "x = blk m1 (last bl1)"
      using append_full [of "blk m1 (last bl1)" e] le app by auto
    define m2 where "m2 = put (last bl1) x m1"
    have ent2: "entries \<circ> blk m2 = entries \<circ> blk m1"
      by (auto simp: m2_def ent_put x(2))
    have fu2: "free_of m2 = free_of m1" "used_of m2 = used_of m1"
      by (simp_all add: m2_def free_put used_put)
    have ok2: "pool_ok cap (entries \<circ> blk m2) (free_of m2) (used_of m2)" "log_ok (used_of m2) bl1"
      using ok1 by (simp_all only: ent2 fu2)
    have e2: "extends [] (bl1, m1) (bl1, m2)"
      using extends_refl [OF ok1] by (simp add: extends_def ent2 fu2 del: o_apply)
    obtain bl3 m3 sc4 x4 where acq: "acquire k (bl1, m2) = Inr (bl3, m3)"
      and app3: "blk_append e (blk m3 (last bl3)) = Inr (sc4, x4)"
      and res: "bl' = bl3" "m' = put (last bl3) x4 m3"
      using ret first app x(1) by (auto simp: log_append_eq res_simps m2_def)
    note a = acquire_ok [OF ok2 acq]
    have ok3: "pool_ok cap (entries \<circ> blk m3) (free_of m3) (used_of m3)" "log_ok (used_of m3) bl3"
      using a(1) by (auto simp: extends_def)
    have "length (entries (blk m3 (last bl3))) < cap" using a(3) cap_pos by simp
    then have "extends [e] (bl3, m3) (bl', m')"
      unfolding res using store_ok(2) [OF ok3 a(2) _ app3] by simp
    with extends_trans [OF e1 extends_trans [OF e2 a(1)]] extends_trans show ?thesis by fastforce
  qed
qed

text \<open>
  When appending returns: the last block has room, or there is a free block to take.
\<close>

lemma log_append_total:
  assumes ok: "pool_ok cap (entries \<circ> blk m) (free_of m) (used_of m)" "log_ok (used_of m) bl"
    and room: "free_of m \<noteq> [] \<or> (bl \<noteq> [] \<and> length (entries (blk m (last bl))) < cap)"
  shows "\<exists>bl' m'. log_append k e (bl, m) = Inr (bl', m')"
proof -
  have "\<exists>bl1 m1. (if bl = [] then acquire k (bl, m) else Inr (bl, m)) = Inr (bl1, m1)"
    using room pop_some [of m] by (auto simp: acquire_eq res_simps)
  then obtain bl1 m1 where first:
    "(if bl = [] then acquire k (bl, m) else Inr (bl, m)) = Inr (bl1, m1)" by blast
  have e1: "extends [] (bl, m) (bl1, m1)" and ne: "bl1 \<noteq> []"
    using first acquire_ok(1,2) [OF ok] extends_refl [OF ok] by (auto split: if_splits)
  have ok1: "pool_ok cap (entries \<circ> blk m1) (free_of m1) (used_of m1)" "log_ok (used_of m1) bl1"
    using e1 by (auto simp: extends_def)
  have le: "length (entries (blk m1 (last bl1))) \<le> cap"
    using ok1 last_in_set [OF ne] by (auto simp: pool_ok_def log_ok_def)
  show ?thesis
  proof (cases "length (entries (blk m1 (last bl1))) < cap")
    case True
    from append_room [OF this, of e] obtain x where "blk_append e (blk m1 (last bl1)) = Inr (True, x)"
      by blast
    with first show ?thesis by (auto simp: log_append_eq)
  next
    case False
    then have full: "blk_append e (blk m1 (last bl1)) = Inr (False, blk m1 (last bl1))"
      using append_full [of "blk m1 (last bl1)" e] le by simp
    have same: "bl1 = bl \<and> m1 = m"
      using first acquire_ok(3) [OF ok] False cap_pos by (auto split: if_splits)
    define m2 where "m2 = put (last bl) (blk m (last bl)) m"
    have "free_of m2 \<noteq> []" using room same False by (auto simp: m2_def free_put)
    then obtain bl3 m3 where acq: "acquire k (bl, m2) = Inr (bl3, m3)"
      using acquire_fails [of k bl m2] by (cases "acquire k (bl, m2)") auto
    have ent2: "entries \<circ> blk m2 = entries \<circ> blk m" by (auto simp: m2_def ent_put)
    have ok2: "pool_ok cap (entries \<circ> blk m2) (free_of m2) (used_of m2)" "log_ok (used_of m2) bl"
      using ok by (simp_all add: ent2) (simp_all add: m2_def free_put used_put)
    have "length (entries (blk m3 (last bl3))) < cap"
      using acquire_ok(3) [OF ok2 acq] cap_pos by simp
    from append_room [OF this, of e] obtain x where "blk_append e (blk m3 (last bl3)) = Inr (True, x)"
      by blast
    with first full same acq show ?thesis by (auto simp: log_append_eq m2_def)
  qed
qed

text \<open>
  How many more entries the pool can take for a log: an append uses up exactly one, and it
  returns exactly as long as one is left.
\<close>

definition room :: "'m \<Rightarrow> block_id list \<Rightarrow> nat" where
  "room m bl = cap * length (free_of m) + (if bl = [] then 0 else cap - length (entries (blk m (last bl))))"

lemma store_room:
  assumes "bl \<noteq> []" and "length (entries (blk m (last bl))) < cap" and "blk_append e (blk m (last bl)) = Inr (sc, x)"
  shows "sc" and "room (put (last bl) x m) bl + 1 = room m bl"
  using append_room [OF assms(2), of e] assms by (auto simp: room_def free_put blk_put)

lemma acquire_room:
  assumes "pool_ok cap (entries \<circ> blk m) (free_of m) (used_of m)" and "log_ok (used_of m) bl"
    and "acquire k (bl, m) = Inr (bl', m')"
  shows "room m' bl' = cap * length (free_of m)" and "bl' \<noteq> []" and "length (entries (blk m' (last bl'))) < cap"
proof -
  note a = acquire_ok [OF assms]
  obtain b m1 where p: "pop m = Inr (b, m1)" "m' = put b (fresh k (blk m1 b)) m1"
    using assms(3) by (auto simp: acquire_eq res_simps)
  have "free_of m \<noteq> []" "free_of m' = butlast (free_of m)"
    using pop_Inr [OF p(1)] by (simp_all add: p(2) free_put)
  then show "room m' bl' = cap * length (free_of m)"
    using a(2,3) by (cases "length (free_of m)") (simp_all add: room_def)
  show "bl' \<noteq> []" "length (entries (blk m' (last bl'))) < cap" using a(2,3) cap_pos by simp_all
qed

lemma log_append_room:
  assumes ok: "pool_ok cap (entries \<circ> blk m) (free_of m) (used_of m)" "log_ok (used_of m) bl"
    and ret: "log_append k e (bl, m) = Inr (bl', m')"
  shows "room m' bl' + 1 = room m bl"
proof -
  obtain bl1 m1 where first: "(if bl = [] then acquire k (bl, m) else Inr (bl, m)) = Inr (bl1, m1)"
    using ret by (auto simp: log_append_eq res_simps)
  have r1: "room m1 bl1 = room m bl" and ne: "bl1 \<noteq> []"
    using first acquire_room(1,2) [OF ok] by (auto simp: room_def split: if_splits)
  have e1: "extends [] (bl, m) (bl1, m1)"
    using first acquire_ok(1) [OF ok] extends_refl [OF ok] by (auto split: if_splits)
  have ok1: "pool_ok cap (entries \<circ> blk m1) (free_of m1) (used_of m1)" "log_ok (used_of m1) bl1"
    using e1 by (auto simp: extends_def)
  obtain sc x where app: "blk_append e (blk m1 (last bl1)) = Inr (sc, x)"
    using ret first by (auto simp: log_append_eq res_simps)
  have le: "length (entries (blk m1 (last bl1))) \<le> cap"
    using ok1 last_in_set [OF ne] by (auto simp: pool_ok_def log_ok_def)
  show ?thesis
  proof (cases "length (entries (blk m1 (last bl1))) < cap")
    case True
    note st = store_room [OF ne True app]
    then have "(bl', m') = (bl1, put (last bl1) x m1)"
      using ret first app by (auto simp: log_append_eq res_simps)
    then show ?thesis using st(2) r1 by simp
  next
    case False
    then have x: "sc = False" "x = blk m1 (last bl1)"
      using append_full [of "blk m1 (last bl1)" e] le app by auto
    define m2 where "m2 = put (last bl1) x m1"
    have ent2: "entries \<circ> blk m2 = entries \<circ> blk m1" by (auto simp: m2_def ent_put x(2))
    have fu2: "free_of m2 = free_of m1" "used_of m2 = used_of m1"
      by (simp_all add: m2_def free_put used_put)
    have ok2: "pool_ok cap (entries \<circ> blk m2) (free_of m2) (used_of m2)" "log_ok (used_of m2) bl1"
      using ok1 by (simp_all only: ent2 fu2)
    obtain bl3 m3 sc4 x4 where acq: "acquire k (bl1, m2) = Inr (bl3, m3)"
      and app3: "blk_append e (blk m3 (last bl3)) = Inr (sc4, x4)"
      and res: "bl' = bl3" "m' = put (last bl3) x4 m3"
      using ret first app x(1) by (auto simp: log_append_eq res_simps m2_def)
    note a = acquire_room [OF ok2 acq]
    have "room m2 bl1 = cap * length (free_of m2)" "room m2 bl1 = room m1 bl1"
      using ne le False by (simp_all add: room_def m2_def blk_put free_put x(2))
    then show ?thesis using store_room(2) [OF a(2,3) app3] a(1) r1 by (simp add: res)
  qed
qed

lemma log_append_room_total:
  assumes "pool_ok cap (entries \<circ> blk m) (free_of m) (used_of m)" and "log_ok (used_of m) bl" and "0 < room m bl"
  shows "\<exists>bl' m'. log_append k e (bl, m) = Inr (bl', m')"
  by (rule log_append_total [OF assms(1,2)]) (use assms(3) in \<open>auto simp: room_def split: if_splits\<close>)

text \<open>Clearing empties the log and returns its blocks, last one first, to the free list.\<close>

lemma log_clear_ok:
  assumes "pool_ok cap (entries \<circ> blk m) (free_of m) (used_of m)" and "log_ok (used_of m) bl"
    and "log_clear (bl, m) = (bl', m')"
  shows "bl' = [] \<and> free_of m' = free_of m @ rev bl \<and>
    used_of m' = filter (\<lambda>x. x \<notin> set bl) (used_of m) \<and>
    pool_ok cap (entries \<circ> blk m') (free_of m') (used_of m') \<and>
    (\<forall>b. entries (blk m' b) = (if b \<in> set bl then [] else entries (blk m b)))"
  using assms
proof (induction "length bl" arbitrary: bl m)
  case 0
  then show ?case by (simp add: log_clear_Nil)
next
  case (Suc n)
  then have ne: "bl \<noteq> []" by auto
  define b where "b = last bl"
  have bl: "bl = butlast bl @ [b]" "b \<in> set bl" "set bl = insert b (set (butlast bl))"
    using ne set_butlast_last [OF ne] by (auto simp: b_def)
  have nb: "b \<notin> set (butlast bl)" "b \<in> set (used_of m)" "b \<notin> set (free_of m)"
    using Suc.prems bl distinct_butlast_last [OF _ ne] by (auto simp: log_ok_def pool_ok_def b_def)
  define m1 where "m1 = push b (put b (blk_clear (blk m b)) m)"
  have ent1: "entries \<circ> blk m1 = (entries \<circ> blk m)(b := [])"
    by (simp add: m1_def ent_push ent_put entries_clear)
  have fu1: "free_of m1 = free_of m @ [b]" "used_of m1 = filter (\<lambda>x. x \<noteq> b) (used_of m)"
    by (simp_all add: m1_def push_free push_used free_put used_put)
  have "pool_ok cap (entries \<circ> blk m1) (free_of m1) (used_of m1)"
    unfolding ent1 fu1 using pool_ok_put [OF Suc.prems(1) nb(3), of "[]"] nb(2)
    by (intro pool_ok_push) simp_all
  moreover have "log_ok (used_of m1) (butlast bl)"
    using Suc.prems(2) nb(1) bl(3) by (auto simp: log_ok_def fu1 distinct_butlast)
  moreover have "log_clear (butlast bl, m1) = (bl', m')"
    using Suc.prems(3) log_clear_step [OF ne, of m] by (simp add: m1_def b_def)
  ultimately have ih: "bl' = [] \<and> free_of m' = free_of m1 @ rev (butlast bl) \<and>
    used_of m' = filter (\<lambda>x. x \<notin> set (butlast bl)) (used_of m1) \<and>
    pool_ok cap (entries \<circ> blk m') (free_of m') (used_of m') \<and>
    (\<forall>c. entries (blk m' c) = (if c \<in> set (butlast bl) then [] else entries (blk m1 c)))"
    using Suc.hyps by (intro Suc.hyps(1)) simp_all
  have "free_of m1 @ rev (butlast bl) = free_of m @ rev (butlast bl @ [b])"
    by (simp only: fu1 rev_append rev.simps append_assoc append.simps)
  then have "free_of m1 @ rev (butlast bl) = free_of m @ rev bl"
    by (simp only: bl(1) [symmetric])
  moreover have "entries (blk m1 c) = (if c = b then [] else entries (blk m c))" for c
    using fun_cong [OF ent1, of c] by simp
  moreover have "filter (\<lambda>x. x \<notin> set bl) (used_of m) =
      filter (\<lambda>x. x \<notin> set (butlast bl)) (used_of m1)"
    by (simp add: fu1 bl(3))
  ultimately show ?case using ih by (auto simp: bl(3))
qed

end

end
