(* ===== verification/CachelineT.thy ===== *)
theory CachelineT
  imports GlobalEscort
begin

section \<open>Cache lines\<close>

text \<open>
  \<^verbatim>\<open>src/src/cacheline_t.hpp\<close>: the unit of logging, an array of \<^verbatim>\<open>CACHE_LINE_SIZE\<close> bytes. The
  array is a function on the 6-bit offsets of a cache line (\<open>2 ^ 6 = 64\<close>), so it has
  exactly the bytes the C++ array has. \<open>assign\<close> and \<open>assign_u32\<close> are the two assignment operators.
\<close>

type_synonym byte = "8 word"
type_synonym offset = "6 word"

record cacheline_t =
  cl_content :: "offset \<Rightarrow> byte"

text \<open>\<^verbatim>\<open>memcpy(&dst[off], src, n)\<close>, byte by byte.\<close>

definition memcpy :: "(offset \<Rightarrow> byte) \<Rightarrow> nat \<Rightarrow> (nat \<Rightarrow> byte) \<Rightarrow> nat \<Rightarrow> offset \<Rightarrow> byte" where
  "memcpy dst off src n = fold (\<lambda>k d. d(word_of_nat (off + k) := src k)) [0..<n] dst"

definition assign :: "cacheline_t \<Rightarrow> cacheline_t \<Rightarrow> cacheline_t" where
  "assign this cacheline =
     this\<lparr>cl_content :=
       memcpy (cl_content this) 0 (\<lambda>k. cl_content cacheline (word_of_nat k)) CACHE_LINE_SIZE\<rparr>"

text \<open>The four bytes of a \<^verbatim>\<open>uint32_t\<close> in memory (little endian).\<close>

definition bytes_of_u32 :: "32 word \<Rightarrow> byte list" where
  "bytes_of_u32 val = map (\<lambda>k. ucast (drop_bit (8 * k) val)) [0, 1, 2, 3]"

definition u32_of_bytes :: "byte list \<Rightarrow> 32 word" where
  "u32_of_bytes bs = fold (\<lambda>b acc. push_bit 8 acc OR ucast b) (rev bs) 0"

definition assign_u32 :: "cacheline_t \<Rightarrow> 32 word \<Rightarrow> cacheline_t" where
  "assign_u32 this val =
     (let length_empty = CACHE_LINE_SIZE - 4;
          content = fold (\<lambda>i c. c(word_of_nat i := 0)) [0..<length_empty] (cl_content this)
      in this\<lparr>cl_content := memcpy content length_empty (\<lambda>k. bytes_of_u32 val ! k) 4\<rparr>)"

lemma word_of_nat_offset_inj:
  "i < 64 \<Longrightarrow> j < 64 \<Longrightarrow> (word_of_nat i :: offset) = word_of_nat j \<longleftrightarrow> i = j"
  by (auto simp: word_unat_eq_iff unsigned_of_nat take_bit_nat_eq_self)

lemma offset_cases:
  obtains j where "x = (word_of_nat j :: offset)" and "j < 64"
  by (rule that [of "unat x"]) (use unsigned_less [of x] in simp_all)

lemma memcpy_at:
  "off + n \<le> 64 \<Longrightarrow> j < 64 \<Longrightarrow> memcpy dst off src n (word_of_nat j) =
     (if off \<le> j \<and> j < off + n then src (j - off) else dst (word_of_nat j))"
proof (induction n)
  case 0
  then show ?case by (auto simp: memcpy_def)
next
  case (Suc n)
  have "memcpy dst off src (Suc n) = (memcpy dst off src n)(word_of_nat (off + n) := src n)"
    by (simp add: memcpy_def)
  moreover have "(word_of_nat j :: offset) = word_of_nat (off + n) \<longleftrightarrow> j = off + n"
    using Suc.prems by (intro word_of_nat_offset_inj) simp_all
  ultimately show ?case using Suc by (auto simp del: of_nat_add)
qed

text \<open>Assigning a line makes the destination equal to the source.\<close>

lemma assign_eq [simp]: "assign this cl = cl"
proof -
  have "cl_content (assign this cl) x = cl_content cl x" for x
    by (rule offset_cases [of x]) (simp add: assign_def memcpy_at)
  then have "cl_content (assign this cl) = cl_content cl" by blast
  then show ?thesis by simp
qed

lemma length_bytes_of_u32 [simp]: "length (bytes_of_u32 v) = 4"
  by (simp add: bytes_of_u32_def)

lemma bytes_u32_roundtrip: "u32_of_bytes (bytes_of_u32 v) = v"
proof (rule bit_word_eqI)
  fix n assume "n < LENGTH(32)"
  then have n: "n < 8 \<or> (8 \<le> n \<and> n < 16) \<or> (16 \<le> n \<and> n < 24) \<or> (24 \<le> n \<and> n < 32)"
    by (simp, linarith)
  show "bit (u32_of_bytes (bytes_of_u32 v)) n = bit v n"
    using n by (elim disjE conjE) (simp_all add: bytes_of_u32_def u32_of_bytes_def bit_simps, arith+)
qed

text \<open>\<open>assign_u32\<close> zeroes the line and stores the value in its last four bytes.\<close>

lemma zero_prefix_at:
  "n \<le> 64 \<Longrightarrow> j < 64 \<Longrightarrow>
   fold (\<lambda>i c. c(word_of_nat i := 0)) [0..<n] (d :: offset \<Rightarrow> byte) (word_of_nat j) =
     (if j < n then 0 else d (word_of_nat j))"
  by (induction n) (auto simp: word_of_nat_offset_inj)

lemma assign_u32_at:
  "j < 64 \<Longrightarrow> cl_content (assign_u32 this v) (word_of_nat j) =
     (if j < 60 then 0 else bytes_of_u32 v ! (j - 60))"
  by (simp add: assign_u32_def Let_def memcpy_at zero_prefix_at)

lemma assign_u32_read:
  "u32_of_bytes (map (\<lambda>k. cl_content (assign_u32 this v) (word_of_nat (60 + k))) [0, 1, 2, 3]) = v"
proof -
  have "map (\<lambda>k. cl_content (assign_u32 this v) (word_of_nat (60 + k))) [0, 1, 2, 3] =
        map (\<lambda>k. bytes_of_u32 v ! k) [0, 1, 2, 3]"
    using assign_u32_at [of 60 this v] assign_u32_at [of 61 this v]
      assign_u32_at [of 62 this v] assign_u32_at [of 63 this v] by simp
  also have "\<dots> = bytes_of_u32 v" by (simp add: bytes_of_u32_def)
  finally show ?thesis by (simp add: bytes_u32_roundtrip)
qed

end
