(* ===== verification/PlogT.thy ===== *)
theory PlogT
  imports BlockPool CachelineT
begin

section \<open>The redo log\<close>

text \<open>
  \<^verbatim>\<open>src/src/plog_t.hpp\<close> and \<^verbatim>\<open>src/src/plog_t.cpp\<close> (the variant without \<^verbatim>\<open>OLD_VERSION\<close>): blocks
  of \<^verbatim>\<open>LOG_BLOCK_NUM\<close> pairs of a line address and the content of the line, the pool of
  blocks \<^verbatim>\<open>plog_management_t\<close>, and a log \<^verbatim>\<open>plog_t\<close>, which is a list of blocks. A block is
  named by its position in the log area; its entries are an array, of which the first
  \<open>pb_size\<close> are in use.
\<close>

record plog_entry =
  pe_addr :: ptr
  pe_val :: cacheline_t

definition LOG_BLOCK_NUM :: nat where
  "LOG_BLOCK_NUM = 4096 * 8"

record plog_block =
  pb_entries :: "nat \<Rightarrow> plog_entry"
  pb_size :: nat
  pb_max_size :: nat

text \<open>Placement \<^verbatim>\<open>new\<close> runs the constructor on the memory that is there.\<close>

definition plog_block_new :: "plog_block \<Rightarrow> plog_block" where
  "plog_block_new mem = mem\<lparr>pb_size := 0, pb_max_size := LOG_BLOCK_NUM\<rparr>"

definition plog_block_append :: "ptr \<times> cacheline_t \<Rightarrow> plog_block \<Rightarrow> (bool \<times> plog_block) res" where
  "plog_block_append entry b =
     (if pb_size b > LOG_BLOCK_NUM then Inl QuickExit
      else if pb_size b = LOG_BLOCK_NUM then Inr (False, b)
      else
        let old = pb_entries b (pb_size b);
            new = old\<lparr>pe_addr := fst entry, pe_val := assign (pe_val old) (snd entry)\<rparr>
        in Inr (True, b\<lparr>pb_entries := (pb_entries b)(pb_size b := new), pb_size := pb_size b + 1\<rparr>))"

definition plog_block_clear :: "plog_block \<Rightarrow> plog_block" where
  "plog_block_clear b = b\<lparr>pb_size := 0\<rparr>"

subsection \<open>The pool: \<^verbatim>\<open>plog_management_t\<close>\<close>

text \<open>\<open>pm_area\<close> is the memory of the log area, in which the blocks lie one after the other.\<close>

record plog_management =
  pm_free :: "block_id list"
  pm_used :: "block_id list"
  pm_area :: "block_id \<Rightarrow> plog_block"

definition plog_management_new :: "nat \<Rightarrow> (block_id \<Rightarrow> plog_block) \<Rightarrow> plog_management" where
  "plog_management_new num_blocks log_area =
     fold (\<lambda>i m. m\<lparr>pm_area := (pm_area m)(i := plog_block_new (pm_area m i)), pm_free := pm_free m @ [i]\<rparr>)
       [0..<num_blocks] \<lparr>pm_free = [], pm_used = [], pm_area = log_area\<rparr>"

definition plog_management_pop :: "plog_management \<Rightarrow> (block_id \<times> plog_management) res" where
  "plog_management_pop m =
     rbind (rassert (length (pm_free m) > 0)) (\<lambda>_.
       let log_block = last (pm_free m) in
       Inr (log_block, m\<lparr>pm_free := butlast (pm_free m), pm_used := pm_used m @ [log_block]\<rparr>))"

definition plog_management_push :: "block_id \<Rightarrow> plog_management \<Rightarrow> plog_management" where
  "plog_management_push log_block m =
     m\<lparr>pm_free := pm_free m @ [log_block], pm_used := filter (\<lambda>b. b \<noteq> log_block) (pm_used m)\<rparr>"

subsection \<open>A log: \<^verbatim>\<open>plog_t\<close>\<close>

type_synonym plog_t = "block_id list"

definition plog_put :: "block_id \<Rightarrow> plog_block \<Rightarrow> plog_management \<Rightarrow> plog_management" where
  "plog_put b x m = m\<lparr>pm_area := (pm_area m)(b := x)\<rparr>"

text \<open>\<^verbatim>\<open>pop()\<close> followed by \<^verbatim>\<open>_block_list.push_back\<close>.\<close>

definition plog_acquire :: "plog_t \<times> plog_management \<Rightarrow> (plog_t \<times> plog_management) res" where
  "plog_acquire = (\<lambda>(block_list, m).
     rbind (plog_management_pop m) (\<lambda>(b, m). Inr (block_list @ [b], m)))"

definition plog_push_back :: "ptr \<times> cacheline_t \<Rightarrow> plog_t \<times> plog_management \<Rightarrow> (plog_t \<times> plog_management) res" where
  "plog_push_back entry = (\<lambda>(block_list, m).
     rbind (if block_list = [] then plog_acquire (block_list, m) else Inr (block_list, m)) (\<lambda>(block_list, m).
     let tail = last block_list in
     rbind (plog_block_append entry (pm_area m tail)) (\<lambda>(is_succ, x).
     let m = plog_put tail x m in
     if \<not> is_succ then
       rbind (plog_acquire (block_list, m)) (\<lambda>(block_list, m).
       let tail_new = last block_list in
       rbind (plog_block_append entry (pm_area m tail_new)) (\<lambda>(_, x).
       Inr (block_list, plog_put tail_new x m)))
     else Inr (block_list, m))))"

function plog_clear :: "plog_t \<times> plog_management \<Rightarrow> plog_t \<times> plog_management" where
  "plog_clear (block_list, m) =
     (if block_list = [] then (block_list, m)
      else
        let tail = last block_list;
            m = plog_put tail (plog_block_clear (pm_area m tail)) m;
            m = plog_management_push tail m
        in plog_clear (butlast block_list, m))"
  by pat_completeness auto
termination
  by (relation "measure (\<lambda>(bl, m). length bl)") auto

declare plog_clear.simps [simp del]

subsection \<open>The redo log implements the log interface\<close>

text \<open>
  \<open>plog_entries\<close> reads a block, \<open>plog_contents\<close> a whole log, in append order.
\<close>

definition plog_entries :: "plog_block \<Rightarrow> (ptr \<times> cacheline_t) list" where
  "plog_entries b = map (\<lambda>i. (pe_addr (pb_entries b i), pe_val (pb_entries b i))) [0..<pb_size b]"

definition plog_contents :: "plog_management \<Rightarrow> plog_t \<Rightarrow> (ptr \<times> cacheline_t) list" where
  "plog_contents m bl = contents (\<lambda>b. plog_entries (pm_area m b)) bl"

lemma length_plog_entries [log_simps]: "length (plog_entries b) = pb_size b"
  by (simp add: plog_entries_def)

interpretation plog_pool: block_pool plog_management_pop plog_management_push pm_free pm_used
  by unfold_locales
     (auto simp: plog_management_pop_def plog_management_push_def rassert_def Let_def)

lemma plog_block_append_room:
  "pb_size b < LOG_BLOCK_NUM \<Longrightarrow>
   \<exists>b'. plog_block_append e b = Inr (True, b') \<and> plog_entries b' = plog_entries b @ [e]"
  by (auto simp: plog_block_append_def plog_entries_def Let_def)

lemma plog_block_append_full:
  "pb_size b = LOG_BLOCK_NUM \<Longrightarrow> plog_block_append e b = Inr (False, b)"
  by (simp add: plog_block_append_def)

interpretation plog: block_log plog_management_pop plog_management_push pm_free pm_used
  pm_area plog_put plog_entries plog_block_append plog_block_clear "\<lambda>(_::unit) b. b" LOG_BLOCK_NUM
  "\<lambda>_. plog_acquire" "\<lambda>_. plog_push_back" plog_clear
proof (unfold_locales, goal_cases)
  case (1 m b m')
  then show ?case by (auto simp: plog_management_pop_def Let_def res_simps)
next
  case (7 x e)
  then show ?case by (simp add: plog_block_append_room length_plog_entries)
next
  case (8 x e)
  then show ?case by (simp add: plog_block_append_full length_plog_entries)
next
  case (11 k bl m)
  then show ?case
    by (auto simp: plog_acquire_def plog_put_def intro!: rbind_cong)
next
  case (12 k e bl m)
  then show ?case
    by (auto simp: plog_push_back_def Let_def intro!: rbind_cong)
next
  case (14 bl m)
  then show ?case by (simp add: plog_clear.simps [of bl m] Let_def)
qed (simp_all add: plog_management_push_def plog_put_def LOG_BLOCK_NUM_def plog_block_clear_def
      plog_entries_def plog_clear.simps)

text \<open>\<open>plog_pool_ok\<close>: the well-formedness of the pool and of the memory of its blocks.\<close>

definition plog_pool_ok :: "plog_management \<Rightarrow> bool" where
  "plog_pool_ok m \<longleftrightarrow>
     pool_ok LOG_BLOCK_NUM (\<lambda>b. plog_entries (pm_area m b)) (pm_free m) (pm_used m)"

lemma plog_management_new_eq:
  "plog_management_new n area =
     \<lparr>pm_free = [0..<n], pm_used = [], pm_area = (\<lambda>i. if i < n then plog_block_new (area i) else area i)\<rparr>"
  by (induction n) (auto simp: plog_management_new_def)

lemma plog_management_new_ok: "plog_pool_ok (plog_management_new n area)"
  by (auto simp: plog_pool_ok_def pool_ok_def plog_management_new_eq plog_entries_def plog_block_new_def)

lemma plog_push_back_ok:
  assumes "plog_pool_ok m" and "log_ok (pm_used m) bl"
    and "plog_push_back e (bl, m) = Inr (bl', m')"
  shows "plog_pool_ok m'" and "log_ok (pm_used m') bl'"
    and "plog_contents m' bl' = plog_contents m bl @ [e]"
    and "set bl \<subseteq> set bl'" and "set bl' \<subseteq> set bl \<union> set (pm_free m)"
    and "set (pm_used m') = set (pm_used m) \<union> set bl'" and "set (pm_free m') \<subseteq> set (pm_free m)"
    and "\<And>other. set other \<subseteq> set (pm_used m) \<Longrightarrow> set other \<inter> set bl = {} \<Longrightarrow>
      plog_contents m' other = plog_contents m other"
proof -
  have x: "plog.extends [e] (bl, m) (bl', m')"
    by (rule plog.log_append_extends [OF _ assms(2,3)])
       (use assms(1) in \<open>simp add: plog_pool_ok_def comp_def\<close>)
  then show "plog_pool_ok m'" "log_ok (pm_used m') bl'"
    "plog_contents m' bl' = plog_contents m bl @ [e]"
    "set bl \<subseteq> set bl'" "set bl' \<subseteq> set bl \<union> set (pm_free m)"
    "set (pm_used m') = set (pm_used m) \<union> set bl'" "set (pm_free m') \<subseteq> set (pm_free m)"
    by (simp_all add: plog.extends_def plog_pool_ok_def plog_contents_def comp_def)
  fix other assume o: "set other \<subseteq> set (pm_used m)" "set other \<inter> set bl = {}"
  show "plog_contents m' other = plog_contents m other"
    unfolding plog_contents_def
  proof (rule contents_cong)
    fix b assume "b \<in> set other"
    then have "b \<notin> set bl" "b \<notin> set (pm_free m)"
      using o assms(1) by (auto simp: plog_pool_ok_def pool_ok_def)
    with x show "plog_entries (pm_area m' b) = plog_entries (pm_area m b)"
      by (simp add: plog.extends_def)
  qed
qed

lemma plog_push_back_total:
  assumes "plog_pool_ok m" and "log_ok (pm_used m) bl"
    and "pm_free m \<noteq> [] \<or> (bl \<noteq> [] \<and> pb_size (pm_area m (last bl)) < LOG_BLOCK_NUM)"
  shows "\<exists>bl' m'. plog_push_back e (bl, m) = Inr (bl', m')"
  using plog.log_append_total [of m bl e] assms
  by (simp add: plog_pool_ok_def comp_def length_plog_entries)

lemma plog_clear_ok:
  assumes "plog_pool_ok m" and "log_ok (pm_used m) bl"
  defines "r \<equiv> plog_clear (bl, m)"
  shows "fst r = []" and "plog_pool_ok (snd r)"
    and "pm_free (snd r) = pm_free m @ rev bl"
    and "pm_used (snd r) = filter (\<lambda>b. b \<notin> set bl) (pm_used m)"
    and "\<And>other. set other \<inter> set bl = {} \<Longrightarrow> plog_contents (snd r) other = plog_contents m other"
proof -
  have x: "plog_clear (bl, m) = (fst r, snd r)" by (simp add: r_def)
  note c = plog.log_clear_ok [OF _ assms(2) x]
  have ok: "pool_ok LOG_BLOCK_NUM (plog_entries \<circ> pm_area m) (pm_free m) (pm_used m)"
    using assms(1) by (simp add: plog_pool_ok_def comp_def)
  show "fst r = []" "plog_pool_ok (snd r)" "pm_free (snd r) = pm_free m @ rev bl"
    "pm_used (snd r) = filter (\<lambda>b. b \<notin> set bl) (pm_used m)"
    using c [OF ok] unfolding plog_pool_ok_def comp_def by blast+
  fix other assume "set other \<inter> set bl = {}"
  then show "plog_contents (snd r) other = plog_contents m other"
    unfolding plog_contents_def using c [OF ok] by (intro contents_cong) auto
qed

subsection \<open>Room in the redo log\<close>

definition plog_room :: "plog_management \<Rightarrow> plog_t \<Rightarrow> nat" where
  "plog_room m bl = LOG_BLOCK_NUM * length (pm_free m) +
     (if bl = [] then 0 else LOG_BLOCK_NUM - pb_size (pm_area m (last bl)))"

lemma plog_room_eq: "plog.room m bl = plog_room m bl"
  by (simp add: plog.room_def plog_room_def length_plog_entries)

lemma plog_push_back_room:
  assumes "plog_pool_ok m" and "log_ok (pm_used m) bl" and "0 < plog_room m bl"
  obtains bl' m' where "plog_push_back e (bl, m) = Inr (bl', m')" and "plog_room m' bl' + 1 = plog_room m bl"
proof -
  have ok: "pool_ok LOG_BLOCK_NUM (plog_entries \<circ> pm_area m) (pm_free m) (pm_used m)"
    using assms(1) by (simp add: plog_pool_ok_def comp_def)
  obtain bl' m' where r: "plog_push_back e (bl, m) = Inr (bl', m')"
    using plog.log_append_room_total [OF ok assms(2), of e] assms(3) unfolding plog_room_eq by blast
  have "plog_room m' bl' + 1 = plog_room m bl"
    using plog.log_append_room [OF ok assms(2) r] by (simp add: plog_room_eq)
  with r show ?thesis by (rule that)
qed

end
