(* ===== verification/AllocatorlogT.thy ===== *)
theory AllocatorlogT
  imports BlockPool GlobalEscort
begin

section \<open>The allocator log\<close>

text \<open>
  \<^verbatim>\<open>src/src/allocatorlog_t.hpp\<close> and \<^verbatim>\<open>src/src/allocatorlog_t.cpp\<close> (the variant selected by \<^verbatim>\<open>#if 1\<close>):
  blocks of \<^verbatim>\<open>ALLOCATOR_LOG_BLOCK_NUM\<close> records of an allocation or a deallocation, each
  block stamped with the epoch in which a log took it, their pool
  \<^verbatim>\<open>allocatorlog_management_t\<close>, and the log \<^verbatim>\<open>allocatorlog_t\<close>. The owner fields
  under \<^verbatim>\<open>#ifdef DEBUG\<close> are in the theory AlogDebug, the messages are left out.
\<close>

record alog_entry =
  ae_addr :: ptr
  ae_size :: size_t
  ae_is_valid :: bool

definition ALLOCATOR_LOG_BLOCK_NUM :: nat where
  "ALLOCATOR_LOG_BLOCK_NUM = 4096 * 16"

record alog_block =
  ab_entries :: "nat \<Rightarrow> alog_entry"
  ab_size :: nat
  ab_max_size :: nat
  ab_epoch :: epoch_t

definition alog_block_new :: "alog_block \<Rightarrow> alog_block" where
  "alog_block_new mem = mem\<lparr>ab_size := 0, ab_max_size := ALLOCATOR_LOG_BLOCK_NUM\<rparr>"

definition alog_block_set_epoch :: "epoch_t \<Rightarrow> alog_block \<Rightarrow> alog_block" where
  "alog_block_set_epoch epoch b = b\<lparr>ab_epoch := epoch\<rparr>"

definition alog_block_append :: "ptr \<times> size_t \<Rightarrow> alog_block \<Rightarrow> (bool \<times> alog_block) res" where
  "alog_block_append entry b =
     (if ab_size b > ALLOCATOR_LOG_BLOCK_NUM then Inl QuickExit
      else if ab_size b = ALLOCATOR_LOG_BLOCK_NUM then Inr (False, b)
      else
        let new = (ab_entries b (ab_size b))
              \<lparr>ae_addr := fst entry, ae_size := snd entry, ae_is_valid := True\<rparr>
        in Inr (True, b\<lparr>ab_entries := (ab_entries b)(ab_size b := new), ab_size := ab_size b + 1\<rparr>))"

definition alog_block_clear :: "alog_block \<Rightarrow> alog_block" where
  "alog_block_clear b = b\<lparr>ab_size := 0\<rparr>"

subsection \<open>The pool: \<^verbatim>\<open>allocatorlog_management_t\<close>\<close>

record allocatorlog_management =
  am_free :: "block_id list"
  am_used :: "block_id list"
  am_area :: "block_id \<Rightarrow> alog_block"

definition allocatorlog_management_new :: "nat \<Rightarrow> (block_id \<Rightarrow> alog_block) \<Rightarrow> allocatorlog_management" where
  "allocatorlog_management_new num_blocks log_area =
     fold (\<lambda>i m. m\<lparr>am_area := (am_area m)(i := alog_block_new (am_area m i)), am_free := am_free m @ [i]\<rparr>)
       [0..<num_blocks] \<lparr>am_free = [], am_used = [], am_area = log_area\<rparr>"

definition alog_management_pop :: "allocatorlog_management \<Rightarrow> (block_id \<times> allocatorlog_management) res" where
  "alog_management_pop m =
     rbind (rassert (length (am_free m) > 0)) (\<lambda>_.
       let log_block = last (am_free m) in
       Inr (log_block, m\<lparr>am_free := butlast (am_free m), am_used := am_used m @ [log_block]\<rparr>))"

definition alog_management_push :: "block_id \<Rightarrow> allocatorlog_management \<Rightarrow> allocatorlog_management" where
  "alog_management_push log_block m =
     m\<lparr>am_free := am_free m @ [log_block], am_used := filter (\<lambda>b. b \<noteq> log_block) (am_used m)\<rparr>"

definition get_num_used_alloc_logs :: "allocatorlog_management \<Rightarrow> nat" where
  "get_num_used_alloc_logs m = length (am_used m)"

subsection \<open>A log: \<^verbatim>\<open>allocatorlog_t\<close>\<close>

type_synonym allocatorlog_t = "block_id list"

definition alog_put :: "block_id \<Rightarrow> alog_block \<Rightarrow> allocatorlog_management \<Rightarrow> allocatorlog_management" where
  "alog_put b x m = m\<lparr>am_area := (am_area m)(b := x)\<rparr>"

text \<open>\<^verbatim>\<open>pop()\<close>, \<^verbatim>\<open>set_epoch(epoch)\<close> and \<^verbatim>\<open>_block_list.push_back\<close>.\<close>

definition alog_acquire ::
  "epoch_t \<Rightarrow> allocatorlog_t \<times> allocatorlog_management \<Rightarrow> (allocatorlog_t \<times> allocatorlog_management) res" where
  "alog_acquire epoch = (\<lambda>(block_list, m).
     rbind (alog_management_pop m) (\<lambda>(b, m).
     Inr (block_list @ [b], alog_put b (alog_block_set_epoch epoch (am_area m b)) m)))"

definition alog_append ::
  "epoch_t \<Rightarrow> ptr \<times> size_t \<Rightarrow> allocatorlog_t \<times> allocatorlog_management \<Rightarrow>
   (allocatorlog_t \<times> allocatorlog_management) res" where
  "alog_append epoch entry = (\<lambda>(block_list, m).
     rbind (if block_list = [] then alog_acquire epoch (block_list, m) else Inr (block_list, m)) (\<lambda>(block_list, m).
     let tail = last block_list in
     rbind (alog_block_append entry (am_area m tail)) (\<lambda>(is_succ, x).
     let m = alog_put tail x m in
     if \<not> is_succ then
       rbind (alog_acquire epoch (block_list, m)) (\<lambda>(block_list, m).
       let tail_new = last block_list in
       rbind (alog_block_append entry (am_area m tail_new)) (\<lambda>(_, x).
       Inr (block_list, alog_put tail_new x m)))
     else Inr (block_list, m))))"

function alog_clear ::
  "allocatorlog_t \<times> allocatorlog_management \<Rightarrow> allocatorlog_t \<times> allocatorlog_management" where
  "alog_clear (block_list, m) =
     (if block_list = [] then (block_list, m)
      else
        let tail = last block_list;
            m = alog_put tail (alog_block_clear (am_area m tail)) m;
            m = alog_management_push tail m
        in alog_clear (butlast block_list, m))"
  by pat_completeness auto
termination
  by (relation "measure (\<lambda>(bl, m). length bl)") auto

declare alog_clear.simps [simp del]

subsection \<open>The allocator log implements the log interface\<close>

definition alog_entries :: "alog_block \<Rightarrow> (ptr \<times> size_t) list" where
  "alog_entries b = map (\<lambda>i. (ae_addr (ab_entries b i), ae_size (ab_entries b i))) [0..<ab_size b]"

definition alog_contents :: "allocatorlog_management \<Rightarrow> allocatorlog_t \<Rightarrow> (ptr \<times> size_t) list" where
  "alog_contents m bl = contents (\<lambda>b. alog_entries (am_area m b)) bl"

lemma length_alog_entries [log_simps]: "length (alog_entries b) = ab_size b"
  by (simp add: alog_entries_def)

lemma alog_block_append_room:
  "ab_size b < ALLOCATOR_LOG_BLOCK_NUM \<Longrightarrow>
   \<exists>b'. alog_block_append e b = Inr (True, b') \<and> alog_entries b' = alog_entries b @ [e]"
  by (auto simp: alog_block_append_def alog_entries_def Let_def)

lemma alog_block_append_full:
  "ab_size b = ALLOCATOR_LOG_BLOCK_NUM \<Longrightarrow> alog_block_append e b = Inr (False, b)"
  by (simp add: alog_block_append_def)

interpretation alog: block_log alog_management_pop alog_management_push am_free am_used
  am_area alog_put alog_entries alog_block_append alog_block_clear alog_block_set_epoch
  ALLOCATOR_LOG_BLOCK_NUM alog_acquire alog_append alog_clear
proof (unfold_locales, goal_cases)
  case (1 m)
  then show ?case by (auto simp: alog_management_pop_def rassert_def)
next
  case (2 m)
  then show ?case by (auto simp: alog_management_pop_def rassert_def Let_def)
next
  case (5 m b m')
  then show ?case by (auto simp: alog_management_pop_def Let_def res_simps)
next
  case (11 x e)
  then show ?case by (simp add: alog_block_append_room length_alog_entries)
next
  case (12 x e)
  then show ?case by (simp add: alog_block_append_full length_alog_entries)
next
  case (15 k bl m)
  then show ?case by (simp add: alog_acquire_def)
next
  case (16 k e bl m)
  then show ?case by (auto simp: alog_append_def Let_def intro!: rbind_cong)
next
  case (18 bl m)
  then show ?case by (simp add: alog_clear.simps [of bl m] Let_def)
qed (simp_all add: alog_management_push_def alog_put_def ALLOCATOR_LOG_BLOCK_NUM_def
      alog_block_clear_def alog_entries_def alog_block_set_epoch_def alog_clear.simps)

definition alog_pool_ok :: "allocatorlog_management \<Rightarrow> bool" where
  "alog_pool_ok m \<longleftrightarrow>
     pool_ok ALLOCATOR_LOG_BLOCK_NUM (\<lambda>b. alog_entries (am_area m b)) (am_free m) (am_used m)"

lemma allocatorlog_management_new_eq:
  "allocatorlog_management_new n area =
     \<lparr>am_free = [0..<n], am_used = [], am_area = (\<lambda>i. if i < n then alog_block_new (area i) else area i)\<rparr>"
  by (induction n) (auto simp: allocatorlog_management_new_def)

lemma allocatorlog_management_new_ok: "alog_pool_ok (allocatorlog_management_new n area)"
  by (auto simp: alog_pool_ok_def pool_ok_def allocatorlog_management_new_eq alog_entries_def
      alog_block_new_def)

lemma alog_append_ok:
  assumes "alog_pool_ok m" and "log_ok (am_used m) bl"
    and "alog_append k e (bl, m) = Inr (bl', m')"
  shows "alog_pool_ok m'" and "log_ok (am_used m') bl'"
    and "alog_contents m' bl' = alog_contents m bl @ [e]"
    and "set bl \<subseteq> set bl'" and "set bl' \<subseteq> set bl \<union> set (am_free m)"
    and "set (am_used m') = set (am_used m) \<union> set bl'" and "set (am_free m') \<subseteq> set (am_free m)"
    and "\<And>other. set other \<subseteq> set (am_used m) \<Longrightarrow> set other \<inter> set bl = {} \<Longrightarrow>
      alog_contents m' other = alog_contents m other"
proof -
  have x: "alog.extends [e] (bl, m) (bl', m')"
    by (rule alog.log_append_extends [OF _ assms(2,3)])
       (use assms(1) in \<open>simp add: alog_pool_ok_def comp_def\<close>)
  then show "alog_pool_ok m'" "log_ok (am_used m') bl'"
    "alog_contents m' bl' = alog_contents m bl @ [e]"
    "set bl \<subseteq> set bl'" "set bl' \<subseteq> set bl \<union> set (am_free m)"
    "set (am_used m') = set (am_used m) \<union> set bl'" "set (am_free m') \<subseteq> set (am_free m)"
    by (simp_all add: alog.extends_def alog_pool_ok_def alog_contents_def comp_def)
  fix other assume o: "set other \<subseteq> set (am_used m)" "set other \<inter> set bl = {}"
  show "alog_contents m' other = alog_contents m other"
    unfolding alog_contents_def
  proof (rule contents_cong)
    fix b assume "b \<in> set other"
    then have "b \<notin> set bl" "b \<notin> set (am_free m)"
      using o assms(1) by (auto simp: alog_pool_ok_def pool_ok_def)
    with x show "alog_entries (am_area m' b) = alog_entries (am_area m b)"
      by (simp add: alog.extends_def)
  qed
qed

lemma alog_clear_ok:
  assumes "alog_pool_ok m" and "log_ok (am_used m) bl"
  defines "r \<equiv> alog_clear (bl, m)"
  shows "fst r = []" and "alog_pool_ok (snd r)"
    and "am_free (snd r) = am_free m @ rev bl"
    and "am_used (snd r) = filter (\<lambda>b. b \<notin> set bl) (am_used m)"
    and "\<And>other. set other \<inter> set bl = {} \<Longrightarrow> alog_contents (snd r) other = alog_contents m other"
proof -
  have x: "alog_clear (bl, m) = (fst r, snd r)" by (simp add: r_def)
  note c = alog.log_clear_ok [OF _ assms(2) x]
  have ok: "pool_ok ALLOCATOR_LOG_BLOCK_NUM (alog_entries \<circ> am_area m) (am_free m) (am_used m)"
    using assms(1) by (simp add: alog_pool_ok_def comp_def)
  show "fst r = []" "alog_pool_ok (snd r)" "am_free (snd r) = am_free m @ rev bl"
    "am_used (snd r) = filter (\<lambda>b. b \<notin> set bl) (am_used m)"
    using c [OF ok] unfolding alog_pool_ok_def comp_def by blast+
  fix other assume "set other \<inter> set bl = {}"
  then show "alog_contents (snd r) other = alog_contents m other"
    unfolding alog_contents_def using c [OF ok] by (intro contents_cong) auto
qed

end
