(* ===== verification/EscortState.thy ===== *)
theory EscortState
  imports AddrlistT BitmapT BytemapT PlogT AllocatorlogT
begin

section \<open>The state of the library\<close>

text \<open>
  The members of \<^verbatim>\<open>userthreadctx_t\<close> (\<^verbatim>\<open>src/src/userthreadctx_t.hpp\<close>) and the objects of the
  namespace \<^verbatim>\<open>GlobalVariable\<close> (\<^verbatim>\<open>src/src/globalEscort.hpp\<close>) that user threads and the
  checkpointing thread share, as one record. A pair of arrays indexed by the parity of
  an epoch is a function on \<open>bool\<close>. A user thread is named by the position of its
  context in \<^verbatim>\<open>_ctx_array\<close>. \<open>dram\<close> and \<open>nvm\<close> are the two heaps, by line address;
  \<open>heap_alloc\<close> is the state of the memory allocator, a library outside the repository,
  whose two functions are the parameter \<open>allocator\<close> of the operations that call it.
\<close>

record userthreadctx_t =
  uc_epoch :: epoch_t
  uc_addrlist :: "bool \<Rightarrow> addrlist_t"
  uc_log :: plog_t
  uc_allocatorlog :: "bool \<Rightarrow> allocatorlog_t"
  uc_delay_dealloc :: "bool \<Rightarrow> ptr list"

definition userthreadctx_new :: userthreadctx_t where
  "userthreadctx_new = \<lparr>uc_epoch = 0, uc_addrlist = (\<lambda>_. []), uc_log = [],
     uc_allocatorlog = (\<lambda>_. []), uc_delay_dealloc = (\<lambda>_. [])\<rparr>"

record 'j escort =
  GLOBAL_EPOCH :: epoch_t
  BitMap :: "bool \<Rightarrow> bitmap_t"
  ByteMap :: "bool \<Rightarrow> bytemap_t"
  ByteMap_NVM :: bytemap_t
  Plog_Management :: plog_management
  Allocatorlog_Management :: allocatorlog_management
  ctx_array :: "userthreadctx_t list"
  cp_log :: plog_t
  dram :: "ptr \<Rightarrow> cacheline_t"
  nvm :: "ptr \<Rightarrow> cacheline_t"
  nvm_offset :: size_t
  heap_alloc :: 'j

record 'j allocator =
  al_malloc :: "size_t \<Rightarrow> 'j \<Rightarrow> ptr \<times> 'j"
  al_free :: "ptr \<Rightarrow> 'j \<Rightarrow> 'j"

text \<open>\<^verbatim>\<open>assert(lv::ctx != nullptr)\<close>: the calling thread has been initialised.\<close>

definition get_ctx :: "nat \<Rightarrow> ('j, 'z) escort_scheme \<Rightarrow> userthreadctx_t res" where
  "get_ctx t s = (if t < length (ctx_array s) then Inr (ctx_array s ! t) else Inl AssertFailed)"

definition put_ctx :: "nat \<Rightarrow> userthreadctx_t \<Rightarrow> ('j, 'z) escort_scheme \<Rightarrow> ('j, 'z) escort_scheme" where
  "put_ctx t ctx s = s\<lparr>ctx_array := (ctx_array s)[t := ctx]\<rparr>"

lemma get_ctx_Inr [res_simps]:
  "get_ctx t s = Inr ctx \<longleftrightarrow> t < length (ctx_array s) \<and> ctx = ctx_array s ! t"
  by (auto simp: get_ctx_def)

lemma put_ctx_simps [simp]:
  "GLOBAL_EPOCH (put_ctx t c s) = GLOBAL_EPOCH s" "BitMap (put_ctx t c s) = BitMap s"
  "ByteMap (put_ctx t c s) = ByteMap s" "ByteMap_NVM (put_ctx t c s) = ByteMap_NVM s"
  "Plog_Management (put_ctx t c s) = Plog_Management s"
  "Allocatorlog_Management (put_ctx t c s) = Allocatorlog_Management s"
  "ctx_array (put_ctx t c s) = (ctx_array s)[t := c]" "cp_log (put_ctx t c s) = cp_log s"
  "dram (put_ctx t c s) = dram s" "nvm (put_ctx t c s) = nvm s"
  "nvm_offset (put_ctx t c s) = nvm_offset s" "heap_alloc (put_ctx t c s) = heap_alloc s"
  by (simp_all add: put_ctx_def)

end
