(* ===== verification/UserThreadCtx.thy ===== *)
theory UserThreadCtx
  imports EscortState
begin

section \<open>The operations of a user thread\<close>

text \<open>
  \<^verbatim>\<open>src/src/userthreadctx_t.cpp\<close> (neither \<^verbatim>\<open>WEAK_CONSISTENCY\<close> nor
  \<^verbatim>\<open>OLD_VERSION\<close>) and the template \<^verbatim>\<open>pwrite\<close> of \<^verbatim>\<open>src/src/Escort.hpp\<close>. The first argument of
  an operation is the calling thread.
\<close>

subsection \<open>\<^verbatim>\<open>begin_op\<close> and \<^verbatim>\<open>end_op\<close>\<close>

text \<open>
  The loop of \<^verbatim>\<open>begin_op\<close> repeats while the epoch it stored is not the global epoch any
  more; run without interference it runs once.
\<close>

definition begin_op :: "nat \<Rightarrow> ('j, 'z) escort_scheme \<Rightarrow> ('j, 'z) escort_scheme res" where
  "begin_op t s =
     rbind (get_ctx t s) (\<lambda>ctx.
     let s = put_ctx t (ctx\<lparr>uc_epoch := GLOBAL_EPOCH s\<rparr>) s in
     rbind (rassert (GLOBAL_EPOCH s \<noteq> 0)) (\<lambda>_. Inr s))"

definition end_op :: "nat \<Rightarrow> ('j, 'z) escort_scheme \<Rightarrow> ('j, 'z) escort_scheme res" where
  "end_op t s =
     rbind (get_ctx t s) (\<lambda>ctx.
     rbind (rassert (uc_epoch ctx \<noteq> 0)) (\<lambda>_.
     Inr (put_ctx t (ctx\<lparr>uc_epoch := 0\<rparr>) s)))"

subsection \<open>\<^verbatim>\<open>mark\<close>\<close>

definition push_user_log ::
  "nat \<Rightarrow> ptr \<times> cacheline_t \<Rightarrow> ('j, 'z) escort_scheme \<Rightarrow> ('j, 'z) escort_scheme res" where
  "push_user_log t entry s =
     rbind (get_ctx t s) (\<lambda>ctx.
     rbind (plog_push_back entry (uc_log ctx, Plog_Management s)) (\<lambda>(bl, m).
     Inr (put_ctx t (ctx\<lparr>uc_log := bl\<rparr>) (s\<lparr>Plog_Management := m\<rparr>))))"

text \<open>The body of the loop over the lines; the flag says whether the line was newly marked.\<close>

definition mark_line ::
  "nat \<Rightarrow> bool \<Rightarrow> nat \<Rightarrow> ptr \<Rightarrow> ('j, 'z) escort_scheme \<Rightarrow> (bool \<times> ('j, 'z) escort_scheme) res" where
  "mark_line t cur index addr s =
     rbind (bitmap_is_set (BitMap s cur) index) (\<lambda>curr_set.
     if \<not> curr_set then
       rbind (bitmap_is_set (BitMap s (\<not> cur)) index) (\<lambda>prev_set.
       rbind (if prev_set then
                let old_val = dram s addr in
                rbind (bitmap_clear index (BitMap s (\<not> cur))) (\<lambda>bm.
                push_user_log t (addr, old_val) (s\<lparr>BitMap := (BitMap s)((\<not> cur) := bm)\<rparr>))
              else Inr s) (\<lambda>s.
       rbind (bitmap_set index (BitMap s cur)) (\<lambda>bm.
       Inr (True, s\<lparr>BitMap := (BitMap s)(cur := bm)\<rparr>))))
     else Inr (False, s))"

fun mark_loop ::
  "nat \<Rightarrow> bool \<Rightarrow> nat \<Rightarrow> nat \<Rightarrow> ptr \<Rightarrow> bool \<Rightarrow> ('j, 'z) escort_scheme \<Rightarrow> (bool \<times> ('j, 'z) escort_scheme) res" where
  "mark_loop t cur 0 index addr is_append_list s = Inr (is_append_list, s)"
| "mark_loop t cur (Suc n) index addr is_append_list s =
     rbind (mark_line t cur index addr s) (\<lambda>(new, s).
     mark_loop t cur n (index + 1) (add_addr addr (word_of_nat CACHE_LINE_SIZE)) (is_append_list \<or> new) s)"

definition num_bits :: "size_t \<Rightarrow> nat" where
  "num_bits sz = unat (drop_bit LOG_CACHE_LINE_SIZE (sz + word_of_nat CACHE_LINE_SIZE - 1))"

definition mark :: "nat \<Rightarrow> ptr \<Rightarrow> size_t \<Rightarrow> ('j, 'z) escort_scheme \<Rightarrow> ('j, 'z) escort_scheme res" where
  "mark t addr sz s =
     rbind (get_ctx t s) (\<lambda>ctx.
     let epoch = uc_epoch ctx in
     rbind (rassert (epoch \<noteq> 0)) (\<lambda>_.
     let cur = epoch_bit epoch in
     rbind (bitmap_get_index addr) (\<lambda>index.
     let addr = align_down addr in
     rbind (mark_loop t cur (num_bits sz) index addr False s) (\<lambda>(is_append_list, s).
     if is_append_list then
       rbind (get_ctx t s) (\<lambda>ctx.
       Inr (put_ctx t (ctx\<lparr>uc_addrlist := (uc_addrlist ctx)(cur :=
         addrlist_append (uc_addrlist ctx cur) (addr, num_bits sz))\<rparr>) s))
     else Inr s))))"

subsection \<open>\<^verbatim>\<open>pwrite\<close>\<close>

text \<open>\<^verbatim>\<open>*addr = val\<close> for an object of the given bytes: byte \<open>k\<close> lies in the line of \<open>addr + k\<close>.\<close>

definition store_byte :: "ptr \<Rightarrow> byte \<Rightarrow> (ptr \<Rightarrow> cacheline_t) \<Rightarrow> ptr \<Rightarrow> cacheline_t" where
  "store_byte addr b mem =
     (let l = align_down addr; cl = mem l in
      mem(l := cl\<lparr>cl_content := (cl_content cl)(ucast addr := b)\<rparr>))"

fun store_bytes :: "ptr \<Rightarrow> byte list \<Rightarrow> (ptr \<Rightarrow> cacheline_t) \<Rightarrow> ptr \<Rightarrow> cacheline_t" where
  "store_bytes addr [] mem = mem"
| "store_bytes addr (b # bs) mem = store_bytes (addr + 1) bs (store_byte addr b mem)"

definition pwrite :: "nat \<Rightarrow> ptr \<Rightarrow> byte list \<Rightarrow> ('j, 'z) escort_scheme \<Rightarrow> ('j, 'z) escort_scheme res" where
  "pwrite t addr val s =
     rbind (mark t addr (word_of_nat (length val)) s) (\<lambda>s.
     Inr (s\<lparr>dram := store_bytes addr val (dram s)\<rparr>))"

subsection \<open>\<^verbatim>\<open>malloc\<close> and \<^verbatim>\<open>free\<close>\<close>

text \<open>
  The bookkeeping common to both: a second operation on the object in the same epoch
  reverses its byte, the others set it and append a record to the allocator log.
\<close>

definition record_alloc_op ::
  "nat \<Rightarrow> epoch_t \<Rightarrow> ptr \<Rightarrow> size_t \<Rightarrow> ('j, 'z) escort_scheme \<Rightarrow> ('j, 'z) escort_scheme res" where
  "record_alloc_op t epoch addr sz s =
     (let cur = epoch_bit epoch in
      rbind (bytemap_get_index addr) (\<lambda>index.
      rbind (bytemap_is_set (ByteMap s cur) index) (\<lambda>is_set.
      if is_set then
        rbind (bytemap_reverse index (ByteMap s cur)) (\<lambda>bm.
        Inr (s\<lparr>ByteMap := (ByteMap s)(cur := bm)\<rparr>))
      else
        rbind (bytemap_set index (ByteMap s cur)) (\<lambda>bm.
        let s = s\<lparr>ByteMap := (ByteMap s)(cur := bm)\<rparr> in
        rbind (get_ctx t s) (\<lambda>ctx.
        rbind (alog_append (Epoch epoch) (addr, sz) (uc_allocatorlog ctx cur, Allocatorlog_Management s))
          (\<lambda>(bl, m).
        Inr (put_ctx t (ctx\<lparr>uc_allocatorlog := (uc_allocatorlog ctx)(cur := bl)\<rparr>)
               (s\<lparr>Allocatorlog_Management := m\<rparr>))))))))"

definition malloc_with_create_log ::
  "'j allocator \<Rightarrow> nat \<Rightarrow> size_t \<Rightarrow> ('j, 'z) escort_scheme \<Rightarrow> (ptr \<times> ('j, 'z) escort_scheme) res" where
  "malloc_with_create_log al t sz s =
     rbind (get_ctx t s) (\<lambda>ctx.
     let is_out_of_transaction = (uc_epoch ctx = 0) in
     rbind (if is_out_of_transaction then begin_op t s else Inr s) (\<lambda>s.
     rbind (get_ctx t s) (\<lambda>ctx.
     let epoch = uc_epoch ctx;
         (ret, j) = al_malloc al sz (heap_alloc s) in
     rbind (record_alloc_op t epoch ret sz (s\<lparr>heap_alloc := j\<rparr>)) (\<lambda>s.
     rbind (if is_out_of_transaction then end_op t s else Inr s) (\<lambda>s.
     Inr (ret, s))))))"

definition free_with_create_log ::
  "'j allocator \<Rightarrow> nat \<Rightarrow> ptr \<Rightarrow> size_t \<Rightarrow> ('j, 'z) escort_scheme \<Rightarrow> ('j, 'z) escort_scheme res" where
  "free_with_create_log al t addr sz s =
     rbind (get_ctx t s) (\<lambda>ctx.
     let is_out_of_transaction = (uc_epoch ctx = 0) in
     rbind (if is_out_of_transaction then begin_op t s else Inr s) (\<lambda>s.
     rbind (get_ctx t s) (\<lambda>ctx.
     let epoch = uc_epoch ctx; cur = epoch_bit epoch in
     rbind (record_alloc_op t epoch addr sz s) (\<lambda>s.
     rbind (get_phase epoch) (\<lambda>phase.
     rbind (if phase = Multi_Epoch_Existence then
              rbind (get_ctx t s) (\<lambda>ctx.
              Inr (put_ctx t (ctx\<lparr>uc_delay_dealloc := (uc_delay_dealloc ctx)(cur :=
                uc_delay_dealloc ctx cur @ [addr])\<rparr>) s))
            else Inr (s\<lparr>heap_alloc := al_free al addr (heap_alloc s)\<rparr>)) (\<lambda>s.
     if is_out_of_transaction then end_op t s else Inr s))))))"

text \<open>
  The member functions \<^verbatim>\<open>malloc\<close> and \<^verbatim>\<open>free\<close>. With \<^verbatim>\<open>NO_PERSIST_METADATA\<close> they only call the memory allocator, whose function
  \<^verbatim>\<open>mallocx\<close> (with the arena 1) is a parameter like the others.
\<close>

definition userthread_malloc ::
  "bool \<Rightarrow> (size_t \<Rightarrow> 'j \<Rightarrow> ptr \<times> 'j) \<Rightarrow> 'j allocator \<Rightarrow> nat \<Rightarrow> size_t \<Rightarrow> ('j, 'z) escort_scheme \<Rightarrow>
   (ptr \<times> ('j, 'z) escort_scheme) res" where
  "userthread_malloc no_persist_metadata mallocx al t sz s =
     (if no_persist_metadata then let (ret, j) = mallocx sz (heap_alloc s) in Inr (ret, s\<lparr>heap_alloc := j\<rparr>)
      else malloc_with_create_log al t sz s)"

definition userthread_free ::
  "bool \<Rightarrow> 'j allocator \<Rightarrow> nat \<Rightarrow> ptr \<Rightarrow> size_t \<Rightarrow> ('j, 'z) escort_scheme \<Rightarrow> ('j, 'z) escort_scheme res" where
  "userthread_free no_persist_metadata al t addr sz s =
     (if no_persist_metadata then Inr (s\<lparr>heap_alloc := al_free al addr (heap_alloc s)\<rparr>)
      else free_with_create_log al t addr sz s)"

end
