(* ===== verification/CpAllocatorT.thy ===== *)
theory CpAllocatorT
  imports EscortState
begin

section \<open>Checkpointing of the allocator logs and delayed deallocation\<close>

text \<open>
  \<^verbatim>\<open>src/src/cpallocator_t.cpp\<close> and \<^verbatim>\<open>src/src/deallocator_t.cpp\<close>: the three passes over the
  contexts that the checkpointing thread starts on helper threads and joins. They work
  on the data of the previous epoch only: the byte map, the allocator logs, the
  records of delayed \<^verbatim>\<open>free\<close> operations.
\<close>

definition prev_parity :: "('j, 'z) escort_scheme \<Rightarrow> bool" where
  "prev_parity s = epoch_bit (Epoch (GLOBAL_EPOCH s) - 1)"

subsection \<open>\<^verbatim>\<open>check_valid\<close>\<close>

definition check_valid_entry ::
  "bool \<Rightarrow> block_id \<Rightarrow> nat \<Rightarrow> ('j, 'z) escort_scheme \<Rightarrow> ('j, 'z) escort_scheme res" where
  "check_valid_entry prev block i s =
     (let m = Allocatorlog_Management s; b = am_area m block; entry = ab_entries b i in
      rbind (bytemap_get_index (ae_addr entry)) (\<lambda>index.
      rbind (bytemap_is_set (ByteMap s prev) index) (\<lambda>is_set.
      let s = (if \<not> is_set then
                 s\<lparr>Allocatorlog_Management := alog_put block
                   (b\<lparr>ab_entries := (ab_entries b)(i := entry\<lparr>ae_is_valid := False\<rparr>)\<rparr>) m\<rparr>
               else s) in
      rbind (bytemap_clear index (ByteMap s prev)) (\<lambda>bm.
      Inr (s\<lparr>ByteMap := (ByteMap s)(prev := bm)\<rparr>)))))"

definition check_valid_block ::
  "bool \<Rightarrow> block_id \<Rightarrow> ('j, 'z) escort_scheme \<Rightarrow> ('j, 'z) escort_scheme res" where
  "check_valid_block prev block s =
     rfold (check_valid_entry prev block) [0..<ab_size (am_area (Allocatorlog_Management s) block)] s"

definition check_valid :: "('j, 'z) escort_scheme \<Rightarrow> ('j, 'z) escort_scheme res" where
  "check_valid s =
     (let prev = prev_parity s in
      rfold (\<lambda>t s. rbind (get_ctx t s) (\<lambda>ctx. rfold (check_valid_block prev) (uc_allocatorlog ctx prev) s))
        [0..<length (ctx_array s)] s)"

subsection \<open>\<^verbatim>\<open>checkpointing\<close>\<close>

definition record_sizes_entry :: "block_id \<Rightarrow> nat \<Rightarrow> ('j, 'z) escort_scheme \<Rightarrow> ('j, 'z) escort_scheme res" where
  "record_sizes_entry block i s =
     (let entry = ab_entries (am_area (Allocatorlog_Management s) block) i in
      rbind (bytemap_get_index (ae_addr entry)) (\<lambda>index.
      rbind (set_obj_size index (ae_size entry) (ByteMap_NVM s)) (\<lambda>bm.
      Inr (s\<lparr>ByteMap_NVM := bm\<rparr>))))"

definition record_sizes_block :: "block_id \<Rightarrow> ('j, 'z) escort_scheme \<Rightarrow> ('j, 'z) escort_scheme res" where
  "record_sizes_block block s =
     rfold (record_sizes_entry block) [0..<ab_size (am_area (Allocatorlog_Management s) block)] s"

definition cpallocator_checkpointing :: "('j, 'z) escort_scheme \<Rightarrow> ('j, 'z) escort_scheme res" where
  "cpallocator_checkpointing s =
     (let prev = prev_parity s in
      rfold (\<lambda>t s. rbind (get_ctx t s) (\<lambda>ctx.
          rbind (rfold record_sizes_block (uc_allocatorlog ctx prev) s) (\<lambda>s.
          let (bl, m) = alog_clear (uc_allocatorlog ctx prev, Allocatorlog_Management s) in
          Inr (put_ctx t (ctx\<lparr>uc_allocatorlog := (uc_allocatorlog ctx)(prev := bl)\<rparr>)
                 (s\<lparr>Allocatorlog_Management := m\<rparr>)))))
        [0..<length (ctx_array s)] s)"

subsection \<open>\<^verbatim>\<open>dealloc\<close>\<close>

definition dealloc_ctx ::
  "'j allocator \<Rightarrow> bool \<Rightarrow> nat \<Rightarrow> ('j, 'z) escort_scheme \<Rightarrow> ('j, 'z) escort_scheme res" where
  "dealloc_ctx al prev t s =
     rbind (get_ctx t s) (\<lambda>ctx.
     let s = fold (\<lambda>addr s. s\<lparr>heap_alloc := al_free al addr (heap_alloc s)\<rparr>) (uc_delay_dealloc ctx prev) s in
     Inr (put_ctx t (ctx\<lparr>uc_delay_dealloc := (uc_delay_dealloc ctx)(prev := [])\<rparr>) s))"

definition dealloc :: "'j allocator \<Rightarrow> ('j, 'z) escort_scheme \<Rightarrow> ('j, 'z) escort_scheme res" where
  "dealloc al s = rfold (dealloc_ctx al (prev_parity s)) [0..<length (ctx_array s)] s"

end
