(* ===== verification/Checkpointing.thy ===== *)
theory Checkpointing
  imports UserThreadCtx CpAllocatorT
begin

section \<open>The checkpointing thread\<close>

text \<open>
  \<^verbatim>\<open>src/src/checkpointing.cpp\<close> and the class \<^verbatim>\<open>cpmaster_t\<close>: one checkpoint is a round of the
  loop of \<^verbatim>\<open>checkpointing\<close>. Timing, CPU binding, sleeping and statistics are left out; the
  cache-line write-backs and fences do not change what a thread reads and are not modelled here.
\<close>

text \<open>
  The busy wait of one context ends when its epoch is not the previous one; without
  interference by the thread it either ends at once or never.
\<close>

definition left_previous_epoch :: "epoch_t \<Rightarrow> userthreadctx_t \<Rightarrow> bool" where
  "left_previous_epoch epoch ctx \<longleftrightarrow> Epoch (uc_epoch ctx) \<noteq> Epoch epoch - 1"

definition wait_previous_epoch_transactions :: "epoch_t \<Rightarrow> ('j, 'z) escort_scheme \<Rightarrow> unit res" where
  "wait_previous_epoch_transactions epoch s =
     rfold (\<lambda>ctx _. if left_previous_epoch epoch ctx then Inr () else Inl Diverges) (ctx_array s) ()"

subsection \<open>Log persistence\<close>

definition log_line :: "bool \<Rightarrow> nat \<Rightarrow> ptr \<Rightarrow> ('j, 'z) escort_scheme \<Rightarrow> ('j, 'z) escort_scheme res" where
  "log_line prev index cl s =
     rbind (bitmap_is_set (BitMap s prev) index) (\<lambda>is_set.
     if is_set then
       rbind (plog_push_back (cl, dram s cl) (cp_log s, Plog_Management s)) (\<lambda>(bl, m).
       rbind (bitmap_clear index (BitMap s prev)) (\<lambda>bm.
       Inr (s\<lparr>cp_log := bl, Plog_Management := m, BitMap := (BitMap s)(prev := bm)\<rparr>)))
     else Inr s)"

fun log_lines :: "bool \<Rightarrow> nat \<Rightarrow> nat \<Rightarrow> ptr \<Rightarrow> ('j, 'z) escort_scheme \<Rightarrow> ('j, 'z) escort_scheme res" where
  "log_lines prev 0 index cl s = Inr s"
| "log_lines prev (Suc n) index cl s =
     rbind (log_line prev index cl s)
       (log_lines prev n (index + 1) (add_addr cl (word_of_nat CACHE_LINE_SIZE)))"

definition log_region :: "bool \<Rightarrow> ptr \<times> nat \<Rightarrow> ('j, 'z) escort_scheme \<Rightarrow> ('j, 'z) escort_scheme res" where
  "log_region prev = (\<lambda>(addr, n) s.
     rbind (bitmap_get_index addr) (\<lambda>base. log_lines prev n base addr s))"

definition clear_list :: "bool \<Rightarrow> nat \<Rightarrow> ('j, 'z) escort_scheme \<Rightarrow> ('j, 'z) escort_scheme res" where
  "clear_list prev t s =
     rbind (get_ctx t s) (\<lambda>ctx.
     Inr (put_ctx t (ctx\<lparr>uc_addrlist := (uc_addrlist ctx)(prev := addrlist_clear (uc_addrlist ctx prev))\<rparr>) s))"

definition log_ctx :: "bool \<Rightarrow> nat \<Rightarrow> ('j, 'z) escort_scheme \<Rightarrow> ('j, 'z) escort_scheme res" where
  "log_ctx prev t s =
     rbind (get_ctx t s) (\<lambda>ctx.
     rbind (rfold (log_region prev) (uc_addrlist ctx prev) s) (clear_list prev t))"

definition log_persistence_unit :: "('j, 'z) escort_scheme \<Rightarrow> ('j, 'z) escort_scheme res" where
  "log_persistence_unit s = rfold (log_ctx (prev_parity s)) [0..<length (ctx_array s)] s"

text \<open>The variant for several checkpointing threads is \<^verbatim>\<open>DEBUG_ERROR("under construction")\<close>.\<close>

definition log_persistence :: "bool \<Rightarrow> ('j, 'z) escort_scheme \<Rightarrow> ('j, 'z) escort_scheme res" where
  "log_persistence single s =
     rbind (check_valid s) (\<lambda>s.
     if single then log_persistence_unit s else Inl QuickExit)"

subsection \<open>Update of the NVM heap\<close>

definition replay_entry :: "ptr \<times> cacheline_t \<Rightarrow> ('j, 'z) escort_scheme \<Rightarrow> ('j, 'z) escort_scheme" where
  "replay_entry entry s =
     (let nvm_cl = add_addr (fst entry) (nvm_offset s) in
      s\<lparr>nvm := (nvm s)(nvm_cl := assign (nvm s nvm_cl) (snd entry))\<rparr>)"

definition replay_block :: "block_id \<Rightarrow> ('j, 'z) escort_scheme \<Rightarrow> ('j, 'z) escort_scheme" where
  "replay_block block s =
     (let b = pm_area (Plog_Management s) block in
      fold (\<lambda>i. replay_entry (pe_addr (pb_entries b i), pe_val (pb_entries b i))) [0..<pb_size b] s)"

definition replay_redo_log :: "plog_t \<Rightarrow> ('j, 'z) escort_scheme \<Rightarrow> ('j, 'z) escort_scheme" where
  "replay_redo_log log s = fold replay_block log s"

definition clear_cp_log :: "('j, 'z) escort_scheme \<Rightarrow> ('j, 'z) escort_scheme" where
  "clear_cp_log s =
     (let (bl, m) = plog_clear (cp_log s, Plog_Management s) in s\<lparr>cp_log := bl, Plog_Management := m\<rparr>)"

definition clear_ctx_log :: "nat \<Rightarrow> ('j, 'z) escort_scheme \<Rightarrow> ('j, 'z) escort_scheme" where
  "clear_ctx_log t s =
     (let ctx = ctx_array s ! t; (bl, m) = plog_clear (uc_log ctx, Plog_Management s)
      in put_ctx t (ctx\<lparr>uc_log := bl\<rparr>) (s\<lparr>Plog_Management := m\<rparr>))"

definition clear_redo_logs :: "('j, 'z) escort_scheme \<Rightarrow> ('j, 'z) escort_scheme" where
  "clear_redo_logs s = fold clear_ctx_log [0..<length (ctx_array s)] (clear_cp_log s)"

definition nvm_heap_update_unit :: "('j, 'z) escort_scheme \<Rightarrow> ('j, 'z) escort_scheme" where
  "nvm_heap_update_unit s =
     (let s = replay_redo_log (cp_log s) s;
          s = fold (\<lambda>ctx. replay_redo_log (uc_log ctx)) (ctx_array s) s
      in clear_redo_logs s)"

definition nvm_heap_update :: "bool \<Rightarrow> ('j, 'z) escort_scheme \<Rightarrow> ('j, 'z) escort_scheme res" where
  "nvm_heap_update single s =
     rbind (cpallocator_checkpointing s) (\<lambda>s.
     if single then Inr (nvm_heap_update_unit s) else Inl QuickExit)"

subsection \<open>One checkpoint\<close>

definition enter_phase ::
  "epoch_t \<Rightarrow> epoch_phase \<Rightarrow> ('j, 'z) escort_scheme \<Rightarrow> (epoch_t \<times> ('j, 'z) escort_scheme) res" where
  "enter_phase epoch phase s =
     rbind (set_phase epoch phase) (\<lambda>epoch. Inr (epoch, s\<lparr>GLOBAL_EPOCH := epoch\<rparr>))"

text \<open>The body of the loop of \<^verbatim>\<open>checkpointing\<close>, run without interference by user threads.\<close>

definition checkpoint_round ::
  "'j allocator \<Rightarrow> bool \<Rightarrow> epoch_t \<Rightarrow> ('j, 'z) escort_scheme \<Rightarrow> (epoch_t \<times> ('j, 'z) escort_scheme) res" where
  "checkpoint_round al single epoch s =
     rbind (enter_phase (epoch + 1) Multi_Epoch_Existence s) (\<lambda>(epoch, s).
     rbind (wait_previous_epoch_transactions epoch s) (\<lambda>_.
     rbind (enter_phase epoch Log_Persistence s) (\<lambda>(epoch, s).
     rbind (dealloc al s) (\<lambda>s.
     rbind (log_persistence single s) (\<lambda>s.
     rbind (enter_phase epoch NVM_Heap_Update s) (\<lambda>(epoch, s).
     rbind (nvm_heap_update single s) (\<lambda>s.
     Inr (epoch, s))))))))"

text \<open>\<^verbatim>\<open>finalize\<close>: the last checkpoint, which does not wait and skips the first phase.\<close>

definition finalize :: "bool \<Rightarrow> epoch_t \<Rightarrow> ('j, 'z) escort_scheme \<Rightarrow> ('j, 'z) escort_scheme res" where
  "finalize single epoch s =
     rbind (enter_phase (epoch + 1) Log_Persistence s) (\<lambda>(epoch, s).
     rbind (log_persistence single s) (\<lambda>s.
     rbind (enter_phase epoch NVM_Heap_Update s) (\<lambda>(epoch, s).
     nvm_heap_update single s)))"

end
