(* ===== verification/RedoLogs.thy ===== *)
theory RedoLogs
  imports Checkpointing
begin

section \<open>The redo logs of all threads\<close>

text \<open>
  The redo log of the checkpointing thread and those of the user threads draw their blocks
  from one pool. \<open>wf_logs\<close>: together they own distinct used blocks, and no cache line
  is logged twice. Under it the logs amount to one partial map from lines to their logged
  contents (\<open>logged\<close>), whatever the order in which the logs are replayed.
\<close>

definition redo_logs :: "('j, 'z) escort_scheme \<Rightarrow> plog_t list" where
  "redo_logs s = cp_log s # map uc_log (ctx_array s)"

definition logs_contents :: "plog_management \<Rightarrow> plog_t list \<Rightarrow> (ptr \<times> cacheline_t) list" where
  "logs_contents m ls = concat (map (plog_contents m) ls)"

definition all_entries :: "('j, 'z) escort_scheme \<Rightarrow> (ptr \<times> cacheline_t) list" where
  "all_entries s = logs_contents (Plog_Management s) (redo_logs s)"

definition wf_logs :: "plog_management \<Rightarrow> plog_t list \<Rightarrow> bool" where
  "wf_logs m ls \<longleftrightarrow>
     plog_pool_ok m \<and> log_ok (pm_used m) (concat ls) \<and> distinct (map fst (logs_contents m ls)) \<and>
     fst ` set (logs_contents m ls) \<subseteq> line_ptr ` {..<heap_lines}"

definition logged :: "('j, 'z) escort_scheme \<Rightarrow> nat \<rightharpoonup> cacheline_t" where
  "logged s i = (if i < heap_lines then map_of (all_entries s) (line_ptr i) else None)"

lemma redo_logs_simps [simp]:
  "redo_logs (s\<lparr>GLOBAL_EPOCH := e\<rparr>) = redo_logs s" "redo_logs (s\<lparr>BitMap := b\<rparr>) = redo_logs s"
  "redo_logs (s\<lparr>Plog_Management := p\<rparr>) = redo_logs s" "redo_logs (s\<lparr>dram := d\<rparr>) = redo_logs s"
  "redo_logs (s\<lparr>nvm := d\<rparr>) = redo_logs s"
  by (simp_all add: redo_logs_def)

lemma length_redo_logs [simp]: "length (redo_logs s) = Suc (length (ctx_array s))"
  by (simp add: redo_logs_def)

lemma redo_logs_put_ctx:
  "t < length (ctx_array s) \<Longrightarrow> redo_logs (put_ctx t c s) = (redo_logs s)[Suc t := uc_log c]"
  by (simp add: redo_logs_def map_update)

lemma redo_logs_put_ctx_same:
  "t < length (ctx_array s) \<Longrightarrow> uc_log c = uc_log (ctx_array s ! t) \<Longrightarrow> redo_logs (put_ctx t c s) = redo_logs s"
  by (simp add: redo_logs_put_ctx) (simp add: redo_logs_def map_update [symmetric] list_update_same_conv)

lemma redo_logs_ctx: "t < length (ctx_array s) \<Longrightarrow> redo_logs s ! Suc t = uc_log (ctx_array s ! t)"
  by (simp add: redo_logs_def)

lemma redo_logs_cp: "redo_logs (s\<lparr>cp_log := bl\<rparr>) = (redo_logs s)[0 := bl]"
  by (simp add: redo_logs_def)

text \<open>Splitting a list of logs at one of them.\<close>

lemma split_at:
  "k < length ls \<Longrightarrow> ls = take k ls @ ls ! k # drop (Suc k) ls \<and> ls[k := x] = take k ls @ x # drop (Suc k) ls"
  by (simp add: id_take_nth_drop [symmetric] upd_conv_take_nth_drop)

lemma logs_contents_append: "logs_contents m (as @ bs) = logs_contents m as @ logs_contents m bs"
  by (simp add: logs_contents_def)

lemma logs_contents_Cons: "logs_contents m (a # bs) = plog_contents m a @ logs_contents m bs"
  by (simp add: logs_contents_def)

lemma logs_contents_frame:
  "(\<And>b. b \<in> set ls \<Longrightarrow> plog_contents m' b = plog_contents m b) \<Longrightarrow> logs_contents m' ls = logs_contents m ls"
  unfolding logs_contents_def by (rule concat_map_cong_set)

text \<open>
  Appending a new line to one of the logs: the logs stay well formed and the line is added
  to the logged ones.
\<close>

lemma wf_logs_push:
  assumes wf: "wf_logs m ls" and k: "k < length ls"
    and push: "plog_push_back (line_ptr i, v) (ls ! k, m) = Inr (bl, m')"
    and i: "i < heap_lines" and fresh: "line_ptr i \<notin> fst ` set (logs_contents m ls)"
  shows "wf_logs m' (ls[k := bl])"
    and "set (logs_contents m' (ls[k := bl])) = insert (line_ptr i, v) (set (logs_contents m ls))"
proof -
  define A where "A = take k ls"
  define B where "B = drop (Suc k) ls"
  have ls: "ls = A @ ls ! k # B" "ls[k := bl] = A @ bl # B"
    using split_at [OF k, of bl] by (simp_all add: A_def B_def)
  have cls: "concat ls = concat A @ ls ! k @ concat B"
    by (subst ls(1)) simp
  have ok: "plog_pool_ok m" and lok: "log_ok (pm_used m) (concat A @ ls ! k @ concat B)"
    using wf cls by (simp_all add: wf_logs_def)
  then have lk: "log_ok (pm_used m) (ls ! k)" by (simp add: log_ok_def)
  note p = plog_push_back_ok [OF ok lk push]
  have other: "plog_contents m' b = plog_contents m b" if "b \<in> set A \<union> set B" for b
    using that lok by (intro p(8)) (auto simp: log_ok_def)
  have AB: "logs_contents m' A = logs_contents m A" "logs_contents m' B = logs_contents m B"
    using other by (auto intro!: logs_contents_frame)
  have new: "logs_contents m' (ls[k := bl]) =
      logs_contents m A @ (plog_contents m (ls ! k) @ [(line_ptr i, v)]) @ logs_contents m B"
    by (simp add: ls(2) logs_contents_append logs_contents_Cons AB p(3))
  have old: "logs_contents m ls = logs_contents m A @ plog_contents m (ls ! k) @ logs_contents m B"
    by (subst ls(1)) (simp add: logs_contents_append logs_contents_Cons)
  show s: "set (logs_contents m' (ls[k := bl])) = insert (line_ptr i, v) (set (logs_contents m ls))"
    by (auto simp: new old)
  have "mset (map fst (logs_contents m' (ls[k := bl]))) = mset (line_ptr i # map fst (logs_contents m ls))"
    by (simp add: new old)
  then have "distinct (map fst (logs_contents m' (ls[k := bl])))"
    using wf fresh by (metis (no_types) mset_eq_imp_distinct_iff distinct.simps(2) list.set_map wf_logs_def)
  moreover have "log_ok (pm_used m') (concat (ls[k := bl]))"
  proof -
    have "set bl \<inter> (set (concat A) \<union> set (concat B)) = {}"
    proof -
      have "set (pm_free m) \<inter> set (pm_used m) = {}" using ok by (auto simp: plog_pool_ok_def pool_ok_def)
      moreover have "set (ls ! k) \<inter> (set (concat A) \<union> set (concat B)) = {}"
        "set (concat A) \<union> set (concat B) \<subseteq> set (pm_used m)"
        using lok unfolding log_ok_def by (auto simp del: set_concat)
      ultimately show ?thesis using p(5) by blast
    qed
    moreover have "distinct (concat A @ concat B)" "set (concat A @ concat B) \<subseteq> set (pm_used m)"
      using lok unfolding log_ok_def by (auto simp del: set_concat)
    ultimately show ?thesis using p(2,6) by (auto simp: ls(2) log_ok_def simp del: set_concat)
  qed
  ultimately show "wf_logs m' (ls[k := bl])"
    using p(1) wf i s by (auto simp: wf_logs_def)
qed

lemma map_of_insert:
  assumes "distinct (map fst xs)" and "distinct (map fst ys)" and "set ys = insert (a, v) (set xs)"
    and "a \<notin> fst ` set xs"
  shows "map_of ys = (map_of xs)(a \<mapsto> v)"
proof
  fix b
  have iff: "map_of ys b = Some w \<longleftrightarrow> ((map_of xs)(a \<mapsto> v)) b = Some w" for w
    using assms(4) by (auto simp: map_of_eq_Some_iff [OF assms(1)] map_of_eq_Some_iff [OF assms(2)] assms(3)
        image_iff intro: rev_bexI)
  show "map_of ys b = ((map_of xs)(a \<mapsto> v)) b"
    by (cases "map_of ys b"; cases "((map_of xs)(a \<mapsto> v)) b") (use iff in auto)
qed

subsection \<open>Clearing the logs\<close>

lemma wf_logs_clear:
  assumes wf: "wf_logs m ls" and k: "k < length ls"
  defines "r \<equiv> plog_clear (ls ! k, m)"
  shows "fst r = []" and "wf_logs (snd r) (ls[k := []])"
    and "logs_contents (snd r) (ls[k := []]) = logs_contents m (ls[k := []])"
proof -
  define A where "A = take k ls"
  define B where "B = drop (Suc k) ls"
  have ls: "ls = A @ ls ! k # B" "ls[k := []] = A @ [] # B"
    using split_at [OF k, of "[]"] by (simp_all add: A_def B_def)
  have cls: "concat ls = concat A @ ls ! k @ concat B"
    by (subst ls(1)) simp
  have ok: "plog_pool_ok m" and lok: "log_ok (pm_used m) (concat A @ ls ! k @ concat B)"
    using wf cls by (simp_all add: wf_logs_def)
  then have lk: "log_ok (pm_used m) (ls ! k)" by (simp add: log_ok_def)
  have d: "set (ls ! k) \<inter> (set (concat A) \<union> set (concat B)) = {}"
    "set (concat A) \<union> set (concat B) \<subseteq> set (pm_used m)" "distinct (concat A @ concat B)"
    using lok unfolding log_ok_def by (auto simp del: set_concat)
  note c = plog_clear_ok [OF ok lk, folded r_def]
  show "fst r = []" by (rule c(1))
  have "plog_contents (snd r) b = plog_contents m b" if "b \<in> set A \<union> set B" for b
    using that d(1) by (intro c(5)) auto
  then have AB: "logs_contents (snd r) A = logs_contents m A" "logs_contents (snd r) B = logs_contents m B"
    by (auto intro!: logs_contents_frame)
  show same: "logs_contents (snd r) (ls[k := []]) = logs_contents m (ls[k := []])"
    by (simp add: ls(2) logs_contents_append logs_contents_Cons AB) (simp add: plog_contents_def)
  have old: "logs_contents m ls = logs_contents m A @ plog_contents m (ls ! k) @ logs_contents m B"
    by (subst ls(1)) (simp add: logs_contents_append logs_contents_Cons)
  have new: "logs_contents m (ls[k := []]) = logs_contents m A @ logs_contents m B"
    by (simp add: ls(2) logs_contents_append logs_contents_Cons) (simp add: plog_contents_def)
  have "log_ok (pm_used (snd r)) (concat (ls[k := []]))"
    using d by (auto simp: ls(2) log_ok_def c(4) simp del: set_concat)
  then show "wf_logs (snd r) (ls[k := []])"
    using wf c(2) unfolding wf_logs_def same new old by auto
qed

lemma clear_cp_log_ok:
  assumes "wf_logs (Plog_Management s) (redo_logs s)"
  shows "\<exists>m. clear_cp_log s = s\<lparr>cp_log := [], Plog_Management := m\<rparr> \<and>
    wf_logs m (redo_logs (clear_cp_log s))"
proof -
  define r where "r = plog_clear (redo_logs s ! 0, Plog_Management s)"
  note c = wf_logs_clear [OF assms, of 0, folded r_def]
  have "clear_cp_log s = s\<lparr>cp_log := [], Plog_Management := snd r\<rparr>"
    using c(1) by (simp add: clear_cp_log_def r_def redo_logs_def split_beta)
  moreover have "redo_logs (s\<lparr>cp_log := [], Plog_Management := snd r\<rparr>) = (redo_logs s)[0 := []]"
    by (simp add: redo_logs_def)
  ultimately show ?thesis using c(2) by auto
qed

lemma clear_ctx_logs_ok:
  assumes "wf_logs (Plog_Management s) (redo_logs s)" and "n \<le> length (ctx_array s)"
  shows "\<exists>m. fold clear_ctx_log [0..<n] s = s\<lparr>Plog_Management := m,
      ctx_array := map (\<lambda>c. c\<lparr>uc_log := []\<rparr>) (take n (ctx_array s)) @ drop n (ctx_array s)\<rparr> \<and>
    wf_logs m (redo_logs (fold clear_ctx_log [0..<n] s))"
  using assms(2)
proof (induction n)
  case 0
  have "s = s\<lparr>Plog_Management := Plog_Management s, ctx_array := ctx_array s\<rparr>" by simp
  with assms(1) show ?case by (auto intro!: exI [of _ "Plog_Management s"])
next
  case (Suc n)
  let ?cs = "ctx_array s"
  let ?s = "fold clear_ctx_log [0..<n] s"
  from Suc obtain m where m: "?s = s\<lparr>Plog_Management := m,
      ctx_array := map (\<lambda>c. c\<lparr>uc_log := []\<rparr>) (take n ?cs) @ drop n ?cs\<rparr>"
    and wf: "wf_logs m (redo_logs ?s)" by auto
  have n: "n < length ?cs" using Suc.prems by simp
  have len: "length (ctx_array ?s) = length ?cs" by (simp add: m)
  have at: "ctx_array ?s ! n = ?cs ! n" using n by (simp add: m nth_append)
  have pm: "Plog_Management ?s = m" by (simp add: m)
  define r where "r = plog_clear (redo_logs ?s ! Suc n, m)"
  note c = wf_logs_clear [OF wf, of "Suc n", folded r_def, unfolded length_redo_logs len]
  have rl: "redo_logs ?s ! Suc n = uc_log (?cs ! n)"
    using n len at by (simp add: redo_logs_ctx)
  have cs: "(map (\<lambda>c. c\<lparr>uc_log := []\<rparr>) (take n ?cs) @ drop n ?cs)[n := (?cs ! n)\<lparr>uc_log := []\<rparr>] =
      map (\<lambda>c. c\<lparr>uc_log := []\<rparr>) (take (Suc n) ?cs) @ drop (Suc n) ?cs"
    using n by (simp add: list_update_append take_Suc_conv_app_nth Cons_nth_drop_Suc [symmetric])
  have f1: "fst r = []" using c(1) n by simp
  have step: "clear_ctx_log n ?s = put_ctx n ((?cs ! n)\<lparr>uc_log := []\<rparr>) (?s\<lparr>Plog_Management := snd r\<rparr>)"
    using f1 by (simp add: clear_ctx_log_def at pm r_def rl split_beta Let_def)
  have eq: "fold clear_ctx_log [0..<Suc n] s = s\<lparr>Plog_Management := snd r,
      ctx_array := map (\<lambda>c. c\<lparr>uc_log := []\<rparr>) (take (Suc n) ?cs) @ drop (Suc n) ?cs\<rparr>"
    by (simp add: step put_ctx_def) (simp add: m cs)
  have "redo_logs (fold clear_ctx_log [0..<Suc n] s) = (redo_logs ?s)[Suc n := []]"
    using n len by (simp add: step redo_logs_put_ctx)
  then show ?case using c(2) n eq by auto
qed

text \<open>\<^verbatim>\<open>clear_redo_logs\<close> empties every redo log and touches nothing else.\<close>

lemma clear_redo_logs_ok:
  assumes "wf_logs (Plog_Management s) (redo_logs s)"
  shows "\<exists>m. clear_redo_logs s = s\<lparr>cp_log := [], Plog_Management := m,
      ctx_array := map (\<lambda>c. c\<lparr>uc_log := []\<rparr>) (ctx_array s)\<rparr> \<and>
    wf_logs m (redo_logs (clear_redo_logs s))"
proof -
  obtain m where m: "clear_cp_log s = s\<lparr>cp_log := [], Plog_Management := m\<rparr>"
    "wf_logs m (redo_logs (clear_cp_log s))"
    using clear_cp_log_ok [OF assms] by auto
  have pm: "Plog_Management (clear_cp_log s) = m" "ctx_array (clear_cp_log s) = ctx_array s"
    by (simp_all add: m(1))
  show ?thesis
    using clear_ctx_logs_ok [of "clear_cp_log s" "length (ctx_array s)"] m pm
    by (auto simp: clear_redo_logs_def)
qed

end
