(* ===== verification/MarkEffect.thy ===== *)
theory MarkEffect
  imports RedoLogs
begin

section \<open>What \<^verbatim>\<open>mark\<close> and the logging of a line do to the whole state\<close>

text \<open>
  The net effect of marking a set of lines for the parity \<open>b\<close>: its bits are set, the bits of
  the other parity are cleared on the newly marked lines, and those of them that had the
  other bit are logged with their present content (copy on write). Everything else, in
  particular both heaps, is unchanged.
\<close>

definition marked_bits :: "bool \<Rightarrow> nat set \<Rightarrow> (bool \<Rightarrow> bitmap_t) \<Rightarrow> bool \<Rightarrow> bitmap_t" where
  "marked_bits b I B p = (B p)\<lparr>bm_bits := (\<lambda>i.
     if p = b then bm_bits (B b) i \<or> i \<in> I
     else bm_bits (B p) i \<and> \<not> (i \<in> I \<and> \<not> bm_bits (B b) i))\<rparr>"

lemma bool_fun_eqI: "f b = g b \<Longrightarrow> f (\<not> b) = g (\<not> b) \<Longrightarrow> f = g"
  by (cases b) (simp_all add: fun_eq_iff all_bool_eq)

lemma marked_bits_same: "marked_bits b I B b = (B b)\<lparr>bm_bits := (\<lambda>i. bm_bits (B b) i \<or> i \<in> I)\<rparr>"
  by (simp add: marked_bits_def)

lemma marked_bits_other: "marked_bits b I B (\<not> b) =
    (B (\<not> b))\<lparr>bm_bits := (\<lambda>i. bm_bits (B (\<not> b)) i \<and> \<not> (i \<in> I \<and> \<not> bm_bits (B b) i))\<rparr>"
  by (cases b) (simp_all add: marked_bits_def)

lemma bm_size_marked_bits [simp]: "bm_size (marked_bits b I B p) = bm_size (B p)"
  by (simp add: marked_bits_def)

lemma bm_bits_self: "f = bm_bits bm \<Longrightarrow> bm\<lparr>bm_bits := f\<rparr> = bm"
  by simp

text \<open>
  \<open>mark_pre\<close>: both bitmaps cover the heap, the redo logs are well formed, and a line of \<open>I\<close>
  that is still flagged for the other parity has not been logged.
\<close>

definition mark_pre :: "bool \<Rightarrow> nat set \<Rightarrow> ('j, 'z) escort_scheme \<Rightarrow> bool" where
  "mark_pre b I s \<longleftrightarrow>
     (\<forall>p. bm_size (BitMap s p) = heap_lines) \<and> wf_logs (Plog_Management s) (redo_logs s) \<and>
     (\<forall>i \<in> I. bm_bits (BitMap s (\<not> b)) i \<longrightarrow> logged s i = None)"

definition mark_effect ::
  "nat \<Rightarrow> bool \<Rightarrow> nat set \<Rightarrow> ('j, 'z) escort_scheme \<Rightarrow> ('j, 'z) escort_scheme \<Rightarrow> bool" where
  "mark_effect t b I s s' \<longleftrightarrow>
     (\<exists>m l. s' = put_ctx t ((ctx_array s ! t)\<lparr>uc_log := l\<rparr>)
              (s\<lparr>BitMap := marked_bits b I (BitMap s), Plog_Management := m\<rparr>)) \<and>
     wf_logs (Plog_Management s') (redo_logs s') \<and>
     (\<forall>i. logged s' i = (if i \<in> I \<and> \<not> bm_bits (BitMap s b) i \<and> bm_bits (BitMap s (\<not> b)) i
        then Some (dram s (line_ptr i)) else logged s i))"

lemma mark_effectI:
  assumes "s' = put_ctx t ((ctx_array s ! t)\<lparr>uc_log := l\<rparr>)
      (s\<lparr>BitMap := marked_bits b I (BitMap s), Plog_Management := m\<rparr>)"
    and "wf_logs (Plog_Management s') (redo_logs s')"
    and "\<And>i. logged s' i = (if i \<in> I \<and> \<not> bm_bits (BitMap s b) i \<and> bm_bits (BitMap s (\<not> b)) i
        then Some (dram s (line_ptr i)) else logged s i)"
  shows "mark_effect t b I s s'"
  unfolding mark_effect_def using assms by blast

lemma logged_cong:
  "all_entries s' = all_entries s \<Longrightarrow> logged s' = logged s"
  by (simp add: logged_def fun_eq_iff)

lemma logged_None_iff:
  "i < heap_lines \<Longrightarrow> logged s i = None \<longleftrightarrow> line_ptr i \<notin> fst ` set (all_entries s)"
  by (simp add: logged_def map_of_eq_None_iff)

text \<open>Adding an entry for a line that is not logged.\<close>

lemma logged_insert:
  assumes "wf_logs (Plog_Management s) (redo_logs s)" and "wf_logs (Plog_Management s') (redo_logs s')"
    and "set (all_entries s') = insert (line_ptr i, v) (set (all_entries s))"
    and "i < heap_lines" and "logged s i = None"
  shows "logged s' = (logged s)(i \<mapsto> v)"
proof
  fix j
  have "map_of (all_entries s') = (map_of (all_entries s))(line_ptr i \<mapsto> v)"
    using assms by (intro map_of_insert) (auto simp: wf_logs_def all_entries_def [symmetric]
        logged_None_iff)
  then show "logged s' j = ((logged s)(i \<mapsto> v)) j"
    using assms(4) line_ptr_inj [of j i] by (auto simp: logged_def)
qed

text \<open>A user thread appends a line to its log.\<close>

lemma push_user_log_ok:
  assumes wf: "wf_logs (Plog_Management s) (redo_logs s)" and i: "i < heap_lines"
    and fresh: "logged s i = None" and push: "push_user_log t (line_ptr i, v) s = Inr s'"
  shows "\<exists>m l. s' = put_ctx t ((ctx_array s ! t)\<lparr>uc_log := l\<rparr>) (s\<lparr>Plog_Management := m\<rparr>)"
    and "wf_logs (Plog_Management s') (redo_logs s')" and "logged s' = (logged s)(i \<mapsto> v)"
    and "t < length (ctx_array s)"
proof -
  from push obtain l m where t: "t < length (ctx_array s)"
    and p: "plog_push_back (line_ptr i, v) (uc_log (ctx_array s ! t), Plog_Management s) = Inr (l, m)"
    and s': "s' = put_ctx t ((ctx_array s ! t)\<lparr>uc_log := l\<rparr>) (s\<lparr>Plog_Management := m\<rparr>)"
    by (auto simp: push_user_log_def res_simps)
  show "\<exists>m l. s' = put_ctx t ((ctx_array s ! t)\<lparr>uc_log := l\<rparr>) (s\<lparr>Plog_Management := m\<rparr>)"
    using s' by blast
  show "t < length (ctx_array s)" by (rule t)
  have rl: "redo_logs s' = (redo_logs s)[Suc t := l]" and pm: "Plog_Management s' = m"
    using t by (simp_all add: s' redo_logs_put_ctx)
  have k: "Suc t < length (redo_logs s)" using t by simp
  have p': "plog_push_back (line_ptr i, v) (redo_logs s ! Suc t, Plog_Management s) = Inr (l, m)"
    using p t by (simp add: redo_logs_ctx)
  have nf: "line_ptr i \<notin> fst ` set (logs_contents (Plog_Management s) (redo_logs s))"
    using fresh i by (simp add: logged_None_iff all_entries_def)
  note w = wf_logs_push [OF wf k p' i nf]
  show wf': "wf_logs (Plog_Management s') (redo_logs s')" using w(1) by (simp add: rl pm)
  show "logged s' = (logged s)(i \<mapsto> v)"
    using w(2) by (intro logged_insert [OF wf wf' _ i fresh]) (simp add: all_entries_def rl pm)
qed

text \<open>The three cases of one round: the line has the bit already; only the bit of the other parity; neither.\<close>

lemma mark_line_flagged:
  assumes pre: "mark_pre b I s" and i: "i < heap_lines" and set: "bm_bits (BitMap s b) i"
    and run: "mark_line t b i (line_ptr i) s = Inr (new, s')"
  shows "mark_effect t b {i} s s' \<and> \<not> new"
proof -
  have sz: "bm_size (BitMap s p) = heap_lines" and wf: "wf_logs (Plog_Management s) (redo_logs s)" for p
    using pre by (auto simp: mark_pre_def)
  have res: "s' = s" "\<not> new" using run i sz set by (auto simp: mark_line_def bitmap_is_set_def)
  have "marked_bits b {i} (BitMap s) = BitMap s"
    using set
    by (intro bool_fun_eqI [of _ b])
      (auto simp: marked_bits_same marked_bits_other fun_eq_iff intro!: bm_bits_self)
  then have s': "s = put_ctx t ((ctx_array s ! t)\<lparr>uc_log := uc_log (ctx_array s ! t)\<rparr>)
      (s\<lparr>BitMap := marked_bits b {i} (BitMap s), Plog_Management := Plog_Management s\<rparr>)"
    by (simp add: put_ctx_def)
  have "mark_effect t b {i} s s" by (rule mark_effectI [OF s']) (use wf set in auto)
  with res show ?thesis by simp
qed

lemma mark_line_copies:
  assumes pre: "mark_pre b I s" and iI: "i \<in> I" and i: "i < heap_lines"
    and clear: "\<not> bm_bits (BitMap s b) i" and prev: "bm_bits (BitMap s (\<not> b)) i"
    and run: "mark_line t b i (line_ptr i) s = Inr (new, s')"
  shows "mark_effect t b {i} s s' \<and> new"
proof -
  have sz: "bm_size (BitMap s p) = heap_lines" and wf: "wf_logs (Plog_Management s) (redo_logs s)" and fresh: "logged s i = None" for p
    using pre iI prev by (auto simp: mark_pre_def)
  define s1 where "s1 = s\<lparr>BitMap := (BitMap s)((\<not> b) :=
    (BitMap s (\<not> b))\<lparr>bm_bits := (bm_bits (BitMap s (\<not> b)))(i := False)\<rparr>)\<rparr>"
  have un: "all_entries s1 = all_entries s" "redo_logs s1 = redo_logs s"
    "Plog_Management s1 = Plog_Management s" "ctx_array s1 = ctx_array s"
    by (simp_all add: s1_def all_entries_def)
  from run obtain s2 where p: "push_user_log t (line_ptr i, dram s (line_ptr i)) s1 = Inr s2"
    and fin: "new" "s' = s2\<lparr>BitMap := (BitMap s2)(b :=
      (BitMap s2 b)\<lparr>bm_bits := (bm_bits (BitMap s2 b))(i := True)\<rparr>)\<rparr>"
    using clear prev i sz
    by (auto simp: mark_line_def bitmap_is_set_def bitmap_clear_def bitmap_set_def res_simps
        s1_def split: if_splits)
  note u = push_user_log_ok [OF _ i _ p, unfolded un logged_cong [OF un(1)], OF wf fresh]
  obtain m l where s2: "s2 = put_ctx t ((ctx_array s ! t)\<lparr>uc_log := l\<rparr>) (s1\<lparr>Plog_Management := m\<rparr>)"
    using u(1) by auto
  have "BitMap s' = marked_bits b {i} (BitMap s)"
    using clear
    by (intro bool_fun_eqI [of _ b])
      (auto simp: fin(2) s2 s1_def marked_bits_same marked_bits_other fun_eq_iff intro!: bitmap_t.equality)
  then have s': "s' = put_ctx t ((ctx_array s ! t)\<lparr>uc_log := l\<rparr>)
      (s\<lparr>BitMap := marked_bits b {i} (BitMap s), Plog_Management := m\<rparr>)"
    by (simp add: fin(2) s2 s1_def put_ctx_def)
  have same: "all_entries s' = all_entries s2" "redo_logs s' = redo_logs s2" "Plog_Management s' = Plog_Management s2"
    by (simp_all add: fin(2) all_entries_def)
  have "mark_effect t b {i} s s'"
    by (rule mark_effectI [OF s']) (use u(2,3) prev clear in \<open>simp_all add: same logged_cong [OF same(1)]\<close>)
  with fin(1) show ?thesis by simp
qed

lemma mark_line_first:
  assumes pre: "mark_pre b I s" and i: "i < heap_lines"
    and clear: "\<not> bm_bits (BitMap s b) i" and prev: "\<not> bm_bits (BitMap s (\<not> b)) i"
    and run: "mark_line t b i (line_ptr i) s = Inr (new, s')"
  shows "mark_effect t b {i} s s' \<and> new"
proof -
  have sz: "bm_size (BitMap s p) = heap_lines" and wf: "wf_logs (Plog_Management s) (redo_logs s)" for p
    using pre by (auto simp: mark_pre_def)
  from run have fin: "new" "s' = s\<lparr>BitMap := (BitMap s)(b :=
      (BitMap s b)\<lparr>bm_bits := (bm_bits (BitMap s b))(i := True)\<rparr>)\<rparr>"
    using clear prev i sz
    by (auto simp: mark_line_def bitmap_is_set_def bitmap_set_def res_simps split: if_splits)
  have "BitMap s' = marked_bits b {i} (BitMap s)"
    using clear prev
    by (intro bool_fun_eqI [of _ b])
      (auto simp: fin(2) marked_bits_same marked_bits_other fun_eq_iff intro!: bitmap_t.equality)
  then have s': "s' = put_ctx t ((ctx_array s ! t)\<lparr>uc_log := uc_log (ctx_array s ! t)\<rparr>)
      (s\<lparr>BitMap := marked_bits b {i} (BitMap s), Plog_Management := Plog_Management s\<rparr>)"
    by (simp add: fin(2) put_ctx_def)
  have same: "all_entries s' = all_entries s" "redo_logs s' = redo_logs s" "Plog_Management s' = Plog_Management s"
    by (simp_all add: fin(2) all_entries_def)
  have "mark_effect t b {i} s s'"
    by (rule mark_effectI [OF s']) (use wf prev clear in \<open>auto simp: same logged_cong [OF same(1)]\<close>)
  with fin(1) show ?thesis by simp
qed

lemma mark_line_effect:
  assumes pre: "mark_pre b I s" and iI: "i \<in> I" and i: "i < heap_lines" and t: "t < length (ctx_array s)"
    and run: "mark_line t b i (line_ptr i) s = Inr (new, s')"
  shows "mark_effect t b {i} s s'" and "new \<longleftrightarrow> \<not> bm_bits (BitMap s b) i" and "mark_pre b I s'"
proof -
  have e: "mark_effect t b {i} s s' \<and> (new \<longleftrightarrow> \<not> bm_bits (BitMap s b) i)"
    using mark_line_flagged [OF pre i _ run] mark_line_copies [OF pre iI i _ _ run] mark_line_first [OF pre i _ _ run]
    by (cases "bm_bits (BitMap s b) i"; cases "bm_bits (BitMap s (\<not> b)) i") simp_all
  then show "mark_effect t b {i} s s'" and "new \<longleftrightarrow> \<not> bm_bits (BitMap s b) i" by auto
  show "mark_pre b I s'"
    using e pre unfolding mark_effect_def mark_pre_def by (auto simp: marked_bits_other)
qed

text \<open>Effects compose over disjoint sets of lines.\<close>

lemma mark_effect_frame:
  assumes "mark_effect t b I s s'"
  shows "dram s' = dram s" "nvm s' = nvm s" "nvm_offset s' = nvm_offset s"
    "GLOBAL_EPOCH s' = GLOBAL_EPOCH s" "cp_log s' = cp_log s"
    "length (ctx_array s') = length (ctx_array s)" "BitMap s' = marked_bits b I (BitMap s)"
    "\<And>u. u < length (ctx_array s) \<Longrightarrow> uc_addrlist (ctx_array s' ! u) = uc_addrlist (ctx_array s ! u)"
    "\<And>u. u < length (ctx_array s) \<Longrightarrow> uc_epoch (ctx_array s' ! u) = uc_epoch (ctx_array s ! u)"
proof -
  obtain m l where s': "s' = put_ctx t ((ctx_array s ! t)\<lparr>uc_log := l\<rparr>)
      (s\<lparr>BitMap := marked_bits b I (BitMap s), Plog_Management := m\<rparr>)"
    using assms by (auto simp: mark_effect_def)
  show "dram s' = dram s" "nvm s' = nvm s" "nvm_offset s' = nvm_offset s"
    "GLOBAL_EPOCH s' = GLOBAL_EPOCH s" "cp_log s' = cp_log s"
    "length (ctx_array s') = length (ctx_array s)" "BitMap s' = marked_bits b I (BitMap s)"
    by (simp_all add: s')
  fix u assume "u < length (ctx_array s)"
  then show "uc_addrlist (ctx_array s' ! u) = uc_addrlist (ctx_array s ! u)"
    "uc_epoch (ctx_array s' ! u) = uc_epoch (ctx_array s ! u)"
    by (cases "u = t"; simp add: s')+
qed

lemma marked_bits_Un:
  assumes "i \<notin> J"
  shows "marked_bits b J (marked_bits b {i} B) = marked_bits b (insert i J) B"
  using assms
  by (intro bool_fun_eqI [of _ b])
     (auto simp: marked_bits_same marked_bits_other fun_eq_iff intro!: bitmap_t.equality)

lemma mark_effect_Un:
  assumes e1: "mark_effect t b {i} s s1" and e2: "mark_effect t b J s1 s2"
    and i: "i \<notin> J" and t: "t < length (ctx_array s)"
  shows "mark_effect t b (insert i J) s s2"
proof -
  obtain m1 l1 where s1: "s1 = put_ctx t ((ctx_array s ! t)\<lparr>uc_log := l1\<rparr>)
      (s\<lparr>BitMap := marked_bits b {i} (BitMap s), Plog_Management := m1\<rparr>)"
    using e1 by (auto simp: mark_effect_def)
  obtain m2 l2 where s2: "s2 = put_ctx t ((ctx_array s1 ! t)\<lparr>uc_log := l2\<rparr>)
      (s1\<lparr>BitMap := marked_bits b J (BitMap s1), Plog_Management := m2\<rparr>)"
    using e2 by (auto simp: mark_effect_def)
  note f1 = mark_effect_frame [OF e1]
  have "s2 = put_ctx t ((ctx_array s ! t)\<lparr>uc_log := l2\<rparr>)
      (s\<lparr>BitMap := marked_bits b (insert i J) (BitMap s), Plog_Management := m2\<rparr>)"
    using t by (simp add: s2 f1(7) marked_bits_Un [OF i]) (simp add: s1 put_ctx_def)
  moreover have "logged s2 j = (if j \<in> insert i J \<and> \<not> bm_bits (BitMap s b) j \<and> bm_bits (BitMap s (\<not> b)) j
      then Some (dram s (line_ptr j)) else logged s j)" for j
    using e1 e2 i by (auto simp: mark_effect_def f1(7) marked_bits_same marked_bits_other f1(1))
  ultimately show ?thesis
    using e2 by (intro mark_effectI) (auto simp: mark_effect_def)
qed

lemma mark_effect_empty:
  assumes "wf_logs (Plog_Management s) (redo_logs s)" and "t < length (ctx_array s)"
  shows "mark_effect t b {} s s"
proof (rule mark_effectI)
  have "marked_bits b {} (BitMap s) = BitMap s"
    by (intro bool_fun_eqI [of _ b]) (simp_all add: marked_bits_same marked_bits_other)
  then show "s = put_ctx t ((ctx_array s ! t)\<lparr>uc_log := uc_log (ctx_array s ! t)\<rparr>)
      (s\<lparr>BitMap := marked_bits b {} (BitMap s), Plog_Management := Plog_Management s\<rparr>)"
    by (simp add: put_ctx_def)
qed (use assms in simp_all)

text \<open>The loop of \<^verbatim>\<open>mark\<close> over \<open>n\<close> lines from line \<open>i\<close> on.\<close>

lemma mark_line_bound:
  "mark_line t b i a s = Inr r \<Longrightarrow> bm_size (BitMap s b) = heap_lines \<Longrightarrow> i < heap_lines"
  by (auto simp: mark_line_def bitmap_is_set_def res_simps split: if_splits)

lemma mark_loop_effect:
  assumes "mark_pre b I s" and "{i..<i + n} \<subseteq> I" and "t < length (ctx_array s)"
    and "mark_loop t b n i (line_ptr i) app s = Inr (app', s')"
  shows "mark_effect t b {i..<i + n} s s' \<and>
    (app' \<longleftrightarrow> app \<or> (\<exists>j \<in> {i..<i + n}. \<not> bm_bits (BitMap s b) j)) \<and> (n = 0 \<or> i + n \<le> heap_lines)"
  using assms
proof (induction n arbitrary: i app s)
  case 0
  then show ?case
    using mark_effect_empty by (auto simp: mark_pre_def)
next
  case (Suc n)
  obtain new s1 where l: "mark_line t b i (line_ptr i) s = Inr (new, s1)"
    and rest: "mark_loop t b n (Suc i) (line_ptr (Suc i)) (app \<or> new) s1 = Inr (app', s')"
    using Suc.prems(4) by (auto simp: res_simps line_ptr_Suc simp del: CACHE_LINE_SIZE_64)
  have i: "i < heap_lines" "i \<in> I"
    using mark_line_bound [OF l] Suc.prems(1,2) by (auto simp: mark_pre_def)
  note e = mark_line_effect [OF Suc.prems(1) i(2,1) Suc.prems(3) l]
  note f = mark_effect_frame [OF e(1)]
  have ins: "insert i {Suc i..<Suc i + n} = {i..<i + Suc n}" by auto
  have ih: "mark_effect t b {Suc i..<Suc i + n} s1 s' \<and>
    (app' \<longleftrightarrow> (app \<or> new) \<or> (\<exists>j \<in> {Suc i..<Suc i + n}. \<not> bm_bits (BitMap s1 b) j)) \<and>
    (n = 0 \<or> Suc i + n \<le> heap_lines)"
    using Suc.prems(2,3) f(6) ins by (intro Suc.IH [OF e(3) _ _ rest]) auto
  have "mark_effect t b {i..<i + Suc n} s s'"
    unfolding ins [symmetric] using ih by (intro mark_effect_Un [OF e(1) _ _ Suc.prems(3)]) simp_all
  moreover have "app' \<longleftrightarrow> app \<or> (\<exists>j \<in> insert i {Suc i..<Suc i + n}. \<not> bm_bits (BitMap s b) j)"
    using ih e(2) by (auto simp: f(7) marked_bits_same)
  ultimately show ?case using ih i by (auto simp only: ins)
qed

subsection \<open>A whole call of \<^verbatim>\<open>mark\<close>\<close>

lemma heap_ptr_of_index:
  assumes "bitmap_get_index addr = Inr i"
  obtains k where "k < 64" and "addr = line_ptr i + word_of_nat k"
proof -
  define d where "d = diff_addr addr"
  have d: "0 \<le> d" "i = nat (d div 64)"
    using assms by (auto simp: bitmap_get_index_def res_simps d_def Let_def)
  have "nat d = 64 * i + nat (d mod 64)"
    using d by (simp add: nat_div_distrib nat_mod_distrib)
  moreover have "addr = DRAM_BASE + word_of_nat (nat d)"
    using d(1) by (simp add: d_def diff_addr_def)
  ultimately have "addr = line_ptr i + word_of_nat (nat (d mod 64))"
    by (simp add: line_ptr_def)
  moreover have "nat (d mod 64) < 64" using d(1) by (simp add: nat_less_iff)
  ultimately show ?thesis by (rule that [rotated])
qed

text \<open>The address list of a thread after it has marked \<open>n\<close> lines from line \<open>i\<close> on.\<close>

definition add_region :: "nat \<Rightarrow> bool \<Rightarrow> nat \<Rightarrow> nat \<Rightarrow> ('j, 'z) escort_scheme \<Rightarrow> ('j, 'z) escort_scheme" where
  "add_region t b i n s =
     (let ctx = ctx_array s ! t in
      put_ctx t (ctx\<lparr>uc_addrlist := (uc_addrlist ctx)(b := uc_addrlist ctx b @ [(line_ptr i, n)])\<rparr>) s)"

lemma mark_ok:
  assumes run: "mark t addr sz s = Inr s'" and idx: "bitmap_get_index addr = Inr i"
  defines "b \<equiv> epoch_bit (uc_epoch (ctx_array s ! t))" and "n \<equiv> num_bits sz"
  assumes pre: "mark_pre b {i..<i + n} s"
  obtains s1 where "t < length (ctx_array s)" and "uc_epoch (ctx_array s ! t) \<noteq> 0"
    and "n = 0 \<or> i + n \<le> heap_lines" and "mark_effect t b {i..<i + n} s s1"
    and "s' = (if \<exists>j \<in> {i..<i + n}. \<not> bm_bits (BitMap s b) j then add_region t b i n s1 else s1)"
proof -
  obtain k where k: "k < 64" "addr = line_ptr i + word_of_nat k"
    using idx by (rule heap_ptr_of_index)
  from run idx obtain app s1 where t: "t < length (ctx_array s)" and e: "uc_epoch (ctx_array s ! t) \<noteq> 0"
    and loop: "mark_loop t b n i (align_down addr) False s = Inr (app, s1)"
    and tail: "(if app then rbind (get_ctx t s1) (\<lambda>ctx. Inr (put_ctx t (ctx\<lparr>uc_addrlist :=
        (uc_addrlist ctx)(b := addrlist_append (uc_addrlist ctx b) (align_down addr, n))\<rparr>) s1))
      else Inr s1) = Inr s'"
    unfolding mark_def Let_def res_simps b_def n_def by auto
  from tail have fin: "s' = (if app then put_ctx t ((ctx_array s1 ! t)\<lparr>uc_addrlist :=
        (uc_addrlist (ctx_array s1 ! t))(b := uc_addrlist (ctx_array s1 ! t) b @ [(align_down addr, n)])\<rparr>) s1
      else s1)"
    by (auto simp: res_simps addrlist_append_def split: if_splits)
  show ?thesis
  proof (cases n)
    case 0
    with loop have "s1 = s" "\<not> app" by auto
    moreover have "mark_effect t b {i..<i + n} s s"
      using mark_effect_empty t pre 0 by (auto simp: mark_pre_def)
    ultimately show ?thesis using that [of s] t e fin 0 by simp
  next
    case (Suc n')
    have "i < heap_lines"
      using loop pre mark_line_bound [of t b i "align_down addr" s]
      by (auto simp: Suc res_simps mark_pre_def)
    then have al: "align_down addr = line_ptr i"
      using k by (simp add: align_down_heap)
    have "mark_effect t b {i..<i + n} s s1 \<and>
      (app \<longleftrightarrow> False \<or> (\<exists>j \<in> {i..<i + n}. \<not> bm_bits (BitMap s b) j)) \<and> (n = 0 \<or> i + n \<le> heap_lines)"
      using loop by (intro mark_loop_effect [OF pre order_refl t]) (simp add: al)
    then show ?thesis
      using that [of s1] t e fin by (simp add: al add_region_def Let_def)
  qed
qed

text \<open>Without a line flagged for the other parity there is no copy on write: no log changes.\<close>

lemma mark_loop_no_cow:
  assumes "mark_loop t b n i a app s = Inr (app', s')"
    and "\<And>j. j < bm_size (BitMap s (\<not> b)) \<Longrightarrow> \<not> bm_bits (BitMap s (\<not> b)) j"
  shows "\<exists>x. s' = s\<lparr>BitMap := (BitMap s)(b := x)\<rparr>"
  using assms
proof (induction n arbitrary: i a app s)
  case 0
  then have "s' = s\<lparr>BitMap := (BitMap s)(b := BitMap s b)\<rparr>" by simp
  then show ?case by blast
next
  case (Suc n)
  obtain new s1 where l: "mark_line t b i a s = Inr (new, s1)"
    and rest: "mark_loop t b n (i + 1) (add_addr a (word_of_nat CACHE_LINE_SIZE)) (app \<or> new) s1 = Inr (app', s')"
    using Suc.prems(1) by (auto simp: res_simps simp del: CACHE_LINE_SIZE_64)
  have "s1 = s \<or> (\<exists>x. s1 = s\<lparr>BitMap := (BitMap s)(b := x)\<rparr>)"
    using l Suc.prems(2) [of i]
    by (auto simp: mark_line_def bitmap_is_set_def res_simps split: if_splits)
  then obtain x where s1: "s1 = s\<lparr>BitMap := (BitMap s)(b := x)\<rparr>"
    using that [of "BitMap s b"] by auto
  have "\<exists>y. s' = s1\<lparr>BitMap := (BitMap s1)(b := y)\<rparr>"
    by (rule Suc.IH [OF rest]) (use Suc.prems(2) in \<open>simp add: s1\<close>)
  then obtain y where "s' = s1\<lparr>BitMap := (BitMap s1)(b := y)\<rparr>" by blast
  then have "s' = s\<lparr>BitMap := (BitMap s)(b := y)\<rparr>" by (simp add: s1)
  then show ?case by blast
qed

lemma mark_no_cow:
  assumes run: "mark t addr sz s = Inr s'"
    and clear: "\<And>j b. b \<longleftrightarrow> \<not> epoch_bit (uc_epoch (ctx_array s ! t)) \<Longrightarrow> j < bm_size (BitMap s b) \<Longrightarrow>
      \<not> bm_bits (BitMap s b) j"
  shows "Plog_Management s' = Plog_Management s" and "redo_logs s' = redo_logs s"
proof -
  define b where "b = epoch_bit (uc_epoch (ctx_array s ! t))"
  from run obtain index app s1 where t: "t < length (ctx_array s)"
    and loop: "mark_loop t b (num_bits sz) index (align_down addr) False s = Inr (app, s1)"
    and fin: "s' = s1 \<or> (\<exists>l. s' = put_ctx t ((ctx_array s1 ! t)\<lparr>uc_addrlist := l\<rparr>) s1)"
    unfolding mark_def Let_def b_def by (auto simp: res_simps split: if_splits)
  obtain x where "s1 = s\<lparr>BitMap := (BitMap s)(b := x)\<rparr>"
    using mark_loop_no_cow [OF loop] clear [of "\<not> b"] by (auto simp: b_def)
  with fin t show "Plog_Management s' = Plog_Management s" "redo_logs s' = redo_logs s"
    by (auto simp: redo_logs_put_ctx_same)
qed

subsection \<open>A store\<close>

lemma store_byte_other:
  assumes "x < 64 * heap_lines" and "a \<noteq> line_ptr (x div 64)"
  shows "store_byte (DRAM_BASE + word_of_nat x) v mem a = mem a"
proof -
  have "DRAM_BASE + word_of_nat x = line_ptr (x div 64) + word_of_nat (x mod 64)"
    using of_nat_add [of "64 * (x div 64)" "x mod 64", where 'a = "64 word"]
    by (simp add: line_ptr_def del: of_nat_add)
  moreover have "x div 64 < heap_lines" using assms(1) by (simp add: less_mult_imp_div_less mult.commute)
  ultimately have "align_down (DRAM_BASE + word_of_nat x) = line_ptr (x div 64)"
    by (simp only:) (rule align_down_heap, simp_all)
  with assms(2) show ?thesis by (simp add: store_byte_def Let_def)
qed

text \<open>A store changes only the lines that hold one of its bytes.\<close>

lemma store_bytes_other:
  assumes "x + length bs \<le> 64 * heap_lines"
    and "\<And>j. x div 64 \<le> j \<Longrightarrow> 64 * j < x + length bs \<Longrightarrow> a \<noteq> line_ptr j"
  shows "store_bytes (DRAM_BASE + word_of_nat x) bs mem a = mem a"
  using assms
proof (induction bs arbitrary: x mem)
  case Nil
  then show ?case by simp
next
  case (Cons c bs)
  have step: "DRAM_BASE + word_of_nat x + 1 = DRAM_BASE + word_of_nat (Suc x)" by simp
  have "a \<noteq> line_ptr (x div 64)"
    using Cons.prems(2) [of "x div 64"] by simp
  then have here: "store_byte (DRAM_BASE + word_of_nat x) c mem a = mem a"
    using Cons.prems(1) by (intro store_byte_other) simp_all
  have "store_bytes (DRAM_BASE + word_of_nat (Suc x)) bs (store_byte (DRAM_BASE + word_of_nat x) c mem) a =
      store_byte (DRAM_BASE + word_of_nat x) c mem a"
  proof (rule Cons.IH)
    show "Suc x + length bs \<le> 64 * heap_lines" using Cons.prems(1) by simp
    fix j assume j: "Suc x div 64 \<le> j" "64 * j < Suc x + length bs"
    have "x div 64 \<le> Suc x div 64" by (rule div_le_mono) simp
    with j show "a \<noteq> line_ptr j" by (intro Cons.prems(2)) simp_all
  qed
  with here show ?case by (simp only: store_bytes.simps step)
qed

subsection \<open>The checkpointing thread logs a line\<close>

lemma log_line_ok:
  assumes wf: "wf_logs (Plog_Management s) (redo_logs s)" and i: "i < heap_lines"
    and fresh: "bm_bits (BitMap s p) i \<Longrightarrow> logged s i = None"
    and run: "log_line p i (line_ptr i) s = Inr s'"
  shows "if bm_bits (BitMap s p) i then
      (\<exists>l m. s' = s\<lparr>cp_log := l, Plog_Management := m, BitMap := (BitMap s)(p :=
         (BitMap s p)\<lparr>bm_bits := (bm_bits (BitMap s p))(i := False)\<rparr>)\<rparr>) \<and>
      wf_logs (Plog_Management s') (redo_logs s') \<and> logged s' = (logged s)(i \<mapsto> dram s (line_ptr i))
    else s' = s"
proof (cases "bm_bits (BitMap s p) i")
  case False
  with run show ?thesis by (auto simp: log_line_def bitmap_is_set_def res_simps split: if_splits)
next
  case True
  with run obtain l m where
    p: "plog_push_back (line_ptr i, dram s (line_ptr i)) (redo_logs s ! 0, Plog_Management s) = Inr (l, m)"
    and s': "s' = s\<lparr>cp_log := l, Plog_Management := m, BitMap := (BitMap s)(p :=
         (BitMap s p)\<lparr>bm_bits := (bm_bits (BitMap s p))(i := False)\<rparr>)\<rparr>"
    by (auto simp: log_line_def bitmap_is_set_def bitmap_clear_def res_simps redo_logs_def split: if_splits)
  have rl: "redo_logs s' = (redo_logs s)[0 := l]" and pm: "Plog_Management s' = m"
    by (simp_all add: s' redo_logs_def)
  have nf: "line_ptr i \<notin> fst ` set (logs_contents (Plog_Management s) (redo_logs s))"
    using fresh [OF True] i by (simp add: logged_None_iff all_entries_def)
  note w = wf_logs_push [OF wf _ p i nf, unfolded length_redo_logs, OF zero_less_Suc]
  have wf': "wf_logs (Plog_Management s') (redo_logs s')" using w(1) by (simp add: rl pm)
  moreover have "logged s' = (logged s)(i \<mapsto> dram s (line_ptr i))"
    using w(2) by (intro logged_insert [OF wf wf' _ i fresh [OF True]]) (simp add: all_entries_def rl pm)
  ultimately show ?thesis using True s' by auto
qed

end
