(* ===== verification/HeapFrame.thy ===== *)
theory HeapFrame
  imports RedoLogs
begin

section \<open>The operations that leave the two heaps and the line logs alone\<close>

text \<open>
  \<open>same_heap\<close>: two states agree on everything the consistency of the NVM heap rests on,
  that is, on all but the byte maps, the allocator logs, the delayed deallocations and the
  memory allocator. \<^verbatim>\<open>malloc\<close>, \<^verbatim>\<open>free\<close> and the helper threads of the checkpoint
  keep it.
\<close>

definition ctx_core :: "userthreadctx_t \<Rightarrow> epoch_t \<times> (bool \<Rightarrow> addrlist_t) \<times> plog_t" where
  "ctx_core ctx = (uc_epoch ctx, uc_addrlist ctx, uc_log ctx)"

definition same_heap :: "('j, 'z) escort_scheme \<Rightarrow> ('j, 'z) escort_scheme \<Rightarrow> bool" where
  "same_heap s s' \<longleftrightarrow>
     GLOBAL_EPOCH s' = GLOBAL_EPOCH s \<and> BitMap s' = BitMap s \<and>
     Plog_Management s' = Plog_Management s \<and> cp_log s' = cp_log s \<and> dram s' = dram s \<and>
     nvm s' = nvm s \<and> nvm_offset s' = nvm_offset s \<and>
     map ctx_core (ctx_array s') = map ctx_core (ctx_array s)"

lemma same_heap_refl [simp]: "same_heap s s"
  by (simp add: same_heap_def)

lemma same_heap_trans: "same_heap s u \<Longrightarrow> same_heap u v \<Longrightarrow> same_heap s v"
  by (simp add: same_heap_def)

lemma same_heap_upd [simp]:
  "same_heap s (s'\<lparr>ByteMap := x1\<rparr>) = same_heap s s'"
  "same_heap s (s'\<lparr>ByteMap_NVM := x2\<rparr>) = same_heap s s'"
  "same_heap s (s'\<lparr>Allocatorlog_Management := x3\<rparr>) = same_heap s s'"
  "same_heap s (s'\<lparr>heap_alloc := x4\<rparr>) = same_heap s s'"
  by (simp_all add: same_heap_def)

lemma same_heap_put_ctx:
  assumes "ctx_core ctx = ctx_core (ctx_array s' ! t)"
  shows "same_heap s (put_ctx t ctx s') = same_heap s s'"
proof -
  have "map ctx_core ((ctx_array s')[t := ctx]) = map ctx_core (ctx_array s')"
    using assms by (cases "t < length (ctx_array s')")
      (simp_all add: map_update list_update_same_conv list_update_beyond)
  then show ?thesis by (simp add: same_heap_def)
qed

lemma ctx_core_upd [simp]:
  "ctx_core (ctx\<lparr>uc_allocatorlog := x\<rparr>) = ctx_core ctx"
  "ctx_core (ctx\<lparr>uc_delay_dealloc := y\<rparr>) = ctx_core ctx"
  by (simp_all add: ctx_core_def)

lemma same_heap_length: "same_heap s s' \<Longrightarrow> length (ctx_array s') = length (ctx_array s)"
  unfolding same_heap_def by (metis length_map)

lemma same_heap_ctx:
  assumes "same_heap s s'" and "t < length (ctx_array s)"
  shows "uc_epoch (ctx_array s' ! t) = uc_epoch (ctx_array s ! t)"
    and "uc_addrlist (ctx_array s' ! t) = uc_addrlist (ctx_array s ! t)"
    and "uc_log (ctx_array s' ! t) = uc_log (ctx_array s ! t)"
proof -
  have "map ctx_core (ctx_array s') ! t = map ctx_core (ctx_array s) ! t"
    using assms(1) by (simp add: same_heap_def)
  then have "ctx_core (ctx_array s' ! t) = ctx_core (ctx_array s ! t)"
    using assms(2) same_heap_length [OF assms(1)] by simp
  then show "uc_epoch (ctx_array s' ! t) = uc_epoch (ctx_array s ! t)"
    "uc_addrlist (ctx_array s' ! t) = uc_addrlist (ctx_array s ! t)"
    "uc_log (ctx_array s' ! t) = uc_log (ctx_array s ! t)"
    by (simp_all add: ctx_core_def)
qed

lemma redo_logs_core: "redo_logs s = cp_log s # map (snd \<circ> snd) (map ctx_core (ctx_array s))"
  by (simp add: redo_logs_def ctx_core_def comp_def)

lemma same_heap_redo_logs: "same_heap s s' \<Longrightarrow> redo_logs s' = redo_logs s"
  unfolding redo_logs_core same_heap_def by (simp del: map_map)

subsection \<open>The helper threads\<close>

lemma rfold_same_heap:
  assumes "rfold f xs s = Inr s'"
    and "\<And>x a b. f x a = Inr b \<Longrightarrow> same_heap s a \<Longrightarrow> same_heap s b"
  shows "same_heap s s'"
  by (rule rfold_invariant [OF assms(1) same_heap_refl]) (rule assms(2))

lemma check_valid_entry_same_heap:
  "check_valid_entry p b i s = Inr s' \<Longrightarrow> same_heap s s'"
  by (auto simp: check_valid_entry_def Let_def res_simps split: if_splits)

lemma check_valid_block_same_heap: "check_valid_block p b s = Inr s' \<Longrightarrow> same_heap s s'"
  unfolding check_valid_block_def
  by (erule rfold_same_heap) (blast intro: same_heap_trans check_valid_entry_same_heap)

lemma check_valid_same_heap:
  assumes "check_valid s = Inr s'"
  shows "same_heap s s'"
proof (rule rfold_same_heap [OF assms [unfolded check_valid_def Let_def]], goal_cases)
  case (1 t a b)
  then have "rfold (check_valid_block (prev_parity s)) (uc_allocatorlog (ctx_array a ! t) (prev_parity s)) a = Inr b"
    by (auto simp: res_simps)
  then have "same_heap a b"
    by (rule rfold_same_heap) (blast intro: same_heap_trans check_valid_block_same_heap)
  with 1(2) show ?case by (rule same_heap_trans)
qed

lemma record_sizes_entry_same_heap: "record_sizes_entry b i s = Inr s' \<Longrightarrow> same_heap s s'"
  by (auto simp: record_sizes_entry_def Let_def res_simps)

lemma record_sizes_block_same_heap: "record_sizes_block b s = Inr s' \<Longrightarrow> same_heap s s'"
  unfolding record_sizes_block_def
  by (erule rfold_same_heap) (blast intro: same_heap_trans record_sizes_entry_same_heap)

lemma cpallocator_checkpointing_same_heap:
  assumes "cpallocator_checkpointing s = Inr s'"
  shows "same_heap s s'"
proof (rule rfold_same_heap [OF assms [unfolded cpallocator_checkpointing_def Let_def]], goal_cases)
  case (1 t a b)
  obtain u where u: "rfold record_sizes_block (uc_allocatorlog (ctx_array a ! t) (prev_parity s)) a = Inr u"
    and b: "\<exists>x m. b = put_ctx t ((ctx_array a ! t)\<lparr>uc_allocatorlog := x\<rparr>) (u\<lparr>Allocatorlog_Management := m\<rparr>)"
    and t: "t < length (ctx_array a)"
    using 1(1) by (auto simp: res_simps split_beta)
  have au: "same_heap a u"
    by (rule rfold_same_heap [OF u]) (blast intro: same_heap_trans record_sizes_block_same_heap)
  have "ctx_core (ctx_array u ! t) = ctx_core (ctx_array a ! t)"
    using same_heap_ctx [OF au t] by (simp add: ctx_core_def)
  with b have "same_heap a b" using au by (auto simp: same_heap_put_ctx)
  with 1(2) show ?case by (rule same_heap_trans)
qed

lemma dealloc_frees_same_heap:
  "same_heap s (fold (\<lambda>addr s. s\<lparr>heap_alloc := al_free al addr (heap_alloc s)\<rparr>) as s) \<and>
   ctx_array (fold (\<lambda>addr s. s\<lparr>heap_alloc := al_free al addr (heap_alloc s)\<rparr>) as s) = ctx_array s"
proof (induction as arbitrary: s)
  case Nil
  then show ?case by simp
next
  case (Cons a as)
  let ?s = "s\<lparr>heap_alloc := al_free al a (heap_alloc s)\<rparr>"
  have "same_heap s ?s" by simp
  from same_heap_trans [OF this] Cons [of ?s] show ?case by simp
qed

lemma dealloc_same_heap: "dealloc al s = Inr s' \<Longrightarrow> same_heap s s'"
  unfolding dealloc_def
  by (erule rfold_same_heap)
     (auto simp: dealloc_ctx_def Let_def res_simps same_heap_put_ctx dealloc_frees_same_heap
       intro: same_heap_trans)

subsection \<open>\<^verbatim>\<open>malloc\<close> and \<^verbatim>\<open>free\<close>\<close>

lemma record_alloc_op_same_heap: "record_alloc_op t e a sz s = Inr s' \<Longrightarrow> same_heap s s'"
  by (auto simp: record_alloc_op_def Let_def res_simps same_heap_put_ctx split: if_splits)

text \<open>
  A call outside an operation runs in an operation of its own: what the body does between
  \<^verbatim>\<open>begin_op\<close> and \<^verbatim>\<open>end_op\<close> keeps the heap part, so the whole does.
\<close>

lemma own_op_same_heap:
  assumes "begin_op t s = Inr u" and "same_heap u v" and "end_op t v = Inr w"
    and "uc_epoch (ctx_array s ! t) = 0"
  shows "same_heap s w"
proof -
  from assms(1) have t: "t < length (ctx_array s)"
    and u: "u = put_ctx t ((ctx_array s ! t)\<lparr>uc_epoch := GLOBAL_EPOCH s\<rparr>) s"
    by (auto simp: begin_op_def Let_def res_simps)
  from assms(3) have w: "w = put_ctx t ((ctx_array v ! t)\<lparr>uc_epoch := 0\<rparr>) v"
    by (auto simp: end_op_def res_simps)
  have tu: "t < length (ctx_array u)" using t by (simp add: u)
  have "ctx_core ((ctx_array v ! t)\<lparr>uc_epoch := 0\<rparr>) = ctx_core (ctx_array s ! t)"
    using same_heap_ctx [OF assms(2) tu] assms(4) t by (simp add: ctx_core_def u)
  moreover have "map ctx_core (ctx_array v) = (map ctx_core (ctx_array s))[t := ctx_core ((ctx_array s ! t)\<lparr>uc_epoch := GLOBAL_EPOCH s\<rparr>)]"
    using assms(2) by (simp add: same_heap_def u map_update)
  ultimately have "map ctx_core ((ctx_array v)[t := (ctx_array v ! t)\<lparr>uc_epoch := 0\<rparr>]) = map ctx_core (ctx_array s)"
    using t by (simp add: map_update list_update_same_conv)
  then show ?thesis
    using assms(2) by (simp add: same_heap_def w u)
qed

lemma malloc_same_heap:
  assumes "malloc_with_create_log al t sz s = Inr (p, s')"
  shows "same_heap s s'"
proof (cases "uc_epoch (ctx_array s ! t) = 0")
  case True
  with assms obtain u v where be: "begin_op t s = Inr u" "end_op t v = Inr s'"
    and b: "record_alloc_op t (uc_epoch (ctx_array u ! t)) p sz
      (u\<lparr>heap_alloc := snd (al_malloc al sz (heap_alloc u))\<rparr>) = Inr v"
    by (auto simp: malloc_with_create_log_def Let_def res_simps split_beta)
  have "same_heap u v"
    by (rule same_heap_trans [OF _ record_alloc_op_same_heap [OF b]]) simp
  then show ?thesis by (rule own_op_same_heap [OF be(1) _ be(2) True])
next
  case False
  with assms have b: "record_alloc_op t (uc_epoch (ctx_array s ! t)) p sz
      (s\<lparr>heap_alloc := snd (al_malloc al sz (heap_alloc s))\<rparr>) = Inr s'"
    by (auto simp: malloc_with_create_log_def Let_def res_simps split_beta)
  show ?thesis by (rule same_heap_trans [OF _ record_alloc_op_same_heap [OF b]]) simp
qed

text \<open>The part of \<^verbatim>\<open>free\<close> after the bookkeeping.\<close>

definition release_or_delay ::
  "'j allocator \<Rightarrow> nat \<Rightarrow> epoch_t \<Rightarrow> ptr \<Rightarrow> ('j, 'z) escort_scheme \<Rightarrow> ('j, 'z) escort_scheme res" where
  "release_or_delay al t epoch addr s =
     rbind (get_phase epoch) (\<lambda>phase.
     if phase = Multi_Epoch_Existence then
       rbind (get_ctx t s) (\<lambda>ctx.
       Inr (put_ctx t (ctx\<lparr>uc_delay_dealloc := (uc_delay_dealloc ctx)(epoch_bit epoch :=
         uc_delay_dealloc ctx (epoch_bit epoch) @ [addr])\<rparr>) s))
     else Inr (s\<lparr>heap_alloc := al_free al addr (heap_alloc s)\<rparr>))"

lemma release_or_delay_same_heap: "release_or_delay al t e a s = Inr s' \<Longrightarrow> same_heap s s'"
  by (auto simp: release_or_delay_def res_simps same_heap_put_ctx split: if_splits)

lemma free_with_create_log_unfold:
  "free_with_create_log al t addr sz s =
     rbind (get_ctx t s) (\<lambda>ctx.
     rbind (if uc_epoch ctx = 0 then begin_op t s else Inr s) (\<lambda>u.
     rbind (get_ctx t u) (\<lambda>c.
     rbind (rbind (record_alloc_op t (uc_epoch c) addr sz u) (release_or_delay al t (uc_epoch c) addr)) (\<lambda>v.
     if uc_epoch ctx = 0 then end_op t v else Inr v))))"
  by (simp add: free_with_create_log_def release_or_delay_def Let_def rbind_assoc)

lemma free_same_heap:
  assumes "free_with_create_log al t a sz s = Inr s'"
  shows "same_heap s s'"
proof -
  have body: "same_heap u v"
    if "rbind (record_alloc_op t e a sz u) (release_or_delay al t e a) = Inr v" for e u v
    using that by (auto simp: res_simps intro: same_heap_trans record_alloc_op_same_heap
        release_or_delay_same_heap)
  obtain u v where 1: "(if uc_epoch (ctx_array s ! t) = 0 then begin_op t s else Inr s) = Inr u"
    and 2: "rbind (record_alloc_op t (uc_epoch (ctx_array u ! t)) a sz u)
       (release_or_delay al t (uc_epoch (ctx_array u ! t)) a) = Inr v"
    and 3: "(if uc_epoch (ctx_array s ! t) = 0 then end_op t v else Inr v) = Inr s'"
    using assms unfolding free_with_create_log_unfold rbind_eq_Inr [of "get_ctx t _"]
      rbind_eq_Inr [of "if _ then _ else _"] rbind_eq_Inr [of "rbind _ _"] get_ctx_Inr
    by blast
  show ?thesis
    using 1 3 body [OF 2] own_op_same_heap [of t s u v s'] by (auto split: if_splits)
qed

end
