(* ===== verification/LineMachine.thy ===== *)
theory LineMachine
  imports Prelude
begin

section \<open>What checkpointing promises, and why its method keeps the promise\<close>

text \<open>
  Two abstract machines over the lines of the heap, numbered by \<open>nat\<close>.

  \<open>spec\<close> is the promise to the client: there is the live heap, the heap as the closed epoch
  left it (\<open>sp_sealed\<close>), and the heap a crash falls back to (\<open>sp_durable\<close>). A write
  belongs to the closed epoch exactly when its thread began before the epoch was closed.

  \<open>lmach\<close> is the method: two sets of modified lines, copy on write into a log, and a
  checkpoint in stages. It abstracts from blocks, lists, words and the order of the loops of
  the code. The invariant \<open>lm_inv\<close> connects the two; the theory \<^verbatim>\<open>CheckpointSteps\<close> shows
  that the code implements \<open>lmach\<close>.
\<close>

subsection \<open>The promise\<close>

record 'l spec =
  sp_live :: "nat \<Rightarrow> 'l"
  sp_sealed :: "nat \<Rightarrow> 'l"
  sp_durable :: "nat \<Rightarrow> 'l"

text \<open>
  \<open>Write old I d\<close>: a write to the lines \<open>I\<close>, which now hold \<open>d\<close>, by a thread of the
  closed epoch (\<open>old\<close>) or of the current one. \<open>Boundary\<close>: an epoch is closed. \<open>Commit\<close>:
  the closed epoch becomes durable. \<open>Tau\<close>: nothing the client can see.
\<close>

datatype 'l event = Tau | Write bool "nat set" "nat \<Rightarrow> 'l" | Boundary | Commit

fun spec_step :: "'l event \<Rightarrow> 'l spec \<Rightarrow> 'l spec" where
  "spec_step Tau sp = sp"
| "spec_step (Write old I d) sp =
     sp\<lparr>sp_live := override_on (sp_live sp) d I,
        sp_sealed := (if old then override_on (sp_sealed sp) d I else sp_sealed sp)\<rparr>"
| "spec_step Boundary sp = sp\<lparr>sp_sealed := sp_live sp\<rparr>"
| "spec_step Commit sp = sp\<lparr>sp_durable := sp_sealed sp\<rparr>"

definition spec_init :: "(nat \<Rightarrow> 'l) \<Rightarrow> 'l spec" where
  "spec_init h = \<lparr>sp_live = h, sp_sealed = h, sp_durable = h\<rparr>"

text \<open>What a stretch of events leaves alone.\<close>

lemma sealed_kept:
  "\<forall>ev \<in> set es. ev = Tau \<or> (\<exists>I d. ev = Write False I d) \<Longrightarrow>
   sp_sealed (foldr spec_step es sp) = sp_sealed sp"
  by (induction es) auto

text \<open>The writes of the closed epoch in a stretch of events (the latest first), applied to a heap.\<close>

fun closed_writes :: "'l event list \<Rightarrow> (nat \<Rightarrow> 'l) \<Rightarrow> nat \<Rightarrow> 'l" where
  "closed_writes [] h = h"
| "closed_writes (Write True I d # es) h = override_on (closed_writes es h) d I"
| "closed_writes (_ # es) h = closed_writes es h"

lemma sealed_writes: "Boundary \<notin> set es \<Longrightarrow> sp_sealed (foldr spec_step es sp) = closed_writes es (sp_sealed sp)"
  by (induction es "sp_sealed sp" rule: closed_writes.induct) simp_all

lemma closed_writes_none: "\<forall>I d. Write True I d \<notin> set es \<Longrightarrow> closed_writes es h = h"
  by (induction es h rule: closed_writes.induct) auto

lemma durable_kept: "Commit \<notin> set es \<Longrightarrow> sp_durable (foldr spec_step es sp) = sp_durable sp"
proof (induction es)
  case Nil
  then show ?case by simp
next
  case (Cons e es)
  then show ?case by (cases e) auto
qed

subsection \<open>The method\<close>

text \<open>\<open>Updating R\<close>: the logged lines \<open>R\<close> remain to be copied to the NVM heap.\<close>

datatype stage = Idle | Sealing | Logging | Updating "nat set"

record 'l lmach =
  lm_stage :: stage
  lm_cur :: "nat set"
  lm_prev :: "nat set"
  lm_dram :: "nat \<Rightarrow> 'l"
  lm_nvm :: "nat \<Rightarrow> 'l"
  lm_log :: "nat \<rightharpoonup> 'l"
  lm_new :: "nat set"
  lm_old :: "nat set"

definition overlay :: "('a \<rightharpoonup> 'l) \<Rightarrow> ('a \<Rightarrow> 'l) \<Rightarrow> 'a \<Rightarrow> 'l" where
  "overlay log h i = (case log i of Some v \<Rightarrow> v | None \<Rightarrow> h i)"

inductive lm_step :: "'l lmach \<Rightarrow> 'l event \<Rightarrow> 'l lmach \<Rightarrow> bool" where
  lm_idle: "lm_step m Tau m"
| lm_begin: "lm_step m Tau (m\<lparr>lm_new := insert t (lm_new m), lm_old := lm_old m - {t}\<rparr>)"
| lm_end: "lm_step m Tau (m\<lparr>lm_new := lm_new m - {t}, lm_old := lm_old m - {t}\<rparr>)"
| lm_write_new: "t \<in> lm_new m \<Longrightarrow> (\<And>i. i \<notin> I \<Longrightarrow> d i = lm_dram m i) \<Longrightarrow>
    lm_step m (Write False I d) (m\<lparr>lm_dram := d,
      lm_log := (\<lambda>i. if i \<in> (I - lm_cur m) \<inter> lm_prev m then Some (lm_dram m i) else lm_log m i),
      lm_prev := lm_prev m - (I - lm_cur m), lm_cur := lm_cur m \<union> I\<rparr>)"
| lm_write_old: "t \<in> lm_old m \<Longrightarrow> I \<inter> lm_cur m = {} \<Longrightarrow> (\<And>i. i \<notin> I \<Longrightarrow> d i = lm_dram m i) \<Longrightarrow>
    lm_step m (Write True I d) (m\<lparr>lm_dram := d, lm_prev := lm_prev m \<union> I\<rparr>)"
| lm_seal: "lm_stage m = Idle \<Longrightarrow>
    lm_step m Boundary (m\<lparr>lm_stage := Sealing, lm_prev := lm_cur m, lm_cur := {},
      lm_old := lm_new m, lm_new := {}\<rparr>)"
| lm_waited: "lm_stage m = Sealing \<Longrightarrow> lm_old m = {} \<Longrightarrow> lm_step m Tau (m\<lparr>lm_stage := Logging\<rparr>)"
| lm_log_line: "lm_stage m = Logging \<Longrightarrow> i \<in> lm_prev m \<Longrightarrow>
    lm_step m Tau (m\<lparr>lm_log := (lm_log m)(i \<mapsto> lm_dram m i), lm_prev := lm_prev m - {i}\<rparr>)"
| lm_commit: "lm_stage m = Logging \<Longrightarrow> lm_prev m = {} \<Longrightarrow>
    lm_step m Commit (m\<lparr>lm_stage := Updating (dom (lm_log m))\<rparr>)"
| lm_update: "lm_stage m = Updating R \<Longrightarrow> i \<in> R \<Longrightarrow> lm_log m i = Some v \<Longrightarrow>
    lm_step m Tau (m\<lparr>lm_nvm := (lm_nvm m)(i := v), lm_stage := Updating (R - {i})\<rparr>)"
| lm_finish: "lm_stage m = Updating {} \<Longrightarrow>
    lm_step m Tau (m\<lparr>lm_stage := Idle, lm_log := Map.empty\<rparr>)"

text \<open>What a recovery that follows the method makes of the NVM heap after a crash.\<close>

definition lm_recovered :: "'l lmach \<Rightarrow> nat \<Rightarrow> 'l" where
  "lm_recovered m = (case lm_stage m of Updating _ \<Rightarrow> overlay (lm_log m) (lm_nvm m) | _ \<Rightarrow> lm_nvm m)"

subsection \<open>The invariant\<close>

definition logging_inv :: "'l lmach \<Rightarrow> 'l spec \<Rightarrow> bool" where
  "logging_inv m sp \<longleftrightarrow>
     lm_nvm m = sp_durable sp \<and> dom (lm_log m) \<inter> lm_prev m = {} \<and>
     (\<forall>i. i \<notin> lm_cur m \<longrightarrow> lm_dram m i = sp_sealed sp i) \<and>
     (\<forall>i. i \<notin> lm_prev m \<longrightarrow> overlay (lm_log m) (lm_nvm m) i = sp_sealed sp i)"

definition lm_inv :: "'l lmach \<Rightarrow> 'l spec \<Rightarrow> bool" where
  "lm_inv m sp \<longleftrightarrow>
     sp_live sp = lm_dram m \<and> lm_prev m \<inter> lm_cur m = {} \<and> lm_new m \<inter> lm_old m = {} \<and>
     (case lm_stage m of
        Idle \<Rightarrow> lm_old m = {} \<and> lm_prev m = {} \<and> lm_log m = Map.empty \<and> lm_nvm m = sp_durable sp \<and>
          (\<forall>i. i \<notin> lm_cur m \<longrightarrow> lm_dram m i = lm_nvm m i)
      | Sealing \<Rightarrow> logging_inv m sp \<and> dom (lm_log m) \<subseteq> lm_cur m
      | Logging \<Rightarrow> lm_old m = {} \<and> logging_inv m sp
      | Updating R \<Rightarrow> lm_old m = {} \<and> lm_prev m = {} \<and> sp_durable sp = sp_sealed sp \<and>
          (\<forall>i. i \<notin> lm_cur m \<longrightarrow> lm_dram m i = sp_sealed sp i) \<and> R \<subseteq> dom (lm_log m) \<and>
          (\<forall>i. overlay (lm_log m) (lm_nvm m) i = sp_sealed sp i) \<and>
          (\<forall>i. i \<notin> R \<longrightarrow> lm_nvm m i = sp_sealed sp i))"

lemma overlay_upd [simp]: "overlay (log(i \<mapsto> v)) h j = (if j = i then v else overlay log h j)"
  by (simp add: overlay_def)

lemma overlay_empty [simp]: "overlay Map.empty h = h"
  by (simp add: overlay_def fun_eq_iff)

lemma overlay_override:
  "overlay (\<lambda>i. if i \<in> S then Some (f i) else log i) h j = (if j \<in> S then f j else overlay log h j)"
  by (simp add: overlay_def)

lemma overlay_None: "log i = None \<Longrightarrow> overlay log h i = h i"
  by (simp add: overlay_def)

lemma overlay_replayed:
  "log i = Some v \<Longrightarrow> overlay log (h(i := v)) j = overlay log h j"
  by (simp add: overlay_def split: option.split)

lemma override_on_agree: "(\<And>i. i \<notin> I \<Longrightarrow> d i = f i) \<Longrightarrow> override_on f d I = d"
  by (auto simp: override_on_def)

lemma lm_inv_write_new:
  assumes inv: "lm_inv m sp" and t: "t \<in> lm_new m" and d: "\<And>i. i \<notin> I \<Longrightarrow> d i = lm_dram m i"
  shows "lm_inv (m\<lparr>lm_dram := d,
      lm_log := (\<lambda>i. if i \<in> (I - lm_cur m) \<inter> lm_prev m then Some (lm_dram m i) else lm_log m i),
      lm_prev := lm_prev m - (I - lm_cur m), lm_cur := lm_cur m \<union> I\<rparr>)
    (spec_step (Write False I d) sp)" (is "lm_inv ?m ?sp")
proof -
  have live: "override_on (sp_live sp) d I = d"
    using inv d by (intro override_on_agree) (simp add: lm_inv_def)
  have disj: "lm_prev m \<inter> lm_cur m = {}" using inv by (simp add: lm_inv_def)
  have log: "logging_inv ?m ?sp" if l: "logging_inv m sp"
  proof -
    have "dom (lm_log ?m) \<inter> lm_prev ?m = {}"
      using l disj by (auto simp: logging_inv_def dom_def)
    moreover have "overlay (lm_log ?m) (lm_nvm ?m) i = sp_sealed ?sp i" if i: "i \<notin> lm_prev ?m" for i
    proof (cases "i \<in> lm_prev m")
      case True
      with i have "i \<in> (I - lm_cur m) \<inter> lm_prev m" by auto
      with l show ?thesis by (simp add: logging_inv_def overlay_def)
    next
      case False
      then have "overlay (lm_log m) (lm_nvm m) i = sp_sealed sp i"
        using l unfolding logging_inv_def by blast
      with False show ?thesis by (simp add: overlay_def)
    qed
    ultimately show ?thesis using l d by (simp add: logging_inv_def)
  qed
  show ?thesis
  proof (cases "lm_stage m")
    case Idle
    with inv d live show ?thesis by (auto simp: lm_inv_def)
  next
    case Sealing
    with inv log live show ?thesis by (auto simp: lm_inv_def split: if_splits)
  next
    case Logging
    with inv log live show ?thesis by (auto simp: lm_inv_def)
  next
    case (Updating R)
    then have log: "lm_log ?m = lm_log m" using inv by (auto simp: lm_inv_def)
    with Updating inv d live show ?thesis by (auto simp: lm_inv_def simp del: overlay_upd)
  qed
qed

lemma lm_inv_write_old:
  assumes inv: "lm_inv m sp" and t: "t \<in> lm_old m" and I: "I \<inter> lm_cur m = {}"
    and d: "\<And>i. i \<notin> I \<Longrightarrow> d i = lm_dram m i"
  shows "lm_inv (m\<lparr>lm_dram := d, lm_prev := lm_prev m \<union> I\<rparr>) (spec_step (Write True I d) sp)"
proof -
  have "override_on (sp_live sp) d I = d"
    using inv d by (intro override_on_agree) (simp add: lm_inv_def)
  moreover have "lm_stage m = Sealing"
    using inv t by (auto simp: lm_inv_def split: stage.splits)
  ultimately show ?thesis
    using inv I d by (auto simp: lm_inv_def logging_inv_def override_on_def)
qed

text \<open>Every step keeps the invariant, with the promise advanced by the step's event.\<close>

lemma lm_step_inv: "lm_step m e m' \<Longrightarrow> lm_inv m sp \<Longrightarrow> lm_inv m' (spec_step e sp)"
proof (induction rule: lm_step.induct)
  case (lm_write_new t m I d)
  then show ?case by (intro lm_inv_write_new) auto
next
  case (lm_write_old t m I d)
  then show ?case by (intro lm_inv_write_old) auto
next
  case (lm_commit m)
  then have all: "\<forall>i. overlay (lm_log m) (lm_nvm m) i = sp_sealed sp i"
    by (auto simp: lm_inv_def logging_inv_def)
  have "lm_nvm m i = sp_sealed sp i" if "i \<notin> dom (lm_log m)" for i
    using that all [rule_format, of i] by (simp add: overlay_None domIff)
  with lm_commit all show ?case by (simp add: lm_inv_def logging_inv_def)
next
  case (lm_update m R i v)
  then show ?case
    by (auto simp: lm_inv_def overlay_replayed overlay_def split: option.splits)
qed (auto simp: lm_inv_def logging_inv_def split: stage.splits)

text \<open>In every state a crash can hit, recovery by the method yields the durable heap.\<close>

lemma lm_recovered_durable: "lm_inv m sp \<Longrightarrow> lm_recovered m = sp_durable sp"
  by (auto simp: lm_inv_def lm_recovered_def logging_inv_def split: stage.splits)

end
