(* ===== verification/CheckpointSteps.thy ===== *)
theory CheckpointSteps
  imports MarkEffect HeapFrame LineMachine
begin

section \<open>Checkpointing concurrent with user threads\<close>

text \<open>
  A step relation of the whole library: a user thread performs an operation, or the
  checkpointing thread performs the next action of \<^verbatim>\<open>checkpointing\<close> (\<^verbatim>\<open>src/src/checkpointing.cpp\<close>),
  in any order. The checkpointing thread moves in small steps: one context of the wait loop,
  one cache line of the log loop, one entry of a replay. An operation of a user thread is
  one step; \<^verbatim>\<open>begin_op\<close> and the wait loop at the granularity of single loads and stores are
  the subject of a separate theory.

  What the client must respect is the guard of \<open>write_step\<close>: a region does not extend past
  the lines that \<^verbatim>\<open>mark\<close> counts from its size, and a thread whose operation began
  in the closed epoch does not write a line that the current epoch has already written
  (conflicting operations are ordered by locks, and a later one begins in no earlier epoch).
\<close>

text \<open>
  Where the checkpointing thread is. \<open>Cp_Wait k\<close>: the first \<open>k\<close> contexts have left the
  previous epoch. \<open>Cp_NextCtx k\<close>, \<open>Cp_Log k es i\<close>: in \<^verbatim>\<open>log_persistence_unit\<close>, before context
  \<open>k\<close>, and at line \<open>i\<close> of the first of the regions \<open>es\<close> still to be logged for it. \<open>Cp_Update k es\<close>: in
  \<^verbatim>\<open>nvm_heap_update_unit\<close>, \<open>k\<close> redo logs have been opened and the entries \<open>es\<close> of the last one
  remain to be replayed.
\<close>

datatype cp_pc =
    Cp_Idle
  | Cp_Wait nat
  | Cp_NextCtx nat
  | Cp_Log nat "(ptr \<times> nat) list" nat
  | Cp_Update nat "(ptr \<times> cacheline_t) list"

text \<open>
  The helper threads: \<^verbatim>\<open>check_valid\<close> runs beside the logging of lines, \<^verbatim>\<open>checkpointing\<close> of the allocator logs
  beside the update, the deallocator beside both. A pass of a helper is one step, which
  may come at any of these moments and any number of times.
\<close>

definition logging :: "cp_pc \<Rightarrow> bool" where
  "logging pc = (case pc of Cp_NextCtx _ \<Rightarrow> True | Cp_Log _ _ _ \<Rightarrow> True | _ \<Rightarrow> False)"

definition updating :: "cp_pc \<Rightarrow> bool" where
  "updating pc = (case pc of Cp_Update _ _ \<Rightarrow> True | _ \<Rightarrow> False)"

text \<open>\<open>sys_epoch\<close> is the local variable \<^verbatim>\<open>epoch\<close> of \<^verbatim>\<open>checkpointing\<close>.\<close>

record 'j sys =
  sys_pc :: cp_pc
  sys_epoch :: epoch_t
  sys_st :: "'j escort"

definition blank_line :: cacheline_t where
  "blank_line = \<lparr>cl_content = (\<lambda>_. 0)\<rparr>"

definition heap_image :: "(ptr \<Rightarrow> cacheline_t) \<Rightarrow> nat \<Rightarrow> cacheline_t" where
  "heap_image h i = (if i < heap_lines then h (line_ptr i) else blank_line)"

definition cur_parity :: "('j, 'z) escort_scheme \<Rightarrow> bool" where
  "cur_parity s = epoch_bit (GLOBAL_EPOCH s)"

definition flagged :: "bool \<Rightarrow> ('j, 'z) escort_scheme \<Rightarrow> nat set" where
  "flagged b s = {i. i < heap_lines \<and> bm_bits (BitMap s b) i}"

text \<open>The thread \<open>t\<close> is in an operation that began before the current epoch.\<close>

definition in_op :: "nat \<Rightarrow> ('j, 'z) escort_scheme \<Rightarrow> bool" where
  "in_op t s \<longleftrightarrow> t < length (ctx_array s) \<and> uc_epoch (ctx_array s ! t) \<noteq> 0"

definition old_op :: "nat \<Rightarrow> ('j, 'z) escort_scheme \<Rightarrow> bool" where
  "old_op t s \<longleftrightarrow> in_op t s \<and> Epoch (uc_epoch (ctx_array s ! t)) \<noteq> Epoch (GLOBAL_EPOCH s)"

text \<open>The lines a call of \<^verbatim>\<open>mark\<close> covers, and the two obligations of the client.\<close>

definition write_lines :: "ptr \<Rightarrow> byte list \<Rightarrow> nat set" where
  "write_lines addr val =
     (case bitmap_get_index addr of
        Inl _ \<Rightarrow> {}
      | Inr i \<Rightarrow> {i..<i + num_bits (word_of_nat (length val))})"

definition covered :: "ptr \<Rightarrow> byte list \<Rightarrow> bool" where
  "covered addr val \<longleftrightarrow>
     unat (ucast addr :: 6 word) + length val \<le> 64 * num_bits (word_of_nat (length val))"

definition client_ok :: "nat \<Rightarrow> ptr \<Rightarrow> byte list \<Rightarrow> ('j, 'z) escort_scheme \<Rightarrow> bool" where
  "client_ok t addr val s \<longleftrightarrow>
     covered addr val \<and> (old_op t s \<longrightarrow> write_lines addr val \<inter> flagged (cur_parity s) s = {})"

text \<open>What a user thread does to its heap, and what the checkpointing thread does itself.\<close>

inductive user_step :: "'j sys \<Rightarrow> cacheline_t event \<Rightarrow> 'j sys \<Rightarrow> bool" where
  begin_step: "begin_op t (sys_st c) = Inr s \<Longrightarrow> user_step c Tau (c\<lparr>sys_st := s\<rparr>)"
| end_step: "end_op t (sys_st c) = Inr s \<Longrightarrow> user_step c Tau (c\<lparr>sys_st := s\<rparr>)"
| write_step: "pwrite t addr val (sys_st c) = Inr s \<Longrightarrow> client_ok t addr val (sys_st c) \<Longrightarrow>
    user_step c (Write (old_op t (sys_st c)) (write_lines addr val) (heap_image (dram s))) (c\<lparr>sys_st := s\<rparr>)"

inductive cp_step :: "'j sys \<Rightarrow> cacheline_t event \<Rightarrow> 'j sys \<Rightarrow> bool" where
  seal_step: "sys_pc c = Cp_Idle \<Longrightarrow> unat (Epoch (sys_epoch c)) + 1 < 2 ^ 62 \<Longrightarrow>
    enter_phase (sys_epoch c + 1) Multi_Epoch_Existence (sys_st c) = Inr (e, s) \<Longrightarrow>
    cp_step c Boundary (c\<lparr>sys_pc := Cp_Wait 0, sys_epoch := e, sys_st := s\<rparr>)"
| wait_step: "sys_pc c = Cp_Wait k \<Longrightarrow> k < length (ctx_array (sys_st c)) \<Longrightarrow>
    left_previous_epoch (sys_epoch c) (ctx_array (sys_st c) ! k) \<Longrightarrow>
    cp_step c Tau (c\<lparr>sys_pc := Cp_Wait (k + 1)\<rparr>)"
| waited_step: "sys_pc c = Cp_Wait (length (ctx_array (sys_st c))) \<Longrightarrow>
    enter_phase (sys_epoch c) Log_Persistence (sys_st c) = Inr (e, s) \<Longrightarrow>
    cp_step c Tau (c\<lparr>sys_pc := Cp_NextCtx 0, sys_epoch := e, sys_st := s\<rparr>)"
| list_step: "sys_pc c = Cp_NextCtx k \<Longrightarrow> k < length (ctx_array (sys_st c)) \<Longrightarrow>
    cp_step c Tau
      (c\<lparr>sys_pc := Cp_Log k (uc_addrlist (ctx_array (sys_st c) ! k) (prev_parity (sys_st c))) 0\<rparr>)"
| line_step: "sys_pc c = Cp_Log k ((a, n) # es) i \<Longrightarrow> i < n \<Longrightarrow> bitmap_get_index a = Inr base \<Longrightarrow>
    log_line (prev_parity (sys_st c)) (base + i) (a + word_of_nat (CACHE_LINE_SIZE * i)) (sys_st c) = Inr s \<Longrightarrow>
    cp_step c Tau (c\<lparr>sys_pc := Cp_Log k ((a, n) # es) (i + 1), sys_st := s\<rparr>)"
| region_step: "sys_pc c = Cp_Log k ((a, n) # es) i \<Longrightarrow> n \<le> i \<Longrightarrow>
    cp_step c Tau (c\<lparr>sys_pc := Cp_Log k es 0\<rparr>)"
| list_done_step: "sys_pc c = Cp_Log k [] i \<Longrightarrow>
    clear_list (prev_parity (sys_st c)) k (sys_st c) = Inr s \<Longrightarrow>
    cp_step c Tau (c\<lparr>sys_pc := Cp_NextCtx (k + 1), sys_st := s\<rparr>)"
| commit_step: "sys_pc c = Cp_NextCtx (length (ctx_array (sys_st c))) \<Longrightarrow>
    enter_phase (sys_epoch c) NVM_Heap_Update (sys_st c) = Inr (e, s) \<Longrightarrow>
    cp_step c Commit (c\<lparr>sys_pc := Cp_Update 0 [], sys_epoch := e, sys_st := s\<rparr>)"
| replay_step: "sys_pc c = Cp_Update k (e # es) \<Longrightarrow>
    cp_step c Tau (c\<lparr>sys_pc := Cp_Update k es, sys_st := replay_entry e (sys_st c)\<rparr>)"
| next_log_step: "sys_pc c = Cp_Update k [] \<Longrightarrow> k < length (redo_logs (sys_st c)) \<Longrightarrow>
    cp_step c Tau (c\<lparr>sys_pc := Cp_Update (k + 1)
      (plog_contents (Plog_Management (sys_st c)) (redo_logs (sys_st c) ! k))\<rparr>)"
| finish_step: "sys_pc c = Cp_Update (length (redo_logs (sys_st c))) [] \<Longrightarrow>
    cp_step c Tau (c\<lparr>sys_pc := Cp_Idle, sys_st := clear_redo_logs (sys_st c)\<rparr>)"

text \<open>The step relation of the whole, with the calls to the memory allocator and the passes of the helper threads.\<close>

inductive sys_step :: "'j allocator \<Rightarrow> 'j sys \<Rightarrow> cacheline_t event \<Rightarrow> 'j sys \<Rightarrow> bool"
  for al :: "'j allocator" where
  user_init: "sys_pc c = Cp_Idle \<Longrightarrow>
    sys_step al c Tau (c\<lparr>sys_st := (sys_st c)\<lparr>ctx_array := ctx_array (sys_st c) @ [userthreadctx_new]\<rparr>\<rparr>)"
| by_user: "user_step c ev c' \<Longrightarrow> sys_step al c ev c'"
| user_malloc: "malloc_with_create_log al t sz (sys_st c) = Inr (p, s) \<Longrightarrow>
    sys_step al c Tau (c\<lparr>sys_st := s\<rparr>)"
| user_free: "free_with_create_log al t p sz (sys_st c) = Inr s \<Longrightarrow>
    sys_step al c Tau (c\<lparr>sys_st := s\<rparr>)"
| by_checkpointing: "cp_step c ev c' \<Longrightarrow> sys_step al c ev c'"
| cp_dealloc: "logging (sys_pc c) \<or> updating (sys_pc c) \<Longrightarrow> dealloc al (sys_st c) = Inr s \<Longrightarrow>
    sys_step al c Tau (c\<lparr>sys_st := s\<rparr>)"
| cp_check_valid: "logging (sys_pc c) \<Longrightarrow> check_valid (sys_st c) = Inr s \<Longrightarrow>
    sys_step al c Tau (c\<lparr>sys_st := s\<rparr>)"
| cp_record_sizes: "updating (sys_pc c) \<Longrightarrow> cpallocator_checkpointing (sys_st c) = Inr s \<Longrightarrow>
    sys_step al c Tau (c\<lparr>sys_st := s\<rparr>)"

lemmas user_begin = begin_step [THEN by_user]
lemmas user_end = end_step [THEN by_user]
lemmas user_write = write_step [THEN by_user]
lemmas cp_seal = seal_step [THEN by_checkpointing]
lemmas cp_wait = wait_step [THEN by_checkpointing]
lemmas cp_waited = waited_step [THEN by_checkpointing]
lemmas cp_list = list_step [THEN by_checkpointing]
lemmas cp_line = line_step [THEN by_checkpointing]
lemmas cp_region = region_step [THEN by_checkpointing]
lemmas cp_list_done = list_done_step [THEN by_checkpointing]
lemmas cp_commit = commit_step [THEN by_checkpointing]
lemmas cp_replay = replay_step [THEN by_checkpointing]
lemmas cp_next_log = next_log_step [THEN by_checkpointing]
lemmas cp_finish = finish_step [THEN by_checkpointing]

subsection \<open>The abstraction to lines\<close>

definition pending :: "nat \<Rightarrow> (ptr \<times> cacheline_t) list \<Rightarrow> ('j, 'z) escort_scheme \<Rightarrow> (ptr \<times> cacheline_t) list" where
  "pending k es s = es @ logs_contents (Plog_Management s) (drop k (redo_logs s))"

definition abs_stage :: "'j sys \<Rightarrow> stage" where
  "abs_stage c = (case sys_pc c of
     Cp_Idle \<Rightarrow> Idle
   | Cp_Wait _ \<Rightarrow> Sealing
   | Cp_NextCtx _ \<Rightarrow> Logging
   | Cp_Log _ _ _ \<Rightarrow> Logging
   | Cp_Update k es \<Rightarrow> Updating {i. i < heap_lines \<and> line_ptr i \<in> fst ` set (pending k es (sys_st c))})"

definition abs_sys :: "'j sys \<Rightarrow> cacheline_t lmach" where
  "abs_sys c = (let s = sys_st c in
     \<lparr>lm_stage = abs_stage c, lm_cur = flagged (cur_parity s) s, lm_prev = flagged (\<not> cur_parity s) s,
      lm_dram = heap_image (dram s), lm_nvm = heap_image (\<lambda>a. nvm s (add_addr a (nvm_offset s))),
      lm_log = logged s, lm_new = {t. in_op t s \<and> \<not> old_op t s}, lm_old = {t. old_op t s}\<rparr>)"

subsection \<open>The invariant of the concrete state\<close>

text \<open>The lines of a region, and the regions still to be logged at each point of the code.\<close>

definition region_lines :: "ptr \<times> nat \<Rightarrow> nat set" where
  "region_lines = (\<lambda>(a, n). {i. i < heap_lines \<and> (\<exists>j. a = line_ptr j \<and> j \<le> i \<and> i < j + n)})"

definition region_rest :: "ptr \<times> nat \<Rightarrow> nat \<Rightarrow> nat set" where
  "region_rest = (\<lambda>(a, n) k. {i. i < heap_lines \<and> (\<exists>j. a = line_ptr j \<and> j + k \<le> i \<and> i < j + n)})"

definition list_lines :: "bool \<Rightarrow> nat set \<Rightarrow> ('j, 'z) escort_scheme \<Rightarrow> nat set" where
  "list_lines b T s = (\<Union>t \<in> T \<inter> {..<length (ctx_array s)}.
     \<Union> (region_lines ` set (uc_addrlist (ctx_array s ! t) b)))"

definition regions_ok :: "(ptr \<times> nat) list \<Rightarrow> bool" where
  "regions_ok es \<longleftrightarrow> (\<forall>(a, n) \<in> set es. \<exists>j. a = line_ptr j \<and> j < heap_lines \<and> j + n \<le> heap_lines)"

definition todo_lines :: "'j sys \<Rightarrow> nat set" where
  "todo_lines c = (let s = sys_st c; p = \<not> cur_parity s in case sys_pc c of
     Cp_Idle \<Rightarrow> {}
   | Cp_Wait _ \<Rightarrow> list_lines p UNIV s
   | Cp_NextCtx k \<Rightarrow> list_lines p {k..} s
   | Cp_Log k [] i \<Rightarrow> list_lines p {Suc k..} s
   | Cp_Log k (e # es) i \<Rightarrow> region_rest e i \<union> \<Union> (region_lines ` set es) \<union> list_lines p {Suc k..} s
   | Cp_Update _ _ \<Rightarrow> {})"

definition pc_phase :: "cp_pc \<Rightarrow> epoch_phase" where
  "pc_phase pc = (case pc of Cp_Wait _ \<Rightarrow> Multi_Epoch_Existence | Cp_NextCtx _ \<Rightarrow> Log_Persistence
     | Cp_Log _ _ _ \<Rightarrow> Log_Persistence | _ \<Rightarrow> NVM_Heap_Update)"

definition pc_ok :: "'j sys \<Rightarrow> bool" where
  "pc_ok c = (let s = sys_st c in case sys_pc c of
     Cp_Idle \<Rightarrow> True
   | Cp_Wait k \<Rightarrow> k \<le> length (ctx_array s) \<and> (\<forall>t < k. \<not> old_op t s)
   | Cp_NextCtx k \<Rightarrow> k \<le> length (ctx_array s)
   | Cp_Log k es i \<Rightarrow> k < length (ctx_array s) \<and> regions_ok es
   | Cp_Update k es \<Rightarrow> k \<le> length (redo_logs s) \<and>
       (\<exists>done. all_entries s = done @ pending k es s))"

definition epochs_ok :: "'j sys \<Rightarrow> bool" where
  "epochs_ok c = (let s = sys_st c; e = GLOBAL_EPOCH s in
     2 \<le> unat (Epoch e) \<and> Epoch (sys_epoch c) = Epoch e \<and> get_phase e = Inr (pc_phase (sys_pc c)) \<and>
     (\<forall>t. old_op t s \<longrightarrow> Epoch (uc_epoch (ctx_array s ! t)) = Epoch e - 1))"

definition cinv :: "'j sys \<Rightarrow> bool" where
  "cinv c = (let s = sys_st c in
     (\<forall>b. bm_size (BitMap s b) = heap_lines) \<and> wf_logs (Plog_Management s) (redo_logs s) \<and>
     (\<forall>ctx \<in> set (ctx_array s). \<forall>b. regions_ok (uc_addrlist ctx b)) \<and>
     flagged (cur_parity s) s \<subseteq> list_lines (cur_parity s) UNIV s \<and>
     flagged (\<not> cur_parity s) s \<subseteq> todo_lines c \<and> epochs_ok c \<and> pc_ok c)"

end
