(* ===== verification/CheckpointSim.thy ===== *)
theory CheckpointSim
  imports CheckpointSteps
begin

section \<open>Checkpointing implements the line machine\<close>

text \<open>
  Every step of \<open>sys_step\<close> from a state that satisfies the invariant \<open>cinv\<close> keeps it
  and is, under the abstraction \<open>abs_sys\<close>, a step of the line machine with the same
  event. One lemma per rule.
\<close>

definition simulates :: "'j sys \<Rightarrow> cacheline_t event \<Rightarrow> 'j sys \<Rightarrow> bool" where
  "simulates c ev c' \<longleftrightarrow> cinv c' \<and> lm_step (abs_sys c) ev (abs_sys c')"

lemma simulates_stutter: "cinv c' \<Longrightarrow> abs_sys c' = abs_sys c \<Longrightarrow> simulates c Tau c'"
  by (simp add: simulates_def lm_idle)

subsection \<open>Reading the abstraction and the invariant\<close>

lemma abs_sys_sel [simp]:
  "lm_stage (abs_sys c) = abs_stage c"
  "lm_cur (abs_sys c) = flagged (cur_parity (sys_st c)) (sys_st c)"
  "lm_prev (abs_sys c) = flagged (\<not> cur_parity (sys_st c)) (sys_st c)"
  "lm_dram (abs_sys c) = heap_image (dram (sys_st c))"
  "lm_nvm (abs_sys c) = heap_image (\<lambda>a. nvm (sys_st c) (add_addr a (nvm_offset (sys_st c))))"
  "lm_log (abs_sys c) = logged (sys_st c)"
  "lm_new (abs_sys c) = {t. in_op t (sys_st c) \<and> \<not> old_op t (sys_st c)}"
  "lm_old (abs_sys c) = {t. old_op t (sys_st c)}"
  by (simp_all add: abs_sys_def Let_def)

lemma cinvI:
  assumes "\<And>b. bm_size (BitMap (sys_st c) b) = heap_lines"
    and "wf_logs (Plog_Management (sys_st c)) (redo_logs (sys_st c))"
    and "\<And>t b. t < length (ctx_array (sys_st c)) \<Longrightarrow> regions_ok (uc_addrlist (ctx_array (sys_st c) ! t) b)"
    and "flagged (cur_parity (sys_st c)) (sys_st c) \<subseteq> list_lines (cur_parity (sys_st c)) UNIV (sys_st c)"
    and "flagged (\<not> cur_parity (sys_st c)) (sys_st c) \<subseteq> todo_lines c"
    and "epochs_ok c" and "pc_ok c"
  shows "cinv c"
  using assms by (auto simp: cinv_def Let_def in_set_conv_nth)

lemma cinvD:
  assumes "cinv c"
  shows "bm_size (BitMap (sys_st c) b) = heap_lines"
    and "wf_logs (Plog_Management (sys_st c)) (redo_logs (sys_st c))"
    and "t < length (ctx_array (sys_st c)) \<Longrightarrow> regions_ok (uc_addrlist (ctx_array (sys_st c) ! t) b)"
    and "flagged (cur_parity (sys_st c)) (sys_st c) \<subseteq> list_lines (cur_parity (sys_st c)) UNIV (sys_st c)"
    and "flagged (\<not> cur_parity (sys_st c)) (sys_st c) \<subseteq> todo_lines c"
    and "epochs_ok c" and "pc_ok c"
  using assms by (auto simp: cinv_def Let_def)

lemma prev_parity_cur: "prev_parity s \<longleftrightarrow> \<not> cur_parity s"
  by (simp add: prev_parity_def cur_parity_def epoch_bit_pred epoch_bit_Epoch)

lemma flagged_iff: "i \<in> flagged b s \<longleftrightarrow> i < heap_lines \<and> bm_bits (BitMap s b) i"
  by (simp add: flagged_def)

text \<open>Lines that are still flagged for the closed epoch are not logged.\<close>

lemma prev_not_logged:
  assumes "lm_inv (abs_sys c) sp" and "bm_bits (BitMap (sys_st c) (\<not> cur_parity (sys_st c))) i"
  shows "logged (sys_st c) i = None"
proof (cases "i < heap_lines")
  case True
  with assms(2) have "i \<in> lm_prev (abs_sys c)" by (simp add: flagged_iff)
  then have "i \<notin> dom (lm_log (abs_sys c))"
    using assms(1) by (auto simp: lm_inv_def logging_inv_def split: stage.splits)
  then show ?thesis by (simp add: domIff)
next
  case False
  then show ?thesis by (simp add: logged_def)
qed

subsection \<open>Steps that leave the heap part alone\<close>

lemma same_heap_in_op: "same_heap s s' \<Longrightarrow> in_op t s' = in_op t s"
  by (auto simp: in_op_def same_heap_length same_heap_ctx)

lemma same_heap_old_op:
  assumes "same_heap s s'"
  shows "old_op t s' = old_op t s"
proof -
  have "GLOBAL_EPOCH s' = GLOBAL_EPOCH s" using assms by (simp add: same_heap_def)
  with same_heap_in_op [OF assms, of t] same_heap_ctx(1) [OF assms, of t] show ?thesis
    by (auto simp: old_op_def in_op_def)
qed

lemma same_heap_list_lines:
  assumes "same_heap s s'"
  shows "list_lines b T s' = list_lines b T s"
  using same_heap_ctx(2) [OF assms] by (simp add: list_lines_def same_heap_length [OF assms])

lemma same_heap_flagged: "same_heap s s' \<Longrightarrow> flagged b s' = flagged b s"
  by (simp add: same_heap_def flagged_def)

lemma same_heap_parity: "same_heap s s' \<Longrightarrow> cur_parity s' = cur_parity s"
  by (simp add: same_heap_def cur_parity_def)

lemma same_heap_logged: "same_heap s s' \<Longrightarrow> logged s' = logged s"
  using same_heap_redo_logs [of s s'] by (intro logged_cong) (simp add: all_entries_def same_heap_def)

lemma same_heap_pending: "same_heap s s' \<Longrightarrow> pending k es s' = pending k es s"
  using same_heap_redo_logs [of s s'] by (simp add: pending_def same_heap_def)

lemmas same_heap_eqs = same_heap_in_op same_heap_old_op same_heap_list_lines same_heap_flagged
  same_heap_parity same_heap_logged same_heap_pending same_heap_redo_logs same_heap_length

lemma same_heap_simulates:
  assumes "cinv c" and "same_heap (sys_st c) s'"
  shows "simulates c Tau (c\<lparr>sys_st := s'\<rparr>)"
proof (rule simulates_stutter)
  have fields: "GLOBAL_EPOCH s' = GLOBAL_EPOCH (sys_st c)" "BitMap s' = BitMap (sys_st c)"
    "Plog_Management s' = Plog_Management (sys_st c)" "dram s' = dram (sys_st c)"
    "nvm s' = nvm (sys_st c)" "nvm_offset s' = nvm_offset (sys_st c)"
    using assms(2) by (simp_all add: same_heap_def)
  note eqs = same_heap_eqs [OF assms(2)] fields
  have ae: "all_entries s' = all_entries (sys_st c)" by (simp add: all_entries_def eqs)
  show "abs_sys (c\<lparr>sys_st := s'\<rparr>) = abs_sys c"
    by (simp add: abs_sys_def Let_def abs_stage_def eqs cong: cp_pc.case_cong)
  have todo: "todo_lines (c\<lparr>sys_st := s'\<rparr>) = todo_lines c"
    by (simp add: todo_lines_def Let_def eqs cong: cp_pc.case_cong list.case_cong)
  show "cinv (c\<lparr>sys_st := s'\<rparr>)"
  proof (rule cinvI)
    show "epochs_ok (c\<lparr>sys_st := s'\<rparr>)"
      using cinvD(6) [OF assms(1)] same_heap_ctx(1) [OF assms(2)]
      by (auto simp: epochs_ok_def Let_def eqs old_op_def in_op_def)
    show "pc_ok (c\<lparr>sys_st := s'\<rparr>)"
      using cinvD(7) [OF assms(1)] by (simp add: pc_ok_def Let_def eqs ae cong: cp_pc.case_cong)
  qed (use cinvD [OF assms(1)] same_heap_ctx(2) [OF assms(2)] in \<open>simp_all add: eqs todo\<close>)
qed

subsection \<open>Steps of the user threads\<close>

lemma in_op_put_ctx:
  "in_op u (put_ctx t ctx s) \<longleftrightarrow>
     (if u = t \<and> t < length (ctx_array s) then uc_epoch ctx \<noteq> 0 else in_op u s)"
  by (auto simp: in_op_def)

lemma old_op_put_ctx:
  "old_op u (put_ctx t ctx s) \<longleftrightarrow>
     (if u = t \<and> t < length (ctx_array s)
      then uc_epoch ctx \<noteq> 0 \<and> Epoch (uc_epoch ctx) \<noteq> Epoch (GLOBAL_EPOCH s) else old_op u s)"
  by (auto simp: old_op_def in_op_put_ctx) (auto simp: in_op_def)

lemma list_lines_put_ctx:
  assumes "uc_addrlist ctx = uc_addrlist (ctx_array s ! t)"
  shows "list_lines b T (put_ctx t ctx s) = list_lines b T s"
proof -
  have "uc_addrlist ((ctx_array s)[t := ctx] ! u) = uc_addrlist (ctx_array s ! u)"
    if "u < length (ctx_array s)" for u
    using that assms by (cases "u = t") simp_all
  then show ?thesis by (simp add: list_lines_def)
qed

lemma flagged_put_ctx [simp]: "flagged b (put_ctx t ctx s) = flagged b s"
  by (simp add: flagged_def)

lemma cur_parity_put_ctx [simp]: "cur_parity (put_ctx t ctx s) = cur_parity s"
  by (simp add: cur_parity_def)

text \<open>Only the epoch of a context changes: \<^verbatim>\<open>begin_op\<close> and \<^verbatim>\<open>end_op\<close>.\<close>

lemma set_epoch_frame:
  fixes s :: "('j, 'z) escort_scheme" and e :: epoch_t
  assumes t: "t < length (ctx_array s)"
  defines "s' \<equiv> put_ctx t ((ctx_array s ! t)\<lparr>uc_epoch := e\<rparr>) s"
  shows "redo_logs s' = redo_logs s" and "logged s' = logged s" and "pending k es s' = pending k es s"
    and "list_lines b T s' = list_lines b T s" and "all_entries s' = all_entries s"
    and "u < length (ctx_array s) \<Longrightarrow> uc_addrlist (ctx_array s' ! u) = uc_addrlist (ctx_array s ! u)"
proof -
  show r: "redo_logs s' = redo_logs s" using t by (simp add: s'_def redo_logs_put_ctx_same)
  show a: "all_entries s' = all_entries s" by (simp add: all_entries_def r) (simp add: s'_def)
  show "logged s' = logged s" by (rule logged_cong [OF a])
  show "pending k es s' = pending k es s" by (simp add: pending_def r) (simp add: s'_def)
  show "list_lines b T s' = list_lines b T s" by (simp add: s'_def list_lines_put_ctx)
  show "u < length (ctx_array s) \<Longrightarrow> uc_addrlist (ctx_array s' ! u) = uc_addrlist (ctx_array s ! u)"
    by (cases "u = t") (simp_all add: s'_def)
qed

lemma set_epoch_cinv:
  assumes inv: "cinv c" and t: "t < length (ctx_array (sys_st c))"
    and e: "e = 0 \<or> e = GLOBAL_EPOCH (sys_st c)"
  defines "s' \<equiv> put_ctx t ((ctx_array (sys_st c) ! t)\<lparr>uc_epoch := e\<rparr>) (sys_st c)"
  shows "cinv (c\<lparr>sys_st := s'\<rparr>)"
proof -
  note fr = set_epoch_frame [OF t, where e = e, folded s'_def]
  have old: "old_op u s' \<Longrightarrow> u \<noteq> t \<and> old_op u (sys_st c)" for u
    using e t by (auto simp: s'_def old_op_put_ctx split: if_splits)
  have simps: "GLOBAL_EPOCH s' = GLOBAL_EPOCH (sys_st c)" "BitMap s' = BitMap (sys_st c)"
    "Plog_Management s' = Plog_Management (sys_st c)" "flagged b s' = flagged b (sys_st c)"
    "cur_parity s' = cur_parity (sys_st c)" "length (ctx_array s') = length (ctx_array (sys_st c))" for b
    by (simp_all add: s'_def)
  have todo: "todo_lines (c\<lparr>sys_st := s'\<rparr>) = todo_lines c"
    by (simp add: todo_lines_def Let_def fr simps cong: cp_pc.case_cong list.case_cong)
  show ?thesis
  proof (rule cinvI)
    have "uc_epoch (ctx_array s' ! u) = uc_epoch (ctx_array (sys_st c) ! u)" if "old_op u s'" for u
      using old [OF that] by (simp add: s'_def)
    then show "epochs_ok (c\<lparr>sys_st := s'\<rparr>)"
      using cinvD(6) [OF inv] old by (auto simp: epochs_ok_def Let_def simps)
    show "pc_ok (c\<lparr>sys_st := s'\<rparr>)"
      using cinvD(7) [OF inv] old by (auto simp: pc_ok_def Let_def simps fr split: cp_pc.splits)
  qed (use cinvD [OF inv] in \<open>simp_all add: simps fr todo\<close>)
qed

lemma set_epoch_abs:
  fixes e :: epoch_t
  assumes t: "t < length (ctx_array (sys_st c))"
  defines "s' \<equiv> put_ctx t ((ctx_array (sys_st c) ! t)\<lparr>uc_epoch := e\<rparr>) (sys_st c)"
  shows "abs_sys (c\<lparr>sys_st := s'\<rparr>) = (abs_sys c)
    \<lparr>lm_new := {u. in_op u s' \<and> \<not> old_op u s'}, lm_old := {u. old_op u s'}\<rparr>"
proof -
  note fr = set_epoch_frame [OF t, where e = e, folded s'_def]
  have st: "abs_stage (c\<lparr>sys_st := s'\<rparr>) = abs_stage c"
    by (simp add: abs_stage_def fr cong: cp_pc.case_cong)
  show ?thesis
    by (simp add: abs_sys_def Let_def st fr(2)) (simp add: s'_def)
qed

lemma begin_simulates:
  assumes inv: "cinv c" and b: "begin_op t (sys_st c) = Inr s'"
  shows "simulates c Tau (c\<lparr>sys_st := s'\<rparr>)"
proof -
  from b have t: "t < length (ctx_array (sys_st c))" and g: "GLOBAL_EPOCH (sys_st c) \<noteq> 0"
    and s': "s' = put_ctx t ((ctx_array (sys_st c) ! t)\<lparr>uc_epoch := GLOBAL_EPOCH (sys_st c)\<rparr>) (sys_st c)"
    by (auto simp: begin_op_def Let_def res_simps)
  have "{u. in_op u s' \<and> \<not> old_op u s'} = insert t {u. in_op u (sys_st c) \<and> \<not> old_op u (sys_st c)}"
    "{u. old_op u s'} = {u. old_op u (sys_st c)} - {t}"
    using t g by (auto simp: s' in_op_put_ctx old_op_put_ctx split: if_splits)
  then have "lm_step (abs_sys c) Tau (abs_sys (c\<lparr>sys_st := s'\<rparr>))"
    using lm_begin [of "abs_sys c" t] set_epoch_abs [OF t, where e = "GLOBAL_EPOCH (sys_st c)", folded s'] by simp
  then show ?thesis
    using set_epoch_cinv [OF inv t, where e = "GLOBAL_EPOCH (sys_st c)", folded s'] by (simp add: simulates_def)
qed

lemma end_simulates:
  assumes inv: "cinv c" and b: "end_op t (sys_st c) = Inr s'"
  shows "simulates c Tau (c\<lparr>sys_st := s'\<rparr>)"
proof -
  from b have t: "t < length (ctx_array (sys_st c))"
    and s': "s' = put_ctx t ((ctx_array (sys_st c) ! t)\<lparr>uc_epoch := 0\<rparr>) (sys_st c)"
    by (auto simp: end_op_def res_simps)
  have "{u. in_op u s' \<and> \<not> old_op u s'} = {u. in_op u (sys_st c) \<and> \<not> old_op u (sys_st c)} - {t}"
    "{u. old_op u s'} = {u. old_op u (sys_st c)} - {t}"
    using t by (auto simp: s' in_op_put_ctx old_op_put_ctx split: if_splits)
  then have "lm_step (abs_sys c) Tau (abs_sys (c\<lparr>sys_st := s'\<rparr>))"
    using lm_end [of "abs_sys c" t] set_epoch_abs [OF t, where e = 0, folded s'] by simp
  then show ?thesis
    using set_epoch_cinv [OF inv t, where e = 0, folded s'] by (simp add: simulates_def)
qed

lemma init_simulates:
  assumes inv: "cinv c" and pc: "sys_pc c = Cp_Idle"
  defines "s' \<equiv> (sys_st c)\<lparr>ctx_array := ctx_array (sys_st c) @ [userthreadctx_new]\<rparr>"
  shows "simulates c Tau (c\<lparr>sys_st := s'\<rparr>)"
proof (rule simulates_stutter)
  have r: "redo_logs s' = redo_logs (sys_st c) @ [[]]"
    by (simp add: redo_logs_def s'_def userthreadctx_new_def)
  have a: "all_entries s' = all_entries (sys_st c)"
    by (simp add: all_entries_def r logs_contents_append) (simp add: s'_def logs_contents_def plog_contents_def)
  have op: "in_op t s' = in_op t (sys_st c)" "old_op t s' = old_op t (sys_st c)" for t
    by (auto simp: in_op_def old_op_def s'_def nth_append userthreadctx_new_def less_Suc_eq)
  have simps: "GLOBAL_EPOCH s' = GLOBAL_EPOCH (sys_st c)" "BitMap s' = BitMap (sys_st c)"
    "Plog_Management s' = Plog_Management (sys_st c)" "flagged b s' = flagged b (sys_st c)"
    "cur_parity s' = cur_parity (sys_st c)" for b
    by (simp_all add: s'_def flagged_def cur_parity_def)
  show "abs_sys (c\<lparr>sys_st := s'\<rparr>) = abs_sys c"
    by (simp add: abs_sys_def Let_def abs_stage_def pc op logged_cong [OF a]) (simp add: s'_def flagged_def cur_parity_def)
  have ll: "list_lines b T (sys_st c) \<subseteq> list_lines b T s'" for b T
    unfolding list_lines_def by (rule UN_mono) (auto simp: s'_def nth_append)
  show "cinv (c\<lparr>sys_st := s'\<rparr>)"
  proof (rule cinvI)
    fix t b
    assume "t < length (ctx_array (sys_st (c\<lparr>sys_st := s'\<rparr>)))"
    then show "regions_ok (uc_addrlist (ctx_array (sys_st (c\<lparr>sys_st := s'\<rparr>)) ! t) b)"
      using cinvD(3) [OF inv] by (auto simp: s'_def nth_append less_Suc_eq userthreadctx_new_def regions_ok_def)
  next
    have "uc_epoch (ctx_array s' ! t) = uc_epoch (ctx_array (sys_st c) ! t)" if "old_op t s'" for t
      using that [unfolded op] by (simp add: s'_def nth_append old_op_def in_op_def)
    then show "epochs_ok (c\<lparr>sys_st := s'\<rparr>)"
      using cinvD(6) [OF inv] by (auto simp: epochs_ok_def Let_def op simps)
  next
    show "wf_logs (Plog_Management (sys_st (c\<lparr>sys_st := s'\<rparr>))) (redo_logs (sys_st (c\<lparr>sys_st := s'\<rparr>)))"
      using cinvD(2) [OF inv]
      by (simp add: r simps wf_logs_def logs_contents_append) (simp add: logs_contents_def plog_contents_def)
  qed (use cinvD [OF inv] ll in \<open>force simp: simps todo_lines_def pc_ok_def pc\<close>)+
qed

subsection \<open>A write\<close>

lemma covered_store_other:
  assumes idx: "bitmap_get_index addr = Inr i" and cov: "covered addr val"
    and bound: "num_bits (word_of_nat (length val)) = 0 \<or> i + num_bits (word_of_nat (length val)) \<le> heap_lines"
    and j: "j < heap_lines" "j \<notin> {i..<i + num_bits (word_of_nat (length val))}"
  shows "store_bytes addr val mem (line_ptr j) = mem (line_ptr j)"
proof (cases "num_bits (word_of_nat (length val)) = 0")
  case True
  with cov have "val = []" by (simp add: covered_def)
  then show ?thesis by simp
next
  case False
  let ?n = "num_bits (word_of_nat (length val))"
  obtain k where k: "k < 64" "addr = line_ptr i + word_of_nat k"
    using idx by (rule heap_ptr_of_index)
  have i: "i < heap_lines" using bound False by simp
  have room: "k + length val \<le> 64 * ?n"
    using cov ucast_heap_ptr [OF i k(1)] by (simp add: covered_def k(2))
  have addr: "addr = DRAM_BASE + word_of_nat (64 * i + k)"
    by (simp add: k(2) line_ptr_def)
  have "(64 * i + k) div 64 = i" using k(1) by simp
  then have "store_bytes (DRAM_BASE + word_of_nat (64 * i + k)) val mem (line_ptr j) = mem (line_ptr j)"
    using bound False room j
    by (intro store_bytes_other) (auto dest!: line_ptr_inj [OF _ j(1)])
  then show ?thesis by (simp add: addr)
qed

text \<open>A call of \<^verbatim>\<open>mark\<close>, with the region it appends.\<close>

lemma mark_frame:
  assumes run: "mark t addr sz s = Inr s'" and idx: "bitmap_get_index addr = Inr i"
  defines "b \<equiv> epoch_bit (uc_epoch (ctx_array s ! t))" and "I \<equiv> {i..<i + num_bits sz}"
  assumes pre: "mark_pre b I s"
  shows "in_op t s" and "num_bits sz = 0 \<or> i + num_bits sz \<le> heap_lines"
    and "GLOBAL_EPOCH s' = GLOBAL_EPOCH s" "dram s' = dram s" "nvm s' = nvm s" "nvm_offset s' = nvm_offset s"
    and "length (ctx_array s') = length (ctx_array s)" and "BitMap s' = marked_bits b I (BitMap s)"
    and "u < length (ctx_array s) \<Longrightarrow> uc_epoch (ctx_array s' ! u) = uc_epoch (ctx_array s ! u)"
    and "u < length (ctx_array s) \<Longrightarrow> uc_addrlist (ctx_array s' ! u) p = uc_addrlist (ctx_array s ! u) p @
      (if u = t \<and> p = b \<and> (\<exists>j \<in> I. \<not> bm_bits (BitMap s b) j) then [(line_ptr i, num_bits sz)] else [])"
    and "wf_logs (Plog_Management s') (redo_logs s')"
    and "logged s' j = (if j \<in> I \<and> \<not> bm_bits (BitMap s b) j \<and> bm_bits (BitMap s (\<not> b)) j
      then Some (dram s (line_ptr j)) else logged s j)"
proof -
  obtain s1 where t: "t < length (ctx_array s)" "uc_epoch (ctx_array s ! t) \<noteq> 0"
    and n: "num_bits sz = 0 \<or> i + num_bits sz \<le> heap_lines" and e: "mark_effect t b I s s1"
    and s': "s' = (if \<exists>j \<in> I. \<not> bm_bits (BitMap s b) j then add_region t b i (num_bits sz) s1 else s1)"
    using mark_ok [OF run idx] pre unfolding b_def I_def by metis
  note f = mark_effect_frame [OF e]
  have t1: "t < length (ctx_array s1)" using t f(6) by simp
  have r: "redo_logs s' = redo_logs s1" "Plog_Management s' = Plog_Management s1"
    using t1 by (simp_all add: s' add_region_def Let_def redo_logs_put_ctx_same)
  show "in_op t s" using t by (simp add: in_op_def)
  show "num_bits sz = 0 \<or> i + num_bits sz \<le> heap_lines" by (rule n)
  show "GLOBAL_EPOCH s' = GLOBAL_EPOCH s" "dram s' = dram s" "nvm s' = nvm s"
    "nvm_offset s' = nvm_offset s" "length (ctx_array s') = length (ctx_array s)"
    "BitMap s' = marked_bits b I (BitMap s)"
    using f by (simp_all add: s' add_region_def Let_def)
  show "wf_logs (Plog_Management s') (redo_logs s')"
    using e by (simp add: r mark_effect_def)
  have "logged s' = logged s1" by (rule logged_cong) (simp add: all_entries_def r)
  then show "logged s' j = (if j \<in> I \<and> \<not> bm_bits (BitMap s b) j \<and> bm_bits (BitMap s (\<not> b)) j
      then Some (dram s (line_ptr j)) else logged s j)"
    using e by (simp add: mark_effect_def)
  show "u < length (ctx_array s) \<Longrightarrow> uc_epoch (ctx_array s' ! u) = uc_epoch (ctx_array s ! u)"
    using f t1 by (cases "u = t") (simp_all add: s' add_region_def Let_def)
  show "u < length (ctx_array s) \<Longrightarrow> uc_addrlist (ctx_array s' ! u) p = uc_addrlist (ctx_array s ! u) p @
      (if u = t \<and> p = b \<and> (\<exists>j \<in> I. \<not> bm_bits (BitMap s b) j) then [(line_ptr i, num_bits sz)] else [])"
    using f t1 by (cases "u = t") (auto simp: s' add_region_def Let_def)
qed

lemma op_parity:
  assumes "epochs_ok c" and "in_op t (sys_st c)"
  shows "epoch_bit (uc_epoch (ctx_array (sys_st c) ! t)) =
    (if old_op t (sys_st c) then \<not> cur_parity (sys_st c) else cur_parity (sys_st c))"
proof -
  let ?e = "uc_epoch (ctx_array (sys_st c) ! t)"
  have eq: "epoch_bit ?e = epoch_bit (Epoch ?e)" by (simp add: epoch_bit_Epoch)
  show ?thesis
  proof (cases "old_op t (sys_st c)")
    case True
    then have "Epoch ?e = Epoch (GLOBAL_EPOCH (sys_st c)) - 1"
      using assms(1) by (simp add: epochs_ok_def Let_def)
    with True show ?thesis by (simp add: eq epoch_bit_pred epoch_bit_Epoch cur_parity_def)
  next
    case False
    with assms(2) have "Epoch ?e = Epoch (GLOBAL_EPOCH (sys_st c))" by (simp add: old_op_def)
    with False show ?thesis by (simp add: eq epoch_bit_Epoch cur_parity_def)
  qed
qed

lemma region_lines_line_ptr:
  assumes "i < heap_lines" and "i + n \<le> heap_lines"
  shows "region_lines (line_ptr i, n) = {i..<i + n}"
proof
  show "region_lines (line_ptr i, n) \<subseteq> {i..<i + n}"
  proof
    fix x assume "x \<in> region_lines (line_ptr i, n)"
    then obtain j where x: "x < heap_lines" "line_ptr i = line_ptr j" "j \<le> x" "x < j + n"
      by (auto simp: region_lines_def)
    then have "i = j" using line_ptr_inj [of i j] assms(1) by simp
    with x show "x \<in> {i..<i + n}" by simp
  qed
  show "{i..<i + n} \<subseteq> region_lines (line_ptr i, n)" using assms by (auto simp: region_lines_def)
qed

text \<open>What every write establishes, whichever epoch its thread belongs to.\<close>

lemma write_frame:
  assumes run: "pwrite t addr val s = Inr s'"
  defines "b \<equiv> epoch_bit (uc_epoch (ctx_array s ! t))" and "I \<equiv> write_lines addr val"
  assumes pre: "mark_pre b I s"
  shows "in_op t s" and "I \<subseteq> {..<heap_lines}"
    and "GLOBAL_EPOCH s' = GLOBAL_EPOCH s" "nvm s' = nvm s" "nvm_offset s' = nvm_offset s"
    and "length (ctx_array s') = length (ctx_array s)" and "BitMap s' = marked_bits b I (BitMap s)"
    and "u < length (ctx_array s) \<Longrightarrow> uc_epoch (ctx_array s' ! u) = uc_epoch (ctx_array s ! u)"
    and "\<exists>r. region_lines r = I \<and> regions_ok [r] \<and> (\<forall>u < length (ctx_array s). \<forall>p.
      uc_addrlist (ctx_array s' ! u) p = uc_addrlist (ctx_array s ! u) p @
        (if u = t \<and> p = b \<and> (\<exists>j \<in> I. \<not> bm_bits (BitMap s b) j) then [r] else [])) \<or>
      I = {} \<and> (\<forall>u < length (ctx_array s). uc_addrlist (ctx_array s' ! u) = uc_addrlist (ctx_array s ! u))"
    and "wf_logs (Plog_Management s') (redo_logs s')"
    and "logged s' j = (if j \<in> I \<and> \<not> bm_bits (BitMap s b) j \<and> bm_bits (BitMap s (\<not> b)) j
      then Some (dram s (line_ptr j)) else logged s j)"
    and "covered addr val \<Longrightarrow> j < heap_lines \<Longrightarrow> j \<notin> I \<Longrightarrow> dram s' (line_ptr j) = dram s (line_ptr j)"
    and "(\<And>p j. p \<longleftrightarrow> \<not> b \<Longrightarrow> j < bm_size (BitMap s p) \<Longrightarrow> \<not> bm_bits (BitMap s p) j) \<Longrightarrow>
      Plog_Management s' = Plog_Management s \<and> redo_logs s' = redo_logs s"
proof -
  let ?sz = "word_of_nat (length val) :: size_t"
  from run obtain s1 where m: "mark t addr ?sz s = Inr s1"
    and s': "s' = s1\<lparr>dram := store_bytes addr val (dram s1)\<rparr>"
    by (auto simp: pwrite_def res_simps)
  from m obtain i where idx: "bitmap_get_index addr = Inr i"
    by (auto simp: mark_def Let_def res_simps)
  have I: "I = {i..<i + num_bits ?sz}"
    by (simp add: I_def write_lines_def idx)
  note f = mark_frame [OF m idx, folded b_def I, OF pre]
  note facts = f(1,3,5-9) f(11)
  show "in_op t s" "GLOBAL_EPOCH s' = GLOBAL_EPOCH s" "nvm s' = nvm s" "nvm_offset s' = nvm_offset s"
    "length (ctx_array s') = length (ctx_array s)" "BitMap s' = marked_bits b I (BitMap s)"
    "u < length (ctx_array s) \<Longrightarrow> uc_epoch (ctx_array s' ! u) = uc_epoch (ctx_array s ! u)"
    "wf_logs (Plog_Management s') (redo_logs s')"
    using facts by (simp_all add: s')
  show "I \<subseteq> {..<heap_lines}" using f(2) by (auto simp: I)
  have "logged s' = logged s1" by (rule logged_cong) (simp add: s' all_entries_def)
  then show "logged s' j = (if j \<in> I \<and> \<not> bm_bits (BitMap s b) j \<and> bm_bits (BitMap s (\<not> b)) j
      then Some (dram s (line_ptr j)) else logged s j)"
    using f(12) by simp
  show "covered addr val \<Longrightarrow> j < heap_lines \<Longrightarrow> j \<notin> I \<Longrightarrow> dram s' (line_ptr j) = dram s (line_ptr j)"
    using covered_store_other [OF idx _ f(2)] f(4) by (simp add: s' I)
  show "Plog_Management s' = Plog_Management s \<and> redo_logs s' = redo_logs s"
    if "\<And>p j. p \<longleftrightarrow> \<not> b \<Longrightarrow> j < bm_size (BitMap s p) \<Longrightarrow> \<not> bm_bits (BitMap s p) j"
    using mark_no_cow [OF m] that by (simp add: s' b_def)
  show "\<exists>r. region_lines r = I \<and> regions_ok [r] \<and> (\<forall>u < length (ctx_array s). \<forall>p.
      uc_addrlist (ctx_array s' ! u) p = uc_addrlist (ctx_array s ! u) p @
        (if u = t \<and> p = b \<and> (\<exists>j \<in> I. \<not> bm_bits (BitMap s b) j) then [r] else [])) \<or>
      I = {} \<and> (\<forall>u < length (ctx_array s). uc_addrlist (ctx_array s' ! u) = uc_addrlist (ctx_array s ! u))"
  proof (cases "num_bits ?sz = 0")
    case True
    then show ?thesis using f(10) by (simp add: s' I fun_eq_iff)
  next
    case False
    then have i: "i < heap_lines" "i + num_bits ?sz \<le> heap_lines" using f(2) by simp_all
    have "region_lines (line_ptr i, num_bits ?sz) = I" unfolding I by (rule region_lines_line_ptr [OF i])
    moreover have "regions_ok [(line_ptr i, num_bits ?sz)]"
      using i by (auto simp: regions_ok_def)
    ultimately show ?thesis
      using f(10) by (intro disjI1 exI [of _ "(line_ptr i, num_bits ?sz)"]) (simp add: s')
  qed
qed

text \<open>The lists of regions after a write.\<close>

lemma write_lists:
  assumes run: "pwrite t addr val s = Inr s'"
  defines "b \<equiv> epoch_bit (uc_epoch (ctx_array s ! t))"
  assumes pre: "mark_pre b (write_lines addr val) s"
  shows "list_lines (\<not> b) T s' = list_lines (\<not> b) T s"
    and "flagged b s \<subseteq> list_lines b UNIV s \<Longrightarrow> flagged b s' \<subseteq> list_lines b UNIV s'"
    and "(\<And>u p. u < length (ctx_array s) \<Longrightarrow> regions_ok (uc_addrlist (ctx_array s ! u) p)) \<Longrightarrow>
      u < length (ctx_array s) \<Longrightarrow> regions_ok (uc_addrlist (ctx_array s' ! u) p)"
proof -
  let ?I = "write_lines addr val"
  let ?new = "\<exists>j \<in> ?I. \<not> bm_bits (BitMap s b) j"
  note f = write_frame [OF run pre [unfolded b_def], folded b_def]
  have t: "t < length (ctx_array s)" using f(1) by (simp add: in_op_def)
  obtain r where lists: "\<And>u p. u < length (ctx_array s) \<Longrightarrow> uc_addrlist (ctx_array s' ! u) p =
      uc_addrlist (ctx_array s ! u) p @ (if u = t \<and> p = b \<and> ?new then [r] else [])"
    and r: "?new \<Longrightarrow> region_lines r = ?I \<and> regions_ok [r]"
    using f(9) by (auto 4 4)
  show "list_lines (\<not> b) T s' = list_lines (\<not> b) T s"
    by (simp add: list_lines_def f(6) lists)
  have fl: "flagged b s' = flagged b s \<union> ?I"
    using f(2) by (auto simp: flagged_def f(7) marked_bits_same)
  show "flagged b s' \<subseteq> list_lines b UNIV s'" if old: "flagged b s \<subseteq> list_lines b UNIV s"
  proof -
    have grow: "list_lines b UNIV s \<subseteq> list_lines b UNIV s'"
      by (auto simp: list_lines_def f(6) lists)
    have "?I \<subseteq> list_lines b UNIV s'"
    proof (cases ?new)
      case True
      then have "?I \<subseteq> \<Union> (region_lines ` set (uc_addrlist (ctx_array s' ! t) b))"
        using lists [OF t, of b] r by auto
      then show ?thesis using t by (auto simp: list_lines_def f(6))
    next
      case False
      then have "?I \<subseteq> flagged b s" using f(2) by (auto simp: flagged_def)
      then show ?thesis using old grow by blast
    qed
    then show ?thesis using old grow fl by blast
  qed
  show "regions_ok (uc_addrlist (ctx_array s' ! u) p)"
    if "\<And>u p. u < length (ctx_array s) \<Longrightarrow> regions_ok (uc_addrlist (ctx_array s ! u) p)"
      "u < length (ctx_array s)"
    using that(1) [OF that(2), of p] r by (auto simp: lists [OF that(2)] regions_ok_def)
qed

lemma write_cinv_rest:
  assumes inv: "cinv c" and run: "pwrite t addr val (sys_st c) = Inr s'"
    and pre: "mark_pre (epoch_bit (uc_epoch (ctx_array (sys_st c) ! t))) (write_lines addr val) (sys_st c)"
    and upd: "updating (sys_pc c) \<Longrightarrow> Plog_Management s' = Plog_Management (sys_st c) \<and> redo_logs s' = redo_logs (sys_st c)"
    and cur: "flagged (cur_parity s') s' \<subseteq> list_lines (cur_parity s') UNIV s'"
    and prev: "flagged (\<not> cur_parity s') s' \<subseteq> todo_lines (c\<lparr>sys_st := s'\<rparr>)"
  shows "cinv (c\<lparr>sys_st := s'\<rparr>)" and "abs_stage (c\<lparr>sys_st := s'\<rparr>) = abs_stage c"
    and "in_op u s' = in_op u (sys_st c)" and "old_op u s' = old_op u (sys_st c)"
proof -
  note f = write_frame [OF run pre]
  have ops: "in_op u s' = in_op u (sys_st c)" "old_op u s' = old_op u (sys_st c)" for u
    using f(3,6) f(8) [of u] by (auto simp: in_op_def old_op_def)
  then show "in_op u s' = in_op u (sys_st c)" "old_op u s' = old_op u (sys_st c)" by auto
  have pend: "pending k es s' = pending k es (sys_st c) \<and> all_entries s' = all_entries (sys_st c)" if "updating (sys_pc c)" for k es
    using upd [OF that] by (simp add: pending_def all_entries_def)
  show "abs_stage (c\<lparr>sys_st := s'\<rparr>) = abs_stage c"
    using pend by (auto simp: abs_stage_def updating_def split: cp_pc.splits)
  show "cinv (c\<lparr>sys_st := s'\<rparr>)"
  proof (rule cinvI)
    show "epochs_ok (c\<lparr>sys_st := s'\<rparr>)"
      using cinvD(6) [OF inv] f(3,6) f(8) by (auto simp: epochs_ok_def Let_def ops old_op_def in_op_def)
    show "pc_ok (c\<lparr>sys_st := s'\<rparr>)"
      using cinvD(7) [OF inv] pend by (auto simp: pc_ok_def Let_def f(6) ops updating_def split: cp_pc.splits)
    show "bm_size (BitMap (sys_st (c\<lparr>sys_st := s'\<rparr>)) p) = heap_lines" for p
      using cinvD(1) [OF inv] by (simp add: f(7))
    show "regions_ok (uc_addrlist (ctx_array (sys_st (c\<lparr>sys_st := s'\<rparr>)) ! v) p)"
      if "v < length (ctx_array (sys_st (c\<lparr>sys_st := s'\<rparr>)))" for v p
      using that write_lists(3) [OF run pre cinvD(3) [OF inv]] by (simp add: f(6))
  qed (use f(10) cur prev in simp_all)
qed

lemma todo_lines_mono:
  assumes "\<And>T. list_lines (\<not> cur_parity (sys_st c)) T (sys_st c) \<subseteq> list_lines (\<not> cur_parity s') T s'"
  shows "todo_lines c \<subseteq> todo_lines (c\<lparr>sys_st := s'\<rparr>)"
  using assms by (auto simp: todo_lines_def Let_def split: cp_pc.splits list.splits)

lemma lm_inv_disjoint: "lm_inv m sp \<Longrightarrow> lm_prev m \<inter> lm_cur m = {}"
  by (simp add: lm_inv_def)

lemma write_new_simulates:
  assumes inv: "cinv c" and lm: "lm_inv (abs_sys c) sp"
    and run: "pwrite t addr val (sys_st c) = Inr s'" and cov: "covered addr val"
    and op: "in_op t (sys_st c)" "\<not> old_op t (sys_st c)"
  shows "simulates c (Write False (write_lines addr val) (heap_image (dram s'))) (c\<lparr>sys_st := s'\<rparr>)"
proof -
  let ?s = "sys_st c" and ?b = "cur_parity (sys_st c)" and ?I = "write_lines addr val"
  have b: "epoch_bit (uc_epoch (ctx_array ?s ! t)) = ?b"
    using op_parity [OF cinvD(6) [OF inv] op(1)] op(2) by simp
  have pre: "mark_pre ?b ?I ?s"
    using cinvD(1,2) [OF inv] prev_not_logged [OF lm] by (simp add: mark_pre_def)
  note f = write_frame [OF run, unfolded b, OF pre]
  note l = write_lists [OF run, unfolded b, OF pre]
  have par: "cur_parity s' = ?b" by (simp add: cur_parity_def f(3))
  have fl: "flagged ?b s' = flagged ?b ?s \<union> ?I"
    "flagged (\<not> ?b) s' = flagged (\<not> ?b) ?s - (?I - flagged ?b ?s)"
    using f(2) by (auto simp: flagged_def f(7) marked_bits_same marked_bits_other)
  have upd: "Plog_Management s' = Plog_Management ?s \<and> redo_logs s' = redo_logs ?s"
    if "updating (sys_pc c)"
  proof (rule f(13))
    fix p j assume "p \<longleftrightarrow> \<not> ?b" and "j < bm_size (BitMap ?s p)"
    moreover have "lm_prev (abs_sys c) = {}"
      using lm that by (auto simp: lm_inv_def abs_stage_def updating_def split: cp_pc.splits)
    ultimately show "\<not> bm_bits (BitMap ?s p) j"
      using cinvD(1) [OF inv] by (auto simp: flagged_def)
  qed
  have prev: "flagged (\<not> cur_parity s') s' \<subseteq> todo_lines (c\<lparr>sys_st := s'\<rparr>)"
    using cinvD(5) [OF inv] todo_lines_mono [of c s'] l(1) by (auto simp: par fl)
  note rest = write_cinv_rest [OF inv run, unfolded b, OF pre upd _ prev, unfolded par,
      OF _ l(2) [OF cinvD(4) [OF inv]], simplified]
  have "lm_step (abs_sys c) (Write False ?I (heap_image (dram s')))
      ((abs_sys c)\<lparr>lm_dram := heap_image (dram s'),
        lm_log := (\<lambda>i. if i \<in> (?I - lm_cur (abs_sys c)) \<inter> lm_prev (abs_sys c)
          then Some (lm_dram (abs_sys c) i) else lm_log (abs_sys c) i),
        lm_prev := lm_prev (abs_sys c) - (?I - lm_cur (abs_sys c)), lm_cur := lm_cur (abs_sys c) \<union> ?I\<rparr>)"
    using op f(12) [OF cov] by (intro lm_write_new [of t]) (simp_all add: heap_image_def)
  moreover have "abs_sys (c\<lparr>sys_st := s'\<rparr>) = ((abs_sys c)\<lparr>lm_dram := heap_image (dram s'),
        lm_log := (\<lambda>i. if i \<in> (?I - lm_cur (abs_sys c)) \<inter> lm_prev (abs_sys c)
          then Some (lm_dram (abs_sys c) i) else lm_log (abs_sys c) i),
        lm_prev := lm_prev (abs_sys c) - (?I - lm_cur (abs_sys c)), lm_cur := lm_cur (abs_sys c) \<union> ?I\<rparr>)"
  proof (rule lmach.equality)
    show "lm_log (abs_sys (c\<lparr>sys_st := s'\<rparr>)) = lm_log ((abs_sys c)\<lparr>lm_dram := heap_image (dram s'),
        lm_log := (\<lambda>i. if i \<in> (?I - lm_cur (abs_sys c)) \<inter> lm_prev (abs_sys c)
          then Some (lm_dram (abs_sys c) i) else lm_log (abs_sys c) i),
        lm_prev := lm_prev (abs_sys c) - (?I - lm_cur (abs_sys c)), lm_cur := lm_cur (abs_sys c) \<union> ?I\<rparr>)"
      using f(2) by (auto simp: fun_eq_iff f(11) flagged_def heap_image_def)
  qed (simp_all add: rest par fl f)
  ultimately show ?thesis using rest by (simp add: simulates_def)
qed

lemma write_old_simulates:
  assumes inv: "cinv c" and lm: "lm_inv (abs_sys c) sp"
    and run: "pwrite t addr val (sys_st c) = Inr s'" and cov: "covered addr val"
    and op: "old_op t (sys_st c)"
    and cl: "write_lines addr val \<inter> flagged (cur_parity (sys_st c)) (sys_st c) = {}"
  shows "simulates c (Write True (write_lines addr val) (heap_image (dram s'))) (c\<lparr>sys_st := s'\<rparr>)"
proof -
  let ?s = "sys_st c" and ?b = "\<not> cur_parity (sys_st c)" and ?I = "write_lines addr val"
  have "in_op t ?s" using op by (simp add: old_op_def)
  then have b: "epoch_bit (uc_epoch (ctx_array ?s ! t)) = ?b"
    using op_parity [OF cinvD(6) [OF inv]] op by simp
  have cur: "\<not> bm_bits (BitMap ?s (cur_parity ?s)) i" if "i \<in> ?I" "i < heap_lines" for i
    using cl that by (auto simp: flagged_def)
  have pre: "mark_pre ?b ?I ?s"
    using cinvD(1,2) [OF inv] cur by (auto simp: mark_pre_def logged_def)
  note f = write_frame [OF run, unfolded b, OF pre]
  note l = write_lists [OF run, unfolded b, OF pre]
  have par: "cur_parity s' = cur_parity ?s" by (simp add: cur_parity_def f(3))
  have fl: "flagged ?b s' = flagged ?b ?s \<union> ?I" "flagged (cur_parity ?s) s' = flagged (cur_parity ?s) ?s"
    using f(2) cur marked_bits_other [of ?b ?I "BitMap ?s"]
    by (auto simp: flagged_def f(7) marked_bits_same)
  have stage: "\<exists>k. sys_pc c = Cp_Wait k"
    using lm op by (auto simp: lm_inv_def abs_stage_def split: stage.splits cp_pc.splits)
  have log: "logged s' = logged ?s"
    using f(2) cur by (auto simp: fun_eq_iff f(11))
  have todo: "flagged ?b ?s \<subseteq> list_lines ?b UNIV ?s"
    using cinvD(5) [OF inv] stage by (auto simp: todo_lines_def Let_def)
  have prev: "flagged (\<not> cur_parity s') s' \<subseteq> todo_lines (c\<lparr>sys_st := s'\<rparr>)"
    using l(2) [OF todo] stage by (auto simp: todo_lines_def Let_def par)
  have cur': "flagged (cur_parity ?s) s' \<subseteq> list_lines (cur_parity ?s) UNIV s'"
    using cinvD(4) [OF inv] l(1) by (simp add: fl)
  have upd: "\<not> updating (sys_pc c)" using stage by (auto simp: updating_def)
  note rest = write_cinv_rest [OF inv run, unfolded b, OF pre _ _ prev, unfolded par, OF _ cur', simplified upd, simplified]
  have "lm_step (abs_sys c) (Write True ?I (heap_image (dram s')))
      ((abs_sys c)\<lparr>lm_dram := heap_image (dram s'), lm_prev := lm_prev (abs_sys c) \<union> ?I\<rparr>)"
    using op cl f(12) [OF cov] by (intro lm_write_old [of t]) (simp_all add: heap_image_def)
  moreover have "abs_sys (c\<lparr>sys_st := s'\<rparr>) =
      (abs_sys c)\<lparr>lm_dram := heap_image (dram s'), lm_prev := lm_prev (abs_sys c) \<union> ?I\<rparr>"
    by (rule lmach.equality) (simp_all add: rest par fl f log)
  ultimately show ?thesis using rest by (simp add: simulates_def)
qed

lemma write_simulates:
  assumes "cinv c" and "lm_inv (abs_sys c) sp"
    and run: "pwrite t addr val (sys_st c) = Inr s'" and cl: "client_ok t addr val (sys_st c)"
  shows "simulates c (Write (old_op t (sys_st c)) (write_lines addr val) (heap_image (dram s')))
    (c\<lparr>sys_st := s'\<rparr>)"
proof (cases "old_op t (sys_st c)")
  case True
  then show ?thesis
    using write_old_simulates [OF assms(1,2) run] cl by (simp add: client_ok_def)
next
  case False
  have "t < length (ctx_array (sys_st c))" "uc_epoch (ctx_array (sys_st c) ! t) \<noteq> 0"
    using run by (auto simp: pwrite_def mark_def Let_def res_simps)
  then have "in_op t (sys_st c)" by (simp add: in_op_def)
  then show ?thesis
    using write_new_simulates [OF assms(1,2) run] cl False by (simp add: client_ok_def)
qed

subsection \<open>The checkpointing thread enters a phase\<close>

lemma enter_phase_Inr:
  "enter_phase e p s = Inr (e', s') \<longleftrightarrow> set_phase e p = Inr e' \<and> s' = s\<lparr>GLOBAL_EPOCH := e'\<rparr>"
  by (auto simp: enter_phase_def res_simps)

text \<open>Only the phase bits change.\<close>

lemma enter_phase_frame:
  fixes s :: "('j, 'z) escort_scheme"
  assumes "Epoch e = Epoch (GLOBAL_EPOCH s)"
  defines "s' \<equiv> s\<lparr>GLOBAL_EPOCH := e\<rparr>"
  shows "cur_parity s' = cur_parity s" and "flagged b s' = flagged b s" and "in_op t s' = in_op t s"
    and "old_op t s' = old_op t s" and "logged s' = logged s" and "list_lines b T s' = list_lines b T s"
    and "pending k es s' = pending k es s"
proof -
  show "cur_parity s' = cur_parity s"
    using assms(1) by (simp add: cur_parity_def s'_def) (metis epoch_bit_Epoch)
  show "logged s' = logged s" by (rule logged_cong) (simp add: s'_def all_entries_def)
qed (use assms(1) in \<open>simp_all add: s'_def flagged_def in_op_def old_op_def list_lines_def pending_def\<close>)

lemma enter_phase_cinv:
  assumes inv: "cinv c" and ph: "enter_phase (sys_epoch c) p (sys_st c) = Inr (e, s')"
    and pc: "pc_phase pc = p" "pc_ok (c\<lparr>sys_pc := pc, sys_epoch := e, sys_st := s'\<rparr>)"
    and todo: "todo_lines c \<subseteq> todo_lines (c\<lparr>sys_pc := pc, sys_epoch := e, sys_st := s'\<rparr>)"
  shows "cinv (c\<lparr>sys_pc := pc, sys_epoch := e, sys_st := s'\<rparr>)"
    and "abs_sys (c\<lparr>sys_pc := pc, sys_epoch := e, sys_st := s'\<rparr>) =
      (abs_sys c)\<lparr>lm_stage := abs_stage (c\<lparr>sys_pc := pc, sys_epoch := e, sys_st := s'\<rparr>)\<rparr>"
proof -
  from ph have e: "set_phase (sys_epoch c) p = Inr e" and s': "s' = (sys_st c)\<lparr>GLOBAL_EPOCH := e\<rparr>"
    by (simp_all add: enter_phase_Inr)
  have ep: "Epoch e = Epoch (GLOBAL_EPOCH (sys_st c))"
    using set_phase_bits(1) [OF e] cinvD(6) [OF inv] by (simp add: epochs_ok_def Let_def)
  note fr = enter_phase_frame [OF ep, folded s']
  show "abs_sys (c\<lparr>sys_pc := pc, sys_epoch := e, sys_st := s'\<rparr>) =
      (abs_sys c)\<lparr>lm_stage := abs_stage (c\<lparr>sys_pc := pc, sys_epoch := e, sys_st := s'\<rparr>)\<rparr>"
    by (rule lmach.equality) (simp_all add: fr, simp_all add: s')
  show "cinv (c\<lparr>sys_pc := pc, sys_epoch := e, sys_st := s'\<rparr>)"
  proof (rule cinvI)
    show "epochs_ok (c\<lparr>sys_pc := pc, sys_epoch := e, sys_st := s'\<rparr>)"
      using cinvD(6) [OF inv] get_set_phase [OF e] ep
      by (auto simp: epochs_ok_def Let_def pc(1) fr) (simp_all add: s')
    show "regions_ok (uc_addrlist (ctx_array (sys_st (c\<lparr>sys_pc := pc, sys_epoch := e, sys_st := s'\<rparr>)) ! t) b)"
      if "t < length (ctx_array (sys_st (c\<lparr>sys_pc := pc, sys_epoch := e, sys_st := s'\<rparr>)))" for t b
      using that cinvD(3) [OF inv] by (simp add: s')
    show "flagged (\<not> cur_parity (sys_st (c\<lparr>sys_pc := pc, sys_epoch := e, sys_st := s'\<rparr>)))
        (sys_st (c\<lparr>sys_pc := pc, sys_epoch := e, sys_st := s'\<rparr>)) \<subseteq>
        todo_lines (c\<lparr>sys_pc := pc, sys_epoch := e, sys_st := s'\<rparr>)"
      using cinvD(5) [OF inv] todo by (simp add: fr)
    show "bm_size (BitMap (sys_st (c\<lparr>sys_pc := pc, sys_epoch := e, sys_st := s'\<rparr>)) b) = heap_lines" for b
      using cinvD(1) [OF inv] by (simp add: s')
    show "wf_logs (Plog_Management (sys_st (c\<lparr>sys_pc := pc, sys_epoch := e, sys_st := s'\<rparr>)))
       (redo_logs (sys_st (c\<lparr>sys_pc := pc, sys_epoch := e, sys_st := s'\<rparr>)))"
      using cinvD(2) [OF inv] by (simp add: s')
  qed (use cinvD(4) [OF inv] pc(2) in \<open>simp_all add: fr\<close>)
qed

lemma seal_simulates:
  assumes inv: "cinv c" and lm: "lm_inv (abs_sys c) sp" and pc: "sys_pc c = Cp_Idle"
    and small: "unat (Epoch (sys_epoch c)) + 1 < 2 ^ 62"
    and ph: "enter_phase (sys_epoch c + 1) Multi_Epoch_Existence (sys_st c) = Inr (e, s')"
  shows "simulates c Boundary (c\<lparr>sys_pc := Cp_Wait 0, sys_epoch := e, sys_st := s'\<rparr>)"
proof -
  let ?s = "sys_st c" and ?c = "c\<lparr>sys_pc := Cp_Wait 0, sys_epoch := e, sys_st := s'\<rparr>"
  from ph have e: "set_phase (sys_epoch c + 1) Multi_Epoch_Existence = Inr e"
    and s': "s' = ?s\<lparr>GLOBAL_EPOCH := e\<rparr>"
    by (simp_all add: enter_phase_Inr)
  have g: "Epoch (sys_epoch c) = Epoch (GLOBAL_EPOCH ?s)" "2 \<le> unat (Epoch (GLOBAL_EPOCH ?s))"
    using cinvD(6) [OF inv] by (simp_all add: epochs_ok_def Let_def)
  have ep: "Epoch e = Epoch (GLOBAL_EPOCH ?s) + 1" "unat (Epoch e) = unat (Epoch (GLOBAL_EPOCH ?s)) + 1"
    using set_phase_bits(1) [OF e] Epoch_succ [OF small] unat_Epoch_succ [OF small] g(1) by simp_all
  have par: "cur_parity s' \<longleftrightarrow> \<not> cur_parity ?s"
    using ep(1) by (simp add: cur_parity_def s') (metis epoch_bit_Epoch epoch_bit_succ)
  have idle: "lm_old (abs_sys c) = {}" "lm_prev (abs_sys c) = {}"
    using lm by (simp_all add: lm_inv_def abs_stage_def pc)
  have cur: "Epoch (uc_epoch (ctx_array ?s ! t)) = Epoch (GLOBAL_EPOCH ?s)" if "in_op t ?s" for t
    using idle(1) that by (auto simp: old_op_def)
  have fl: "flagged b s' = flagged b ?s" and op: "in_op t s' = in_op t ?s" for b t
    by (simp_all add: s' flagged_def in_op_def)
  have "Epoch e \<noteq> Epoch (GLOBAL_EPOCH ?s)" using ep(1) by simp
  then have old: "old_op t s' = in_op t ?s" for t
    using cur [of t] by (auto simp: old_op_def op) (simp_all add: s')
  have ll: "list_lines b T s' = list_lines b T ?s" for b T by (simp add: list_lines_def s')
  have log: "logged s' = logged ?s" by (rule logged_cong) (simp add: s' all_entries_def)
  have "cinv ?c"
  proof (rule cinvI)
    show "epochs_ok ?c"
      using g ep get_set_phase [OF e] cur by (auto simp: epochs_ok_def Let_def old pc_phase_def) (simp_all add: s')
    show "pc_ok ?c" by (simp add: pc_ok_def)
    show "flagged (\<not> cur_parity (sys_st ?c)) (sys_st ?c) \<subseteq> todo_lines ?c"
      using cinvD(4) [OF inv] by (simp add: todo_lines_def par fl ll)
    show "flagged (cur_parity (sys_st ?c)) (sys_st ?c) \<subseteq> list_lines (cur_parity (sys_st ?c)) UNIV (sys_st ?c)"
      using idle(2) by (simp add: par fl)
  qed (use cinvD(1-3) [OF inv] in \<open>simp_all add: s'\<close>)
  moreover have "abs_sys ?c = (abs_sys c)\<lparr>lm_stage := Sealing, lm_prev := lm_cur (abs_sys c), lm_cur := {},
      lm_old := lm_new (abs_sys c), lm_new := {}\<rparr>"
    using idle by (intro lmach.equality) (auto simp: abs_stage_def par fl old op log, simp_all add: s')
  moreover have "lm_stage (abs_sys c) = Idle" by (simp add: abs_stage_def pc)
  note lm_seal [OF this]
  ultimately show ?thesis by (simp only: simulates_def)
qed

lemma waited_simulates:
  assumes inv: "cinv c" and pc: "sys_pc c = Cp_Wait (length (ctx_array (sys_st c)))"
    and ph: "enter_phase (sys_epoch c) Log_Persistence (sys_st c) = Inr (e, s')"
  shows "simulates c Tau (c\<lparr>sys_pc := Cp_NextCtx 0, sys_epoch := e, sys_st := s'\<rparr>)"
proof -
  have ep: "Epoch e = Epoch (GLOBAL_EPOCH (sys_st c))" and s': "s' = (sys_st c)\<lparr>GLOBAL_EPOCH := e\<rparr>"
    using ph set_phase_bits(1) [of "sys_epoch c" Log_Persistence e] cinvD(6) [OF inv]
    by (simp_all add: enter_phase_Inr epochs_ok_def Let_def)
  note fr = enter_phase_frame [OF ep, folded s']
  have "todo_lines c \<subseteq> todo_lines (c\<lparr>sys_pc := Cp_NextCtx 0, sys_epoch := e, sys_st := s'\<rparr>)"
    by (simp add: todo_lines_def Let_def pc fr)
  note r = enter_phase_cinv [OF inv ph _ _ this]
  have "lm_old (abs_sys c) = {}"
    using cinvD(7) [OF inv] by (auto simp: pc_ok_def Let_def pc old_op_def in_op_def)
  then have "lm_step (abs_sys c) Tau ((abs_sys c)\<lparr>lm_stage := Logging\<rparr>)"
    by (intro lm_waited) (simp_all add: abs_stage_def pc)
  then show ?thesis
    using r by (simp add: simulates_def pc_phase_def pc_ok_def) (simp add: abs_stage_def)
qed

lemma list_lines_beyond: "list_lines b {length (ctx_array s)..} s = {}"
  by (auto simp: list_lines_def)

lemma commit_simulates:
  assumes inv: "cinv c" and pc: "sys_pc c = Cp_NextCtx (length (ctx_array (sys_st c)))"
    and ph: "enter_phase (sys_epoch c) NVM_Heap_Update (sys_st c) = Inr (e, s')"
  shows "simulates c Commit (c\<lparr>sys_pc := Cp_Update 0 [], sys_epoch := e, sys_st := s'\<rparr>)"
proof -
  let ?c = "c\<lparr>sys_pc := Cp_Update 0 [], sys_epoch := e, sys_st := s'\<rparr>"
  have s': "s' = (sys_st c)\<lparr>GLOBAL_EPOCH := e\<rparr>"
    using ph by (simp add: enter_phase_Inr)
  have todo: "todo_lines c = {}" by (simp add: todo_lines_def pc list_lines_beyond)
  have pend: "pending 0 [] s' = all_entries s'" by (simp add: pending_def all_entries_def)
  have pco: "pc_ok ?c" by (auto simp: pc_ok_def pend)
  note r = enter_phase_cinv [OF inv ph _ pco]
  have "lm_prev (abs_sys c) = {}" using cinvD(5) [OF inv] todo by simp
  then have "lm_step (abs_sys c) Commit ((abs_sys c)\<lparr>lm_stage := Updating (dom (lm_log (abs_sys c)))\<rparr>)"
    by (intro lm_commit) (simp_all add: abs_stage_def pc)
  moreover have "abs_stage ?c = Updating (dom (lm_log (abs_sys c)))"
  proof -
    have "all_entries s' = all_entries (sys_st c)" by (simp add: s' all_entries_def)
    moreover have "i < heap_lines" if "i \<in> dom (logged (sys_st c))" for i
      using that by (auto simp: logged_def split: if_splits)
    ultimately have "{i. i < heap_lines \<and> line_ptr i \<in> fst ` set (all_entries s')} = dom (logged (sys_st c))"
      using logged_None_iff [of _ "sys_st c"] by (intro set_eqI) (metis (no_types, lifting) domIff mem_Collect_eq)
    then show ?thesis by (simp add: abs_stage_def pend)
  qed
  ultimately show ?thesis
    using r by (simp add: simulates_def todo pc_phase_def)
qed

subsection \<open>Moves of the checkpointing thread within a phase\<close>

text \<open>Only the position in the code changes, within the same stage.\<close>

lemma move_pc_simulates:
  assumes inv: "cinv c" and ph: "pc_phase pc = pc_phase (sys_pc c)"
    and st: "abs_stage (c\<lparr>sys_pc := pc\<rparr>) = abs_stage c"
    and ok: "pc_ok (c\<lparr>sys_pc := pc\<rparr>)" and todo: "todo_lines c \<subseteq> todo_lines (c\<lparr>sys_pc := pc\<rparr>)"
  shows "simulates c Tau (c\<lparr>sys_pc := pc\<rparr>)"
proof (rule simulates_stutter)
  show "abs_sys (c\<lparr>sys_pc := pc\<rparr>) = abs_sys c"
    by (rule lmach.equality) (simp_all add: st)
  show "cinv (c\<lparr>sys_pc := pc\<rparr>)"
    using cinvD [OF inv] todo ok by (intro cinvI) (auto simp: epochs_ok_def Let_def ph)
qed

lemma wait_simulates:
  assumes inv: "cinv c" and pc: "sys_pc c = Cp_Wait k" and k: "k < length (ctx_array (sys_st c))"
    and left: "left_previous_epoch (sys_epoch c) (ctx_array (sys_st c) ! k)"
  shows "simulates c Tau (c\<lparr>sys_pc := Cp_Wait (k + 1)\<rparr>)"
proof (rule move_pc_simulates [OF inv])
  have "\<not> old_op k (sys_st c)"
    using left cinvD(6) [OF inv] by (auto simp: left_previous_epoch_def epochs_ok_def Let_def)
  then show "pc_ok (c\<lparr>sys_pc := Cp_Wait (k + 1)\<rparr>)"
    using cinvD(7) [OF inv] k by (auto simp: pc_ok_def Let_def pc less_Suc_eq)
qed (simp_all add: pc_phase_def abs_stage_def todo_lines_def pc)

lemma list_lines_split:
  "k < length (ctx_array s) \<Longrightarrow>
   list_lines b {k..} s = \<Union> (region_lines ` set (uc_addrlist (ctx_array s ! k) b)) \<union> list_lines b {Suc k..} s"
proof -
  assume k: "k < length (ctx_array s)"
  have "{k..} \<inter> {..<length (ctx_array s)} = insert k ({Suc k..} \<inter> {..<length (ctx_array s)})"
    using k by auto
  then show ?thesis by (simp add: list_lines_def)
qed

lemma region_rest_0: "region_rest e 0 = region_lines e"
  by (simp add: region_rest_def region_lines_def split_beta)

lemma todo_Log:
  "todo_lines (c\<lparr>sys_pc := Cp_Log k es 0\<rparr>) =
     \<Union> (region_lines ` set es) \<union> list_lines (\<not> cur_parity (sys_st c)) {Suc k..} (sys_st c)"
  by (cases es) (simp_all add: todo_lines_def Let_def region_rest_0)

lemma list_simulates:
  assumes inv: "cinv c" and pc: "sys_pc c = Cp_NextCtx k" and k: "k < length (ctx_array (sys_st c))"
  shows "simulates c Tau
    (c\<lparr>sys_pc := Cp_Log k (uc_addrlist (ctx_array (sys_st c) ! k) (prev_parity (sys_st c))) 0\<rparr>)"
proof (rule move_pc_simulates [OF inv])
  let ?c = "c\<lparr>sys_pc := Cp_Log k (uc_addrlist (ctx_array (sys_st c) ! k) (prev_parity (sys_st c))) 0\<rparr>"
  show "pc_ok ?c" using cinvD(3) [OF inv k] k by (simp add: pc_ok_def)
  have "todo_lines c = list_lines (\<not> cur_parity (sys_st c)) {k..} (sys_st c)"
    by (simp add: todo_lines_def Let_def pc)
  then show "todo_lines c \<subseteq> todo_lines ?c"
    by (simp add: todo_Log list_lines_split [OF k] prev_parity_cur)
qed (simp_all add: pc_phase_def abs_stage_def pc)

lemma region_simulates:
  assumes inv: "cinv c" and pc: "sys_pc c = Cp_Log k ((a, n) # es) i" and n: "n \<le> i"
  shows "simulates c Tau (c\<lparr>sys_pc := Cp_Log k es 0\<rparr>)"
proof (rule move_pc_simulates [OF inv])
  show "pc_ok (c\<lparr>sys_pc := Cp_Log k es 0\<rparr>)"
    using cinvD(7) [OF inv] by (auto simp: pc_ok_def Let_def pc regions_ok_def)
  have "region_rest (a, n) i = {}" using n by (auto simp: region_rest_def)
  then have "todo_lines c = \<Union> (region_lines ` set es) \<union> list_lines (\<not> cur_parity (sys_st c)) {Suc k..} (sys_st c)"
    by (simp add: todo_lines_def Let_def pc)
  then show "todo_lines c \<subseteq> todo_lines (c\<lparr>sys_pc := Cp_Log k es 0\<rparr>)"
    by (simp add: todo_Log)
qed (simp_all add: pc_phase_def abs_stage_def pc)

lemma next_log_simulates:
  assumes inv: "cinv c" and pc: "sys_pc c = Cp_Update k []" and k: "k < length (redo_logs (sys_st c))"
  shows "simulates c Tau
    (c\<lparr>sys_pc := Cp_Update (k + 1) (plog_contents (Plog_Management (sys_st c)) (redo_logs (sys_st c) ! k))\<rparr>)"
proof (rule move_pc_simulates [OF inv])
  have p: "pending (k + 1) (plog_contents (Plog_Management (sys_st c)) (redo_logs (sys_st c) ! k)) (sys_st c) =
      pending k [] (sys_st c)"
    using k by (simp add: pending_def Cons_nth_drop_Suc [symmetric] logs_contents_Cons del: length_redo_logs)
  let ?c = "c\<lparr>sys_pc := Cp_Update (k + 1) (plog_contents (Plog_Management (sys_st c)) (redo_logs (sys_st c) ! k))\<rparr>"
  show "abs_stage ?c = abs_stage c" using p by (simp add: abs_stage_def pc)
  show "pc_ok ?c" using cinvD(7) [OF inv] k p by (simp add: pc_ok_def Let_def pc)
qed (simp_all add: pc_phase_def todo_lines_def pc)

subsection \<open>Logging a line, emptying a list\<close>

lemma region_rest_next:
  assumes "a = line_ptr j" and "j < heap_lines"
  shows "region_rest (a, n) i \<subseteq> insert (j + i) (region_rest (a, n) (i + 1))"
proof
  fix x assume "x \<in> region_rest (a, n) i"
  then obtain j' where x: "x < heap_lines" "line_ptr j = line_ptr j'" "j' + i \<le> x" "x < j' + n"
    using assms(1) by (auto simp: region_rest_def)
  have "j' = j"
    by (rule line_ptr_inj [OF x(2) [symmetric]]) (use x(1,3) assms(2) in simp_all)
  with x(1,3,4) assms(1) show "x \<in> insert (j + i) (region_rest (a, n) (i + 1))"
    by (auto simp: region_rest_def)
qed

text \<open>A line whose flag is gone is passed over; a flagged one is logged.\<close>

lemma clean_line_simulates:
  assumes inv: "cinv c" and pc: "sys_pc c = Cp_Log k ((a, n) # es) i" and i: "i < n"
  defines "c' \<equiv> c\<lparr>sys_pc := Cp_Log k ((a, n) # es) (i + 1)\<rparr>"
  assumes todo: "todo_lines c \<subseteq> insert x (todo_lines c')"
    and clean: "\<not> bm_bits (BitMap (sys_st c) (\<not> cur_parity (sys_st c))) x"
  shows "simulates c Tau c'"
proof -
  let ?s = "sys_st c" and ?p = "\<not> cur_parity (sys_st c)"
  have ok: "pc_ok c'" using cinvD(7) [OF inv] i by (simp add: c'_def pc_ok_def Let_def pc)
  have fl: "flagged ?p ?s \<subseteq> todo_lines c'"
    using cinvD(5) [OF inv] todo clean by (auto simp: flagged_iff)
  have ep: "epochs_ok c'"
    using cinvD(6) [OF inv] by (simp add: c'_def epochs_ok_def Let_def pc pc_phase_def)
  have "cinv c'"
    by (rule cinvI) (use cinvD(1-4) [OF inv] fl ep ok in \<open>simp_all add: c'_def\<close>)
  moreover have "abs_sys c' = abs_sys c"
    by (rule lmach.equality) (simp_all add: c'_def abs_stage_def pc)
  ultimately show ?thesis by (rule simulates_stutter)
qed

lemma logged_line_simulates:
  assumes inv: "cinv c" and pc: "sys_pc c = Cp_Log k ((a, n) # es) i" and i: "i < n" and x: "x < heap_lines"
    and todo: "todo_lines c \<subseteq> insert x (todo_lines (c\<lparr>sys_pc := Cp_Log k ((a, n) # es) (i + 1)\<rparr>))"
    and flag: "bm_bits (BitMap (sys_st c) (\<not> cur_parity (sys_st c))) x"
    and s': "s' = (sys_st c)\<lparr>cp_log := bl, Plog_Management := m, BitMap := (BitMap (sys_st c))((\<not> cur_parity (sys_st c)) :=
      (BitMap (sys_st c) (\<not> cur_parity (sys_st c)))\<lparr>bm_bits := (bm_bits (BitMap (sys_st c) (\<not> cur_parity (sys_st c))))(x := False)\<rparr>)\<rparr>"
    and wf: "wf_logs (Plog_Management s') (redo_logs s')"
    and log: "logged s' = (logged (sys_st c))(x \<mapsto> dram (sys_st c) (line_ptr x))"
  shows "simulates c Tau (c\<lparr>sys_pc := Cp_Log k ((a, n) # es) (i + 1), sys_st := s'\<rparr>)"
proof -
  let ?s = "sys_st c" and ?c = "c\<lparr>sys_pc := Cp_Log k ((a, n) # es) (i + 1)\<rparr>" and ?p = "\<not> cur_parity (sys_st c)"
  let ?c' = "c\<lparr>sys_pc := Cp_Log k ((a, n) # es) (i + 1), sys_st := s'\<rparr>"
  have ok: "pc_ok ?c" using cinvD(7) [OF inv] i by (simp add: pc_ok_def Let_def pc)
  have par: "cur_parity s' = cur_parity ?s" by (simp add: s' cur_parity_def)
  have fl: "flagged (cur_parity ?s) s' = flagged (cur_parity ?s) ?s" "flagged ?p s' = flagged ?p ?s - {x}"
    by (auto simp: s' flagged_def)
  have op: "in_op t s' = in_op t ?s" "old_op t s' = old_op t ?s" "list_lines q T s' = list_lines q T ?s" for t q T
    by (simp_all add: s' in_op_def old_op_def list_lines_def)
  have td: "todo_lines ?c' = todo_lines ?c" by (simp add: todo_lines_def Let_def par op)
  have "cinv ?c'"
  proof (rule cinvI)
    show "epochs_ok ?c'"
      using cinvD(6) [OF inv] by (simp add: epochs_ok_def Let_def op) (simp add: s' pc pc_phase_def)
    show "pc_ok ?c'" using ok by (simp add: pc_ok_def) (simp add: s')
    show "flagged (\<not> cur_parity (sys_st ?c')) (sys_st ?c') \<subseteq> todo_lines ?c'"
      using cinvD(5) [OF inv] todo by (auto simp: td [simplified] par fl)
    show "bm_size (BitMap (sys_st ?c') q) = heap_lines" for q
      using cinvD(1) [OF inv] by (simp add: s')
    show "regions_ok (uc_addrlist (ctx_array (sys_st ?c') ! t) q)"
      if "t < length (ctx_array (sys_st ?c'))" for t q
      using that cinvD(3) [OF inv] by (simp add: s')
  qed (use cinvD(4) [OF inv] wf in \<open>simp_all add: par fl op\<close>)
  moreover have "abs_sys ?c' = (abs_sys c)\<lparr>
      lm_log := (lm_log (abs_sys c))(x \<mapsto> lm_dram (abs_sys c) x), lm_prev := lm_prev (abs_sys c) - {x}\<rparr>"
    using x by (intro lmach.equality) (simp_all add: abs_stage_def pc par fl op log heap_image_def, simp_all add: s')
  moreover have "lm_step (abs_sys c) Tau ((abs_sys c)\<lparr>
      lm_log := (lm_log (abs_sys c))(x \<mapsto> lm_dram (abs_sys c) x), lm_prev := lm_prev (abs_sys c) - {x}\<rparr>)"
    using flag x by (intro lm_log_line) (simp_all add: abs_stage_def pc flagged_iff)
  ultimately show ?thesis by (simp only: simulates_def)
qed

lemma line_simulates:
  assumes inv: "cinv c" and lm: "lm_inv (abs_sys c) sp"
    and pc: "sys_pc c = Cp_Log k ((a, n) # es) i" and i: "i < n"
    and base: "bitmap_get_index a = Inr base"
    and run: "log_line (prev_parity (sys_st c)) (base + i) (a + word_of_nat (CACHE_LINE_SIZE * i)) (sys_st c) = Inr s'"
  shows "simulates c Tau (c\<lparr>sys_pc := Cp_Log k ((a, n) # es) (i + 1), sys_st := s'\<rparr>)"
proof -
  let ?s = "sys_st c" and ?c = "c\<lparr>sys_pc := Cp_Log k ((a, n) # es) (i + 1)\<rparr>" and ?p = "\<not> cur_parity (sys_st c)"
  obtain j where j: "a = line_ptr j" "j < heap_lines" "j + n \<le> heap_lines"
    using cinvD(7) [OF inv] by (auto simp: pc_ok_def Let_def pc regions_ok_def)
  then have b: "base = j" using base by (simp add: bitmap_get_index_line)
  have l: "j + i < heap_lines" using j(3) i by simp
  have run': "log_line ?p (j + i) (line_ptr (j + i)) ?s = Inr s'"
    using run by (simp add: b j(1) prev_parity_cur line_ptr_add [symmetric])
  have todo: "todo_lines c \<subseteq> insert (j + i) (todo_lines ?c)"
    using region_rest_next [OF j(1,2), of n i] by (auto simp: todo_lines_def Let_def pc)
  note run_ok = log_line_ok [OF cinvD(2) [OF inv] l _ run']
  show ?thesis
  proof (cases "bm_bits (BitMap ?s ?p) (j + i)")
    case False
    then have "s' = ?s" using run_ok by simp
    with clean_line_simulates [OF inv pc i todo False] show ?thesis by simp
  next
    case True
    then obtain bl m where
      "s' = ?s\<lparr>cp_log := bl, Plog_Management := m, BitMap := (BitMap ?s)(?p :=
         (BitMap ?s ?p)\<lparr>bm_bits := (bm_bits (BitMap ?s ?p))(j + i := False)\<rparr>)\<rparr>"
      and "wf_logs (Plog_Management s') (redo_logs s')"
      and "logged s' = (logged ?s)(j + i \<mapsto> dram ?s (line_ptr (j + i)))"
      using run_ok prev_not_logged [OF lm True] by auto
    from logged_line_simulates [OF inv pc i l todo True this] show ?thesis .
  qed
qed

lemma list_done_simulates:
  assumes inv: "cinv c" and pc: "sys_pc c = Cp_Log k [] i"
    and run: "clear_list (prev_parity (sys_st c)) k (sys_st c) = Inr s'"
  shows "simulates c Tau (c\<lparr>sys_pc := Cp_NextCtx (k + 1), sys_st := s'\<rparr>)"
proof -
  let ?s = "sys_st c" and ?p = "\<not> cur_parity (sys_st c)" and ?c = "c\<lparr>sys_pc := Cp_NextCtx (k + 1), sys_st := s'\<rparr>"
  from run have k: "k < length (ctx_array ?s)" and s': "s' = put_ctx k ((ctx_array ?s ! k)
      \<lparr>uc_addrlist := (uc_addrlist (ctx_array ?s ! k))(?p := [])\<rparr>) ?s"
    by (auto simp: clear_list_def addrlist_clear_def res_simps prev_parity_cur)
  have rl: "redo_logs s' = redo_logs ?s" using k by (simp add: s' redo_logs_put_ctx_same)
  have log: "logged s' = logged ?s"
    by (rule logged_cong) (simp add: all_entries_def rl, simp add: s')
  have lists: "uc_addrlist (ctx_array s' ! t) q = (if t = k \<and> q = ?p then [] else uc_addrlist (ctx_array ?s ! t) q)" for t q
    using k by (cases "t = k") (auto simp: s')
  have len: "length (ctx_array s') = length (ctx_array ?s)" by (simp add: s')
  have op: "in_op t s' = in_op t ?s" "old_op t s' = old_op t ?s" "uc_epoch (ctx_array s' ! t) = uc_epoch (ctx_array ?s ! t)" for t
    using k by (cases "t = k"; simp add: s' in_op_def old_op_def)+
  have ll: "list_lines (cur_parity ?s) T s' = list_lines (cur_parity ?s) T ?s"
    "list_lines ?p {Suc k..} s' = list_lines ?p {Suc k..} ?s" for T
    by (auto simp: list_lines_def len lists)
  have par: "cur_parity s' = cur_parity ?s" by (simp add: s')
  have fl: "flagged q s' = flagged q ?s" for q by (simp add: s')
  have "cinv ?c"
  proof (rule cinvI)
    show "epochs_ok ?c"
      using cinvD(6) [OF inv] by (simp add: epochs_ok_def Let_def op) (simp add: s' pc pc_phase_def)
    show "pc_ok ?c" using k by (simp add: pc_ok_def len)
    show "flagged (\<not> cur_parity (sys_st ?c)) (sys_st ?c) \<subseteq> todo_lines ?c"
      using cinvD(5) [OF inv] by (simp add: todo_lines_def Let_def pc par fl ll)
    show "bm_size (BitMap (sys_st ?c) q) = heap_lines" for q
      using cinvD(1) [OF inv] by (simp add: s')
    show "regions_ok (uc_addrlist (ctx_array (sys_st ?c) ! t) q)"
      if "t < length (ctx_array (sys_st ?c))" for t q
      using that cinvD(3) [OF inv] by (simp add: lists len) (simp add: regions_ok_def)
    show "wf_logs (Plog_Management (sys_st ?c)) (redo_logs (sys_st ?c))"
      using cinvD(2) [OF inv] by (simp add: rl) (simp add: s')
  qed (use cinvD(4) [OF inv] in \<open>simp add: par fl ll\<close>)
  moreover have "abs_sys ?c = abs_sys c"
    by (rule lmach.equality) (simp_all add: abs_stage_def pc par fl op log, simp_all add: s')
  ultimately show ?thesis by (rule simulates_stutter)
qed

subsection \<open>The update of the NVM heap\<close>

lemma add_addr_inj: "add_addr a x = add_addr b x \<longleftrightarrow> a = b"
  by (simp add: add_addr_def)

lemma heap_image_replay:
  assumes "i < heap_lines"
  shows "heap_image (\<lambda>a. (h(add_addr (line_ptr i) x := v)) (add_addr a x)) =
    (heap_image (\<lambda>a. h (add_addr a x)))(i := v)"
  using assms line_ptr_inj [of _ i] by (auto simp: heap_image_def fun_eq_iff add_addr_inj)

lemma replay_simulates:
  assumes inv: "cinv c" and pc: "sys_pc c = Cp_Update k (e # es)"
  shows "simulates c Tau (c\<lparr>sys_pc := Cp_Update k es, sys_st := replay_entry e (sys_st c)\<rparr>)"
proof -
  let ?s = "sys_st c" and ?s' = "replay_entry e (sys_st c)"
  let ?c = "c\<lparr>sys_pc := Cp_Update k es, sys_st := ?s'\<rparr>"
  have s': "?s' = ?s\<lparr>nvm := (nvm ?s)(add_addr (fst e) (nvm_offset ?s) := snd e)\<rparr>"
    by (simp add: replay_entry_def Let_def)
  obtain done' where k: "k \<le> length (redo_logs ?s)" and all: "all_entries ?s = done' @ pending k (e # es) ?s"
    using cinvD(7) [OF inv] by (auto simp: pc_ok_def Let_def pc)
  have pend: "pending k (e # es) ?s = e # pending k es ?s" by (simp add: pending_def)
  have wf: "distinct (map fst (all_entries ?s))" "fst ` set (all_entries ?s) \<subseteq> line_ptr ` {..<heap_lines}"
    using cinvD(2) [OF inv] by (simp_all add: wf_logs_def all_entries_def)
  have "fst e \<in> fst ` set (all_entries ?s)" by (simp add: all pend)
  then obtain i where i: "fst e = line_ptr i" "i < heap_lines" using wf(2) by auto
  have "(line_ptr i, snd e) = e" using i(1) by (metis prod.collapse)
  then have ent: "(line_ptr i, snd e) \<in> set (all_entries ?s)" by (simp add: all pend)
  have log: "logged ?s i = Some (snd e)"
    using map_of_is_SomeI [OF wf(1) ent] i(2) by (simp add: logged_def)
  have fresh: "line_ptr i \<notin> fst ` set (pending k es ?s)"
    using wf(1) i(1) by (simp add: all pend)
  define R where "R = {i. i < heap_lines \<and> line_ptr i \<in> fst ` set (pending k (e # es) ?s)}"
  have R': "{i. i < heap_lines \<and> line_ptr i \<in> fst ` set (pending k es ?s)} = R - {i}"
    using fresh i line_ptr_inj [of _ i] by (auto simp: R_def pend)
  have same: "pending k' es' ?s' = pending k' es' ?s" "redo_logs ?s' = redo_logs ?s" "all_entries ?s' = all_entries ?s" for k' es'
    by (simp_all add: s' pending_def all_entries_def)
  have eqs: "cur_parity ?s' = cur_parity ?s" "flagged q ?s' = flagged q ?s" "in_op t ?s' = in_op t ?s"
    "old_op t ?s' = old_op t ?s" "list_lines q T ?s' = list_lines q T ?s" for q t T
    by (simp_all add: s' cur_parity_def flagged_def in_op_def old_op_def list_lines_def)
  have "cinv ?c"
  proof (rule cinvI)
    show "epochs_ok ?c"
      using cinvD(6) [OF inv] by (simp add: epochs_ok_def Let_def eqs) (simp add: s' pc pc_phase_def)
    show "pc_ok ?c" using k all by (auto simp: pc_ok_def same pend simp del: length_redo_logs)
    show "flagged (\<not> cur_parity (sys_st ?c)) (sys_st ?c) \<subseteq> todo_lines ?c"
      using cinvD(5) [OF inv] by (simp add: todo_lines_def pc eqs)
    show "bm_size (BitMap (sys_st ?c) q) = heap_lines" for q
      using cinvD(1) [OF inv] by (simp add: s')
    show "regions_ok (uc_addrlist (ctx_array (sys_st ?c) ! t) q)"
      if "t < length (ctx_array (sys_st ?c))" for t q
      using that cinvD(3) [OF inv] by (simp add: s')
    show "wf_logs (Plog_Management (sys_st ?c)) (redo_logs (sys_st ?c))"
      using cinvD(2) [OF inv] by (simp add: same) (simp add: s')
  qed (use cinvD(4) [OF inv] in \<open>simp add: eqs\<close>)
  moreover have "abs_sys ?c = (abs_sys c)\<lparr>lm_nvm := (lm_nvm (abs_sys c))(i := snd e), lm_stage := Updating (R - {i})\<rparr>"
  proof -
    have "logged ?s' = logged ?s" by (rule logged_cong [OF same(3)])
    moreover have "heap_image (\<lambda>a. nvm ?s' (add_addr a (nvm_offset ?s'))) = (lm_nvm (abs_sys c))(i := snd e)"
      using heap_image_replay [OF i(2)] by (simp add: s' i(1))
    ultimately show ?thesis
      by (intro lmach.equality) (simp_all add: abs_stage_def R' eqs same, simp_all add: s')
  qed
  moreover have "lm_step (abs_sys c) Tau
      ((abs_sys c)\<lparr>lm_nvm := (lm_nvm (abs_sys c))(i := snd e), lm_stage := Updating (R - {i})\<rparr>)"
    using i log by (intro lm_update) (auto simp: abs_stage_def pc R_def pend)
  ultimately show ?thesis by (simp only: simulates_def)
qed

lemma finish_simulates:
  assumes inv: "cinv c" and pc: "sys_pc c = Cp_Update (length (redo_logs (sys_st c))) []"
  shows "simulates c Tau (c\<lparr>sys_pc := Cp_Idle, sys_st := clear_redo_logs (sys_st c)\<rparr>)"
proof -
  let ?s = "sys_st c" and ?s' = "clear_redo_logs (sys_st c)"
  let ?c = "c\<lparr>sys_pc := Cp_Idle, sys_st := ?s'\<rparr>"
  obtain m where s': "?s' = ?s\<lparr>cp_log := [], Plog_Management := m, ctx_array := map (\<lambda>c. c\<lparr>uc_log := []\<rparr>) (ctx_array ?s)\<rparr>"
    and wf: "wf_logs m (redo_logs ?s')"
    using clear_redo_logs_ok [OF cinvD(2) [OF inv]] by blast
  have "redo_logs ?s' = map (\<lambda>_. []) (redo_logs ?s)" by (simp add: s' redo_logs_def)
  then have "all_entries ?s' = []"
    by (simp add: all_entries_def logs_contents_def plog_contents_def comp_def)
  then have log: "logged ?s' = Map.empty" by (simp add: logged_def fun_eq_iff)
  have eqs: "cur_parity ?s' = cur_parity ?s" "flagged q ?s' = flagged q ?s" "in_op t ?s' = in_op t ?s"
    "old_op t ?s' = old_op t ?s" "length (ctx_array ?s') = length (ctx_array ?s)" for q t
    by (auto simp: s' cur_parity_def flagged_def in_op_def old_op_def)
  have ctx: "uc_epoch (ctx_array ?s' ! t) = uc_epoch (ctx_array ?s ! t)"
    "uc_addrlist (ctx_array ?s' ! t) = uc_addrlist (ctx_array ?s ! t)" if "t < length (ctx_array ?s)" for t
    using that by (simp_all add: s')
  have ll: "list_lines q T ?s' = list_lines q T ?s" for q T
    unfolding list_lines_def eqs(5) by (rule SUP_cong) (use ctx in auto)
  have "cinv ?c"
  proof (rule cinvI)
    have "old_op t ?s \<Longrightarrow> t < length (ctx_array ?s)" for t by (simp add: old_op_def in_op_def)
    then show "epochs_ok ?c"
      using cinvD(6) [OF inv] ctx by (simp add: epochs_ok_def Let_def eqs) (simp add: s' pc pc_phase_def)
    show "pc_ok ?c" by (simp add: pc_ok_def)
    show "flagged (\<not> cur_parity (sys_st ?c)) (sys_st ?c) \<subseteq> todo_lines ?c"
      using cinvD(5) [OF inv] by (simp add: todo_lines_def pc eqs)
    show "bm_size (BitMap (sys_st ?c) q) = heap_lines" for q
      using cinvD(1) [OF inv] by (simp add: s')
    show "regions_ok (uc_addrlist (ctx_array (sys_st ?c) ! t) q)"
      if "t < length (ctx_array (sys_st ?c))" for t q
      using that cinvD(3) [OF inv] by (simp add: eqs ctx)
    show "wf_logs (Plog_Management (sys_st ?c)) (redo_logs (sys_st ?c))"
      using wf by (simp add: s')
  qed (use cinvD(4) [OF inv] in \<open>simp add: eqs ll\<close>)
  moreover have "abs_sys ?c = (abs_sys c)\<lparr>lm_stage := Idle, lm_log := Map.empty\<rparr>"
    by (rule lmach.equality) (simp_all add: abs_stage_def eqs log, simp_all add: s')
  moreover have "lm_stage (abs_sys c) = Updating {}"
    using pc by (simp add: abs_stage_def pending_def logs_contents_def)
  note lm_finish [OF this]
  ultimately show ?thesis by (simp only: simulates_def)
qed

subsection \<open>Every step\<close>

lemma user_step_simulates:
  "user_step c ev c' \<Longrightarrow> cinv c \<Longrightarrow> lm_inv (abs_sys c) sp \<Longrightarrow> simulates c ev c'"
  by (induction rule: user_step.induct) (rule begin_simulates end_simulates write_simulates; assumption)+

lemma cp_step_simulates:
  "cp_step c ev c' \<Longrightarrow> cinv c \<Longrightarrow> lm_inv (abs_sys c) sp \<Longrightarrow> simulates c ev c'"
  by (induction rule: cp_step.induct)
     (rule seal_simulates wait_simulates waited_simulates list_simulates line_simulates region_simulates
       list_done_simulates commit_simulates replay_simulates next_log_simulates finish_simulates; assumption)+

lemma sys_step_simulates:
  assumes "sys_step al c ev c'" and "cinv c" and "lm_inv (abs_sys c) sp"
  shows "simulates c ev c'"
  using assms
proof (induction rule: sys_step.induct)
  case (user_init c)
  then show ?case by (intro init_simulates)
next
  case (by_user c ev c')
  then show ?case by (intro user_step_simulates)
next
  case (user_malloc t c sz p s)
  then show ?case by (intro same_heap_simulates malloc_same_heap)
next
  case (user_free t c p sz s)
  then show ?case by (intro same_heap_simulates free_same_heap)
next
  case (by_checkpointing c ev c')
  then show ?case by (intro cp_step_simulates)
next
  case (cp_dealloc c s)
  then show ?case by (intro same_heap_simulates dealloc_same_heap)
next
  case (cp_check_valid c s)
  then show ?case by (intro same_heap_simulates check_valid_same_heap)
next
  case (cp_record_sizes c s)
  then show ?case by (intro same_heap_simulates cpallocator_checkpointing_same_heap)
qed

lemma sys_step_cinv: "sys_step al c ev c' \<Longrightarrow> cinv c \<Longrightarrow> lm_inv (abs_sys c) sp \<Longrightarrow> cinv c'"
  using sys_step_simulates [of al c ev c' sp] by (simp add: simulates_def)

lemma sys_step_lm_inv:
  "sys_step al c ev c' \<Longrightarrow> cinv c \<Longrightarrow> lm_inv (abs_sys c) sp \<Longrightarrow> lm_inv (abs_sys c') (spec_step ev sp)"
  using sys_step_simulates [of al c ev c' sp] lm_step_inv [of "abs_sys c" ev "abs_sys c'" sp]
  by (simp add: simulates_def)

end
