(* ===== verification/CheckpointCorrect.thy ===== *)
theory CheckpointCorrect
  imports CheckpointSim
begin

section \<open>Crash consistency of checkpointing\<close>

text \<open>
  Runs of the whole library from a state at rest, and what they guarantee: the live heap, the
  heap that a crash falls back to, and the NVM heap between two checkpoints are those of
  the specification \<open>spec\<close> driven by the events of the run.
\<close>

subsection \<open>Runs\<close>

text \<open>\<open>sys_run al c evs c'\<close>: \<open>evs\<close> are the events, the latest first.\<close>

inductive sys_run :: "'j allocator \<Rightarrow> 'j sys \<Rightarrow> cacheline_t event list \<Rightarrow> 'j sys \<Rightarrow> bool"
  for al :: "'j allocator" and c0 :: "'j sys" where
  run_start: "sys_run al c0 [] c0"
| run_step: "sys_run al c0 evs c \<Longrightarrow> sys_step al c ev c' \<Longrightarrow> sys_run al c0 (ev # evs) c'"

lemma sys_run_trans: "sys_run al c1 es2 c2 \<Longrightarrow> sys_run al c0 es1 c1 \<Longrightarrow> sys_run al c0 (es2 @ es1) c2"
proof (induction rule: sys_run.induct)
  case run_start
  then show ?case by simp
next
  case (run_step evs c ev c')
  then show ?case by (auto intro: sys_run.run_step)
qed

definition spec_run :: "cacheline_t event list \<Rightarrow> (nat \<Rightarrow> cacheline_t) \<Rightarrow> cacheline_t spec" where
  "spec_run evs h = foldr spec_step evs (spec_init h)"

text \<open>The library at rest: nothing flagged, logged or in an operation; the two heaps agree.\<close>

definition quiescent :: "('j, 'z) escort_scheme \<Rightarrow> bool" where
  "quiescent s \<longleftrightarrow>
     2 \<le> unat (Epoch (GLOBAL_EPOCH s)) \<and> get_phase (GLOBAL_EPOCH s) = Inr NVM_Heap_Update \<and>
     (\<forall>b. bm_size (BitMap s b) = heap_lines \<and> bitmap_is_clear (BitMap s b)) \<and>
     plog_pool_ok (Plog_Management s) \<and> cp_log s = [] \<and>
     (\<forall>ctx \<in> set (ctx_array s). uc_epoch ctx = 0 \<and> uc_log ctx = [] \<and> (\<forall>b. uc_addrlist ctx b = [])) \<and>
     heap_image (\<lambda>a. nvm s (add_addr a (nvm_offset s))) = heap_image (dram s)"

text \<open>The checkpointing thread starts: \<^verbatim>\<open>epoch_t epoch = Epoch(GLOBAL_EPOCH)\<close>.\<close>

definition sys_init :: "'j escort \<Rightarrow> 'j sys" where
  "sys_init s = \<lparr>sys_pc = Cp_Idle, sys_epoch = Epoch (GLOBAL_EPOCH s), sys_st = s\<rparr>"

lemma quiescent_logs:
  assumes "quiescent s"
  shows "all_entries s = []" and "wf_logs (Plog_Management s) (redo_logs s)"
proof -
  have r: "l = []" if "l \<in> set (redo_logs s)" for l
    using assms that by (auto simp: quiescent_def redo_logs_def)
  have "concat (redo_logs s) = []" using r by (metis concat_eq_Nil_conv)
  moreover have "logs_contents m (redo_logs s) = []" for m
    using r by (auto simp: logs_contents_def plog_contents_def contents_def dest!: r)
  ultimately show "all_entries s = []" "wf_logs (Plog_Management s) (redo_logs s)"
    using assms by (simp_all add: all_entries_def wf_logs_def log_ok_def quiescent_def del: set_concat concat_eq_Nil_conv)
qed

lemma quiescent_cinv:
  assumes "quiescent s"
  shows "cinv (sys_init s)" and "lm_inv (abs_sys (sys_init s)) (spec_init (heap_image (dram s)))"
proof -
  have fl: "flagged b s = {}" for b
    using assms by (auto simp: quiescent_def flagged_def bitmap_is_clear_iff)
  have op: "\<not> in_op t s" "\<not> old_op t s" for t
    using assms by (auto simp: quiescent_def in_op_def old_op_def)
  show "cinv (sys_init s)"
    using assms quiescent_logs [OF assms] op
    by (intro cinvI) (auto simp: sys_init_def fl quiescent_def regions_ok_def epochs_ok_def pc_ok_def
        pc_phase_def Epoch_idem)
  have "logged s = Map.empty" by (simp add: logged_def fun_eq_iff quiescent_logs(1) [OF assms])
  then show "lm_inv (abs_sys (sys_init s)) (spec_init (heap_image (dram s)))"
    using assms op by (simp add: lm_inv_def sys_init_def abs_stage_def spec_init_def fl quiescent_def)
qed

lemma sys_run_inv:
  assumes "sys_run al (sys_init s) evs c" and "quiescent s"
  shows "cinv c \<and> lm_inv (abs_sys c) (spec_run evs (heap_image (dram s)))"
  using assms
proof (induction rule: sys_run.induct)
  case run_start
  then show ?case using quiescent_cinv [of s] by (simp add: spec_run_def)
next
  case (run_step evs c ev c')
  then show ?case
    using sys_step_cinv [of al c ev c'] sys_step_lm_inv [of al c ev c'] by (auto simp: spec_run_def)
qed

subsection \<open>Replaying logs\<close>

definition nvm_image :: "('j, 'z) escort_scheme \<Rightarrow> nat \<Rightarrow> cacheline_t" where
  "nvm_image s = heap_image (\<lambda>a. nvm s (add_addr a (nvm_offset s)))"

definition entries_map :: "(ptr \<times> cacheline_t) list \<Rightarrow> nat \<rightharpoonup> cacheline_t" where
  "entries_map es i = (if i < heap_lines then map_of es (line_ptr i) else None)"

lemma replay_entries_only_nvm: "\<exists>h. fold replay_entry es s = s\<lparr>nvm := h\<rparr>"
proof (induction es arbitrary: s)
  case Nil
  have "s = s\<lparr>nvm := nvm s\<rparr>" by simp
  then show ?case by (metis fold_simps(1))
next
  case (Cons e es)
  obtain h where "fold replay_entry es (replay_entry e s) = (replay_entry e s)\<lparr>nvm := h\<rparr>"
    using Cons by blast
  then have "fold replay_entry (e # es) s = s\<lparr>nvm := h\<rparr>"
    by (simp add: replay_entry_def Let_def)
  then show ?case by blast
qed

lemma replay_entries:
  assumes "distinct (map fst es)" and "fst ` set es \<subseteq> line_ptr ` {..<heap_lines}"
  shows "nvm_image (fold replay_entry es s) = overlay (entries_map es) (nvm_image s)"
  using assms
proof (induction es arbitrary: s)
  case Nil
  show ?case by (simp add: overlay_def entries_map_def fun_eq_iff)
next
  case (Cons e es)
  from Cons.prems obtain i where i: "i < heap_lines" "fst e = line_ptr i" by auto
  have im: "nvm_image (replay_entry e s) = (nvm_image s)(i := snd e)"
    using heap_image_replay [OF i(1), of "nvm s" "nvm_offset s" "snd e"]
    by (simp add: replay_entry_def Let_def nvm_image_def i(2) del: fun_upd_apply)
  have "overlay (entries_map es) ((nvm_image s)(i := snd e)) j = overlay (entries_map (e # es)) (nvm_image s) j" for j
  proof (cases "j = i")
    case True
    have "line_ptr i \<notin> fst ` set es" using Cons.prems i(2) by simp
    then have "entries_map es i = None" by (simp add: entries_map_def map_of_eq_None_iff)
    moreover have "entries_map (e # es) i = Some (snd e)"
      using i by (cases e) (simp add: entries_map_def)
    ultimately show ?thesis using True by (simp add: overlay_def)
  next
    case False
    then have "entries_map (e # es) j = entries_map es j"
      using i line_ptr_inj [of j i] by (cases e) (auto simp: entries_map_def)
    with False show ?thesis by (simp add: overlay_def split: option.split)
  qed
  then have "overlay (entries_map es) (nvm_image (replay_entry e s)) = overlay (entries_map (e # es)) (nvm_image s)"
    unfolding im by (rule ext)
  with Cons show ?case by simp
qed

lemma replay_block_entries:
  "replay_block b s = fold replay_entry (plog_entries (pm_area (Plog_Management s) b)) s"
  by (simp add: replay_block_def plog_entries_def fold_map Let_def comp_def)

lemma replay_entries_frame: "Plog_Management (fold replay_entry es s) = Plog_Management s"
  by (induction es arbitrary: s) (simp_all add: replay_entry_def Let_def)

lemma replay_redo_log_entries:
  "replay_redo_log log s = fold replay_entry (plog_contents (Plog_Management s) log) s"
proof (induction log arbitrary: s)
  case Nil
  then show ?case by (simp add: replay_redo_log_def plog_contents_def)
next
  case (Cons b log)
  have "replay_redo_log (b # log) s = replay_redo_log log (replay_block b s)"
    by (simp add: replay_redo_log_def)
  also have "\<dots> = fold replay_entry (plog_contents (Plog_Management s) (b # log)) s"
    by (simp add: Cons replay_block_entries replay_entries_frame plog_contents_def contents_def)
  finally show ?case .
qed

lemma replay_logs_entries:
  "fold replay_redo_log ls s = fold replay_entry (logs_contents (Plog_Management s) ls) s"
proof (induction ls arbitrary: s)
  case Nil
  then show ?case by (simp add: logs_contents_def)
next
  case (Cons l ls)
  then show ?case
    by (simp add: logs_contents_def replay_redo_log_entries replay_entries_frame)
qed

text \<open>Replaying every redo log lays the logged lines over the NVM heap, whatever was there.\<close>

lemma replay_all_logs:
  assumes "wf_logs (Plog_Management s) (redo_logs s)"
  shows "nvm_image (fold replay_redo_log (redo_logs s) s) = overlay (logged s) (nvm_image s)"
    and "\<exists>h. fold replay_redo_log (redo_logs s) s = s\<lparr>nvm := h\<rparr>"
proof -
  have "entries_map (all_entries s) = logged s" by (simp add: entries_map_def logged_def fun_eq_iff)
  with replay_entries [of "all_entries s" s] replay_entries_only_nvm [of "all_entries s" s] assms
  show "nvm_image (fold replay_redo_log (redo_logs s) s) = overlay (logged s) (nvm_image s)"
    "\<exists>h. fold replay_redo_log (redo_logs s) s = s\<lparr>nvm := h\<rparr>"
    by (simp_all add: replay_logs_entries all_entries_def wf_logs_def)
qed

subsection \<open>Recovery by the method\<close>

text \<open>
  What recovery has to do: in the phase in which the logs are complete, replay them all; the
  heap is then the NVM heap. (What \<^verbatim>\<open>escort_init\<close> does instead is modelled in
  the theory \<^verbatim>\<open>Recovery\<close>.)
\<close>

definition recover_by_method :: "('j, 'z) escort_scheme \<Rightarrow> ('j, 'z) escort_scheme" where
  "recover_by_method s =
     (if get_phase (GLOBAL_EPOCH s) = Inr NVM_Heap_Update then fold replay_redo_log (redo_logs s) s else s)"

lemma recovered_durable:
  assumes inv: "cinv c" and lm: "lm_inv (abs_sys c) sp"
  shows "nvm_image (recover_by_method (sys_st c)) = sp_durable sp"
proof -
  have ph: "get_phase (GLOBAL_EPOCH (sys_st c)) = Inr (pc_phase (sys_pc c))"
    using cinvD(6) [OF inv] by (simp add: epochs_ok_def Let_def)
  have nvm: "nvm_image (sys_st c) = lm_nvm (abs_sys c)" by (simp add: nvm_image_def)
  have replay: "nvm_image (fold replay_redo_log (redo_logs (sys_st c)) (sys_st c)) =
      overlay (lm_log (abs_sys c)) (lm_nvm (abs_sys c))"
    using replay_all_logs(1) [OF cinvD(2) [OF inv]] nvm by simp
  have "nvm_image (recover_by_method (sys_st c)) = lm_recovered (abs_sys c)"
  proof (cases "sys_pc c")
    case Cp_Idle
    with lm have "lm_log (abs_sys c) = Map.empty" by (simp add: lm_inv_def abs_stage_def)
    with Cp_Idle show ?thesis
      by (simp add: recover_by_method_def ph pc_phase_def replay lm_recovered_def abs_stage_def del: abs_sys_sel(5,6))
  next
    case (Cp_Update k es)
    then show ?thesis
      by (simp add: recover_by_method_def ph pc_phase_def replay lm_recovered_def abs_stage_def del: abs_sys_sel(5,6))
  qed (simp_all add: recover_by_method_def ph pc_phase_def nvm lm_recovered_def abs_stage_def del: abs_sys_sel(5,6))
  then show ?thesis using lm_recovered_durable [OF lm] by simp
qed

end
