(* ===== verification/CheckpointSeq.thy ===== *)
theory CheckpointSeq
  imports CheckpointCorrect
begin

section \<open>A checkpoint without interference\<close>

text \<open>
  The function \<open>checkpoint_round\<close>, which is the body of the loop of \<^verbatim>\<open>checkpointing\<close> as the code
  has it, performs a run of the step relation. So the relation is no other program: its small
  steps, taken in program order, compute the function, and the theorems on runs hold for it.
\<close>

text \<open>\<open>quiet_run\<close>: a run that no client can see.\<close>

definition quiet_run :: "'j allocator \<Rightarrow> 'j sys \<Rightarrow> 'j sys \<Rightarrow> bool" where
  "quiet_run al c c' \<longleftrightarrow> (\<exists>n. sys_run al c (replicate n Tau) c')"

lemma quiet_refl [simp]: "quiet_run al c c"
  unfolding quiet_run_def by (rule exI [of _ 0]) (simp add: sys_run.run_start)

lemma quiet_trans: "quiet_run al c1 c2 \<Longrightarrow> quiet_run al c2 c3 \<Longrightarrow> quiet_run al c1 c3"
  unfolding quiet_run_def by (metis replicate_add sys_run_trans)

lemma quiet_step: "sys_step al c1 Tau c2 \<Longrightarrow> quiet_run al c1 c2"
  unfolding quiet_run_def
  by (rule exI [of _ 1]) (simp add: sys_run.run_step [OF sys_run.run_start])

lemma quiet_step_run: "sys_step al c1 Tau c2 \<Longrightarrow> quiet_run al c2 c3 \<Longrightarrow> quiet_run al c1 c3"
  by (rule quiet_trans [OF quiet_step])

abbreviation at :: "cp_pc \<Rightarrow> epoch_t \<Rightarrow> 'j escort \<Rightarrow> 'j sys" where
  "at pc e s \<equiv> \<lparr>sys_pc = pc, sys_epoch = e, sys_st = s\<rparr>"

subsection \<open>The wait\<close>

lemma wait_left:
  assumes "wait_previous_epoch_transactions e s = Inr ()" and "ctx \<in> set (ctx_array s)"
  shows "left_previous_epoch e ctx"
proof -
  have "\<forall>ctx \<in> set cs. left_previous_epoch e ctx"
    if "rfold (\<lambda>ctx _. if left_previous_epoch e ctx then Inr () else Inl Diverges) cs () = Inr ()" for cs
    using that by (induction cs) (auto simp: res_simps split: if_splits)
  with assms show ?thesis by (simp add: wait_previous_epoch_transactions_def)
qed

lemma wait_run:
  assumes "wait_previous_epoch_transactions e s = Inr ()" and "k \<le> length (ctx_array s)"
  shows "quiet_run al (at (Cp_Wait 0) e s) (at (Cp_Wait k) e s)"
  using assms(2)
proof (induction k)
  case 0
  then show ?case by simp
next
  case (Suc k)
  have "sys_step al (at (Cp_Wait k) e s) Tau (at (Cp_Wait (Suc k)) e s)"
    using cp_wait [of "at (Cp_Wait k) e s" k] Suc.prems wait_left [OF assms(1)] by simp
  with Suc show ?case by (auto intro: quiet_trans quiet_step)
qed

lemma all_left_wait:
  assumes "\<And>ctx. ctx \<in> set (ctx_array s) \<Longrightarrow> left_previous_epoch e ctx"
  shows "wait_previous_epoch_transactions e s = Inr ()"
proof -
  have "\<exists>u. rfold (\<lambda>ctx _. if left_previous_epoch e ctx then Inr () else Inl Diverges) (ctx_array s) () = Inr u \<and> True"
    by (intro rfold_total [where I = "\<lambda>_. True"]) (simp_all add: assms)
  then show ?thesis by (simp add: wait_previous_epoch_transactions_def)
qed

subsection \<open>The log loop\<close>

lemma log_line_epoch: "log_line p i a s = Inr s' \<Longrightarrow> GLOBAL_EPOCH s' = GLOBAL_EPOCH s \<and> ctx_array s' = ctx_array s"
  by (auto simp: log_line_def res_simps split: if_splits)

lemma log_lines_run:
  assumes "log_lines (prev_parity s) m (base + i) (a + word_of_nat (64 * i)) s = Inr s'"
    and "bitmap_get_index a = Inr base" and "i + m = n"
  shows "quiet_run al (at (Cp_Log k ((a, n) # es) i) e s) (at (Cp_Log k ((a, n) # es) n) e s') \<and>
    GLOBAL_EPOCH s' = GLOBAL_EPOCH s \<and> ctx_array s' = ctx_array s"
  using assms
proof (induction m arbitrary: i s)
  case 0
  then show ?case by simp
next
  case (Suc m)
  obtain s1 where l: "log_line (prev_parity s) (base + i) (a + word_of_nat (64 * i)) s = Inr s1"
    and rest: "log_lines (prev_parity s) m (base + i + 1) (add_addr (a + word_of_nat (64 * i)) (word_of_nat 64)) s1 = Inr s'"
    using Suc.prems(1) by (auto simp: res_simps)
  have e: "GLOBAL_EPOCH s1 = GLOBAL_EPOCH s" "ctx_array s1 = ctx_array s"
    using log_line_epoch [OF l] by simp_all
  have p: "prev_parity s1 = prev_parity s" by (simp add: prev_parity_def e)
  have step: "sys_step al (at (Cp_Log k ((a, n) # es) i) e s) Tau (at (Cp_Log k ((a, n) # es) (i + 1)) e s1)"
    using cp_line [of "at (Cp_Log k ((a, n) # es) i) e s" k a n es i base s1] Suc.prems(2,3) l by simp
  have "log_lines (prev_parity s1) m (base + (i + 1)) (a + word_of_nat (64 * (i + 1))) s1 = Inr s'"
    using rest by (simp add: p add_addr_def algebra_simps)
  note next_line = this
  have "quiet_run al (at (Cp_Log k ((a, n) # es) (i + 1)) e s1) (at (Cp_Log k ((a, n) # es) n) e s') \<and>
    GLOBAL_EPOCH s' = GLOBAL_EPOCH s1 \<and> ctx_array s' = ctx_array s1"
    by (rule Suc.IH [OF next_line Suc.prems(2)]) (use Suc.prems(3) in simp)
  with step e quiet_step_run [OF step] show ?case by simp
qed

lemma log_region_run:
  assumes "log_region (prev_parity s) (a, n) s = Inr s'"
  shows "quiet_run al (at (Cp_Log k ((a, n) # es) 0) e s) (at (Cp_Log k es 0) e s') \<and>
    GLOBAL_EPOCH s' = GLOBAL_EPOCH s \<and> ctx_array s' = ctx_array s"
proof -
  obtain base where b: "bitmap_get_index a = Inr base" "log_lines (prev_parity s) n base a s = Inr s'"
    using assms by (auto simp: log_region_def res_simps)
  have l: "log_lines (prev_parity s) n (base + 0) (a + word_of_nat (64 * 0)) s = Inr s'" using b(2) by simp
  have lines: "quiet_run al (at (Cp_Log k ((a, n) # es) 0) e s) (at (Cp_Log k ((a, n) # es) n) e s') \<and>
    GLOBAL_EPOCH s' = GLOBAL_EPOCH s \<and> ctx_array s' = ctx_array s"
    by (rule log_lines_run [OF l b(1)]) simp
  have "sys_step al (at (Cp_Log k ((a, n) # es) n) e s') Tau (at (Cp_Log k es 0) e s')"
    using cp_region [of "at (Cp_Log k ((a, n) # es) n) e s'" k a n es n] by simp
  from quiet_trans [OF conjunct1 [OF lines] quiet_step [OF this]] lines show ?thesis by simp
qed

lemma log_regions_run:
  assumes "rfold (log_region p) es s = Inr s'" and "p = prev_parity s"
  shows "quiet_run al (at (Cp_Log k es 0) e s) (at (Cp_Log k [] 0) e s') \<and>
    GLOBAL_EPOCH s' = GLOBAL_EPOCH s \<and> ctx_array s' = ctx_array s"
  using assms
proof (induction es arbitrary: s)
  case Nil
  then show ?case by simp
next
  case (Cons r es)
  obtain a n where r: "r = (a, n)" by (cases r)
  obtain s1 where s1: "log_region p r s = Inr s1" "rfold (log_region p) es s1 = Inr s'"
    using Cons.prems(1) by (auto simp: res_simps)
  have st: "quiet_run al (at (Cp_Log k (r # es) 0) e s) (at (Cp_Log k es 0) e s1) \<and>
    GLOBAL_EPOCH s1 = GLOBAL_EPOCH s \<and> ctx_array s1 = ctx_array s"
    using log_region_run s1(1) Cons.prems(2) by (simp add: r)
  then have "p = prev_parity s1" using Cons.prems(2) by (simp add: prev_parity_def)
  from Cons.IH [OF s1(2) this] st show ?case by (auto intro: quiet_trans)
qed

lemma log_ctx_run:
  assumes "log_ctx (prev_parity s) k s = Inr s'"
  shows "quiet_run al (at (Cp_NextCtx k) e s) (at (Cp_NextCtx (k + 1)) e s')"
    and "GLOBAL_EPOCH s' = GLOBAL_EPOCH s" and "length (ctx_array s') = length (ctx_array s)"
proof -
  obtain s1 where k: "k < length (ctx_array s)"
    and l: "rfold (log_region (prev_parity s)) (uc_addrlist (ctx_array s ! k) (prev_parity s)) s = Inr s1"
    and c: "clear_list (prev_parity s) k s1 = Inr s'"
    using assms by (auto simp: log_ctx_def res_simps)
  have regs: "quiet_run al (at (Cp_Log k (uc_addrlist (ctx_array s ! k) (prev_parity s)) 0) e s) (at (Cp_Log k [] 0) e s1) \<and>
    GLOBAL_EPOCH s1 = GLOBAL_EPOCH s \<and> ctx_array s1 = ctx_array s"
    by (rule log_regions_run [OF l refl])
  then have p: "prev_parity s1 = prev_parity s" by (simp add: prev_parity_def)
  have 1: "sys_step al (at (Cp_NextCtx k) e s) Tau (at (Cp_Log k (uc_addrlist (ctx_array s ! k) (prev_parity s)) 0) e s)"
    using cp_list [of "at (Cp_NextCtx k) e s" k] k by simp
  have 2: "sys_step al (at (Cp_Log k [] 0) e s1) Tau (at (Cp_NextCtx (k + 1)) e s')"
    using cp_list_done [of "at (Cp_Log k [] 0) e s1" k 0 s'] c p by simp
  show "quiet_run al (at (Cp_NextCtx k) e s) (at (Cp_NextCtx (k + 1)) e s')"
    using quiet_step_run [OF 1 quiet_trans [OF conjunct1 [OF regs] quiet_step [OF 2]]] .
  show "GLOBAL_EPOCH s' = GLOBAL_EPOCH s" "length (ctx_array s') = length (ctx_array s)"
    using regs c by (auto simp: clear_list_def res_simps)
qed

lemma log_persistence_unit_run:
  assumes "log_persistence_unit s = Inr s'"
  shows "quiet_run al (at (Cp_NextCtx 0) e s) (at (Cp_NextCtx (length (ctx_array s))) e s')"
    and "GLOBAL_EPOCH s' = GLOBAL_EPOCH s" and "length (ctx_array s') = length (ctx_array s)"
proof -
  have "quiet_run al (at (Cp_NextCtx j) e u) (at (Cp_NextCtx n) e v) \<and> GLOBAL_EPOCH v = GLOBAL_EPOCH u \<and>
      length (ctx_array v) = length (ctx_array u)"
    if "rfold (log_ctx p) [j..<n] u = Inr v" "j \<le> n" "p = prev_parity u" for j n u v p
    using that
  proof (induction "n - j" arbitrary: j u)
    case 0
    then show ?case by simp
  next
    case (Suc m)
    then have up: "[j..<n] = j # [Suc j..<n]" by (simp add: upt_conv_Cons)
    obtain w where w: "log_ctx p j u = Inr w" "rfold (log_ctx p) [Suc j..<n] w = Inr v"
      using Suc.prems(1) by (auto simp: up res_simps)
    note step = log_ctx_run [OF w(1) [unfolded Suc.prems(3)]]
    have "p = prev_parity w" using Suc.prems(3) step(2) by (simp add: prev_parity_def)
    with Suc.hyps(1) [of "Suc j" w] Suc.hyps(2) Suc.prems(2) w(2) step(2,3)
    have ih: "quiet_run al (at (Cp_NextCtx (j + 1)) e w) (at (Cp_NextCtx n) e v) \<and> GLOBAL_EPOCH v = GLOBAL_EPOCH u \<and>
      length (ctx_array v) = length (ctx_array u)"
      by simp
    from quiet_trans [OF step(1) conjunct1 [OF ih]] ih show ?case by simp
  qed
  from this [of "prev_parity s" 0 "length (ctx_array s)" s s'] assms
  show "quiet_run al (at (Cp_NextCtx 0) e s) (at (Cp_NextCtx (length (ctx_array s))) e s')"
    "GLOBAL_EPOCH s' = GLOBAL_EPOCH s" "length (ctx_array s') = length (ctx_array s)"
    by (simp_all add: log_persistence_unit_def)
qed

subsection \<open>The update loop\<close>

lemma replay_entry_frame [simp]:
  "GLOBAL_EPOCH (replay_entry e s) = GLOBAL_EPOCH s" "redo_logs (replay_entry e s) = redo_logs s"
  "Plog_Management (replay_entry e s) = Plog_Management s"
  by (simp_all add: replay_entry_def Let_def)

lemma replay_entries_run:
  "quiet_run al (at (Cp_Update k es) e s) (at (Cp_Update k []) e (fold replay_entry es s)) \<and>
   GLOBAL_EPOCH (fold replay_entry es s) = GLOBAL_EPOCH s \<and>
   redo_logs (fold replay_entry es s) = redo_logs s \<and> Plog_Management (fold replay_entry es s) = Plog_Management s"
proof (induction es arbitrary: s)
  case Nil
  then show ?case by simp
next
  case (Cons x es)
  have "sys_step al (at (Cp_Update k (x # es)) e s) Tau (at (Cp_Update k es) e (replay_entry x s))"
    using cp_replay [of "at (Cp_Update k (x # es)) e s" k x es] by simp
  from quiet_step_run [OF this] Cons [of "replay_entry x s"] show ?case by simp
qed

lemma replay_logs_run:
  assumes "k \<le> length (redo_logs s)"
  shows "quiet_run al (at (Cp_Update k []) e s)
    (at (Cp_Update (length (redo_logs s)) []) e (fold replay_redo_log (drop k (redo_logs s)) s))"
  using assms
proof (induction "length (redo_logs s) - k" arbitrary: k s)
  case 0
  then show ?case by simp
next
  case (Suc m)
  then have k: "k < length (redo_logs s)" by simp
  let ?es = "plog_contents (Plog_Management s) (redo_logs s ! k)"
  have 1: "sys_step al (at (Cp_Update k []) e s) Tau (at (Cp_Update (k + 1) ?es) e s)"
    using cp_next_log [of "at (Cp_Update k []) e s" k] k by simp
  let ?s = "fold replay_entry ?es s"
  have r: "quiet_run al (at (Cp_Update (k + 1) ?es) e s) (at (Cp_Update (k + 1) []) e ?s)" "redo_logs ?s = redo_logs s"
    using replay_entries_run [of al "k + 1" ?es e s] by blast+
  have "quiet_run al (at (Cp_Update (k + 1) []) e ?s)
      (at (Cp_Update (length (redo_logs ?s)) []) e (fold replay_redo_log (drop (k + 1) (redo_logs ?s)) ?s))"
    using Suc.hyps(2) k by (intro Suc.hyps(1)) (simp_all add: r(2))
  moreover have "fold replay_redo_log (drop k (redo_logs s)) s = fold replay_redo_log (drop (k + 1) (redo_logs s)) ?s"
    by (simp only: Cons_nth_drop_Suc [OF k, symmetric] fold_simps replay_redo_log_entries) simp
  ultimately have "quiet_run al (at (Cp_Update (k + 1) []) e ?s)
      (at (Cp_Update (length (redo_logs s)) []) e (fold replay_redo_log (drop k (redo_logs s)) s))"
    by (simp only: r(2))
  from quiet_step_run [OF 1 quiet_trans [OF r(1) this]] show ?case .
qed

lemma replay_redo_log_frame: "redo_logs (fold replay_redo_log ls s) = redo_logs s"
  using replay_entries_only_nvm [of "logs_contents (Plog_Management s) ls" s]
  by (auto simp: replay_logs_entries)

lemma fold_ctx_logs: "fold (\<lambda>ctx. replay_redo_log (uc_log ctx)) cs u = fold replay_redo_log (map uc_log cs) u"
  by (simp add: fold_map comp_def)

lemma nvm_heap_update_unit_eq:
  "nvm_heap_update_unit s = clear_redo_logs (fold replay_redo_log (redo_logs s) s)"
proof -
  have "map uc_log (ctx_array (replay_redo_log (cp_log s) s)) = map uc_log (ctx_array s)"
    using replay_redo_log_frame [of "[cp_log s]" s] by (simp add: redo_logs_def)
  then show ?thesis
    by (simp add: nvm_heap_update_unit_def Let_def redo_logs_def fold_ctx_logs)
qed

lemma nvm_heap_update_unit_run:
  "quiet_run al (at (Cp_Update 0 []) e s) (at Cp_Idle e (nvm_heap_update_unit s))"
proof -
  let ?u = "fold replay_redo_log (redo_logs s) s"
  have 1: "quiet_run al (at (Cp_Update 0 []) e s) (at (Cp_Update (length (redo_logs s)) []) e ?u)"
    using replay_logs_run [of 0 s al e] by simp
  have "sys_step al (at (Cp_Update (length (redo_logs s)) []) e ?u) Tau (at Cp_Idle e (clear_redo_logs ?u))"
    using cp_finish [of "at (Cp_Update (length (redo_logs s)) []) e ?u"] by (simp add: replay_redo_log_frame)
  from quiet_trans [OF 1 quiet_step [OF this]] show ?thesis by (simp add: nvm_heap_update_unit_eq)
qed

subsection \<open>One round\<close>

text \<open>The second half of a round, which \<open>finalize\<close> has as well.\<close>

lemma log_and_update_run:
  assumes run: "rbind (log_persistence True s) (\<lambda>s. rbind (enter_phase e NVM_Heap_Update s) (\<lambda>(e, s).
      rbind (nvm_heap_update True s) (\<lambda>s. Inr (e, s)))) = Inr (e', s')"
  obtains c2 c3 where "quiet_run al (at (Cp_NextCtx 0) e s) c2" and "sys_step al c2 Commit c3"
    and "quiet_run al c3 (at Cp_Idle e' s')"
proof -
  obtain s4 s5 e3 s6 s7 where
    cv: "check_valid s = Inr s4" and lp: "log_persistence_unit s4 = Inr s5"
    and p3: "enter_phase e NVM_Heap_Update s5 = Inr (e3, s6)"
    and ca: "cpallocator_checkpointing s6 = Inr s7" and fin: "e' = e3" "s' = nvm_heap_update_unit s7"
    using run by (auto simp: log_persistence_def nvm_heap_update_def res_simps)
  have 5: "sys_step al (at (Cp_NextCtx 0) e s) Tau (at (Cp_NextCtx 0) e s4)"
    using cp_check_valid [of "at (Cp_NextCtx 0) e s" s4] cv by (simp add: logging_def)
  note 6 = log_persistence_unit_run [OF lp]
  have 7: "sys_step al (at (Cp_NextCtx (length (ctx_array s4))) e s5) Commit (at (Cp_Update 0 []) e3 s6)"
    using cp_commit [of "at (Cp_NextCtx (length (ctx_array s4))) e s5" e3 s6] p3 6(3) by simp
  have 8: "sys_step al (at (Cp_Update 0 []) e3 s6) Tau (at (Cp_Update 0 []) e3 s7)"
    using cp_record_sizes [of "at (Cp_Update 0 []) e3 s6" s7] ca by (simp add: updating_def)
  have 9: "quiet_run al (at (Cp_Update 0 []) e3 s7) (at Cp_Idle e' s')"
    using nvm_heap_update_unit_run [of al e3 s7] by (simp add: fin)
  show ?thesis by (rule that [OF quiet_step_run [OF 5 6(1)] 7 quiet_step_run [OF 8 9]])
qed

text \<open>The first half: the epoch is closed, and its operations have ended.\<close>

lemma close_run:
  assumes p1: "enter_phase (e + 1) Multi_Epoch_Existence s = Inr (e1, s1)"
    and w: "wait_previous_epoch_transactions e1 s1 = Inr ()"
    and p2: "enter_phase e1 Log_Persistence s1 = Inr (e2, s2)" and small: "unat (Epoch e) + 1 < 2 ^ 62"
  shows "sys_step al (at Cp_Idle e s) Boundary (at (Cp_Wait 0) e1 s1)"
    and "quiet_run al (at (Cp_Wait 0) e1 s1) (at (Cp_NextCtx 0) e2 s2)"
proof -
  show "sys_step al (at Cp_Idle e s) Boundary (at (Cp_Wait 0) e1 s1)"
    using cp_seal [of "at Cp_Idle e s" e1 s1] p1 small by simp
  have "sys_step al (at (Cp_Wait (length (ctx_array s1))) e1 s1) Tau (at (Cp_NextCtx 0) e2 s2)"
    using cp_waited [of "at (Cp_Wait (length (ctx_array s1))) e1 s1" e2 s2] p2 by simp
  from quiet_trans [OF wait_run [OF w order_refl] quiet_step [OF this]]
  show "quiet_run al (at (Cp_Wait 0) e1 s1) (at (Cp_NextCtx 0) e2 s2)" .
qed

text \<open>A round: the epoch is closed, nothing visible, the commit, nothing visible.\<close>

definition round_run :: "'j allocator \<Rightarrow> 'j sys \<Rightarrow> 'j sys \<Rightarrow> bool" where
  "round_run al c d \<longleftrightarrow> (\<exists>c1 c2 c3. sys_step al c Boundary c1 \<and> quiet_run al c1 c2 \<and>
     sys_step al c2 Commit c3 \<and> quiet_run al c3 d)"

lemma checkpoint_round_run:
  assumes run: "checkpoint_round al True e s = Inr (e', s')" and small: "unat (Epoch e) + 1 < 2 ^ 62"
  shows "round_run al (at Cp_Idle e s) (at Cp_Idle e' s')"
proof -
  obtain e1 s1 e2 s2 s3 where
    p1: "enter_phase (e + 1) Multi_Epoch_Existence s = Inr (e1, s1)"
    and w: "wait_previous_epoch_transactions e1 s1 = Inr ()"
    and p2: "enter_phase e1 Log_Persistence s1 = Inr (e2, s2)"
    and d: "dealloc al s2 = Inr s3"
    and rest: "rbind (log_persistence True s3) (\<lambda>s. rbind (enter_phase e2 NVM_Heap_Update s) (\<lambda>(e, s).
      rbind (nvm_heap_update True s) (\<lambda>s. Inr (e, s)))) = Inr (e', s')"
    using run unfolding checkpoint_round_def rbind_eq_Inr [of "enter_phase _ _ _"] rbind_eq_Inr [of "dealloc _ _"]
      rbind_eq_Inr [of "wait_previous_epoch_transactions _ _"]
    by (auto simp: res_simps)
  note first = close_run [OF p1 w p2 small]
  have 4: "sys_step al (at (Cp_NextCtx 0) e2 s2) Tau (at (Cp_NextCtx 0) e2 s3)"
    using cp_dealloc [of "at (Cp_NextCtx 0) e2 s2" al s3] d by (simp add: logging_def)
  obtain c2 c3 where "quiet_run al (at (Cp_NextCtx 0) e2 s3) c2" "sys_step al c2 Commit c3"
    "quiet_run al c3 (at Cp_Idle e' s')"
    using log_and_update_run [OF rest] .
  then show ?thesis unfolding round_run_def using first quiet_trans quiet_step_run [OF 4] by blast
qed

text \<open>The last checkpoint, when the operations of the epoch it closes have ended.\<close>

lemma finalize_run:
  assumes run: "finalize True e s = Inr s'" and small: "unat (Epoch e) + 1 < 2 ^ 62"
    and ended: "\<And>ctx. ctx \<in> set (ctx_array s) \<Longrightarrow> left_previous_epoch (e + 1) ctx"
  shows "\<exists>e'. round_run al (at Cp_Idle e s) (at Cp_Idle e' s')"
proof -
  obtain e2 e' where p2: "set_phase (e + 1) Log_Persistence = Inr e2"
    and rest: "rbind (log_persistence True (s\<lparr>GLOBAL_EPOCH := e2\<rparr>)) (\<lambda>s. rbind (enter_phase e2 NVM_Heap_Update s) (\<lambda>(e, s).
      rbind (nvm_heap_update True s) (\<lambda>s. Inr (e, s)))) = Inr (e', s')"
    using run by (auto simp: finalize_def enter_phase_def res_simps split_beta)
  obtain e1 where e1: "set_phase (e + 1) Multi_Epoch_Existence = Inr e1" using set_phase_total by blast
  have E: "Epoch e1 = Epoch (e + 1)" by (rule set_phase_bits(1) [OF e1])
  then have "set_phase e1 Log_Persistence = Inr e2" using p2 set_phase_Epoch [of e1] set_phase_Epoch [of "e + 1"] by simp
  then have enter: "enter_phase (e + 1) Multi_Epoch_Existence s = Inr (e1, s\<lparr>GLOBAL_EPOCH := e1\<rparr>)"
    "enter_phase e1 Log_Persistence (s\<lparr>GLOBAL_EPOCH := e1\<rparr>) = Inr (e2, s\<lparr>GLOBAL_EPOCH := e2\<rparr>)"
    using e1 by (simp_all add: enter_phase_def)
  have "wait_previous_epoch_transactions e1 (s\<lparr>GLOBAL_EPOCH := e1\<rparr>) = Inr ()"
    using all_left_wait [of "s\<lparr>GLOBAL_EPOCH := e1\<rparr>" e1] ended by (simp add: left_previous_epoch_def E)
  note first = close_run [OF enter(1) this enter(2) small]
  obtain c2 c3 where "quiet_run al (at (Cp_NextCtx 0) e2 (s\<lparr>GLOBAL_EPOCH := e2\<rparr>)) c2" "sys_step al c2 Commit c3"
    "quiet_run al c3 (at Cp_Idle e' s')"
    using log_and_update_run [OF rest] .
  then show ?thesis unfolding round_run_def using first quiet_trans by blast
qed

lemma silent_run_inv:
  assumes "sys_run al c evs d" and "set evs \<subseteq> {Tau}" and "cinv c" and "lm_inv (abs_sys c) sp"
  shows "cinv d \<and> lm_inv (abs_sys d) sp"
  using assms
proof (induction rule: sys_run.induct)
  case run_start
  then show ?case by simp
next
  case (run_step evs c1 ev c2)
  then have i: "cinv c1" "lm_inv (abs_sys c1) sp" and ev: "ev = Tau" by auto
  show ?case
    using sys_step_cinv [OF run_step.hyps(2) i] sys_step_lm_inv [OF run_step.hyps(2) i] ev by simp
qed

lemma quiet_run_inv:
  "quiet_run al c c' \<Longrightarrow> cinv c \<Longrightarrow> lm_inv (abs_sys c) sp \<Longrightarrow> cinv c' \<and> lm_inv (abs_sys c') sp"
  unfolding quiet_run_def using silent_run_inv by (metis set_replicate_conv_if empty_subsetI subset_refl)

text \<open>
  What a round achieves: from a state of the invariant it leads to one, and the NVM heap then
  equals the DRAM heap, which the round does not change, in every line, whatever the threads
  had written and whichever lines had been copied on write.
\<close>

lemma round_run_syncs:
  assumes run: "round_run al (at Cp_Idle e s) (at Cp_Idle e' s')"
    and inv: "cinv (at Cp_Idle e s)" and lm: "lm_inv (abs_sys (at Cp_Idle e s)) sp"
  shows "nvm_image s' = heap_image (dram s)" and "heap_image (dram s') = heap_image (dram s)"
    and "cinv (at Cp_Idle e' s')" and "lm_inv (abs_sys (at Cp_Idle e' s')) (spec_init (heap_image (dram s)))"
proof -
  obtain c1 c2 c3 where st: "sys_step al (at Cp_Idle e s) Boundary c1" "quiet_run al c1 c2"
    "sys_step al c2 Commit c3" "quiet_run al c3 (at Cp_Idle e' s')"
    using run unfolding round_run_def by blast
  let ?sp = "spec_step Commit (spec_step Boundary sp)"
  have 1: "cinv c1 \<and> lm_inv (abs_sys c1) (spec_step Boundary sp)"
    using sys_step_cinv [OF st(1) inv lm] sys_step_lm_inv [OF st(1) inv lm] by simp
  then have 2: "cinv c2 \<and> lm_inv (abs_sys c2) (spec_step Boundary sp)"
    using quiet_run_inv [OF st(2)] by blast
  then have "cinv c3 \<and> lm_inv (abs_sys c3) ?sp"
    using sys_step_cinv [OF st(3)] sys_step_lm_inv [OF st(3)] by blast
  then have end_inv: "cinv (at Cp_Idle e' s')" "lm_inv (abs_sys (at Cp_Idle e' s')) ?sp"
    using quiet_run_inv [OF st(4)] by blast+
  have live: "sp_live sp = heap_image (dram s)" using lm by (simp add: lm_inv_def)
  have sp: "?sp = spec_init (heap_image (dram s))"
    by (rule spec.equality) (simp_all add: spec_init_def live)
  show "cinv (at Cp_Idle e' s')" by (rule end_inv)
  show l: "lm_inv (abs_sys (at Cp_Idle e' s')) (spec_init (heap_image (dram s)))"
    using end_inv(2) by (simp only: sp)
  then show "nvm_image s' = heap_image (dram s)" "heap_image (dram s') = heap_image (dram s)"
    by (simp_all add: lm_inv_def abs_stage_def nvm_image_def spec_init_def)
qed

end
