(* ===== verification/AllocLogs.thy ===== *)
theory AllocLogs
  imports HeapFrame
begin

section \<open>The bookkeeping of allocations\<close>

text \<open>
  What the operations of \<^verbatim>\<open>userthreadctx_t.cpp\<close>, \<^verbatim>\<open>cpallocator_t.cpp\<close> and \<^verbatim>\<open>deallocator_t.cpp\<close> do to the
  allocator logs, the byte maps and the lists of delayed deallocations: the invariant
  \<open>alloc_ok\<close> that all of them keep, and the effect of each.
\<close>

subsection \<open>The invariant\<close>

text \<open>
  \<open>fits a sz\<close>: an object of \<open>sz\<close> bytes at \<open>a\<close> lies in the heap. \<open>alogs s\<close>: the two allocator
  logs of every context. The invariant: the maps have one byte per line of the heap, the pool is
  well formed, the logs own distinct blocks, and every record is of an object in the heap.
\<close>

definition lines_of :: "size_t \<Rightarrow> nat" where
  "lines_of sz = (unat sz div CACHE_LINE_SIZE + 63) div 64"

definition fits :: "ptr \<Rightarrow> size_t \<Rightarrow> bool" where
  "fits a sz \<longleftrightarrow> (case bytemap_get_index a of Inl _ \<Rightarrow> False
     | Inr k \<Rightarrow> k < heap_lines \<and> k + lines_of sz \<le> heap_lines)"

definition alogs :: "('j, 'z) escort_scheme \<Rightarrow> block_id list list" where
  "alogs s = concat (map (\<lambda>ctx. [uc_allocatorlog ctx False, uc_allocatorlog ctx True]) (ctx_array s))"

definition alloc_ok :: "('j, 'z) escort_scheme \<Rightarrow> bool" where
  "alloc_ok s \<longleftrightarrow> (let m = Allocatorlog_Management s in
     (\<forall>b. by_size (ByteMap s b) = heap_lines) \<and> by_size (ByteMap_NVM s) = heap_lines \<and>
     alog_pool_ok m \<and> distinct (concat (alogs s)) \<and> set (concat (alogs s)) \<subseteq> set (am_used m) \<and>
     (\<forall>b \<in> set (am_used m). \<forall>(a, sz) \<in> set (alog_entries (am_area m b)). fits a sz))"

lemma fitsE:
  assumes "fits a sz"
  obtains k where "bytemap_get_index a = Inr k" and "k < heap_lines" and "k + lines_of sz \<le> heap_lines"
  using assms that by (auto simp: fits_def split: sum.splits)

lemma fits_line: "k < heap_lines \<Longrightarrow> k + lines_of sz \<le> heap_lines \<Longrightarrow> fits (line_ptr k) sz"
  using bytemap_get_index_heap [of k 0] by (simp add: fits_def)

lemma alloc_okI:
  assumes "\<And>b. by_size (ByteMap s b) = heap_lines" and "by_size (ByteMap_NVM s) = heap_lines"
    and "alog_pool_ok (Allocatorlog_Management s)" and "distinct (concat (alogs s))"
    and "set (concat (alogs s)) \<subseteq> set (am_used (Allocatorlog_Management s))"
    and "\<And>b a sz. b \<in> set (am_used (Allocatorlog_Management s)) \<Longrightarrow>
      (a, sz) \<in> set (alog_entries (am_area (Allocatorlog_Management s) b)) \<Longrightarrow> fits a sz"
  shows "alloc_ok s"
  using assms unfolding alloc_ok_def Let_def by blast

lemma alloc_okD:
  assumes "alloc_ok s"
  shows "\<And>b. by_size (ByteMap s b) = heap_lines" and "by_size (ByteMap_NVM s) = heap_lines"
    and "alog_pool_ok (Allocatorlog_Management s)" and "distinct (concat (alogs s))"
    and "set (concat (alogs s)) \<subseteq> set (am_used (Allocatorlog_Management s))"
    and "\<And>b a sz. b \<in> set (am_used (Allocatorlog_Management s)) \<Longrightarrow>
      (a, sz) \<in> set (alog_entries (am_area (Allocatorlog_Management s) b)) \<Longrightarrow> fits a sz"
  using assms unfolding alloc_ok_def Let_def by blast+

text \<open>Replacing the log of one context.\<close>

definition put_alog :: "nat \<Rightarrow> bool \<Rightarrow> allocatorlog_t \<Rightarrow> allocatorlog_management \<Rightarrow> ('j, 'z) escort_scheme \<Rightarrow> ('j, 'z) escort_scheme" where
  "put_alog t b bl m s = put_ctx t ((ctx_array s ! t)\<lparr>uc_allocatorlog := (uc_allocatorlog (ctx_array s ! t))(b := bl)\<rparr>)
     (s\<lparr>Allocatorlog_Management := m\<rparr>)"

lemma put_alog_sel [simp]:
  "Allocatorlog_Management (put_alog t b bl m s) = m" "ByteMap (put_alog t b bl m s) = ByteMap s"
  "ByteMap_NVM (put_alog t b bl m s) = ByteMap_NVM s" "GLOBAL_EPOCH (put_alog t b bl m s) = GLOBAL_EPOCH s"
  "length (ctx_array (put_alog t b bl m s)) = length (ctx_array s)" "heap_alloc (put_alog t b bl m s) = heap_alloc s"
  by (simp_all add: put_alog_def)

lemma put_alog_ctx:
  "t' < length (ctx_array s) \<Longrightarrow> uc_allocatorlog (ctx_array (put_alog t b bl m s) ! t') =
     (if t' = t then (uc_allocatorlog (ctx_array s ! t))(b := bl) else uc_allocatorlog (ctx_array s ! t'))"
  by (simp add: put_alog_def nth_list_update)

text \<open>The logs, one of them singled out.\<close>

lemma alogs_split:
  assumes "t < length (ctx_array s)"
  obtains rest where "mset (concat (alogs s)) = mset (uc_allocatorlog (ctx_array s ! t) b @ rest)"
    and "\<And>bl m. mset (concat (alogs (put_alog t b bl m s))) = mset (bl @ rest)"
proof -
  let ?c = "ctx_array s ! t"
  let ?f = "\<lambda>ctx. [uc_allocatorlog ctx False, uc_allocatorlog ctx True]"
  define as cs where "as = concat (concat (map ?f (take t (ctx_array s))))"
    and "cs = concat (concat (map ?f (drop (Suc t) (ctx_array s))))"
  have s: "ctx_array s = take t (ctx_array s) @ ?c # drop (Suc t) (ctx_array s)"
    using assms by (rule id_take_nth_drop)
  have "alogs s = concat (map ?f (take t (ctx_array s) @ ?c # drop (Suc t) (ctx_array s)))"
    unfolding alogs_def by (rule arg_cong [OF s])
  then have 1: "concat (alogs s) = as @ concat (?f ?c) @ cs" by (simp add: as_def cs_def)
  have 2: "concat (alogs (put_alog t b bl m s)) = as @ concat (?f (?c\<lparr>uc_allocatorlog := (uc_allocatorlog ?c)(b := bl)\<rparr>)) @ cs" for bl m
    using assms by (simp add: put_alog_def alogs_def as_def cs_def upd_conv_take_nth_drop)
  have 3: "mset (concat (?f (?c\<lparr>uc_allocatorlog := (uc_allocatorlog ?c)(b := bl)\<rparr>))) =
      mset bl + mset (uc_allocatorlog ?c (\<not> b))"
    "mset (concat (?f ?c)) = mset (uc_allocatorlog ?c b) + mset (uc_allocatorlog ?c (\<not> b))" for bl
    by (cases b; simp)+
  show ?thesis
    by (rule that [of "as @ cs @ uc_allocatorlog ?c (\<not> b)"])
       (simp_all only: 1 2 mset_append 3, simp_all add: ac_simps)
qed

lemma alogs_log_ok:
  assumes "alloc_ok s" and "t < length (ctx_array s)"
  shows "log_ok (am_used (Allocatorlog_Management s)) (uc_allocatorlog (ctx_array s ! t) b)"
proof -
  obtain rest where r: "mset (concat (alogs s)) = mset (uc_allocatorlog (ctx_array s ! t) b @ rest)"
    using alogs_split [OF assms(2)] by blast
  from mset_eq_imp_distinct_iff [OF r] mset_eq_setD [OF r] show ?thesis
    using alloc_okD(4,5) [OF assms(1)] by (simp add: log_ok_def)
qed

text \<open>Appending a record of an object in the heap keeps the invariant.\<close>

lemma put_alog_append_ok:
  assumes ok: "alloc_ok s" and t: "t < length (ctx_array s)" and f: "fits a sz"
    and app: "alog_append e (a, sz) (uc_allocatorlog (ctx_array s ! t) b, Allocatorlog_Management s) = Inr (bl, m)"
  shows "alloc_ok (put_alog t b bl m s)"
proof -
  let ?m = "Allocatorlog_Management s" and ?old = "uc_allocatorlog (ctx_array s ! t) b"
  obtain rest where r: "mset (concat (alogs s)) = mset (?old @ rest)"
    "mset (concat (alogs (put_alog t b bl m s))) = mset (bl @ rest)"
    using alogs_split [OF t] by blast
  note x = alog_append_ok [OF alloc_okD(3) [OF ok] alogs_log_ok [OF ok t] app]
  have d: "distinct (?old @ rest)" "set (?old @ rest) \<subseteq> set (am_used ?m)"
    using alloc_okD(4,5) [OF ok] mset_eq_imp_distinct_iff [OF r(1)] mset_eq_setD [OF r(1)] by simp_all
  have free: "set (am_free ?m) \<inter> set (am_used ?m) = {}"
    using alloc_okD(3) [OF ok] by (auto simp: alog_pool_ok_def pool_ok_def)
  have "set bl \<inter> set rest = {}" using x(5) d free by simp blast
  then have new: "distinct (bl @ rest)" "set (bl @ rest) \<subseteq> set (am_used m)"
    using x(2,6) d by (auto simp: log_ok_def)
  show ?thesis
  proof (rule alloc_okI)
    show "distinct (concat (alogs (put_alog t b bl m s)))"
      using new(1) mset_eq_imp_distinct_iff [OF r(2)] by simp
    show "set (concat (alogs (put_alog t b bl m s))) \<subseteq> set (am_used (Allocatorlog_Management (put_alog t b bl m s)))"
      using new(2) mset_eq_setD [OF r(2)] by simp
  next
    fix c a' sz'
    assume "c \<in> set (am_used (Allocatorlog_Management (put_alog t b bl m s)))"
      and "(a', sz') \<in> set (alog_entries (am_area (Allocatorlog_Management (put_alog t b bl m s)) c))"
    then have c: "c \<in> set (am_used m)" "(a', sz') \<in> set (alog_entries (am_area m c))" by simp_all
    show "fits a' sz'"
    proof (cases "c \<in> set bl")
      case True
      then have "(a', sz') \<in> set (alog_contents m bl)"
        using c(2) by (auto simp: alog_contents_def contents_def)
      then have "(a', sz') \<in> set (alog_contents ?m ?old @ [(a, sz)])" by (simp only: x(3))
      then show ?thesis
        using f d(2) alloc_okD(6) [OF ok] by (auto simp: alog_contents_def contents_def)
    next
      case False
      then have "c \<in> set (am_used ?m)" "c \<notin> set ?old" using c(1) x(4,6) by auto
      then have "alog_entries (am_area m c) = alog_entries (am_area ?m c)"
        using x(8) [of "[c]"] by (simp add: alog_contents_def contents_def)
      with c(2) \<open>c \<in> set (am_used ?m)\<close> show ?thesis using alloc_okD(6) [OF ok] by simp
    qed
  qed (use alloc_okD(1,2) [OF ok] x(1) in simp_all)
qed

lemma alloc_ok_bytes:
  assumes "alloc_ok s" and "\<And>b. by_size (B b) = heap_lines"
  shows "alloc_ok (s\<lparr>ByteMap := B\<rparr>)"
  using assms by (simp add: alloc_ok_def alogs_def Let_def)

lemma alogs_put_ctx:
  assumes "t < length (ctx_array s) \<Longrightarrow> uc_allocatorlog ctx = uc_allocatorlog (ctx_array s ! t)"
  shows "alogs (put_ctx t ctx s) = alogs s"
proof (cases "t < length (ctx_array s)")
  case True
  let ?f = "\<lambda>ctx. [uc_allocatorlog ctx False, uc_allocatorlog ctx True]"
  have "map ?f (ctx_array (put_ctx t ctx s)) = (map ?f (ctx_array s))[t := map ?f (ctx_array s) ! t]"
    using assms True by (simp add: map_update)
  then show ?thesis by (simp add: alogs_def)
qed (simp add: alogs_def list_update_beyond)

lemma alloc_ok_put_ctx:
  assumes "alloc_ok s" and "t < length (ctx_array s) \<Longrightarrow> uc_allocatorlog ctx = uc_allocatorlog (ctx_array s ! t)"
  shows "alloc_ok (put_ctx t ctx s)"
  using assms(1) unfolding alloc_ok_def by (simp only: alogs_put_ctx [OF assms(2)] put_ctx_simps)

lemma alloc_ok_heap [simp]: "alloc_ok (s\<lparr>heap_alloc := j\<rparr>) = alloc_ok s"
  by (simp add: alloc_ok_def alogs_def)

subsection \<open>Recording an operation\<close>

text \<open>
  Without an outcome other than success, a second operation on an object in an epoch only
  reverses its byte; any other one sets the byte to 1 and appends a record.
\<close>

lemma record_alloc_op_cases:
  assumes "record_alloc_op t e a sz s = Inr s'" and "bytemap_get_index a = Inr k"
  defines "c \<equiv> epoch_bit e"
  obtains (second) "by_bytes (ByteMap s c) k = 1"
      "s' = s\<lparr>ByteMap := (ByteMap s)(c := (ByteMap s c)\<lparr>by_bytes := (by_bytes (ByteMap s c))(k := -1)\<rparr>)\<rparr>"
  | (first) bl m where "by_bytes (ByteMap s c) k \<noteq> 1" "t < length (ctx_array s)"
      "alog_append (Epoch e) (a, sz) (uc_allocatorlog (ctx_array s ! t) c, Allocatorlog_Management s) = Inr (bl, m)"
      "s' = put_alog t c bl m
         (s\<lparr>ByteMap := (ByteMap s)(c := (ByteMap s c)\<lparr>by_bytes := (by_bytes (ByteMap s c))(k := 1)\<rparr>)\<rparr>)"
proof -
  have one: "sint (w :: 8 word) = 1 \<longleftrightarrow> w = 1" for w
    using signed_word_eqI [of w 1] by auto
  let ?bm = "ByteMap s c"
  have size: "k < by_size ?bm"
  proof (rule ccontr)
    assume "\<not> k < by_size ?bm"
    then have "record_alloc_op t e a sz s = Inl OutOfBounds"
      using assms(2) by (simp add: record_alloc_op_def Let_def bytemap_is_set_def bytemap_get_byte_def c_def)
    with assms(1) show False by simp
  qed
  show ?thesis
  proof (cases "by_bytes ?bm k = 1")
    case True
    with assms(1,2) size have "s' = s\<lparr>ByteMap := (ByteMap s)(c := ?bm\<lparr>by_bytes := (by_bytes ?bm)(k := -1)\<rparr>)\<rparr>"
      by (simp add: record_alloc_op_def Let_def bytemap_is_set_def bytemap_get_byte_def bytemap_reverse_def
          bytemap_write_def one c_def)
    with True show ?thesis by (rule second)
  next
    case False
    let ?s = "s\<lparr>ByteMap := (ByteMap s)(c := ?bm\<lparr>by_bytes := (by_bytes ?bm)(k := 1)\<rparr>)\<rparr>"
    have "rbind (get_ctx t ?s) (\<lambda>ctx. rbind (alog_append (Epoch e) (a, sz)
        (uc_allocatorlog ctx c, Allocatorlog_Management s)) (\<lambda>(bl, m). Inr (put_ctx t
        (ctx\<lparr>uc_allocatorlog := (uc_allocatorlog ctx)(c := bl)\<rparr>) (?s\<lparr>Allocatorlog_Management := m\<rparr>)))) = Inr s'"
      using assms(1,2) size False
      by (simp add: record_alloc_op_def Let_def bytemap_is_set_def bytemap_get_byte_def bytemap_set_def
          bytemap_write_def one c_def)
    then obtain bl m where "t < length (ctx_array s)"
      "alog_append (Epoch e) (a, sz) (uc_allocatorlog (ctx_array s ! t) c, Allocatorlog_Management s) = Inr (bl, m)"
      "s' = put_alog t c bl m ?s"
      by (auto simp: res_simps put_alog_def)
    with False show ?thesis by (rule first)
  qed
qed

lemma record_alloc_op_ok:
  assumes "alloc_ok s" and "fits a sz" and "record_alloc_op t e a sz s = Inr s'"
  shows "alloc_ok s'"
proof -
  obtain k where k: "bytemap_get_index a = Inr k" using fitsE [OF assms(2)] by blast
  let ?B = "\<lambda>v. s\<lparr>ByteMap := (ByteMap s)(epoch_bit e := (ByteMap s (epoch_bit e))\<lparr>by_bytes :=
    (by_bytes (ByteMap s (epoch_bit e)))(k := v)\<rparr>)\<rparr>"
  have B: "alloc_ok (?B v)" for v
    using alloc_okD(1) [OF assms(1)] by (intro alloc_ok_bytes [OF assms(1)]) simp
  show ?thesis
    using assms(3) k
  proof (cases rule: record_alloc_op_cases)
    case second
    then show ?thesis using B by simp
  next
    case (first bl m)
    show ?thesis
      unfolding first(4) by (rule put_alog_append_ok [OF B _ assms(2)]) (use first(2,3) in simp_all)
  qed
qed

text \<open>Recording succeeds if the pool still has a block, or the log's last block has room.\<close>

lemma alog_append_total:
  assumes "alog_pool_ok m" and "log_ok (am_used m) bl" and "am_free m \<noteq> []"
  shows "\<exists>bl' m'. alog_append k e (bl, m) = Inr (bl', m')"
  using alog.log_append_total [of m bl k e] assms by (simp add: alog_pool_ok_def comp_def)

lemma record_alloc_op_total:
  assumes "alloc_ok s" and "fits a sz" and "t < length (ctx_array s)"
    and "am_free (Allocatorlog_Management s) \<noteq> []"
  shows "\<exists>s'. record_alloc_op t e a sz s = Inr s'"
proof -
  obtain k where k: "bytemap_get_index a = Inr k" "k < heap_lines" using fitsE [OF assms(2)] by blast
  obtain bl m where "alog_append (Epoch e) (a, sz)
      (uc_allocatorlog (ctx_array s ! t) (epoch_bit e), Allocatorlog_Management s) = Inr (bl, m)"
    using alog_append_total [OF alloc_okD(3) [OF assms(1)] alogs_log_ok [OF assms(1,3)] assms(4)] by blast
  then show ?thesis
    using k assms(3) alloc_okD(1) [OF assms(1)]
    by (auto simp: record_alloc_op_def Let_def bytemap_is_set_def bytemap_get_byte_def bytemap_reverse_def
        bytemap_set_def bytemap_write_def get_ctx_def)
qed

subsection \<open>\<^verbatim>\<open>malloc\<close> and \<^verbatim>\<open>free\<close> keep the invariant\<close>

lemma begin_op_alloc_ok: "begin_op t s = Inr s' \<Longrightarrow> alloc_ok s \<Longrightarrow> alloc_ok s'"
  by (auto simp: begin_op_def Let_def res_simps intro: alloc_ok_put_ctx)

lemma end_op_alloc_ok: "end_op t s = Inr s' \<Longrightarrow> alloc_ok s \<Longrightarrow> alloc_ok s'"
  by (auto simp: end_op_def Let_def res_simps intro: alloc_ok_put_ctx)

text \<open>The three parts of a call: \<^verbatim>\<open>begin_op\<close> outside of an operation, the bookkeeping, \<^verbatim>\<open>end_op\<close>.\<close>

lemma malloc_stepsE:
  assumes "malloc_with_create_log al t sz s = Inr (p, s')"
  obtains u v where "t < length (ctx_array s)" and "(if uc_epoch (ctx_array s ! t) = 0 then begin_op t s else Inr s) = Inr u"
    and "record_alloc_op t (uc_epoch (ctx_array u ! t)) p sz
       (u\<lparr>heap_alloc := snd (al_malloc al sz (heap_alloc u))\<rparr>) = Inr v"
    and "(if uc_epoch (ctx_array s ! t) = 0 then end_op t v else Inr v) = Inr s'"
  using assms unfolding malloc_with_create_log_def Let_def split_beta rbind_eq_Inr [of "get_ctx t _"]
    rbind_eq_Inr [of "if _ then _ else _"] rbind_eq_Inr [of "record_alloc_op _ _ _ _ _"] get_ctx_Inr
  by auto

lemma free_stepsE:
  assumes "free_with_create_log al t a sz s = Inr s'"
  obtains u w v where "t < length (ctx_array s)" and "(if uc_epoch (ctx_array s ! t) = 0 then begin_op t s else Inr s) = Inr u"
    and "record_alloc_op t (uc_epoch (ctx_array u ! t)) a sz u = Inr w"
    and "release_or_delay al t (uc_epoch (ctx_array u ! t)) a w = Inr v"
    and "(if uc_epoch (ctx_array s ! t) = 0 then end_op t v else Inr v) = Inr s'"
  using assms unfolding free_with_create_log_unfold rbind_eq_Inr [of "get_ctx t _"]
    rbind_eq_Inr [of "if _ then _ else _"] rbind_eq_Inr [of "rbind _ _"] rbind_eq_Inr [of "record_alloc_op _ _ _ _ _"] get_ctx_Inr
  by blast

lemma malloc_alloc_ok:
  assumes "malloc_with_create_log al t sz s = Inr (p, s')" and "alloc_ok s" and "fits p sz"
  shows "alloc_ok s'"
  using assms(1)
proof (cases rule: malloc_stepsE)
  case (1 u v)
  have "alloc_ok u" using 1(2) assms(2) begin_op_alloc_ok [of t s u] by (auto split: if_splits)
  then have "alloc_ok v" by (intro record_alloc_op_ok [OF _ assms(3) 1(3)]) simp
  then show ?thesis using 1(4) end_op_alloc_ok [of t v s'] by (auto split: if_splits)
qed

lemma free_alloc_ok:
  assumes "free_with_create_log al t a sz s = Inr s'" and "alloc_ok s" and "fits a sz"
  shows "alloc_ok s'"
  using assms(1)
proof (cases rule: free_stepsE)
  case (1 u w v)
  have "alloc_ok u" using 1(2) assms(2) begin_op_alloc_ok [of t s u] by (auto split: if_splits)
  then have "alloc_ok w" by (rule record_alloc_op_ok [OF _ assms(3) 1(3)])
  then have "alloc_ok v"
    using 1(4) by (auto simp: release_or_delay_def res_simps intro!: alloc_ok_put_ctx split: if_splits)
  then show ?thesis using 1(5) end_op_alloc_ok [of t v s'] by (auto split: if_splits)
qed

text \<open>The member functions in both builds; with \<^verbatim>\<open>NO_PERSIST_METADATA\<close> the logs and the maps stay as they are.\<close>

lemma heap_alloc_alloc_ok: "alloc_ok (s\<lparr>heap_alloc := j\<rparr>) \<longleftrightarrow> alloc_ok s"
  by (simp add: alloc_ok_def alogs_def)

lemma userthread_malloc_alloc_ok:
  "userthread_malloc np mallocx al t sz s = Inr (p, s') \<Longrightarrow> alloc_ok s \<Longrightarrow> fits p sz \<Longrightarrow> alloc_ok s'"
  using malloc_alloc_ok [of al t sz s p s']
  by (auto simp: userthread_malloc_def heap_alloc_alloc_ok split: if_splits prod.splits)

lemma userthread_free_alloc_ok:
  "userthread_free np al t a sz s = Inr s' \<Longrightarrow> alloc_ok s \<Longrightarrow> fits a sz \<Longrightarrow> alloc_ok s'"
  using free_alloc_ok [of al t a sz s s'] by (auto simp: userthread_free_def heap_alloc_alloc_ok split: if_splits)

lemma no_metadata_unrecorded:
  assumes "userthread_malloc True mallocx al t sz s = Inr (p, u)" and "userthread_free True al t a sz' u = Inr s'"
  shows "Allocatorlog_Management s' = Allocatorlog_Management s \<and> ByteMap s' = ByteMap s \<and> ctx_array s' = ctx_array s"
  using assms by (auto simp: userthread_malloc_def userthread_free_def split: prod.splits)

subsection \<open>Several operations on one object in one epoch\<close>

text \<open>
  The byte alternates between 1 and -1, and every other operation, beginning with the first,
  appends a record: the third one appends a second record of the same object.
\<close>

definition repeat_op :: "nat \<Rightarrow> nat \<Rightarrow> epoch_t \<Rightarrow> ptr \<Rightarrow> size_t \<Rightarrow> ('j, 'z) escort_scheme \<Rightarrow> ('j, 'z) escort_scheme res" where
  "repeat_op n t e a sz = rfold (\<lambda>_. record_alloc_op t e a sz) [0..<n]"

definition byte_after :: "nat \<Rightarrow> 8 word" where
  "byte_after n = (if n = 0 then 0 else if odd n then 1 else -1)"

lemma repeat_op_effect:
  assumes "repeat_op n t e a sz s = Inr s'" and "alloc_ok s" and "fits a sz"
    and "bytemap_get_index a = Inr k" and "t < length (ctx_array s)"
    and "by_bytes (ByteMap s (epoch_bit e)) k = 0"
  shows "alloc_ok s' \<and> length (ctx_array s') = length (ctx_array s) \<and>
    by_bytes (ByteMap s' (epoch_bit e)) k = byte_after n \<and>
    alog_contents (Allocatorlog_Management s') (uc_allocatorlog (ctx_array s' ! t) (epoch_bit e)) =
    alog_contents (Allocatorlog_Management s) (uc_allocatorlog (ctx_array s ! t) (epoch_bit e)) @
      replicate ((n + 1) div 2) (a, sz)"
  using assms(1)
proof (induction n arbitrary: s')
  case 0
  then show ?case using assms by (simp add: repeat_op_def byte_after_def)
next
  case (Suc n)
  then obtain u where u: "repeat_op n t e a sz s = Inr u" "record_alloc_op t e a sz u = Inr s'"
    by (auto simp: repeat_op_def rfold_append res_simps)
  note ih = Suc.IH [OF u(1)]
  have ok: "alloc_ok s'" by (rule record_alloc_op_ok [OF _ assms(3) u(2)]) (use ih in simp)
  let ?c = "epoch_bit e"
  show ?case
    using u(2) assms(4)
  proof (cases rule: record_alloc_op_cases)
    case second
    then have "odd n" using ih by (auto simp: byte_after_def split: if_splits)
    with second ih ok show ?thesis by (auto simp: byte_after_def elim!: oddE)
  next
    case (first bl m)
    then have "even n" using ih by (auto simp: byte_after_def split: if_splits)
    note x = alog_append_ok [OF alloc_okD(3) alogs_log_ok first(3)]
    have "alog_contents m bl = alog_contents (Allocatorlog_Management u) (uc_allocatorlog (ctx_array u ! t) ?c) @ [(a, sz)]"
      using x(3) ih first(2) by simp
    moreover have "uc_allocatorlog (ctx_array s' ! t) ?c = bl"
      using first(2) by (simp add: first(4) put_alog_ctx)
    ultimately show ?thesis
      using \<open>even n\<close> ih ok by (auto simp: byte_after_def first(4) replicate_append_same elim!: evenE)
  qed
qed

end
