(* ===== verification/AllocCheckpoint.thy ===== *)
theory AllocCheckpoint
  imports AllocLogs
begin

section \<open>What the helper threads achieve\<close>

text \<open>
  The effect of the passes of \<^verbatim>\<open>cpallocator_t.cpp\<close> and \<^verbatim>\<open>deallocator_t.cpp\<close> over the data of the closed epoch:
  each is total under the invariant \<open>alloc_ok\<close> and keeps it.
\<close>

subsection \<open>\<^verbatim>\<open>check_valid\<close> visits the records one after the other\<close>

text \<open>
  A record is named by its block and its place there. \<open>prev_positions\<close>: the records of the closed
  epoch in the order in which the loops visit them. \<open>same_shape\<close>: what \<^verbatim>\<open>check_valid\<close> leaves alone.
\<close>

definition block_positions :: "('j, 'z) escort_scheme \<Rightarrow> block_id \<Rightarrow> (block_id \<times> nat) list" where
  "block_positions s b = map (Pair b) [0..<ab_size (am_area (Allocatorlog_Management s) b)]"

definition log_positions :: "('j, 'z) escort_scheme \<Rightarrow> block_id list \<Rightarrow> (block_id \<times> nat) list" where
  "log_positions s bl = concat (map (block_positions s) bl)"

definition prev_positions :: "('j, 'z) escort_scheme \<Rightarrow> (block_id \<times> nat) list" where
  "prev_positions s = concat (map (\<lambda>ctx. log_positions s (uc_allocatorlog ctx (prev_parity s))) (ctx_array s))"

definition rec_at :: "('j, 'z) escort_scheme \<Rightarrow> block_id \<times> nat \<Rightarrow> alog_entry" where
  "rec_at s q = ab_entries (am_area (Allocatorlog_Management s) (fst q)) (snd q)"

definition same_shape :: "('j, 'z) escort_scheme \<Rightarrow> ('j, 'z) escort_scheme \<Rightarrow> bool" where
  "same_shape s u \<longleftrightarrow> ctx_array u = ctx_array s \<and>
     (\<forall>b. ab_size (am_area (Allocatorlog_Management u) b) = ab_size (am_area (Allocatorlog_Management s) b)) \<and>
     (\<forall>q. ae_addr (rec_at u q) = ae_addr (rec_at s q) \<and> ae_size (rec_at u q) = ae_size (rec_at s q))"

definition check_valid_at :: "bool \<Rightarrow> block_id \<times> nat \<Rightarrow> ('j, 'z) escort_scheme \<Rightarrow> ('j, 'z) escort_scheme res" where
  "check_valid_at p q = check_valid_entry p (fst q) (snd q)"

lemma same_shape_refl [simp]: "same_shape s s"
  by (simp add: same_shape_def)

text \<open>The effect of one visit.\<close>

definition cleared :: "bool \<Rightarrow> nat \<Rightarrow> ('j, 'z) escort_scheme \<Rightarrow> ('j, 'z) escort_scheme" where
  "cleared p k s = s\<lparr>ByteMap := (ByteMap s)(p := (ByteMap s p)\<lparr>by_bytes := (by_bytes (ByteMap s p))(k := 0)\<rparr>)\<rparr>"

definition invalidated :: "block_id \<times> nat \<Rightarrow> ('j, 'z) escort_scheme \<Rightarrow> ('j, 'z) escort_scheme" where
  "invalidated q s = (let m = Allocatorlog_Management s; b = am_area m (fst q) in
     s\<lparr>Allocatorlog_Management := alog_put (fst q)
        (b\<lparr>ab_entries := (ab_entries b)(snd q := (ab_entries b (snd q))\<lparr>ae_is_valid := False\<rparr>)\<rparr>) m\<rparr>)"

lemma check_valid_at_eq:
  assumes "bytemap_get_index (ae_addr (rec_at s q)) = Inr k" and "k < by_size (ByteMap s p)"
  shows "check_valid_at p q s =
    Inr (cleared p k (if by_bytes (ByteMap s p) k = 1 then s else invalidated q s))"
proof -
  have one: "sint (w :: 8 word) = 1 \<longleftrightarrow> w = 1" for w
    using signed_word_eqI [of w 1] by auto
  show ?thesis
    using assms by (simp add: check_valid_at_def check_valid_entry_def rec_at_def Let_def bytemap_is_set_def
        bytemap_get_byte_def bytemap_clear_def bytemap_write_def one cleared_def invalidated_def)
qed

lemma check_valid_at_shape:
  assumes "check_valid_at p q s = Inr s'"
  shows "same_shape s s'"
  using assms
  by (auto simp: check_valid_at_def check_valid_entry_def Let_def res_simps same_shape_def rec_at_def alog_put_def)

lemma same_shape_trans: "same_shape s u \<Longrightarrow> same_shape u v \<Longrightarrow> same_shape s v"
  by (simp add: same_shape_def)

lemma rfold_shape: "rfold (check_valid_at p) qs s = Inr s' \<Longrightarrow> same_shape s s'"
  by (erule rfold_invariant) (auto intro: same_shape_trans check_valid_at_shape)

lemma check_valid_block_positions:
  assumes "same_shape s u"
  shows "check_valid_block p b u = rfold (check_valid_at p) (block_positions s b) u"
  using assms by (simp add: check_valid_block_def block_positions_def rfold_map check_valid_at_def same_shape_def)

lemma check_valid_positions:
  "check_valid s = rfold (check_valid_at (prev_parity s)) (prev_positions s) s"
proof -
  let ?p = "prev_parity s"
  have log: "rfold (check_valid_block ?p) bl u = rfold (check_valid_at ?p) (log_positions s bl) u" if "same_shape s u" for bl u
  proof -
    have "rfold (check_valid_block ?p) bl u = rfold (\<lambda>b. rfold (check_valid_at ?p) (block_positions s b)) bl u"
      by (rule rfold_cong_inv [where I = "same_shape s"])
         (use that in \<open>auto simp: check_valid_block_positions intro: same_shape_trans rfold_shape\<close>)
    then show ?thesis by (simp add: log_positions_def rfold_concat rfold_map)
  qed
  let ?g = "\<lambda>t. rfold (check_valid_at ?p) (log_positions s (uc_allocatorlog (ctx_array s ! t) ?p))"
  have loop: "check_valid s = rfold ?g [0..<length (ctx_array s)] s"
    unfolding check_valid_def Let_def
  proof (rule rfold_cong_inv [where I = "same_shape s"], goal_cases)
    case (2 t a)
    then have "ctx_array a = ctx_array s" by (simp add: same_shape_def)
    with 2 show ?case by (simp add: get_ctx_def log)
  next
    case (3 t a b)
    then show ?case by (blast intro: same_shape_trans rfold_shape)
  qed simp
  have "map (\<lambda>ctx. log_positions s (uc_allocatorlog ctx ?p)) (ctx_array s) =
      map (\<lambda>t. log_positions s (uc_allocatorlog (ctx_array s ! t) ?p)) [0..<length (ctx_array s)]"
    by (rule nth_equalityI) simp_all
  then have flat: "rfold ?g [0..<length (ctx_array s)] s = rfold (check_valid_at ?p) (prev_positions s) s"
    by (simp only: prev_positions_def rfold_concat rfold_map)
  show ?thesis by (simp only: flat loop)
qed

subsection \<open>The effect of \<^verbatim>\<open>check_valid\<close>\<close>

text \<open>
  A record stays valid exactly if its object's byte was 1 (an odd number of operations) and no record
  visited before it is of the same object; the bytes of all objects visited are reset.
\<close>

definition obj_index :: "('j, 'z) escort_scheme \<Rightarrow> block_id \<times> nat \<Rightarrow> nat" where
  "obj_index s q = (case bytemap_get_index (ae_addr (rec_at s q)) of Inl _ \<Rightarrow> 0 | Inr k \<Rightarrow> k)"

definition stays_valid :: "bool \<Rightarrow> (block_id \<times> nat) list \<Rightarrow> ('j, 'z) escort_scheme \<Rightarrow> block_id \<times> nat \<Rightarrow> bool" where
  "stays_valid p qs s q \<longleftrightarrow> q \<in> set qs \<longrightarrow> by_bytes (ByteMap s p) (obj_index s q) = 1 \<and>
     (\<forall>r \<in> set (takeWhile (\<lambda>r. r \<noteq> q) qs). obj_index s r \<noteq> obj_index s q)"

definition visited :: "bool \<Rightarrow> (block_id \<times> nat) list \<Rightarrow> ('j, 'z) escort_scheme \<Rightarrow> ('j, 'z) escort_scheme \<Rightarrow> bool" where
  "visited p qs s s' \<longleftrightarrow> same_shape s s' \<and>
     s' = s\<lparr>ByteMap := ByteMap s', Allocatorlog_Management := Allocatorlog_Management s'\<rparr> \<and>
     am_free (Allocatorlog_Management s') = am_free (Allocatorlog_Management s) \<and>
     am_used (Allocatorlog_Management s') = am_used (Allocatorlog_Management s) \<and>
     ByteMap s' = (ByteMap s)(p := (ByteMap s p)\<lparr>by_bytes :=
       (\<lambda>j. if j \<in> obj_index s ` set qs then 0 else by_bytes (ByteMap s p) j)\<rparr>) \<and>
     (\<forall>q. ae_is_valid (rec_at s' q) = (ae_is_valid (rec_at s q) \<and> stays_valid p qs s q))"

lemma rec_at_cleared [simp]: "rec_at (cleared p k s) q = rec_at s q"
  by (simp add: rec_at_def cleared_def)

lemma rec_at_invalidated:
  "rec_at (invalidated q s) r = (if r = q then (rec_at s q)\<lparr>ae_is_valid := False\<rparr> else rec_at s r)"
  by (cases q; cases r) (auto simp: rec_at_def invalidated_def Let_def alog_put_def)

lemma same_shape_rec: "same_shape s u \<Longrightarrow> ae_addr (rec_at u q) = ae_addr (rec_at s q)"
  unfolding same_shape_def by blast

lemma same_shape_index: "same_shape s u \<Longrightarrow> obj_index u q = obj_index s q"
  by (simp add: obj_index_def same_shape_rec)

lemma visited_valid:
  "visited p qs s s' \<Longrightarrow> ae_is_valid (rec_at s' q) = (ae_is_valid (rec_at s q) \<and> stays_valid p qs s q)"
  unfolding visited_def by blast

text \<open>One more record: it is cleared, and stays valid if its byte is still 1.\<close>

lemma takeWhile_snoc_neq:
  "takeWhile (\<lambda>r. r \<noteq> q') (qs @ [q]) = (if q' \<in> set qs then takeWhile (\<lambda>r. r \<noteq> q') qs else if q' = q then qs else qs @ [q])"
  by (auto simp: takeWhile_append)

lemma visited_snoc_valid:
  assumes v: "visited p qs s u" and q: "q \<notin> set qs" and ix: "obj_index s q = k"
    and w: "w = (if by_bytes (ByteMap u p) k = 1 then u else invalidated q u)"
  shows "ae_is_valid (rec_at (cleared p k w) q') = (ae_is_valid (rec_at s q') \<and> stays_valid p (qs @ [q]) s q')"
proof (cases "q' = q")
  case True
  have "by_bytes (ByteMap u p) k = 1 \<longleftrightarrow> by_bytes (ByteMap s p) k = 1 \<and> k \<notin> obj_index s ` set qs"
    using v by (simp add: visited_def)
  then have "stays_valid p (qs @ [q]) s q \<longleftrightarrow> by_bytes (ByteMap u p) k = 1"
    using q by (auto simp: stays_valid_def takeWhile_snoc_neq ix)
  moreover have "ae_is_valid (rec_at u q) = ae_is_valid (rec_at s q)"
    using visited_valid [OF v, of q] q by (simp add: stays_valid_def)
  ultimately show ?thesis using True by (simp add: w rec_at_invalidated)
next
  case False
  have "stays_valid p (qs @ [q]) s q' = stays_valid p qs s q'"
    using False by (simp add: stays_valid_def takeWhile_snoc_neq)
  moreover have "rec_at (cleared p k w) q' = rec_at u q'" using False by (simp add: w rec_at_invalidated)
  ultimately show ?thesis using visited_valid [OF v, of q'] by simp
qed

lemma visited_snoc:
  assumes v: "visited p qs s u" and q: "q \<notin> set qs" and ix: "obj_index s q = k"
    and w: "w = (if by_bytes (ByteMap u p) k = 1 then u else invalidated q u)" and shape: "same_shape u (cleared p k w)"
  shows "visited p (qs @ [q]) s (cleared p k w)"
proof -
  have "ByteMap w = ByteMap u" by (simp add: w invalidated_def Let_def)
  then have bytes: "ByteMap (cleared p k w) = (ByteMap s)(p := (ByteMap s p)\<lparr>by_bytes :=
       (\<lambda>j. if j \<in> obj_index s ` set (qs @ [q]) then 0 else by_bytes (ByteMap s p) j)\<rparr>)"
    using v by (auto simp: cleared_def visited_def ix fun_eq_iff)
  obtain B M where "u = s\<lparr>ByteMap := B, Allocatorlog_Management := M\<rparr>" using v by (auto simp: visited_def)
  then have rest: "cleared p k w = s\<lparr>ByteMap := ByteMap (cleared p k w), Allocatorlog_Management := Allocatorlog_Management (cleared p k w)\<rparr>"
    by (simp add: cleared_def w invalidated_def Let_def)
  have pool: "am_free (Allocatorlog_Management (cleared p k w)) = am_free (Allocatorlog_Management s)"
    "am_used (Allocatorlog_Management (cleared p k w)) = am_used (Allocatorlog_Management s)"
    using v by (simp_all add: cleared_def w invalidated_def Let_def alog_put_def visited_def)
  have "same_shape s u" using v by (simp add: visited_def)
  note same_shape_trans [OF this shape]
  with rest bytes pool visited_snoc_valid [OF v q ix w] show ?thesis unfolding visited_def by blast
qed

lemma visit_list:
  assumes "\<And>q. q \<in> set qs \<Longrightarrow> \<exists>k < by_size (ByteMap s p). bytemap_get_index (ae_addr (rec_at s q)) = Inr k"
    and "distinct qs"
  shows "\<exists>s'. rfold (check_valid_at p) qs s = Inr s' \<and> visited p qs s s'"
  using assms
proof (induction qs rule: rev_induct)
  case Nil
  have "visited p [] s s" by (simp add: visited_def stays_valid_def)
  then show ?case by simp
next
  case (snoc q qs)
  then obtain u where u: "rfold (check_valid_at p) qs s = Inr u" and v: "visited p qs s u" by auto
  have shape: "same_shape s u" using v by (simp add: visited_def)
  obtain k where k: "k < by_size (ByteMap s p)" "bytemap_get_index (ae_addr (rec_at s q)) = Inr k"
    using snoc.prems(1) [of q] by auto
  have "bytemap_get_index (ae_addr (rec_at u q)) = Inr k" "k < by_size (ByteMap u p)"
    using k same_shape_rec [OF shape, of q] v by (simp_all add: visited_def)
  note step = check_valid_at_eq [OF this]
  have "obj_index s q = k" by (simp add: obj_index_def k(2))
  from visited_snoc [OF v _ this refl check_valid_at_shape [OF step]] snoc.prems(2)
  show ?case by (auto simp: rfold_append u step)
qed

text \<open>The blocks of the closed epoch are all different, so no record is visited twice.\<close>

definition prev_blocks :: "('j, 'z) escort_scheme \<Rightarrow> block_id list" where
  "prev_blocks s = concat (map (\<lambda>ctx. uc_allocatorlog ctx (prev_parity s)) (ctx_array s))"

lemma concat_map_concat: "concat (map (\<lambda>c. concat (map f (g c))) cs) = concat (map f (concat (map g cs)))"
  by (induction cs) auto

lemma prev_positions_blocks: "prev_positions s = log_positions s (prev_blocks s)"
  by (simp only: prev_positions_def prev_blocks_def log_positions_def concat_map_concat)

lemma half_of_logs:
  "set (concat (map (\<lambda>c. f c b) cs)) \<subseteq> set (concat (concat (map (\<lambda>c. [f c False, f c True]) cs))) \<and>
   (distinct (concat (concat (map (\<lambda>c. [f c False, f c True]) cs))) \<longrightarrow> distinct (concat (map (\<lambda>c. f c b) cs)))"
  for f :: "'a \<Rightarrow> bool \<Rightarrow> 'b list"
  by (induction cs) (cases b; auto)+

lemma prev_blocks_ok:
  assumes "alloc_ok s"
  shows "log_ok (am_used (Allocatorlog_Management s)) (prev_blocks s)"
  using half_of_logs [of uc_allocatorlog "prev_parity s" "ctx_array s"] alloc_okD(4,5) [OF assms]
  unfolding log_ok_def prev_blocks_def alogs_def by blast

lemma distinct_log_positions: "distinct bl \<Longrightarrow> distinct (log_positions s bl)"
  by (induction bl) (auto simp: log_positions_def block_positions_def distinct_map inj_on_def)

lemma rec_of_position:
  "q \<in> set (log_positions s bl) \<Longrightarrow> fst q \<in> set bl \<and>
    (ae_addr (rec_at s q), ae_size (rec_at s q)) \<in> set (alog_entries (am_area (Allocatorlog_Management s) (fst q)))"
  by (auto simp: log_positions_def block_positions_def rec_at_def alog_entries_def)

lemma alog_entries_shape:
  "same_shape s u \<Longrightarrow> alog_entries (am_area (Allocatorlog_Management u) b) = alog_entries (am_area (Allocatorlog_Management s) b)"
proof -
  assume sh: "same_shape s u"
  have "ae_addr (rec_at u (b, i)) = ae_addr (rec_at s (b, i)) \<and> ae_size (rec_at u (b, i)) = ae_size (rec_at s (b, i))" for i
    using sh unfolding same_shape_def by blast
  moreover have "ab_size (am_area (Allocatorlog_Management u) b) = ab_size (am_area (Allocatorlog_Management s) b)"
    using sh unfolding same_shape_def by blast
  ultimately show ?thesis by (simp add: alog_entries_def rec_at_def)
qed

lemma visited_alloc_ok:
  assumes "visited p qs s s'" and "alloc_ok s"
  shows "alloc_ok s'"
proof -
  have e: "alog_entries (am_area (Allocatorlog_Management s') b) = alog_entries (am_area (Allocatorlog_Management s) b)" for b
    using assms(1) by (intro alog_entries_shape) (simp add: visited_def)
  have a: "alogs s' = alogs s" "ByteMap_NVM s' = ByteMap_NVM s" "by_size (ByteMap s' b) = by_size (ByteMap s b)" for b
  proof -
    obtain B M where "s' = s\<lparr>ByteMap := B, Allocatorlog_Management := M\<rparr>"
      using assms(1) unfolding visited_def by blast
    then show "alogs s' = alogs s" "ByteMap_NVM s' = ByteMap_NVM s" by (simp_all add: alogs_def)
    show "by_size (ByteMap s' b) = by_size (ByteMap s b)" using assms(1) by (simp add: visited_def)
  qed
  have m: "am_free (Allocatorlog_Management s') = am_free (Allocatorlog_Management s)"
    "am_used (Allocatorlog_Management s') = am_used (Allocatorlog_Management s)"
    using assms(1) by (simp_all add: visited_def)
  show ?thesis
    using alloc_okD [OF assms(2)] by (intro alloc_okI) (simp_all add: a e m alog_pool_ok_def)
qed

lemma check_valid_effect:
  assumes "alloc_ok s"
  obtains s' where "check_valid s = Inr s'" and "visited (prev_parity s) (prev_positions s) s s'" and "alloc_ok s'"
proof -
  note ok = prev_blocks_ok [OF assms]
  have "\<exists>s'. rfold (check_valid_at (prev_parity s)) (prev_positions s) s = Inr s' \<and>
      visited (prev_parity s) (prev_positions s) s s'"
  proof (rule visit_list)
    show "distinct (prev_positions s)"
      using ok by (simp add: prev_positions_blocks distinct_log_positions log_ok_def)
  next
    fix q assume "q \<in> set (prev_positions s)"
    then have "fits (ae_addr (rec_at s q)) (ae_size (rec_at s q))"
      using rec_of_position [of q s "prev_blocks s"] ok alloc_okD(6) [OF assms]
      by (auto simp: prev_positions_blocks log_ok_def)
    then show "\<exists>k < by_size (ByteMap s (prev_parity s)). bytemap_get_index (ae_addr (rec_at s q)) = Inr k"
      using alloc_okD(1) [OF assms] by (auto elim: fitsE)
  qed
  then obtain s' where "check_valid s = Inr s'" "visited (prev_parity s) (prev_positions s) s s'"
    by (auto simp: check_valid_positions)
  then show ?thesis using that visited_alloc_ok [OF _ assms] by blast
qed

subsection \<open>The effect of \<^verbatim>\<open>checkpointing\<close> on the map of objects\<close>

text \<open>What one record does to the map on NVM: its flag plays no part.\<close>

definition record_size :: "ptr \<times> size_t \<Rightarrow> bytemap_t \<Rightarrow> bytemap_t res" where
  "record_size r bm = rbind (bytemap_get_index (fst r)) (\<lambda>index. set_obj_size index (snd r) bm)"

definition prev_records :: "('j, 'z) escort_scheme \<Rightarrow> (ptr \<times> size_t) list" where
  "prev_records s = alog_contents (Allocatorlog_Management s) (prev_blocks s)"

lemma record_sizes_entries:
  "rfold (record_sizes_entry b) is u =
   rbind (rfold record_size (map (\<lambda>i. (ae_addr (rec_at u (b, i)), ae_size (rec_at u (b, i)))) is) (ByteMap_NVM u))
     (\<lambda>bm. Inr (u\<lparr>ByteMap_NVM := bm\<rparr>))"
proof (induction "is" arbitrary: u)
  case Nil
  then show ?case by simp
next
  case (Cons i "is")
  have rec: "rec_at (u\<lparr>ByteMap_NVM := bm\<rparr>) q = rec_at u q" for bm q by (simp add: rec_at_def)
  have step: "record_sizes_entry b i u =
      rbind (record_size (ae_addr (rec_at u (b, i)), ae_size (rec_at u (b, i))) (ByteMap_NVM u))
        (\<lambda>bm. Inr (u\<lparr>ByteMap_NVM := bm\<rparr>))"
    by (simp add: record_size_def record_sizes_entry_def Let_def rbind_assoc rec_at_def)
  show ?case by (simp add: step Cons rec rbind_assoc)
qed

lemma record_sizes_blocks:
  "rfold record_sizes_block bl u =
   rbind (rfold record_size (alog_contents (Allocatorlog_Management u) bl) (ByteMap_NVM u))
     (\<lambda>bm. Inr (u\<lparr>ByteMap_NVM := bm\<rparr>))"
proof (induction bl arbitrary: u)
  case Nil
  then show ?case by (simp add: alog_contents_def)
next
  case (Cons b bl)
  have "record_sizes_block b u = rbind (rfold record_size (alog_entries (am_area (Allocatorlog_Management u) b)) (ByteMap_NVM u))
      (\<lambda>bm. Inr (u\<lparr>ByteMap_NVM := bm\<rparr>))"
    by (simp add: record_sizes_block_def record_sizes_entries alog_entries_def rec_at_def)
  then show ?case
    by (simp add: Cons rbind_assoc alog_contents_def contents_def rfold_append)
qed

lemma record_size_total:
  assumes "\<And>r. r \<in> set rs \<Longrightarrow> fits (fst r) (snd r)" and "by_size bm = heap_lines"
  shows "\<exists>bm'. rfold record_size rs bm = Inr bm' \<and> by_size bm' = heap_lines"
proof (rule rfold_total)
  fix r and bm1 :: bytemap_t
  assume r: "r \<in> set rs" and sz: "by_size bm1 = heap_lines"
  obtain k where k: "bytemap_get_index (fst r) = Inr k" "k + lines_of (snd r) \<le> heap_lines"
    using fitsE [OF assms(1) [OF r]] by blast
  then show "\<exists>b. record_size r bm1 = Inr b \<and> by_size b = heap_lines"
    using set_obj_size_ok [OF sz, of k "snd r"] by (auto simp: record_size_def lines_of_def sz)
qed (rule assms(2))

text \<open>Clearing a log keeps the invariant and the other logs.\<close>

lemma put_alog_clear_ok:
  assumes ok: "alloc_ok s" and t: "t < length (ctx_array s)"
    and m: "alog_clear (uc_allocatorlog (ctx_array s ! t) b, Allocatorlog_Management s) = (bl, m)"
  shows "bl = []" and "alloc_ok (put_alog t b bl m s)"
    and "\<And>c. set c \<inter> set (uc_allocatorlog (ctx_array s ! t) b) = {} \<Longrightarrow>
      alog_contents m c = alog_contents (Allocatorlog_Management s) c"
proof -
  let ?m = "Allocatorlog_Management s" and ?old = "uc_allocatorlog (ctx_array s ! t) b"
  note x = alog_clear_ok [OF alloc_okD(3) [OF ok] alogs_log_ok [OF ok t, of b], unfolded m fst_conv snd_conv]
  show "bl = []" by (rule x(1))
  show other: "alog_contents m c = alog_contents ?m c" if "set c \<inter> set ?old = {}" for c by (rule x(5) [OF that])
  obtain rest where r: "mset (concat (alogs s)) = mset (?old @ rest)"
    "mset (concat (alogs (put_alog t b bl m s))) = mset (bl @ rest)"
    using alogs_split [OF t] by blast
  have d: "distinct (?old @ rest)" "set (?old @ rest) \<subseteq> set (am_used ?m)"
    using alloc_okD(4,5) [OF ok] mset_eq_imp_distinct_iff [OF r(1)] mset_eq_setD [OF r(1)] by simp_all
  show "alloc_ok (put_alog t b bl m s)"
  proof (rule alloc_okI)
    show "distinct (concat (alogs (put_alog t b bl m s)))"
      using d(1) mset_eq_imp_distinct_iff [OF r(2)] by (simp add: x(1))
    show "set (concat (alogs (put_alog t b bl m s))) \<subseteq> set (am_used (Allocatorlog_Management (put_alog t b bl m s)))"
      using d mset_eq_setD [OF r(2)] by (auto simp: x(1,4))
  next
    fix c a sz
    assume "c \<in> set (am_used (Allocatorlog_Management (put_alog t b bl m s)))"
      and e: "(a, sz) \<in> set (alog_entries (am_area (Allocatorlog_Management (put_alog t b bl m s)) c))"
    then have c: "c \<in> set (am_used ?m)" "c \<notin> set ?old" by (simp_all add: x(4))
    then have "alog_entries (am_area m c) = alog_entries (am_area ?m c)"
      using other [of "[c]"] by (simp add: alog_contents_def contents_def)
    then show "fits a sz" using alloc_okD(6) [OF ok c(1)] e by simp
  qed (use alloc_okD(1,2) [OF ok] x(2) in simp_all)
qed

lemma distinct_concat_disjoint:
  "distinct (concat xss) \<Longrightarrow> i < j \<Longrightarrow> j < length xss \<Longrightarrow> set (xss ! i) \<inter> set (xss ! j) = {}"
proof (induction xss arbitrary: i j)
  case Nil
  then show ?case by simp
next
  case (Cons xs xss)
  obtain j' where j: "j = Suc j'" "j' < length xss" using Cons.prems(2,3) by (cases j) auto
  show ?case
  proof (cases i)
    case 0
    have "set (xss ! j') \<subseteq> set (concat xss)" using nth_mem [OF j(2)] by auto
    then show ?thesis using 0 j Cons.prems(1) by auto
  next
    case (Suc i')
    then show ?thesis using Cons j by simp
  qed
qed

lemma alogs_disjoint:
  assumes "alloc_ok s" and "t < t'" and "t' < length (ctx_array s)"
  shows "set (uc_allocatorlog (ctx_array s ! t) b) \<inter> set (uc_allocatorlog (ctx_array s ! t') b) = {}"
proof -
  have "distinct (concat (map (\<lambda>c. uc_allocatorlog c b) (ctx_array s)))"
    using half_of_logs [of uc_allocatorlog b "ctx_array s"] alloc_okD(4) [OF assms(1)] unfolding alogs_def by blast
  from distinct_concat_disjoint [OF this assms(2)] assms(2,3) show ?thesis by simp
qed

definition checkpoint_ctx :: "bool \<Rightarrow> nat \<Rightarrow> ('j, 'z) escort_scheme \<Rightarrow> ('j, 'z) escort_scheme res" where
  "checkpoint_ctx p t s = rbind (get_ctx t s) (\<lambda>ctx.
     rbind (rfold record_sizes_block (uc_allocatorlog ctx p) s) (\<lambda>s.
     let (bl, m) = alog_clear (uc_allocatorlog ctx p, Allocatorlog_Management s) in
     Inr (put_ctx t (ctx\<lparr>uc_allocatorlog := (uc_allocatorlog ctx)(p := bl)\<rparr>)
            (s\<lparr>Allocatorlog_Management := m\<rparr>))))"

lemma checkpoint_ctx_ok:
  fixes p :: bool
  assumes ok: "alloc_ok s" and t: "t < length (ctx_array s)"
  defines "log \<equiv> \<lambda>u t. uc_allocatorlog (ctx_array u ! t) p"
  obtains u where "checkpoint_ctx p t s = Inr u" and "alloc_ok u"
    and "rfold record_size (alog_contents (Allocatorlog_Management s) (log s t)) (ByteMap_NVM s) = Inr (ByteMap_NVM u)"
    and "length (ctx_array u) = length (ctx_array s)" and "GLOBAL_EPOCH u = GLOBAL_EPOCH s"
    and "\<And>t'. t' < length (ctx_array s) \<Longrightarrow> log u t' = (if t' = t then [] else log s t')"
    and "\<And>t'. t < t' \<Longrightarrow> t' < length (ctx_array s) \<Longrightarrow>
      alog_contents (Allocatorlog_Management u) (log s t') = alog_contents (Allocatorlog_Management s) (log s t')"
proof -
  let ?m = "Allocatorlog_Management s"
  have fit: "fits (fst r) (snd r)" if r: "r \<in> set (alog_contents ?m (log s t))" for r
  proof -
    obtain b where "b \<in> set (log s t)" "r \<in> set (alog_entries (am_area ?m b))"
      using r by (auto simp: alog_contents_def contents_def)
    moreover have "set (log s t) \<subseteq> set (am_used ?m)"
      using alogs_log_ok [OF ok t, of p] by (simp add: log_ok_def log_def)
    ultimately show ?thesis using alloc_okD(6) [OF ok, of b "fst r" "snd r"] by auto
  qed
  obtain bm where bm: "rfold record_size (alog_contents ?m (log s t)) (ByteMap_NVM s) = Inr bm" "by_size bm = heap_lines"
    using record_size_total [OF fit alloc_okD(2) [OF ok]] by blast
  define v where "v = s\<lparr>ByteMap_NVM := bm\<rparr>"
  have v: "alloc_ok v"
  proof -
    have "alogs v = alogs s" by (simp add: v_def alogs_def)
    then show ?thesis using alloc_okD [OF ok] bm(2) by (intro alloc_okI) (simp_all add: v_def)
  qed
  have tv: "t < length (ctx_array v)" using t by (simp add: v_def)
  obtain bl m where m: "alog_clear (uc_allocatorlog (ctx_array v ! t) p, Allocatorlog_Management v) = (bl, m)"
    by (cases "alog_clear (uc_allocatorlog (ctx_array v ! t) p, Allocatorlog_Management v)")
  note c = put_alog_clear_ok [OF v tv m]
  let ?u = "put_alog t p [] m v"
  have "checkpoint_ctx p t s = Inr ?u"
    using t bm(1) m c(1)
    by (simp add: checkpoint_ctx_def get_ctx_def record_sizes_blocks log_def v_def put_alog_def)
  then show ?thesis
  proof (rule that)
    show "alloc_ok ?u" using c(1,2) by simp
    show "rfold record_size (alog_contents ?m (log s t)) (ByteMap_NVM s) = Inr (ByteMap_NVM ?u)"
      using bm(1) by (simp add: v_def)
  next
    fix t' assume t': "t < t'" "t' < length (ctx_array s)"
    then have "set (log s t') \<inter> set (uc_allocatorlog (ctx_array v ! t) p) = {}"
      using alogs_disjoint [OF ok t'] by (auto simp: log_def v_def)
    from c(3) [OF this] show "alog_contents (Allocatorlog_Management ?u) (log s t') = alog_contents ?m (log s t')"
      by (simp add: v_def)
  qed (use tv in \<open>simp_all add: v_def log_def put_alog_ctx\<close>)
qed

lemma checkpoint_ctxs:
  fixes p :: bool
  assumes ok: "alloc_ok s" and n: "n \<le> length (ctx_array s)"
  defines "log \<equiv> \<lambda>u t. uc_allocatorlog (ctx_array u ! t) p"
  shows "\<exists>u. rfold (checkpoint_ctx p) [0..<n] s = Inr u \<and> alloc_ok u \<and>
    rfold record_size (alog_contents (Allocatorlog_Management s) (concat (map (log s) [0..<n]))) (ByteMap_NVM s) = Inr (ByteMap_NVM u) \<and>
    length (ctx_array u) = length (ctx_array s) \<and> GLOBAL_EPOCH u = GLOBAL_EPOCH s \<and>
    (\<forall>t < length (ctx_array s). log u t = (if t < n then [] else log s t)) \<and>
    (\<forall>t. n \<le> t \<longrightarrow> t < length (ctx_array s) \<longrightarrow>
      alog_contents (Allocatorlog_Management u) (log s t) = alog_contents (Allocatorlog_Management s) (log s t))"
  using n
proof (induction n)
  case 0
  then show ?case using ok by (simp add: alog_contents_def)
next
  case (Suc n)
  then obtain u where u: "rfold (checkpoint_ctx p) [0..<n] s = Inr u" "alloc_ok u"
    "rfold record_size (alog_contents (Allocatorlog_Management s) (concat (map (log s) [0..<n]))) (ByteMap_NVM s) = Inr (ByteMap_NVM u)"
    "length (ctx_array u) = length (ctx_array s)" "GLOBAL_EPOCH u = GLOBAL_EPOCH s"
    "\<And>t. t < length (ctx_array s) \<Longrightarrow> log u t = (if t < n then [] else log s t)"
    "\<And>t. n \<le> t \<Longrightarrow> t < length (ctx_array s) \<Longrightarrow>
      alog_contents (Allocatorlog_Management u) (log s t) = alog_contents (Allocatorlog_Management s) (log s t)"
    by auto
  have n: "n < length (ctx_array u)" using Suc.prems u(4) by simp
  obtain w where w: "checkpoint_ctx p n u = Inr w" "alloc_ok w"
    "rfold record_size (alog_contents (Allocatorlog_Management u) (log u n)) (ByteMap_NVM u) = Inr (ByteMap_NVM w)"
    "length (ctx_array w) = length (ctx_array u)" "GLOBAL_EPOCH w = GLOBAL_EPOCH u"
    "\<And>t'. t' < length (ctx_array u) \<Longrightarrow> log w t' = (if t' = n then [] else log u t')"
    "\<And>t'. n < t' \<Longrightarrow> t' < length (ctx_array u) \<Longrightarrow>
      alog_contents (Allocatorlog_Management w) (log u t') = alog_contents (Allocatorlog_Management u) (log u t')"
    using checkpoint_ctx_ok [OF u(2) n, of p] unfolding log_def by blast
  have c: "alog_contents (Allocatorlog_Management s) (concat (map (log s) [0..<Suc n])) =
      alog_contents (Allocatorlog_Management s) (concat (map (log s) [0..<n])) @ alog_contents (Allocatorlog_Management u) (log u n)"
    using u(6) [of n] u(7) [of n] Suc.prems by (simp add: alog_contents_def contents_append)
  have "rfold record_size (alog_contents (Allocatorlog_Management s) (concat (map (log s) [0..<Suc n]))) (ByteMap_NVM s) = Inr (ByteMap_NVM w)"
    unfolding c rfold_append u(3) by (simp add: w(3))
  moreover have "rfold (checkpoint_ctx p) [0..<Suc n] s = Inr w" by (simp add: rfold_append u(1) w(1))
  moreover have "log w t = (if t < Suc n then [] else log s t)" if "t < length (ctx_array s)" for t
    using that u(4,6) w(6) by auto
  moreover have "alog_contents (Allocatorlog_Management w) (log s t) = alog_contents (Allocatorlog_Management s) (log s t)"
    if "Suc n \<le> t" "t < length (ctx_array s)" for t
    using that u(4) u(6,7) [of t] w(7) [of t] by simp
  ultimately show ?case using w(2,4,5) u(4,5) by auto
qed

text \<open>
  Under the invariant the pass always returns; it records every object of every record of the closed
  epoch, valid or not, in the order of the logs, and empties these logs.
\<close>

lemma cpallocator_checkpointing_effect:
  assumes "alloc_ok s"
  obtains s' where "cpallocator_checkpointing s = Inr s'" and "alloc_ok s'" and "prev_blocks s' = []"
    and "rfold record_size (prev_records s) (ByteMap_NVM s) = Inr (ByteMap_NVM s')"
proof -
  let ?p = "prev_parity s"
  have blocks: "prev_blocks u = concat (map (\<lambda>t. uc_allocatorlog (ctx_array u ! t) (prev_parity u)) [0..<length (ctx_array u)])" for u :: "('a, 'b) escort_scheme"
    unfolding prev_blocks_def by (rule arg_cong [of _ _ concat], rule nth_equalityI) simp_all
  obtain u where u: "rfold (checkpoint_ctx ?p) [0..<length (ctx_array s)] s = Inr u" "alloc_ok u"
    "rfold record_size (prev_records s) (ByteMap_NVM s) = Inr (ByteMap_NVM u)"
    "length (ctx_array u) = length (ctx_array s)" "GLOBAL_EPOCH u = GLOBAL_EPOCH s"
    "\<forall>t < length (ctx_array s). uc_allocatorlog (ctx_array u ! t) ?p = []"
    using checkpoint_ctxs [OF assms order_refl, where p = ?p] by (auto simp: prev_records_def blocks)
  have "cpallocator_checkpointing s = Inr u"
    using u(1) unfolding cpallocator_checkpointing_def checkpoint_ctx_def Let_def by simp
  moreover have "prev_blocks u = []" using u(4-6) by (simp add: blocks prev_parity_def)
  ultimately show ?thesis using that u(2,3) by blast
qed

subsection \<open>The effect of \<^verbatim>\<open>dealloc\<close>\<close>

text \<open>The pass always returns, frees what the closed epoch has delayed, context by context, and forgets it.\<close>

definition delayed :: "bool \<Rightarrow> ('j, 'z) escort_scheme \<Rightarrow> ptr list" where
  "delayed p s = concat (map (\<lambda>ctx. uc_delay_dealloc ctx p) (ctx_array s))"

definition forget_delayed :: "bool \<Rightarrow> userthreadctx_t \<Rightarrow> userthreadctx_t" where
  "forget_delayed p ctx = ctx\<lparr>uc_delay_dealloc := (uc_delay_dealloc ctx)(p := [])\<rparr>"

lemma fold_frees:
  "fold (\<lambda>addr s. s\<lparr>heap_alloc := al_free al addr (heap_alloc s)\<rparr>) as s = s\<lparr>heap_alloc := fold (al_free al) as (heap_alloc s)\<rparr>"
proof (induction as arbitrary: s)
  case Nil
  show ?case by simp
next
  case (Cons a as)
  show ?case by (simp add: Cons)
qed

lemma dealloc_ctxs:
  "n \<le> length (ctx_array s) \<Longrightarrow> rfold (dealloc_ctx al p) [0..<n] s = Inr (s\<lparr>
     heap_alloc := fold (al_free al) (concat (map (\<lambda>ctx. uc_delay_dealloc ctx p) (take n (ctx_array s)))) (heap_alloc s),
     ctx_array := map (forget_delayed p) (take n (ctx_array s)) @ drop n (ctx_array s)\<rparr>)"
proof (induction n)
  case 0
  show ?case by simp
next
  case (Suc n)
  then have n: "n < length (ctx_array s)" by simp
  let ?a = "map (forget_delayed p) (take n (ctx_array s))" and ?r = "drop (Suc n) (ctx_array s)"
  let ?h = "\<lambda>n. fold (al_free al) (concat (map (\<lambda>ctx. uc_delay_dealloc ctx p) (take n (ctx_array s)))) (heap_alloc s)"
  define u where "u = s\<lparr>heap_alloc := ?h n, ctx_array := ?a @ ctx_array s ! n # ?r\<rparr>"
  have ih: "rfold (dealloc_ctx al p) [0..<n] s = Inr u"
    using Suc n by (simp add: u_def Cons_nth_drop_Suc)
  have u: "n < length (ctx_array u)" "ctx_array u ! n = ctx_array s ! n"
    "(ctx_array u)[n := c] = ?a @ c # ?r" for c
    using n by (simp_all add: u_def nth_append list_update_append)
  have step: "dealloc_ctx al p n u = Inr (put_ctx n (forget_delayed p (ctx_array s ! n))
      (u\<lparr>heap_alloc := fold (al_free al) (uc_delay_dealloc (ctx_array s ! n) p) (heap_alloc u)\<rparr>))"
    using u(1,2) by (simp add: dealloc_ctx_def get_ctx_def fold_frees forget_delayed_def)
  have upd: "put_ctx n c (u\<lparr>heap_alloc := j\<rparr>) = s\<lparr>heap_alloc := j, ctx_array := ?a @ c # ?r\<rparr>" for c j
    using u(3) [of c] by (simp add: put_ctx_def) (simp add: u_def)
  have "heap_alloc u = ?h n" by (simp add: u_def)
  then show ?case
    using n by (simp add: rfold_append ih step upd take_Suc_conv_app_nth)
qed

lemma dealloc_effect:
  "dealloc al s = Inr (s\<lparr>heap_alloc := fold (al_free al) (delayed (prev_parity s) s) (heap_alloc s),
     ctx_array := map (forget_delayed (prev_parity s)) (ctx_array s)\<rparr>)"
  by (simp add: dealloc_def dealloc_ctxs delayed_def)

lemma dealloc_alloc_ok:
  assumes "dealloc al s = Inr s'" and "alloc_ok s"
  shows "alloc_ok s'"
proof -
  have "alogs s' = alogs s"
    using assms(1) by (auto simp: dealloc_effect alogs_def forget_delayed_def comp_def)
  then show ?thesis
    using assms(1) alloc_okD [OF assms(2)] by (intro alloc_okI) (auto simp: dealloc_effect)
qed

end
