(* ===== verification/CheckpointLive.thy ===== *)
theory CheckpointLive
  imports CheckpointSeq AllocCheckpoint
begin

section \<open>A checkpoint completes\<close>

text \<open>
  The functions of \<^verbatim>\<open>checkpointing.cpp\<close> stop in an assertion when a pool of log blocks is exhausted and wait
  forever for a thread that does not leave the closed epoch. Here: when neither can happen, a round
  returns. What it needs is stated on the state at its beginning: no thread is in an operation, the redo log
  pool has room for the modified lines, the bookkeeping of allocations is in order.
\<close>

subsection \<open>The log loop completes\<close>

definition log_ready :: "bool \<Rightarrow> ('j, 'z) escort_scheme \<Rightarrow> bool" where
  "log_ready p s \<longleftrightarrow> bm_size (BitMap s p) = heap_lines \<and> plog_pool_ok (Plog_Management s) \<and>
     log_ok (pm_used (Plog_Management s)) (cp_log s) \<and>
     card (flagged p s) \<le> plog_room (Plog_Management s) (cp_log s) \<and>
     (\<forall>ctx \<in> set (ctx_array s). regions_ok (uc_addrlist ctx p)) \<and> alloc_ok s"

lemma alloc_ok_log_upd:
  "alloc_ok (s\<lparr>cp_log := l, Plog_Management := m, BitMap := B\<rparr>) = alloc_ok s"
  by (simp add: alloc_ok_def alogs_def)

lemma finite_flagged [simp]: "finite (flagged b s)"
  by (simp add: flagged_def)

lemma log_line_total:
  assumes ready: "log_ready p s" and i: "i < heap_lines"
  shows "\<exists>s'. log_line p i (line_ptr i) s = Inr s' \<and> log_ready p s' \<and> ctx_array s' = ctx_array s"
proof (cases "bm_bits (BitMap s p) i")
  case False
  then have "log_line p i (line_ptr i) s = Inr s"
    using ready i by (simp add: log_line_def bitmap_is_set_def log_ready_def)
  then show ?thesis using ready by simp
next
  case True
  let ?m = "Plog_Management s"
  have ok: "plog_pool_ok ?m" "log_ok (pm_used ?m) (cp_log s)" using ready by (simp_all add: log_ready_def)
  have fl: "i \<in> flagged p s" using True i by (simp add: flagged_def)
  then have "0 < card (flagged p s)" by (auto simp: card_gt_0_iff)
  then have "0 < plog_room ?m (cp_log s)" using ready by (simp add: log_ready_def)
  then obtain bl m where r: "plog_push_back (line_ptr i, dram s (line_ptr i)) (cp_log s, ?m) = Inr (bl, m)"
    "plog_room m bl + 1 = plog_room ?m (cp_log s)"
    using plog_push_back_room [OF ok] by blast
  let ?b = "(BitMap s p)\<lparr>bm_bits := (bm_bits (BitMap s p))(i := False)\<rparr>"
  define s' where "s' = s\<lparr>cp_log := bl, Plog_Management := m, BitMap := (BitMap s)(p := ?b)\<rparr>"
  have run: "log_line p i (line_ptr i) s = Inr s'"
    using ready i True r(1) by (simp add: log_line_def bitmap_is_set_def bitmap_clear_def log_ready_def s'_def)
  have "flagged p s' = flagged p s - {i}" by (auto simp: flagged_def s'_def)
  then have "card (flagged p s') + 1 = card (flagged p s)" using fl card_Suc_Diff1 [of "flagged p s" i] by simp
  moreover note plog_push_back_ok(1,2) [OF ok r(1)]
  ultimately have "log_ready p s'"
    using ready r(2) unfolding log_ready_def by (simp add: s'_def alloc_ok_log_upd)
  then show ?thesis using run by (simp add: s'_def)
qed

lemma log_lines_total:
  assumes "log_ready p s" and "i + n \<le> heap_lines"
  shows "\<exists>s'. log_lines p n i (line_ptr i) s = Inr s' \<and> log_ready p s' \<and> ctx_array s' = ctx_array s"
  using assms
proof (induction n arbitrary: i s)
  case 0
  then show ?case by simp
next
  case (Suc n)
  then obtain u where u: "log_line p i (line_ptr i) s = Inr u" "log_ready p u" "ctx_array u = ctx_array s"
    using log_line_total [of p s i] by auto
  have "\<exists>s'. log_lines p n (Suc i) (line_ptr (Suc i)) u = Inr s' \<and> log_ready p s' \<and> ctx_array s' = ctx_array u"
    using Suc.prems(2) by (intro Suc.IH [OF u(2)]) simp
  then show ?case using u by (simp add: line_ptr_Suc)
qed

lemma log_region_total:
  assumes "log_ready p s" and "\<exists>j. a = line_ptr j \<and> j < heap_lines \<and> j + n \<le> heap_lines"
  shows "\<exists>s'. log_region p (a, n) s = Inr s' \<and> log_ready p s' \<and> ctx_array s' = ctx_array s"
proof -
  obtain j where j: "a = line_ptr j" "j < heap_lines" "j + n \<le> heap_lines" using assms(2) by blast
  from log_lines_total [OF assms(1) j(3)] show ?thesis
    using bitmap_get_index_line [OF j(2)] by (simp add: log_region_def j(1))
qed

lemma clear_list_ready:
  assumes "log_ready p s" and "t < length (ctx_array s)"
  shows "\<exists>s'. clear_list p t s = Inr s' \<and> log_ready p s' \<and> length (ctx_array s') = length (ctx_array s)"
proof -
  let ?c = "(ctx_array s ! t)\<lparr>uc_addrlist := (uc_addrlist (ctx_array s ! t))(p := [])\<rparr>"
  have run: "clear_list p t s = Inr (put_ctx t ?c s)"
    using assms(2) by (simp add: clear_list_def get_ctx_def addrlist_clear_def)
  have "flagged p (put_ctx t ?c s) = flagged p s" by (simp add: flagged_def)
  moreover have "alloc_ok (put_ctx t ?c s)"
    using assms(1) by (intro alloc_ok_put_ctx) (simp_all add: log_ready_def)
  moreover have "regions_ok (uc_addrlist ctx p)" if "ctx \<in> set ((ctx_array s)[t := ?c])" for ctx
  proof -
    have "ctx = ?c \<or> ctx \<in> set (ctx_array s)"
      using set_update_subset_insert [of "ctx_array s" t ?c] that by blast
    then show ?thesis
    proof
      assume "ctx = ?c"
      then show ?thesis by (simp add: regions_ok_def)
    next
      assume "ctx \<in> set (ctx_array s)"
      then show ?thesis using assms(1) unfolding log_ready_def by blast
    qed
  qed
  ultimately have "log_ready p (put_ctx t ?c s)" using assms(1) by (simp add: log_ready_def)
  with run show ?thesis by simp
qed

lemma log_persistence_unit_total:
  assumes "log_ready (prev_parity s) s"
  shows "\<exists>s'. log_persistence_unit s = Inr s' \<and> alloc_ok s'"
proof -
  let ?p = "prev_parity s"
  let ?I = "\<lambda>u. log_ready ?p u \<and> length (ctx_array u) = length (ctx_array s)"
  have "\<exists>s'. rfold (log_ctx ?p) [0..<length (ctx_array s)] s = Inr s' \<and> ?I s'"
  proof (rule rfold_total [where I = ?I])
    fix t u assume "t \<in> set [0..<length (ctx_array s)]" and u: "?I u"
    then have t: "t < length (ctx_array u)" by simp
    then have "regions_ok (uc_addrlist (ctx_array u ! t) ?p)" using u by (simp add: log_ready_def)
    then have "\<exists>v. rfold (log_region ?p) (uc_addrlist (ctx_array u ! t) ?p) u = Inr v \<and>
        (log_ready ?p v \<and> ctx_array v = ctx_array u)"
      using u log_region_total [of ?p] by (intro rfold_total) (fastforce simp: regions_ok_def)+
    then obtain v where v: "rfold (log_region ?p) (uc_addrlist (ctx_array u ! t) ?p) u = Inr v" "log_ready ?p v"
      "ctx_array v = ctx_array u" by blast
    then show "\<exists>b. log_ctx ?p t u = Inr b \<and> ?I b"
      using clear_list_ready [of ?p v t] t u by (auto simp: log_ctx_def get_ctx_def)
  qed (use assms in simp)
  then show ?thesis by (auto simp: log_persistence_unit_def log_ready_def)
qed

subsection \<open>A round completes\<close>

text \<open>What a round needs at its beginning.\<close>

definition round_ready :: "('j, 'z) escort_scheme \<Rightarrow> bool" where
  "round_ready s \<longleftrightarrow> (\<forall>ctx \<in> set (ctx_array s). uc_epoch ctx = 0) \<and> alloc_ok s \<and>
     card (flagged (cur_parity s) s) \<le> plog_room (Plog_Management s) (cp_log s)"

lemma same_heap_log_ready:
  assumes "same_heap s s'" and "alloc_ok s'" and "log_ready p s"
  shows "log_ready p s'"
proof -
  have "uc_addrlist ctx p \<in> (\<lambda>c. uc_addrlist c p) ` set (ctx_array s)" if ctx: "ctx \<in> set (ctx_array s')" for ctx
  proof -
    obtain t where t: "t < length (ctx_array s)" "ctx = ctx_array s' ! t"
      using ctx same_heap_length [OF assms(1)] by (auto simp: in_set_conv_nth)
    then show ?thesis using same_heap_ctx(2) [OF assms(1) t(1)] by simp
  qed
  then have "\<forall>ctx \<in> set (ctx_array s'). regions_ok (uc_addrlist ctx p)"
    using assms(3) unfolding log_ready_def by fastforce
  then show ?thesis using assms by (simp add: log_ready_def same_heap_def flagged_def)
qed

lemma alloc_ok_epoch [simp]: "alloc_ok (s\<lparr>GLOBAL_EPOCH := e\<rparr>) = alloc_ok s"
  by (simp add: alloc_ok_def alogs_def)

lemma idle_wait:
  assumes "\<forall>ctx \<in> set (ctx_array s). uc_epoch ctx = 0" and "1 < unat (Epoch e)"
  shows "wait_previous_epoch_transactions e s = Inr ()"
proof -
  have "Epoch 0 = 0" by (simp add: Epoch_def)
  moreover have "Epoch e - 1 \<noteq> 0" using assms(2) by auto
  ultimately have "left_previous_epoch e ctx" if "ctx \<in> set (ctx_array s)" for ctx
    using assms(1) that by (simp add: left_previous_epoch_def)
  then show ?thesis by (rule all_left_wait)
qed

text \<open>The second half needs only that the lines can be logged.\<close>

lemma log_and_update_total:
  assumes "log_ready (prev_parity s) s"
  shows "\<exists>e' s'. rbind (log_persistence True s) (\<lambda>s. rbind (enter_phase e NVM_Heap_Update s) (\<lambda>(e, s).
      rbind (nvm_heap_update True s) (\<lambda>s. Inr (e, s)))) = Inr (e', s') \<and> Epoch e' = Epoch e"
proof -
  obtain e' where e': "set_phase e NVM_Heap_Update = Inr e'" using set_phase_total by blast
  have "alloc_ok s" using assms by (simp add: log_ready_def)
  then obtain s4 where s4: "check_valid s = Inr s4" "alloc_ok s4" using check_valid_effect by blast
  have r4: "log_ready (prev_parity s) s4"
    by (rule same_heap_log_ready [OF check_valid_same_heap [OF s4(1)] s4(2) assms])
  have "prev_parity s4 = prev_parity s"
    using check_valid_same_heap [OF s4(1)] by (simp add: same_heap_def prev_parity_def)
  then obtain s5 where s5: "log_persistence_unit s4 = Inr s5" "alloc_ok s5"
    using log_persistence_unit_total [of s4] r4 by auto
  obtain s7 where "cpallocator_checkpointing (s5\<lparr>GLOBAL_EPOCH := e'\<rparr>) = Inr s7"
    using cpallocator_checkpointing_effect [of "s5\<lparr>GLOBAL_EPOCH := e'\<rparr>"] s5(2) by auto
  then show ?thesis
    using e' s4(1) s5(1) set_phase_bits(1) [OF e']
    by (simp add: enter_phase_def log_persistence_def nvm_heap_update_def)
qed

text \<open>The lines of the epoch that has just been closed can be logged.\<close>

lemma closed_log_ready:
  assumes inv: "cinv (at Cp_Idle e s)" and ready: "round_ready s" and e2: "Epoch e2 = Epoch e + 1"
  shows "log_ready (prev_parity (s\<lparr>GLOBAL_EPOCH := e2\<rparr>)) (s\<lparr>GLOBAL_EPOCH := e2\<rparr>)"
proof -
  have g: "Epoch e = Epoch (GLOBAL_EPOCH s)"
    using cinvD(6) [OF inv] by (simp add: epochs_ok_def Let_def)
  have "epoch_bit e = cur_parity s"
    using arg_cong [OF g, of epoch_bit] by (simp add: cur_parity_def epoch_bit_Epoch)
  then have pp: "prev_parity (s\<lparr>GLOBAL_EPOCH := e2\<rparr>) = cur_parity s" by (simp add: prev_parity_def e2 epoch_bit_Epoch)
  have wf: "plog_pool_ok (Plog_Management s)" "log_ok (pm_used (Plog_Management s)) (cp_log s)"
    using cinvD(2) [OF inv] by (auto simp: wf_logs_def log_ok_def redo_logs_def)
  have "regions_ok (uc_addrlist ctx (cur_parity s))" if "ctx \<in> set (ctx_array s)" for ctx
    using cinvD(3) [OF inv] that by (auto simp: in_set_conv_nth)
  then show ?thesis
    using ready wf cinvD(1) [OF inv] by (simp add: pp log_ready_def round_ready_def flagged_def)
qed

lemma checkpoint_round_total:
  assumes inv: "cinv (at Cp_Idle e s)" and small: "unat (Epoch e) + 1 < 2 ^ 62" and ready: "round_ready s"
  shows "\<exists>e' s'. checkpoint_round al True e s = Inr (e', s') \<and> Epoch e' = Epoch e + 1"
proof -
  obtain e1 where e1: "set_phase (e + 1) Multi_Epoch_Existence = Inr e1" using set_phase_total by blast
  obtain e2 where e2: "set_phase e1 Log_Persistence = Inr e2" using set_phase_total by blast
  have E: "Epoch e1 = Epoch e + 1" "Epoch e2 = Epoch e + 1"
    using set_phase_bits(1) [OF e1] set_phase_bits(1) [OF e2] Epoch_succ [OF small] by simp_all
  have g: "Epoch e = Epoch (GLOBAL_EPOCH s)" "2 \<le> unat (Epoch (GLOBAL_EPOCH s))"
    using cinvD(6) [OF inv] by (simp_all add: epochs_ok_def Let_def)
  let ?s1 = "s\<lparr>GLOBAL_EPOCH := e1\<rparr>" and ?s2 = "s\<lparr>GLOBAL_EPOCH := e2\<rparr>"
  have wait: "wait_previous_epoch_transactions e1 ?s1 = Inr ()"
    using ready g unat_Epoch_succ [OF small] set_phase_bits(1) [OF e1]
    by (intro idle_wait) (simp_all add: round_ready_def)
  note r2 = closed_log_ready [OF inv ready E(2)]
  obtain s3 where s3: "dealloc al ?s2 = Inr s3" using dealloc_effect by blast
  have "alloc_ok s3" by (rule dealloc_alloc_ok [OF s3]) (use r2 in \<open>simp add: log_ready_def\<close>)
  then have "log_ready (prev_parity ?s2) s3" by (rule same_heap_log_ready [OF dealloc_same_heap [OF s3] _ r2])
  moreover have "prev_parity s3 = prev_parity ?s2"
    using dealloc_same_heap [OF s3] by (simp add: same_heap_def prev_parity_def)
  ultimately obtain e' s' where "rbind (log_persistence True s3) (\<lambda>s. rbind (enter_phase e2 NVM_Heap_Update s) (\<lambda>(e, s).
      rbind (nvm_heap_update True s) (\<lambda>s. Inr (e, s)))) = Inr (e', s')" "Epoch e' = Epoch e2"
    using log_and_update_total [of s3 e2] by auto
  then have "checkpoint_round al True e s = Inr (e', s')"
    unfolding checkpoint_round_def enter_phase_def [of "e + 1"] enter_phase_def [of e1] e1 rbind_Inr prod.case
    by (simp only: e2 wait rbind_Inr prod.case) (simp add: s3)
  then show ?thesis using E \<open>Epoch e' = Epoch e2\<close> by simp
qed

text \<open>\<open>finalize\<close> returns as well, and what it leaves on NVM is the DRAM heap.\<close>

lemma finalize_total:
  assumes inv: "cinv (at Cp_Idle e s)" and small: "unat (Epoch e) + 1 < 2 ^ 62" and ready: "round_ready s"
  shows "\<exists>s'. finalize True e s = Inr s'"
proof -
  obtain e2 where e2: "set_phase (e + 1) Log_Persistence = Inr e2" using set_phase_total by blast
  have "Epoch e2 = Epoch e + 1" using set_phase_bits(1) [OF e2] Epoch_succ [OF small] by simp
  from closed_log_ready [OF inv ready this] log_and_update_total [of "s\<lparr>GLOBAL_EPOCH := e2\<rparr>" e2]
  obtain e' s' where "rbind (log_persistence True (s\<lparr>GLOBAL_EPOCH := e2\<rparr>)) (\<lambda>s.
      rbind (enter_phase e2 NVM_Heap_Update s) (\<lambda>(e, s). rbind (nvm_heap_update True s) (\<lambda>s. Inr (e, s)))) = Inr (e', s')"
    by blast
  then have "finalize True e s = Inr s'"
    by (auto simp: finalize_def enter_phase_def e2 res_simps split_beta)
  then show ?thesis by blast
qed

end
