(* ===== verification/EpochProtocol.thy ===== *)
theory EpochProtocol
  imports GlobalEscort
begin

section \<open>The handshake between \<^verbatim>\<open>begin_op\<close> and the wait for the closed epoch\<close>

text \<open>
  \<^verbatim>\<open>userthreadctx_t::begin_op\<close> and \<^verbatim>\<open>end_op\<close> (\<^verbatim>\<open>src/src/userthreadctx_t.cpp\<close>) against the phases of
  \<^verbatim>\<open>cpmaster_t::checkpointing\<close> and \<^verbatim>\<open>wait_previous_epoch_transactions\<close> (\<^verbatim>\<open>src/src/checkpointing.cpp\<close>), at the
  granularity of single loads and stores of the global epoch and of the epochs of the
  contexts, which the code makes sequentially consistent. The parameter \<open>weak\<close> selects the
  variant under \<^verbatim>\<open>WEAK_CONSISTENCY\<close>, whose \<^verbatim>\<open>begin_op\<close> does not read the global epoch again.

  What is shown: with the second read, a thread that is in an operation of the closed epoch
  holds back the logging phase; this is why \<open>begin_op\<close> is one step of the relation in
  \<^verbatim>\<open>CheckpointSteps\<close>. Without it, the claim fails.
\<close>

text \<open>
  \<open>U_Begin\<close>: at the head of the loop of \<^verbatim>\<open>begin_op\<close>. \<open>U_Loaded e\<close>: the global epoch has been read into
  a register. \<open>U_Stored\<close>: the epoch of the context is written, the condition of the loop is next.
\<close>

datatype user_pc = U_Out | U_Begin | U_Loaded epoch_t | U_Stored | U_In

datatype wait_pc = W_Idle | W_Wait nat | W_Log | W_Update

record proto =
  pr_epoch :: epoch_t
  pr_ctx :: "nat \<Rightarrow> epoch_t"
  pr_user :: "nat \<Rightarrow> user_pc"
  pr_wait :: wait_pc

inductive proto_step :: "bool \<Rightarrow> nat \<Rightarrow> proto \<Rightarrow> proto \<Rightarrow> bool"
  for weak :: bool and n :: nat where
  call: "pr_user p t = U_Out \<Longrightarrow> proto_step weak n p (p\<lparr>pr_user := (pr_user p)(t := U_Begin)\<rparr>)"
| load: "pr_user p t = U_Begin \<Longrightarrow>
    proto_step weak n p (p\<lparr>pr_user := (pr_user p)(t := U_Loaded (pr_epoch p))\<rparr>)"
| store: "pr_user p t = U_Loaded e \<Longrightarrow>
    proto_step weak n p (p\<lparr>pr_user := (pr_user p)(t := U_Stored), pr_ctx := (pr_ctx p)(t := e)\<rparr>)"
| test: "pr_user p t = U_Stored \<Longrightarrow>
    proto_step weak n p (p\<lparr>pr_user := (pr_user p)(t := if weak \<or> pr_ctx p t = pr_epoch p then U_In else U_Begin)\<rparr>)"
| leave: "pr_user p t = U_In \<Longrightarrow>
    proto_step weak n p (p\<lparr>pr_user := (pr_user p)(t := U_Out), pr_ctx := (pr_ctx p)(t := 0)\<rparr>)"
| seal: "pr_wait p = W_Idle \<Longrightarrow> unat (Epoch (pr_epoch p)) + 1 < 2 ^ 62 \<Longrightarrow>
    set_phase (pr_epoch p + 1) Multi_Epoch_Existence = Inr e \<Longrightarrow>
    proto_step weak n p (p\<lparr>pr_wait := W_Wait 0, pr_epoch := e\<rparr>)"
| wait_one: "pr_wait p = W_Wait k \<Longrightarrow> k < n \<Longrightarrow> Epoch (pr_ctx p k) \<noteq> Epoch (pr_epoch p) - 1 \<Longrightarrow>
    proto_step weak n p (p\<lparr>pr_wait := W_Wait (k + 1)\<rparr>)"
| log: "pr_wait p = W_Wait n \<Longrightarrow> set_phase (pr_epoch p) Log_Persistence = Inr e \<Longrightarrow>
    proto_step weak n p (p\<lparr>pr_wait := W_Log, pr_epoch := e\<rparr>)"
| update: "pr_wait p = W_Log \<Longrightarrow> set_phase (pr_epoch p) NVM_Heap_Update = Inr e \<Longrightarrow>
    proto_step weak n p (p\<lparr>pr_wait := W_Update, pr_epoch := e\<rparr>)"
| finish: "pr_wait p = W_Update \<Longrightarrow> proto_step weak n p (p\<lparr>pr_wait := W_Idle\<rparr>)"

inductive proto_reach :: "bool \<Rightarrow> nat \<Rightarrow> proto \<Rightarrow> bool" for weak :: bool and n :: nat where
  proto_init: "proto_reach weak n \<lparr>pr_epoch = 2, pr_ctx = (\<lambda>_. 0), pr_user = (\<lambda>_. U_Out), pr_wait = W_Idle\<rparr>"
| proto_next: "proto_reach weak n p \<Longrightarrow> proto_step weak n p p' \<Longrightarrow> proto_reach weak n p'"

inductive_cases proto_stepE: "proto_step weak n p p'"

text \<open>
  The invariant: a thread in an operation holds the current epoch, or the one just closed if the
  wait has not passed its context.
\<close>

definition in_epoch :: "proto \<Rightarrow> nat \<Rightarrow> epoch_t \<Rightarrow> bool" where
  "in_epoch p t e \<longleftrightarrow> pr_user p t = U_In \<and> Epoch (pr_ctx p t) = e"

definition may_be_old :: "wait_pc \<Rightarrow> nat \<Rightarrow> bool" where
  "may_be_old w t = (case w of W_Wait k \<Rightarrow> k \<le> t | _ \<Rightarrow> False)"

definition proto_inv :: "nat \<Rightarrow> proto \<Rightarrow> bool" where
  "proto_inv n p \<longleftrightarrow> (\<forall>t < n. pr_user p t = U_In \<longrightarrow>
     Epoch (pr_ctx p t) = Epoch (pr_epoch p) \<or>
     Epoch (pr_ctx p t) = Epoch (pr_epoch p) - 1 \<and> may_be_old (pr_wait p) t)"

lemma proto_inv_step:
  assumes "proto_step False n p p'" and "proto_inv n p"
  shows "proto_inv n p'"
  using assms
proof (induction rule: proto_step.induct)
  case (seal p e)
  have "Epoch e = Epoch (pr_epoch p) + 1"
    using set_phase_bits(1) [OF seal(3)] Epoch_succ [OF seal(2)] by simp
  then show ?case using seal by (auto simp: proto_inv_def may_be_old_def)
next
  case (wait_one p k)
  then show ?case
    by (auto simp: proto_inv_def may_be_old_def not_less_eq_eq dest!: le_neq_implies_less)
next
  case (log p e)
  have "Epoch e = Epoch (pr_epoch p)" by (rule set_phase_bits(1) [OF log(2)])
  then show ?case using log by (auto simp: proto_inv_def may_be_old_def)
next
  case (update p e)
  have "Epoch e = Epoch (pr_epoch p)" by (rule set_phase_bits(1) [OF update(2)])
  then show ?case using update by (auto simp: proto_inv_def may_be_old_def)
qed (auto simp: proto_inv_def may_be_old_def)

lemma proto_reach_inv: "proto_reach False n p \<Longrightarrow> proto_inv n p"
proof (induction rule: proto_reach.induct)
  case proto_init
  then show ?case by (simp add: proto_inv_def)
next
  case (proto_next p p')
  then show ?case by (blast intro: proto_inv_step)
qed

text \<open>C5: with any number of threads and any interleaving of single loads and stores, once the wait for the
  closed epoch is over (and until the next epoch is closed) every thread that is in an operation runs in the
  current epoch.\<close>

theorem begin_op_handshake:
  assumes "proto_reach False n p" and "pr_wait p \<in> {W_Idle, W_Log, W_Update}" and "t < n" and "pr_user p t = U_In"
  shows "Epoch (pr_ctx p t) = Epoch (pr_epoch p)"
  using proto_reach_inv [OF assms(1)] assms(2-4) by (auto simp: proto_inv_def may_be_old_def)

text \<open>A run of one thread that loads the epoch, is overtaken by a whole wait, and stores what it has loaded.\<close>

definition overtaken :: "user_pc \<Rightarrow> epoch_t \<Rightarrow> proto" where
  "overtaken u e = \<lparr>pr_epoch = 0x4000000000000003, pr_ctx = (\<lambda>_. 0)(0 := e), pr_user = (\<lambda>_. U_Out)(0 := u), pr_wait = W_Log\<rparr>"

lemma overtaken_reach: "proto_reach weak 1 (overtaken U_Stored 2)"
proof -
  let ?p = "\<lambda>e u w. \<lparr>pr_epoch = e, pr_ctx = (\<lambda>_. 0), pr_user = (\<lambda>_. U_Out)(0 := u), pr_wait = w\<rparr> :: proto"
  have E: "Epoch 2 = 2" "Epoch 3 = 3" "Epoch 0x8000000000000003 = 3" "Epoch 0 = 0"
    by (simp_all add: Epoch_def epoch_mask_def)
  have "(\<lambda>_. U_Out)(0 := U_Out) = (\<lambda>_::nat. U_Out)" by (simp add: fun_eq_iff)
  then have 0: "proto_reach weak 1 (?p 2 U_Out W_Idle)" using proto_init by simp
  have 1: "proto_reach weak 1 (?p 2 U_Begin W_Idle)"
    using proto_next [OF 0 call [of _ 0]] by simp
  have 2: "proto_reach weak 1 (?p 2 (U_Loaded 2) W_Idle)"
    using proto_next [OF 1 load [of _ 0]] by simp
  have 3: "proto_reach weak 1 (?p 0x8000000000000003 (U_Loaded 2) (W_Wait 0))"
    using proto_next [OF 2 seal [of "?p 2 (U_Loaded 2) W_Idle" "0x8000000000000003"]]
    by (simp add: E set_phase_def epoch_mask_def mask_multiple_epoch_existence_def)
  have 4: "proto_reach weak 1 (?p 0x8000000000000003 (U_Loaded 2) (W_Wait 1))"
    using proto_next [OF 3 wait_one [of "?p 0x8000000000000003 (U_Loaded 2) (W_Wait 0)" 0]] by (simp add: E)
  have 5: "proto_reach weak 1 (?p 0x4000000000000003 (U_Loaded 2) W_Log)"
    using proto_next [OF 4 log [of "?p 0x8000000000000003 (U_Loaded 2) (W_Wait 1)" 1 "0x4000000000000003"]]
    by (simp add: set_phase_def epoch_mask_def mask_log_persistence_def)
  have 6: "proto_reach weak 1 \<lparr>pr_epoch = 0x4000000000000003, pr_ctx = (\<lambda>_. 0)(0 := 2),
      pr_user = (\<lambda>_. U_Out)(0 := U_Stored), pr_wait = W_Log\<rparr>"
    using proto_next [OF 5 store [of "?p 0x4000000000000003 (U_Loaded 2) W_Log" 0 2]] by simp
  then show ?thesis by (simp add: overtaken_def)
qed

text \<open>The overtaken thread notices that the epoch has changed, starts over and gets in.\<close>

lemma overtaken_retries: "proto_reach False 1 (overtaken U_In 0x4000000000000003)"
proof -
  have 1: "proto_reach False 1 (overtaken U_Begin 2)"
    using proto_next [OF overtaken_reach test [of "overtaken U_Stored 2" 0 False]] by (simp add: overtaken_def)
  have 2: "proto_reach False 1 (overtaken (U_Loaded 0x4000000000000003) 2)"
    using proto_next [OF 1 load [of "overtaken U_Begin 2" 0]] by (simp add: overtaken_def)
  have 3: "proto_reach False 1 (overtaken U_Stored 0x4000000000000003)"
    using proto_next [OF 2 store [of "overtaken (U_Loaded 0x4000000000000003) 2" 0 "0x4000000000000003"]]
    by (simp add: overtaken_def)
  show ?thesis
    using proto_next [OF 3 test [of "overtaken U_Stored 0x4000000000000003" 0 False]] by (simp add: overtaken_def)
qed

theorem begin_op_handshake_witness: "Epoch (pr_ctx (overtaken U_In 0x4000000000000003) 0) = 3"
proof -
  have "Epoch (pr_ctx (overtaken U_In 0x4000000000000003) 0) = Epoch (pr_epoch (overtaken U_In 0x4000000000000003))"
    by (rule begin_op_handshake [OF overtaken_retries]) (simp_all add: overtaken_def)
  then show ?thesis by (simp add: overtaken_def Epoch_def epoch_mask_def)
qed

text \<open>The loop of \<open>begin_op\<close> ends as soon as a thread is not overtaken: three steps of its own lead into
  the operation, with the global epoch in its context and nothing else changed.\<close>

lemma begin_op_undisturbed:
  assumes "pr_user p t = U_Begin"
  shows "\<exists>p1 p2 p3. proto_step weak n p p1 \<and> proto_step weak n p1 p2 \<and> proto_step weak n p2 p3 \<and>
    p3 = p\<lparr>pr_user := (pr_user p)(t := U_In), pr_ctx := (pr_ctx p)(t := pr_epoch p)\<rparr>"
proof (intro exI conjI)
  let ?p1 = "p\<lparr>pr_user := (pr_user p)(t := U_Loaded (pr_epoch p))\<rparr>"
  let ?p2 = "p\<lparr>pr_user := (pr_user p)(t := U_Stored), pr_ctx := (pr_ctx p)(t := pr_epoch p)\<rparr>"
  show "proto_step weak n p ?p1" using load [of p t] assms by simp
  show "proto_step weak n ?p1 ?p2" using store [of ?p1 t "pr_epoch p"] by simp
  show "proto_step weak n ?p2 (p\<lparr>pr_user := (pr_user p)(t := U_In), pr_ctx := (pr_ctx p)(t := pr_epoch p)\<rparr>)"
  proof -
    have eq: "?p2\<lparr>pr_user := (pr_user ?p2)(t := if weak \<or> pr_ctx ?p2 t = pr_epoch ?p2 then U_In else U_Begin)\<rparr> =
        p\<lparr>pr_user := (pr_user p)(t := U_In), pr_ctx := (pr_ctx p)(t := pr_epoch p)\<rparr>"
      by (rule proto.equality) simp_all
    show ?thesis by (subst eq [symmetric]) (rule test, simp)
  qed
qed simp

text \<open>C40: without the second read of the global epoch (\<open>WEAK_CONSISTENCY\<close>) the claim fails: a thread
  can be in an operation of the closed epoch while its lines are being logged.\<close>

theorem weak_begin_op_unsafe:
  "\<exists>p. proto_reach True 1 p \<and> pr_wait p = W_Log \<and> pr_user p 0 = U_In \<and>
     Epoch (pr_ctx p 0) = Epoch (pr_epoch p) - 1"
proof -
  have "proto_reach True 1 (overtaken U_In 2)"
    using proto_next [OF overtaken_reach test [of "overtaken U_Stored 2" 0 True]] by (simp add: overtaken_def)
  moreover have "Epoch 2 = Epoch 0x4000000000000003 - 1" by (simp add: Epoch_def epoch_mask_def)
  ultimately show ?thesis by (intro exI [of _ "overtaken U_In 2"]) (simp add: overtaken_def)
qed

end
