(* ===== verification/HeapBytes.thy ===== *)
theory HeapBytes
  imports UserThreadCtx
begin

section \<open>The DRAM heap as bytes\<close>

text \<open>
  Loads to go with the stores of \<^verbatim>\<open>UserThreadCtx\<close>: a byte, and an 8-byte pointer (little endian). The
  address of byte \<open>x\<close> of the heap is \<open>byte_ptr x\<close>; the lemmas say that a load after a store
  sees exactly what the store has written.
\<close>

definition load_byte :: "ptr \<Rightarrow> (ptr \<Rightarrow> cacheline_t) \<Rightarrow> byte" where
  "load_byte addr mem = cl_content (mem (align_down addr)) (ucast addr)"

definition bytes_of_ptr :: "ptr \<Rightarrow> byte list" where
  "bytes_of_ptr v = map (\<lambda>k. ucast (drop_bit (8 * k) v)) [0..<8]"

definition ptr_of_bytes :: "byte list \<Rightarrow> ptr" where
  "ptr_of_bytes bs = foldr (\<lambda>b acc. push_bit 8 acc OR ucast b) bs 0"

definition load_ptr :: "ptr \<Rightarrow> (ptr \<Rightarrow> cacheline_t) \<Rightarrow> ptr" where
  "load_ptr addr mem = ptr_of_bytes (map (\<lambda>k. load_byte (addr + word_of_nat k) mem) [0..<8])"

definition store_ptr :: "ptr \<Rightarrow> ptr \<Rightarrow> (ptr \<Rightarrow> cacheline_t) \<Rightarrow> ptr \<Rightarrow> cacheline_t" where
  "store_ptr addr v = store_bytes addr (bytes_of_ptr v)"

lemma length_bytes_of_ptr [simp]: "length (bytes_of_ptr v) = 8"
  by (simp add: bytes_of_ptr_def)

lemma bit_ptr_of_bytes:
  "n < 64 \<Longrightarrow> bit (ptr_of_bytes bs) n \<longleftrightarrow> n div 8 < length bs \<and> bit (bs ! (n div 8)) (n mod 8)"
proof (induction bs arbitrary: n)
  case Nil
  then show ?case by (simp add: ptr_of_bytes_def)
next
  case (Cons b bs)
  have "ptr_of_bytes (b # bs) = push_bit 8 (ptr_of_bytes bs) OR ucast b" by (simp add: ptr_of_bytes_def)
  then have step: "bit (ptr_of_bytes (b # bs)) n \<longleftrightarrow> 8 \<le> n \<and> bit (ptr_of_bytes bs) (n - 8) \<or> bit b n"
    using Cons.prems by (auto simp: bit_simps)
  show ?case
  proof (cases "n < 8")
    case True
    then show ?thesis by (simp add: step)
  next
    case False
    then have "\<not> bit b n" using bit_imp_le_length [of b n] by auto
    moreover have "n div 8 = Suc ((n - 8) div 8)" "n mod 8 = (n - 8) mod 8" using False by (simp_all add: le_div_geq le_mod_geq)
    ultimately show ?thesis using Cons False by (simp add: step)
  qed
qed

lemma bytes_ptr_roundtrip: "ptr_of_bytes (bytes_of_ptr v) = v"
proof (rule bit_word_eqI)
  fix n assume "n < LENGTH(64)"
  then have n: "n < 64" by simp
  then have k: "n div 8 < 8" by (simp add: less_mult_imp_div_less)
  have "bytes_of_ptr v ! (n div 8) = ucast (drop_bit (8 * (n div 8)) v)" using k by (simp add: bytes_of_ptr_def)
  moreover have "8 * (n div 8) + n mod 8 = n" by simp
  ultimately show "bit (ptr_of_bytes (bytes_of_ptr v)) n = bit v n"
    using n k by (simp add: bit_ptr_of_bytes bit_simps)
qed

subsection \<open>Addresses of the heap\<close>

definition heap_bytes :: nat where
  "heap_bytes = 64 * heap_lines"

definition byte_ptr :: "nat \<Rightarrow> ptr" where
  "byte_ptr x = DRAM_BASE + word_of_nat x"

lemma byte_ptr_line: "byte_ptr x = line_ptr (x div 64) + word_of_nat (x mod 64)"
  using of_nat_add [of "64 * (x div 64)" "x mod 64", where 'a = "64 word"]
  by (simp add: byte_ptr_def line_ptr_def del: of_nat_add)

lemma byte_ptr_add: "byte_ptr x + word_of_nat k = byte_ptr (x + k)"
  by (simp add: byte_ptr_def)

lemma byte_ptr_add_numeral: "byte_ptr x + numeral k = byte_ptr (x + numeral k)"
  by (simp add: byte_ptr_def)

lemma heap_bytes_line: "x < heap_bytes \<Longrightarrow> x div 64 < heap_lines"
  by (simp add: heap_bytes_def less_mult_imp_div_less mult.commute)

lemma align_down_byte: "x < heap_bytes \<Longrightarrow> align_down (byte_ptr x) = line_ptr (x div 64)"
  unfolding byte_ptr_line by (rule align_down_heap) (simp_all add: heap_bytes_line)

lemma ucast_byte:
  assumes "x < heap_bytes"
  shows "ucast (byte_ptr x) = (word_of_nat (x mod 64) :: 6 word)"
proof -
  have "unat (ucast (line_ptr (x div 64) + word_of_nat (x mod 64)) :: 6 word) = x mod 64"
    using assms by (intro ucast_heap_ptr) (simp_all add: heap_bytes_line)
  moreover have "word_of_nat (unat u) = u" for u :: "6 word" by simp
  ultimately show ?thesis unfolding byte_ptr_line by metis
qed

lemma bytemap_get_index_byte: "x < heap_bytes \<Longrightarrow> bytemap_get_index (byte_ptr x) = Inr (x div 64)"
  unfolding byte_ptr_line by (rule bytemap_get_index_heap) (simp_all add: heap_bytes_line)

lemma bitmap_get_index_byte: "x < heap_bytes \<Longrightarrow> bitmap_get_index (byte_ptr x) = Inr (x div 64)"
  unfolding byte_ptr_line by (rule bitmap_get_index_heap) (simp_all add: heap_bytes_line)

subsection \<open>A load after a store\<close>

lemma load_store_byte:
  assumes "x < heap_bytes" and "y < heap_bytes"
  shows "load_byte (byte_ptr x) (store_byte (byte_ptr y) v mem) = (if x = y then v else load_byte (byte_ptr x) mem)"
proof -
  have x: "align_down (byte_ptr x) = line_ptr (x div 64)" "(ucast (byte_ptr x) :: 6 word) = word_of_nat (x mod 64)"
    and y: "align_down (byte_ptr y) = line_ptr (y div 64)" "(ucast (byte_ptr y) :: 6 word) = word_of_nat (y mod 64)"
    using align_down_byte ucast_byte assms by blast+
  show ?thesis
  proof (cases "x div 64 = y div 64")
    case True
    have "(word_of_nat (x mod 64) :: 6 word) = word_of_nat (y mod 64) \<longleftrightarrow> x mod 64 = y mod 64"
      by (rule word_of_nat_offset_inj) simp_all
    moreover have "x mod 64 = y mod 64 \<longleftrightarrow> x = y"
      using True div_mult_mod_eq [of x 64] div_mult_mod_eq [of y 64] by auto
    ultimately show ?thesis
      unfolding load_byte_def store_byte_def Let_def x y True by simp
  next
    case False
    then have "line_ptr (x div 64) \<noteq> line_ptr (y div 64)"
      using line_ptr_inj [of "x div 64" "y div 64"] heap_bytes_line assms by blast
    moreover have "x \<noteq> y" using False by blast
    ultimately show ?thesis unfolding load_byte_def store_byte_def Let_def x y by simp
  qed
qed

lemma load_store_bytes:
  assumes "x < heap_bytes" and "y + length bs \<le> heap_bytes"
  shows "load_byte (byte_ptr x) (store_bytes (byte_ptr y) bs mem) =
    (if y \<le> x \<and> x < y + length bs then bs ! (x - y) else load_byte (byte_ptr x) mem)"
  using assms(2)
proof (induction bs arbitrary: y mem)
  case Nil
  then show ?case by auto
next
  case (Cons b bs)
  have next_ptr: "byte_ptr y + 1 = byte_ptr (Suc y)" by (simp add: byte_ptr_def)
  have "load_byte (byte_ptr x) (store_bytes (byte_ptr (Suc y)) bs (store_byte (byte_ptr y) b mem)) =
    (if Suc y \<le> x \<and> x < Suc y + length bs then bs ! (x - Suc y) else
       load_byte (byte_ptr x) (store_byte (byte_ptr y) b mem))"
    using Cons.prems by (intro Cons.IH) simp
  then show ?case
    using Cons.prems assms(1) by (auto simp: next_ptr load_store_byte nth_Cons' not_le less_Suc_eq_le)
qed

lemma load_byte_store_ptr:
  "x < heap_bytes \<Longrightarrow> y + 8 \<le> heap_bytes \<Longrightarrow> x < y \<or> y + 8 \<le> x \<Longrightarrow>
   load_byte (byte_ptr x) (store_ptr (byte_ptr y) v mem) = load_byte (byte_ptr x) mem"
  by (auto simp: store_ptr_def load_store_bytes)

lemma load_store_ptr [simp]:
  assumes "x + 8 \<le> heap_bytes"
  shows "load_ptr (byte_ptr x) (store_ptr (byte_ptr x) v mem) = v"
proof -
  have "map (\<lambda>k. load_byte (byte_ptr x + word_of_nat k) (store_ptr (byte_ptr x) v mem)) [0..<8] =
      map (\<lambda>k. bytes_of_ptr v ! k) [0..<8]"
    using assms by (intro map_cong refl) (simp add: byte_ptr_add store_ptr_def load_store_bytes)
  also have "\<dots> = bytes_of_ptr v" using map_nth [of "bytes_of_ptr v"] by simp
  finally show ?thesis by (simp only: load_ptr_def bytes_ptr_roundtrip)
qed

lemma load_ptr_cong:
  "(\<And>k. k < 8 \<Longrightarrow> load_byte (byte_ptr (x + k)) mem' = load_byte (byte_ptr (x + k)) mem) \<Longrightarrow>
   load_ptr (byte_ptr x) mem' = load_ptr (byte_ptr x) mem"
  unfolding load_ptr_def by (intro arg_cong [of _ _ ptr_of_bytes] map_cong refl) (simp add: byte_ptr_add)

lemma load_ptr_store_bytes:
  "x + 8 \<le> heap_bytes \<Longrightarrow> y + length bs \<le> heap_bytes \<Longrightarrow> x + 8 \<le> y \<or> y + length bs \<le> x \<Longrightarrow>
   load_ptr (byte_ptr x) (store_bytes (byte_ptr y) bs mem) = load_ptr (byte_ptr x) mem"
  by (rule load_ptr_cong) (auto simp: load_store_bytes)

lemma load_ptr_store_ptr:
  "x + 8 \<le> heap_bytes \<Longrightarrow> y + 8 \<le> heap_bytes \<Longrightarrow> x + 8 \<le> y \<or> y + 8 \<le> x \<Longrightarrow>
   load_ptr (byte_ptr x) (store_ptr (byte_ptr y) v mem) = load_ptr (byte_ptr x) mem"
  unfolding store_ptr_def by (rule load_ptr_store_bytes) simp_all

lemma load_ptr_store_byte:
  "x + 8 \<le> heap_bytes \<Longrightarrow> y < heap_bytes \<Longrightarrow> y < x \<or> x + 8 \<le> y \<Longrightarrow>
   load_ptr (byte_ptr x) (store_byte (byte_ptr y) v mem) = load_ptr (byte_ptr x) mem"
  by (rule load_ptr_cong) (auto simp: load_store_byte)

end
