(* ===== verification/MarkTotal.thy ===== *)
theory MarkTotal
  imports HeapFrame HeapBytes
begin

section \<open>When \<^verbatim>\<open>mark\<close> returns, and what it leaves alone\<close>

text \<open>
  Two facts about \<^verbatim>\<open>userthreadctx_t::mark\<close> that hold whatever the logs contain: it changes the
  bitmaps, the redo log of the caller and its address list only; and it returns as long as the
  caller is in an operation, the lines are lines of the heap and the redo log pool has room for them.
\<close>

subsection \<open>The frame\<close>

definition ctx_rest :: "userthreadctx_t \<Rightarrow> epoch_t \<times> (bool \<Rightarrow> allocatorlog_t) \<times> (bool \<Rightarrow> ptr list)" where
  "ctx_rest ctx = (uc_epoch ctx, uc_allocatorlog ctx, uc_delay_dealloc ctx)"

definition only_marks :: "('j, 'z) escort_scheme \<Rightarrow> ('j, 'z) escort_scheme \<Rightarrow> bool" where
  "only_marks s s' \<longleftrightarrow>
     s' = s\<lparr>BitMap := BitMap s', Plog_Management := Plog_Management s', ctx_array := ctx_array s'\<rparr> \<and>
     map ctx_rest (ctx_array s') = map ctx_rest (ctx_array s)"

lemma only_marks_refl [simp]: "only_marks s s"
  by (simp add: only_marks_def)

lemma only_marksI:
  "s' = s\<lparr>BitMap := B, Plog_Management := m, ctx_array := cs\<rparr> \<Longrightarrow> map ctx_rest cs = map ctx_rest (ctx_array s) \<Longrightarrow>
   only_marks s s'"
  by (simp add: only_marks_def)

lemma only_marksE:
  assumes "only_marks s s'"
  obtains B m cs where "s' = s\<lparr>BitMap := B, Plog_Management := m, ctx_array := cs\<rparr>"
    and "map ctx_rest cs = map ctx_rest (ctx_array s)"
  using assms unfolding only_marks_def by blast

lemma only_marks_trans: "only_marks s u \<Longrightarrow> only_marks u v \<Longrightarrow> only_marks s v"
proof -
  assume "only_marks s u" "only_marks u v"
  then obtain B m cs B' m' cs' where "u = s\<lparr>BitMap := B, Plog_Management := m, ctx_array := cs\<rparr>"
    "map ctx_rest cs = map ctx_rest (ctx_array s)" "v = u\<lparr>BitMap := B', Plog_Management := m', ctx_array := cs'\<rparr>"
    "map ctx_rest cs' = map ctx_rest (ctx_array u)"
    by (elim only_marksE) blast
  then show ?thesis by (intro only_marksI [where s' = v and s = s and B = B' and m = m' and cs = cs']) simp_all
qed

lemma only_marks_sel:
  assumes "only_marks s s'"
  shows "dram s' = dram s" "nvm s' = nvm s" "GLOBAL_EPOCH s' = GLOBAL_EPOCH s" "heap_alloc s' = heap_alloc s"
    "Allocatorlog_Management s' = Allocatorlog_Management s" "ByteMap s' = ByteMap s" "ByteMap_NVM s' = ByteMap_NVM s"
    "length (ctx_array s') = length (ctx_array s)"
    "\<And>u. u < length (ctx_array s) \<Longrightarrow> uc_epoch (ctx_array s' ! u) = uc_epoch (ctx_array s ! u) \<and>
      uc_allocatorlog (ctx_array s' ! u) = uc_allocatorlog (ctx_array s ! u)"
proof -
  obtain B m cs where s': "s' = s\<lparr>BitMap := B, Plog_Management := m, ctx_array := cs\<rparr>"
    and r: "map ctx_rest cs = map ctx_rest (ctx_array s)"
    using assms by (rule only_marksE)
  show "dram s' = dram s" "nvm s' = nvm s" "GLOBAL_EPOCH s' = GLOBAL_EPOCH s" "heap_alloc s' = heap_alloc s"
    "Allocatorlog_Management s' = Allocatorlog_Management s" "ByteMap s' = ByteMap s" "ByteMap_NVM s' = ByteMap_NVM s"
    by (simp_all add: s')
  show len: "length (ctx_array s') = length (ctx_array s)"
    using arg_cong [OF r, of length] by (simp add: s')
  fix u assume u: "u < length (ctx_array s)"
  have "ctx_rest (cs ! u) = ctx_rest (ctx_array s ! u)"
    using arg_cong [OF r, of "\<lambda>l. l ! u"] u len by (simp add: s')
  then show "uc_epoch (ctx_array s' ! u) = uc_epoch (ctx_array s ! u) \<and>
      uc_allocatorlog (ctx_array s' ! u) = uc_allocatorlog (ctx_array s ! u)"
    by (simp add: s' ctx_rest_def)
qed

lemma only_marks_bits: "only_marks s (s\<lparr>BitMap := B\<rparr>)"
  by (rule only_marksI [where B = B and m = "Plog_Management s" and cs = "ctx_array s"]) simp_all

lemma only_marks_ctx:
  assumes "ctx_rest ctx = ctx_rest (ctx_array s ! t)"
  shows "only_marks s (put_ctx t ctx (s\<lparr>BitMap := B, Plog_Management := m\<rparr>))"
proof (rule only_marksI)
  show "put_ctx t ctx (s\<lparr>BitMap := B, Plog_Management := m\<rparr>) =
      s\<lparr>BitMap := B, Plog_Management := m, ctx_array := (ctx_array s)[t := ctx]\<rparr>"
    by (simp add: put_ctx_def)
  show "map ctx_rest ((ctx_array s)[t := ctx]) = map ctx_rest (ctx_array s)"
    using assms by (cases "t < length (ctx_array s)") (simp_all add: map_update list_update_same_conv list_update_beyond)
qed

subsection \<open>A line\<close>

text \<open>\<open>may_mark k t s\<close>: the thread is in an operation and can log \<open>k\<close> more lines.\<close>

definition may_mark :: "nat \<Rightarrow> nat \<Rightarrow> ('j, 'z) escort_scheme \<Rightarrow> bool" where
  "may_mark k t s \<longleftrightarrow> t < length (ctx_array s) \<and> uc_epoch (ctx_array s ! t) \<noteq> 0 \<and>
     (\<forall>b. bm_size (BitMap s b) = heap_lines) \<and> plog_pool_ok (Plog_Management s) \<and>
     log_ok (pm_used (Plog_Management s)) (uc_log (ctx_array s ! t)) \<and>
     k \<le> plog_room (Plog_Management s) (uc_log (ctx_array s ! t))"

lemma may_mark_le: "may_mark k t s \<Longrightarrow> j \<le> k \<Longrightarrow> may_mark j t s"
  by (auto simp: may_mark_def)

lemma push_user_log_total:
  assumes "may_mark (Suc k) t s"
  shows "\<exists>s'. push_user_log t e s = Inr s' \<and> may_mark k t s' \<and> only_marks s s' \<and> BitMap s' = BitMap s"
proof -
  let ?c = "ctx_array s ! t" and ?m = "Plog_Management s"
  have ok: "plog_pool_ok ?m" "log_ok (pm_used ?m) (uc_log ?c)" "0 < plog_room ?m (uc_log ?c)"
    using assms by (auto simp: may_mark_def)
  obtain bl m where r: "plog_push_back e (uc_log ?c, ?m) = Inr (bl, m)" "plog_room m bl + 1 = plog_room ?m (uc_log ?c)"
    using plog_push_back_room [OF ok] by blast
  have t: "t < length (ctx_array s)" using assms by (simp add: may_mark_def)
  let ?s = "put_ctx t (?c\<lparr>uc_log := bl\<rparr>) (s\<lparr>Plog_Management := m\<rparr>)"
  have run: "push_user_log t e s = Inr ?s" using t r(1) by (simp add: push_user_log_def get_ctx_def)
  have "may_mark k t ?s"
    using assms t r(2) plog_push_back_ok(1,2) [OF ok(1,2) r(1)] by (simp add: may_mark_def)
  moreover have "only_marks s ?s"
    using only_marks_ctx [where ctx = "?c\<lparr>uc_log := bl\<rparr>" and s = s and t = t and B = "BitMap s" and m = m] by (simp add: ctx_rest_def)
  ultimately show ?thesis using run by simp
qed

lemma may_mark_bits: "may_mark k t s \<Longrightarrow> (\<And>b. bm_size (B b) = heap_lines) \<Longrightarrow> may_mark k t (s\<lparr>BitMap := B\<rparr>)"
  by (simp add: may_mark_def)

lemma mark_line_total:
  assumes ready: "may_mark (Suc k) t s" and i: "i < heap_lines"
  shows "\<exists>new s'. mark_line t b i a s = Inr (new, s') \<and> may_mark k t s' \<and> only_marks s s'"
proof (cases "bm_bits (BitMap s b) i")
  case True
  then have "mark_line t b i a s = Inr (False, s)"
    using ready i by (simp add: mark_line_def bitmap_is_set_def may_mark_def)
  then show ?thesis using may_mark_le [OF ready, of k] by auto
next
  case False
  have size: "bm_size (BitMap s p) = heap_lines" for p using ready by (simp add: may_mark_def)
  let ?prev = "(BitMap s (\<not> b))\<lparr>bm_bits := (bm_bits (BitMap s (\<not> b)))(i := False)\<rparr>"
  let ?u = "s\<lparr>BitMap := (BitMap s)((\<not> b) := ?prev)\<rparr>"
  have "\<exists>v. (if bm_bits (BitMap s (\<not> b)) i then push_user_log t (a, dram s a) ?u else Inr s) = Inr v \<and>
      may_mark k t v \<and> only_marks s v \<and> BitMap v b = BitMap s b"
  proof (cases "bm_bits (BitMap s (\<not> b)) i")
    case True
    have "may_mark (Suc k) t ?u" by (rule may_mark_bits [OF ready]) (simp add: size)
    from push_user_log_total [OF this, of "(a, dram s a)"] obtain v where
      v: "push_user_log t (a, dram s a) ?u = Inr v" "may_mark k t v" "only_marks ?u v" "BitMap v = BitMap ?u" by blast
    have "only_marks s v" using only_marks_trans [OF only_marks_bits v(3)] .
    then show ?thesis using v True by simp
  next
    case False
    then show ?thesis using may_mark_le [OF ready, of k] by simp
  qed
  then obtain v where v: "(if bm_bits (BitMap s (\<not> b)) i then push_user_log t (a, dram s a) ?u else Inr s) = Inr v"
    "may_mark k t v" "only_marks s v" "BitMap v b = BitMap s b" by blast
  let ?w = "v\<lparr>BitMap := (BitMap v)(b := (BitMap v b)\<lparr>bm_bits := (bm_bits (BitMap v b))(i := True)\<rparr>)\<rparr>"
  have "mark_line t b i a s = Inr (True, ?w)"
    using False v(1,4) i
    by (simp add: mark_line_def bitmap_is_set_def bitmap_clear_def bitmap_set_def size Let_def split: if_splits)
  moreover have "may_mark k t ?w" by (rule may_mark_bits [OF v(2)]) (use v(2) in \<open>simp add: may_mark_def\<close>)
  moreover have "only_marks s ?w" by (rule only_marks_trans [OF v(3) only_marks_bits])
  ultimately show ?thesis by blast
qed

subsection \<open>The whole call\<close>

lemma mark_loop_total:
  assumes "may_mark (n + k) t s" and "i + n \<le> heap_lines"
  shows "\<exists>app' s'. mark_loop t b n i a app s = Inr (app', s') \<and> may_mark k t s' \<and> only_marks s s'"
  using assms
proof (induction n arbitrary: i a app s)
  case 0
  then show ?case by simp
next
  case (Suc n)
  then have "may_mark (Suc (n + k)) t s" "i < heap_lines" by simp_all
  from mark_line_total [OF this, of b a] obtain new u where
    u: "mark_line t b i a s = Inr (new, u)" "may_mark (n + k) t u" "only_marks s u" by blast
  obtain app' s' where "mark_loop t b n (i + 1) (add_addr a (word_of_nat CACHE_LINE_SIZE)) (app \<or> new) u = Inr (app', s')"
    "may_mark k t s'" "only_marks u s'"
    using Suc.IH [OF u(2), of "i + 1" "add_addr a (word_of_nat CACHE_LINE_SIZE)" "app \<or> new"] Suc.prems(2) by auto
  then show ?case using u only_marks_trans [OF u(3)] by simp
qed

lemma mark_total:
  assumes "may_mark (num_bits sz + k) t s" and "bitmap_get_index addr = Inr i" and "i + num_bits sz \<le> heap_lines"
  shows "\<exists>s'. mark t addr sz s = Inr s' \<and> may_mark k t s' \<and> only_marks s s'"
proof -
  let ?b = "epoch_bit (uc_epoch (ctx_array s ! t))"
  have t: "t < length (ctx_array s)" "uc_epoch (ctx_array s ! t) \<noteq> 0" using assms(1) by (simp_all add: may_mark_def)
  obtain app u where u: "mark_loop t ?b (num_bits sz) i (align_down addr) False s = Inr (app, u)" "may_mark k t u" "only_marks s u"
    using mark_loop_total [OF assms(1,3)] by blast
  have tu: "t < length (ctx_array u)" using u(2) by (simp add: may_mark_def)
  let ?c = "(ctx_array u ! t)\<lparr>uc_addrlist := (uc_addrlist (ctx_array u ! t))(?b :=
    uc_addrlist (ctx_array u ! t) ?b @ [(align_down addr, num_bits sz)])\<rparr>"
  let ?s = "if app then put_ctx t ?c u else u"
  have "mark t addr sz s = Inr ?s"
    using t tu u(1) assms(2) by (simp add: mark_def Let_def get_ctx_def addrlist_append_def)
  moreover have "only_marks u (put_ctx t ?c u)"
    using only_marks_ctx [where ctx = ?c and s = u and t = t and B = "BitMap u" and m = "Plog_Management u"] by (simp add: ctx_rest_def)
  then have "only_marks s ?s" using u(3) only_marks_trans by auto
  moreover have "may_mark k t ?s" using u(2) tu by (auto simp: may_mark_def)
  ultimately show ?thesis by blast
qed

end
