(* ===== verification/RootTableT.thy ===== *)
theory RootTableT
  imports MarkTotal
begin

section \<open>The root table\<close>

text \<open>
  \<^verbatim>\<open>src/src/roottable_t.hpp\<close>: a hash table from names to addresses that lives in the DRAM heap, so its
  operations are loads, stores and calls of \<^verbatim>\<open>mark\<close> on the bytes of the heap. A table is its address; a
  bucket is a cache line (the lock, and at offset 8 the head); a node is the array \<^verbatim>\<open>id\<close> of
  \<^verbatim>\<open>CACHE_LINE_SIZE\<close> bytes, then \<^verbatim>\<open>addr\<close> and \<^verbatim>\<open>next\<close>. A name is the list of the bytes of the C string
  before its terminator. \<^verbatim>\<open>pnew\<close> and \<^verbatim>\<open>pdelete\<close> are the templates of \<^verbatim>\<open>src/src/Escort.hpp\<close>.
\<close>

definition BUCKET_SIZE :: nat where
  "BUCKET_SIZE = 512"

text \<open>\<^verbatim>\<open>char\<close> is signed, so \<^verbatim>\<open>static_cast<uint32_t>\<close> extends the sign.\<close>

definition hashfn :: "byte list \<Rightarrow> 32 word" where
  "hashfn rootid = fold (\<lambda>c ret. ret + scast c) rootid 0"

text \<open>\<^verbatim>\<open>buckets[bucket_id]\<close>: the index is not reduced to the size of the array.\<close>

definition bucket_at :: "ptr \<Rightarrow> byte list \<Rightarrow> ptr res" where
  "bucket_at this rootid =
     (let bucket_id = unat (hashfn rootid) in
      if bucket_id < BUCKET_SIZE then Inr (this + word_of_nat (64 * bucket_id)) else Inl OutOfBounds)"

definition bucket_head :: "ptr \<Rightarrow> ptr" where "bucket_head b = b + 8"
definition node_addr :: "ptr \<Rightarrow> ptr" where "node_addr n = n + 64"
definition node_next :: "ptr \<Rightarrow> ptr" where "node_next n = n + 72"

definition node_size :: nat where "node_size = 80"

definition store_field ::
  "ptr \<Rightarrow> ptr \<Rightarrow> ('j, 'z) escort_scheme \<Rightarrow> ('j, 'z) escort_scheme" where
  "store_field a v s = s\<lparr>dram := store_ptr a v (dram s)\<rparr>"

subsection \<open>The lock of a bucket\<close>

text \<open>
  A failed \<^verbatim>\<open>compare_exchange\<close> writes the value it has found into \<^verbatim>\<open>expected\<close>, which the loop of
  \<^verbatim>\<open>lock\<close> does not reset; without interference the second attempt expects what is there.
\<close>

function lock_loop :: "byte \<Rightarrow> ptr \<Rightarrow> (ptr \<Rightarrow> cacheline_t) \<Rightarrow> ptr \<Rightarrow> cacheline_t" where
  "lock_loop expected b mem =
     (let found = load_byte b mem in
      if found = expected then store_byte b 1 mem else lock_loop found b mem)"
  by pat_completeness auto
termination
  by (relation "measure (\<lambda>(e, b, mem). if load_byte b mem = e then 0 else 1)") (auto simp: Let_def)

declare lock_loop.simps [simp del]

definition bucket_lock :: "ptr \<Rightarrow> ('j, 'z) escort_scheme \<Rightarrow> ('j, 'z) escort_scheme" where
  "bucket_lock b s = s\<lparr>dram := lock_loop 0 b (dram s)\<rparr>"

definition bucket_unlock :: "ptr \<Rightarrow> ('j, 'z) escort_scheme \<Rightarrow> ('j, 'z) escort_scheme res" where
  "bucket_unlock b s =
     (if load_byte b (dram s) = 1 then Inr (s\<lparr>dram := store_byte b 0 (dram s)\<rparr>) else Inl QuickExit)"

subsection \<open>Nodes\<close>

text \<open>\<^verbatim>\<open>strcmp(node->id, rootid) == 0\<close>, from character \<open>i\<close> on; it must not run off the array \<^verbatim>\<open>id\<close>.\<close>

fun id_equal :: "(ptr \<Rightarrow> cacheline_t) \<Rightarrow> ptr \<Rightarrow> nat \<Rightarrow> byte list \<Rightarrow> bool res" where
  "id_equal mem n i [] =
     (if i < CACHE_LINE_SIZE then Inr (load_byte (n + word_of_nat i) mem = 0) else Inl OutOfBounds)"
| "id_equal mem n i (c # cs) =
     (if i < CACHE_LINE_SIZE then
        if load_byte (n + word_of_nat i) mem = c then id_equal mem n (i + 1) cs else Inr False
      else Inl OutOfBounds)"

text \<open>
  \<^verbatim>\<open>Node(rootid, rootaddr)\<close>: the initialiser of \<^verbatim>\<open>next\<close> runs first; \<^verbatim>\<open>memcpy\<close> copies the characters of
  the name without its terminator.
\<close>

definition node_new ::
  "nat \<Rightarrow> byte list \<Rightarrow> ptr \<Rightarrow> ptr \<Rightarrow> ('j, 'z) escort_scheme \<Rightarrow> ('j, 'z) escort_scheme res" where
  "node_new t rootid rootaddr n s =
     (let s = store_field (node_next n) 0 s in
      rbind (mark t n (word_of_nat CACHE_LINE_SIZE) s) (\<lambda>s.
      rbind (mark t (node_addr n) 8 s) (\<lambda>s.
      if length rootid \<le> CACHE_LINE_SIZE then
        Inr (store_field (node_addr n) rootaddr (s\<lparr>dram := store_bytes n rootid (dram s)\<rparr>))
      else Inl OutOfBounds)))"

definition node_update :: "nat \<Rightarrow> ptr \<Rightarrow> ptr \<Rightarrow> ('j, 'z) escort_scheme \<Rightarrow> ('j, 'z) escort_scheme res" where
  "node_update t n addr s = rbind (mark t (node_addr n) 8 s) (\<lambda>s. Inr (store_field (node_addr n) addr s))"

subsection \<open>\<^verbatim>\<open>pnew\<close> and \<^verbatim>\<open>pdelete\<close>\<close>

definition round_size :: "nat \<Rightarrow> nat" where
  "round_size n = (if n mod CACHE_LINE_SIZE \<noteq> 0 then (n div CACHE_LINE_SIZE + 1) * CACHE_LINE_SIZE else n)"

definition pnew ::
  "'j allocator \<Rightarrow> nat \<Rightarrow> nat \<Rightarrow> (ptr \<Rightarrow> ('j, 'z) escort_scheme \<Rightarrow> ('j, 'z) escort_scheme res) \<Rightarrow>
   ('j, 'z) escort_scheme \<Rightarrow> (ptr \<times> ('j, 'z) escort_scheme) res" where
  "pnew al t object_size constructor s =
     rbind (malloc_with_create_log al t (word_of_nat (round_size object_size)) s) (\<lambda>(ret, s).
     rbind (constructor ret s) (\<lambda>s. Inr (ret, s)))"

text \<open>The object is freed only if its size is not a multiple of the size of a cache line.\<close>

definition pdelete ::
  "'j allocator \<Rightarrow> nat \<Rightarrow> nat \<Rightarrow> ptr \<Rightarrow> ('j, 'z) escort_scheme \<Rightarrow> ('j, 'z) escort_scheme res" where
  "pdelete al t object_size obj s =
     (if object_size mod CACHE_LINE_SIZE \<noteq> 0 then
        free_with_create_log al t obj (word_of_nat (round_size object_size)) s
      else Inr s)"

subsection \<open>The loops over a list of nodes\<close>

text \<open>
  \<^verbatim>\<open>while(curr != nullptr)\<close> in \<^verbatim>\<open>set\<close> and \<^verbatim>\<open>get\<close>: the node found, or \<^verbatim>\<open>nullptr\<close>. \<open>None\<close>: the list is
  cyclic and the loop does not end.
\<close>

partial_function (option) find_node :: "(ptr \<Rightarrow> cacheline_t) \<Rightarrow> byte list \<Rightarrow> ptr \<Rightarrow> ptr res option" where
  "find_node mem rootid current =
     (if current = 0 then Some (Inr 0)
      else case id_equal mem current 0 rootid of
        Inl e \<Rightarrow> Some (Inl e)
      | Inr found \<Rightarrow> if found then Some (Inr current) else find_node mem rootid (load_ptr (node_next current) mem))"

text \<open>\<^verbatim>\<open>while(curr->next != nullptr) curr = curr->next\<close> in \<^verbatim>\<open>set\<close>.\<close>

partial_function (option) last_node :: "(ptr \<Rightarrow> cacheline_t) \<Rightarrow> ptr \<Rightarrow> ptr res option" where
  "last_node mem current =
     (if current = 0 then Some (Inl NullDeref)
      else if load_ptr (node_next current) mem = 0 then Some (Inr current)
      else last_node mem (load_ptr (node_next current) mem))"

text \<open>The loop of \<^verbatim>\<open>remove\<close>, which moves on only by unlinking.\<close>

partial_function (option) remove_loop ::
  "nat \<Rightarrow> byte list \<Rightarrow> ptr \<Rightarrow> ptr \<Rightarrow> ('j, 'z) escort_scheme \<Rightarrow> (ptr \<times> ('j, 'z) escort_scheme) res option" where
  "remove_loop t rootid current remove_node s =
     (if current = 0 then Some (Inl NullDeref)
      else let next_node = load_ptr (node_next current) (dram s) in
        if next_node = 0 then Some (Inr (remove_node, s))
        else case id_equal (dram s) next_node 0 rootid of
          Inl e \<Rightarrow> Some (Inl e)
        | Inr found \<Rightarrow>
            if found then
              (case mark t (node_next current) 8 s of
                 Inl e \<Rightarrow> Some (Inl e)
               | Inr s' \<Rightarrow> remove_loop t rootid current next_node
                   (store_field (node_next current) (load_ptr (node_next next_node) (dram s')) s'))
            else remove_loop t rootid current remove_node s)"

definition or_diverges :: "'a res option \<Rightarrow> 'a res" where
  "or_diverges r = (case r of None \<Rightarrow> Inl Diverges | Some x \<Rightarrow> x)"

subsection \<open>The operations\<close>

definition roottable_set ::
  "'j allocator \<Rightarrow> nat \<Rightarrow> ptr \<Rightarrow> byte list \<Rightarrow> ptr \<Rightarrow> ('j, 'z) escort_scheme \<Rightarrow> ('j, 'z) escort_scheme res" where
  "roottable_set al t this rootid rootaddr s =
     rbind (bucket_at this rootid) (\<lambda>bucket.
     let s = bucket_lock bucket s in
     rbind (or_diverges (find_node (dram s) rootid (load_ptr (bucket_head bucket) (dram s)))) (\<lambda>current.
     if current \<noteq> 0 then rbind (node_update t current rootaddr s) (bucket_unlock bucket)
     else
       rbind (pnew al t node_size (node_new t rootid rootaddr) s) (\<lambda>(new_node, s).
       if load_ptr (bucket_head bucket) (dram s) = 0 then
         rbind (mark t (bucket_head bucket) 8 s) (\<lambda>s.
         bucket_unlock bucket (store_field (bucket_head bucket) new_node s))
       else
         rbind (or_diverges (last_node (dram s) current)) (\<lambda>current.
         rbind (mark t (node_next current) 8 s) (\<lambda>s.
         bucket_unlock bucket (store_field (node_next current) new_node s))))))"

definition roottable_get :: "ptr \<Rightarrow> byte list \<Rightarrow> ('j, 'z) escort_scheme \<Rightarrow> ptr res" where
  "roottable_get this rootid s =
     rbind (bucket_at this rootid) (\<lambda>bucket.
     rbind (or_diverges (find_node (dram s) rootid (load_ptr (bucket_head bucket) (dram s)))) (\<lambda>current.
     Inr (if current \<noteq> 0 then load_ptr (node_addr current) (dram s) else 0)))"

definition roottable_remove ::
  "'j allocator \<Rightarrow> nat \<Rightarrow> ptr \<Rightarrow> byte list \<Rightarrow> ('j, 'z) escort_scheme \<Rightarrow> ('j, 'z) escort_scheme res" where
  "roottable_remove al t this rootid s =
     rbind (bucket_at this rootid) (\<lambda>bucket.
     rbind (rassert (load_ptr (bucket_head bucket) (dram s) \<noteq> 0)) (\<lambda>_.
     let s = bucket_lock bucket s; head = load_ptr (bucket_head bucket) (dram s) in
     rbind (id_equal (dram s) head 0 rootid) (\<lambda>found.
     rbind (if found then
              rbind (mark t (bucket_head bucket) 8 s) (\<lambda>s.
              Inr (head, store_field (bucket_head bucket) (load_ptr (node_next head) (dram s)) s))
            else Inr (0, s)) (\<lambda>(remove_node, s).
     rbind (or_diverges (remove_loop t rootid (load_ptr (bucket_head bucket) (dram s)) remove_node s)) (\<lambda>(remove_node, s).
     if remove_node \<noteq> 0 then rbind (pdelete al t node_size remove_node s) (bucket_unlock bucket)
     else Inl QuickExit)))))"

end
