(* ===== verification/NvmConfig.thy ===== *)
theory NvmConfig
  imports GlobalEscort
begin

section \<open>The layout of the NVM file\<close>

text \<open>
  \<^verbatim>\<open>src/src/nvm/config.hpp\<close> and \<^verbatim>\<open>src/src/nvm/config.cpp\<close>: the object \<^verbatim>\<open>nvmconfig_t\<close> lays out the mapped
  file (pointers, epoch, heap, counters, then a bump allocator), detects an earlier use
  of the file and hands out its areas. The 8-byte cells of the mapped file are the map
  \<open>nc_cells\<close>. Opening and mapping the three files is done by the operating
  system: the address and the size of the mapping and the contents are parameters.
\<close>

record nvmconfig_t =
  nc_dram_space :: ptr
  nc_nvm_space :: ptr
  nc_dram_space_addr :: ptr
  nc_nvm_space_addr :: ptr
  nc_g_epoch_pointer_addr :: ptr
  nc_bytemap_pointer_addr :: ptr
  nc_root_pointer_addr :: ptr
  nc_persist_num_addr :: ptr
  nc_user_num_addr :: ptr
  nc_tmp_space :: ptr
  nc_start_address :: ptr
  nc_nvm_size :: size_t
  nc_is_dirty :: bool
  nc_cells :: "ptr \<Rightarrow> 64 word"

definition check_dirty :: "nvmconfig_t \<Rightarrow> nvmconfig_t" where
  "check_dirty c = c\<lparr>nc_is_dirty := (nc_cells c (nc_start_address c) \<noteq> 0)\<rparr>"

text \<open>\<^verbatim>\<open>_tmp_space % CACHE_LINE_SIZE\<close> is a signed remainder.\<close>

definition align_up :: "ptr \<Rightarrow> ptr" where
  "align_up p = (let r = sint p smod int CACHE_LINE_SIZE in
     if r \<noteq> 0 then p + word_of_int (int CACHE_LINE_SIZE - r) else p)"

definition create_area :: "size_t \<Rightarrow> nvmconfig_t \<Rightarrow> nvmconfig_t res" where
  "create_area heap_size c =
     rbind (rassert (nc_tmp_space c = nc_start_address c)) (\<lambda>_.
     let tmp = nc_tmp_space c;
         c = c\<lparr>nc_dram_space_addr := tmp, nc_dram_space := DRAM_BASE, nc_cells := (nc_cells c)(tmp := DRAM_BASE)\<rparr>;
         tmp = tmp + 8;
         c = c\<lparr>nc_nvm_space_addr := tmp\<rparr>;
         tmp = tmp + 8;
         c = c\<lparr>nc_g_epoch_pointer_addr := tmp\<rparr>;
         tmp = tmp + 8;
         c = c\<lparr>nc_bytemap_pointer_addr := tmp\<rparr>;
         tmp = tmp + 8;
         c = c\<lparr>nc_root_pointer_addr := tmp\<rparr>;
         tmp = align_up (tmp + 8);
         c = c\<lparr>nc_nvm_space := tmp, nc_cells := (nc_cells c)(nc_nvm_space_addr c := tmp)\<rparr>;
         tmp = tmp + heap_size;
         c = c\<lparr>nc_persist_num_addr := tmp\<rparr>;
         tmp = tmp + 8;
         c = c\<lparr>nc_user_num_addr := tmp\<rparr>
     in Inr (c\<lparr>nc_tmp_space := tmp + 8\<rparr>))"

definition nvmconfig_new ::
  "nvmconfig_t \<Rightarrow> ptr \<Rightarrow> size_t \<Rightarrow> (ptr \<Rightarrow> 64 word) \<Rightarrow> size_t \<Rightarrow> nvmconfig_t res" where
  "nvmconfig_new mem start_address nvm_size file heap_size =
     create_area heap_size (check_dirty
       (mem\<lparr>nc_start_address := start_address, nc_nvm_size := nvm_size, nc_tmp_space := start_address,
          nc_cells := file\<rparr>))"

definition nvmconfig_offset :: "nvmconfig_t \<Rightarrow> size_t" where
  "nvmconfig_offset c = nc_nvm_space c - nc_dram_space c"

definition nvmconfig_malloc :: "size_t \<Rightarrow> nvmconfig_t \<Rightarrow> (ptr \<times> nvmconfig_t) res" where
  "nvmconfig_malloc sz c =
     (let whole_size = nc_tmp_space c - nc_start_address c in
      rbind (rassert (whole_size < nc_nvm_size c)) (\<lambda>_.
      Inr (nc_tmp_space c, c\<lparr>nc_tmp_space := nc_tmp_space c + sz\<rparr>)))"

definition is_dirty :: "nvmconfig_t \<Rightarrow> bool" where
  "is_dirty c = nc_is_dirty c"

definition set_cell :: "ptr \<Rightarrow> 64 word \<Rightarrow> nvmconfig_t \<Rightarrow> nvmconfig_t" where
  "set_cell a v c = c\<lparr>nc_cells := (nc_cells c)(a := v)\<rparr>"

definition set_root_pointer :: "ptr \<Rightarrow> nvmconfig_t \<Rightarrow> nvmconfig_t" where
  "set_root_pointer p c = set_cell (nc_root_pointer_addr c) p c"

definition set_bytemap_pointer :: "ptr \<Rightarrow> nvmconfig_t \<Rightarrow> nvmconfig_t" where
  "set_bytemap_pointer p c = set_cell (nc_bytemap_pointer_addr c) p c"

definition get_roottable :: "nvmconfig_t \<Rightarrow> ptr" where
  "get_roottable c = nc_cells c (nc_root_pointer_addr c)"

definition add_user_num :: "nvmconfig_t \<Rightarrow> nvmconfig_t" where
  "add_user_num c = set_cell (nc_user_num_addr c) (nc_cells c (nc_user_num_addr c) + 1) c"

definition reset_thread_num :: "nvmconfig_t \<Rightarrow> nvmconfig_t" where
  "reset_thread_num c = set_cell (nc_user_num_addr c) 0 (set_cell (nc_persist_num_addr c) 0 c)"

definition set_checkpointing_thread :: "32 word \<Rightarrow> nvmconfig_t \<Rightarrow> nvmconfig_t" where
  "set_checkpointing_thread n c = set_cell (nc_persist_num_addr c) (ucast n) c"

subsection \<open>The layout\<close>

text \<open>
  For a page-aligned mapping of the lower half of the address space with room for the heap:
  the areas lie one after the other, the NVM heap starts at a cache line, and every
  line of the DRAM heap has its counterpart inside the NVM heap.
\<close>

definition mapped :: "ptr \<Rightarrow> size_t \<Rightarrow> bool" where
  "mapped start sz \<longleftrightarrow> start \<noteq> 0 \<and> 4096 dvd unat start \<and> unat start + unat sz < 2 ^ 63 \<and> unat HEAP_SIZE + 80 \<le> unat sz"

lemma align_up_40:
  assumes "64 dvd unat p" and "unat p + 64 < 2 ^ 63"
  shows "align_up (p + 40) = p + 64"
proof -
  obtain a where a: "unat p = 64 * a" using assms(1) by (elim dvdE)
  have "word_of_nat (unat p) = p" by simp
  then have p: "p + 40 = word_of_nat (64 * a + 40)" by (simp add: a)
  have "sint (p + 40) = int (64 * a + 40)"
    unfolding p using assms(2) a by (intro sint_word_of_nat_small) simp
  then have "sint (p + 40) smod 64 = (int a * 64 + 40) mod 64"
    by (simp add: signed_modulo_int_def sgn_if)
  also have "\<dots> = 40" by simp
  finally show ?thesis by (simp add: align_up_def Let_def)
qed

lemma mapped_bounds:
  assumes "mapped start sz"
  shows "64 dvd unat start" and "unat start + unat HEAP_SIZE + 80 < 2 ^ 63"
    and "unat HEAP_SIZE + 80 \<le> unat sz" and "start \<noteq> 0"
  using assms dvd_trans [of 64 "4096::nat" "unat start"] by (auto simp: mapped_def)

lemma nvmconfig_new_eq:
  assumes "mapped start sz"
  shows "nvmconfig_new mem start sz file HEAP_SIZE = Inr (mem\<lparr>
    nc_dram_space := DRAM_BASE, nc_nvm_space := start + 64, nc_dram_space_addr := start,
    nc_nvm_space_addr := start + 8, nc_g_epoch_pointer_addr := start + 16,
    nc_bytemap_pointer_addr := start + 24, nc_root_pointer_addr := start + 32,
    nc_persist_num_addr := start + 64 + HEAP_SIZE, nc_user_num_addr := start + 72 + HEAP_SIZE,
    nc_tmp_space := start + 80 + HEAP_SIZE, nc_start_address := start, nc_nvm_size := sz,
    nc_is_dirty := (file start \<noteq> 0), nc_cells := file(start := DRAM_BASE, start + 8 := start + 64)\<rparr>)"
proof -
  have "align_up (start + 40) = start + 64"
    using mapped_bounds [OF assms] by (intro align_up_40) (simp_all add: HEAP_SIZE_eq)
  then show ?thesis
    by (simp add: nvmconfig_new_def create_area_def check_dirty_def Let_def add.assoc)
qed

lemma unat_start_add:
  "mapped start sz \<Longrightarrow> n \<le> unat HEAP_SIZE + 80 \<Longrightarrow> unat (start + word_of_nat n) = unat start + n"
  using mapped_bounds [of start sz] by (simp add: unat_word_ariths unsigned_of_nat take_bit_nat_eq_self)

text \<open>The NVM counterpart of line \<open>i\<close> of the DRAM heap.\<close>

lemma nvm_line:
  assumes "nvmconfig_new mem start sz file HEAP_SIZE = Inr c" and "mapped start sz"
  shows "add_addr (line_ptr i) (nvmconfig_offset c) = start + word_of_nat (64 * (i + 1))"
  using assms(1) by (auto simp: nvmconfig_new_eq [OF assms(2)] add_addr_def nvmconfig_offset_def line_ptr_def algebra_simps)

text \<open>Two areas taken from the bump allocator do not overlap, as long as they fit.\<close>

lemma nvmconfig_malloc_disjoint:
  assumes "nvmconfig_malloc n1 c = Inr (p1, c1)" and "nvmconfig_malloc n2 c1 = Inr (p2, c2)"
    and "unat (nc_tmp_space c) + unat n1 + unat n2 < 2 ^ 64"
  shows "unat p1 + unat n1 = unat p2" and "unat p2 + unat n2 = unat (nc_tmp_space c2)"
proof -
  have p: "p1 = nc_tmp_space c" "p2 = nc_tmp_space c + n1" "nc_tmp_space c2 = nc_tmp_space c + n1 + n2"
    using assms(1,2) by (auto simp: nvmconfig_malloc_def Let_def res_simps)
  have "unat (nc_tmp_space c + n1) = unat (nc_tmp_space c) + unat n1"
    using assms(3) by (simp add: unat_word_ariths)
  with assms(3) show "unat p1 + unat n1 = unat p2" "unat p2 + unat n2 = unat (nc_tmp_space c2)"
    by (simp_all add: p unat_word_ariths)
qed

subsection \<open>A mapping with room\<close>

text \<open>A file of 12 GiB mapped at the second page, for the instances of the theorems below.\<close>

definition blank_config :: nvmconfig_t where
  "blank_config = \<lparr>nc_dram_space = 0, nc_nvm_space = 0, nc_dram_space_addr = 0, nc_nvm_space_addr = 0,
     nc_g_epoch_pointer_addr = 0, nc_bytemap_pointer_addr = 0, nc_root_pointer_addr = 0,
     nc_persist_num_addr = 0, nc_user_num_addr = 0, nc_tmp_space = 0, nc_start_address = 0,
     nc_nvm_size = 0, nc_is_dirty = False, nc_cells = (\<lambda>_. 0)\<rparr>"

definition demo_config :: nvmconfig_t where
  "demo_config = (case nvmconfig_new blank_config 0x1000 0x300000000 (\<lambda>_. 0) HEAP_SIZE of
     Inr c \<Rightarrow> c | Inl _ \<Rightarrow> blank_config)"

lemma demo_mapped: "mapped 0x1000 0x300000000"
  by (simp add: mapped_def HEAP_SIZE_eq)

lemma demo_config_eq: "nvmconfig_new blank_config 0x1000 0x300000000 (\<lambda>_. 0) HEAP_SIZE = Inr demo_config"
  by (simp add: demo_config_def nvmconfig_new_eq [OF demo_mapped])

lemma demo_config_sel:
  "nc_dram_space demo_config = DRAM_BASE" "nc_nvm_space demo_config = 0x1040"
  "nc_tmp_space demo_config = 0x1050 + HEAP_SIZE" "nc_start_address demo_config = 0x1000"
  "nc_nvm_size demo_config = 0x300000000"
  by (simp_all add: demo_config_def nvmconfig_new_eq [OF demo_mapped])

subsection \<open>What the layout guarantees\<close>

text \<open>C32: the areas of the file lie one after the other inside the mapping, the NVM heap starts at
  a cache line, and every cache line of the DRAM heap has its counterpart inside the NVM heap.\<close>

theorem nvm_layout:
  assumes "nvmconfig_new mem start sz file HEAP_SIZE = Inr c" and "mapped start sz" and "i < heap_lines"
  shows "nc_dram_space_addr c = start \<and> nc_nvm_space_addr c = start + 8 \<and>
    nc_g_epoch_pointer_addr c = start + 16 \<and> nc_bytemap_pointer_addr c = start + 24 \<and>
    nc_root_pointer_addr c = start + 32 \<and> 64 dvd unat (nc_nvm_space c) \<and>
    unat start + 40 \<le> unat (nc_nvm_space c) \<and>
    unat (add_addr (line_ptr i) (nvmconfig_offset c)) = unat (nc_nvm_space c) + 64 * i \<and>
    unat (nc_nvm_space c) + unat HEAP_SIZE = unat (nc_persist_num_addr c) \<and>
    unat (nc_persist_num_addr c) + 8 = unat (nc_user_num_addr c) \<and>
    unat (nc_user_num_addr c) + 8 = unat (nc_tmp_space c) \<and> unat (nc_tmp_space c) \<le> unat start + unat sz"
proof -
  note m = mapped_bounds [OF assms(2)]
  have u: "unat (start + word_of_nat n) = unat start + n" if "n \<le> unat HEAP_SIZE + 80" for n
    by (rule unat_start_add [OF assms(2) that])
  have h: "HEAP_SIZE = word_of_nat (unat HEAP_SIZE)" by simp
  have i: "64 * (i + 1) \<le> unat HEAP_SIZE + 80"
    using assms(3) by (simp add: heap_lines_eq HEAP_SIZE_eq)
  have "unat (start + 64 + HEAP_SIZE) = unat start + 64 + unat HEAP_SIZE"
    "unat (start + 72 + HEAP_SIZE) = unat start + 72 + unat HEAP_SIZE"
    "unat (start + 80 + HEAP_SIZE) = unat start + 80 + unat HEAP_SIZE"
    "unat (start + 64) = unat start + 64"
    using u [of "64 + unat HEAP_SIZE"] u [of "72 + unat HEAP_SIZE"] u [of "80 + unat HEAP_SIZE"] u [of 64]
    by (simp_all add: add.assoc)
  then show ?thesis
    using assms(1) m u [OF i] nvm_line [OF assms(1,2), of i]
    by (auto simp: nvmconfig_new_eq [OF assms(2)])
qed

theorem nvm_layout_witness:
  "unat (add_addr (line_ptr 5) (nvmconfig_offset demo_config)) = 0x1040 + 64 * 5"
  using nvm_layout [OF demo_config_eq demo_mapped, of 5] by (simp add: heap_lines_eq demo_config_sel)

text \<open>C35: a file never used before is not dirty; a file that has been opened once is dirty, and the root
  pointer stored in it is found again when it is opened at the same address.\<close>

theorem reopen_roundtrip:
  assumes "nvmconfig_new mem start sz file HEAP_SIZE = Inr c" and "mapped start sz"
    and "nvmconfig_new mem' start sz (nc_cells (set_root_pointer root c)) HEAP_SIZE = Inr c'"
  shows "(is_dirty c \<longleftrightarrow> file start \<noteq> 0) \<and> is_dirty c' \<and> get_roottable c' = root"
  using assms(1,3)
  by (auto simp: nvmconfig_new_eq [OF assms(2)] is_dirty_def get_roottable_def set_root_pointer_def
      set_cell_def DRAM_BASE_def)

theorem reopen_roundtrip_witness:
  "\<exists>c. nvmconfig_new blank_config 0x1000 0x300000000 (nc_cells (set_root_pointer 42 demo_config)) HEAP_SIZE = Inr c \<and>
     is_dirty c \<and> get_roottable c = 42"
proof -
  obtain c where c: "nvmconfig_new blank_config 0x1000 0x300000000 (nc_cells (set_root_pointer 42 demo_config)) HEAP_SIZE = Inr c"
    using nvmconfig_new_eq [OF demo_mapped] by blast
  with reopen_roundtrip [OF demo_config_eq demo_mapped c] show ?thesis by blast
qed

end
