(* ===== verification/Recovery.thy ===== *)
theory Recovery
  imports CheckpointCorrect NvmConfig
begin

section \<open>Initialisation and recovery\<close>

text \<open>
  \<^verbatim>\<open>src/src/init.cpp\<close>, \<^verbatim>\<open>src/src/recovery.cpp\<close> and \<^verbatim>\<open>escort_init\<close> of \<^verbatim>\<open>src/src/Escort.cpp\<close>: how the
  state of the library is set up at the start of a process, and what the recovery mode
  makes of the NVM heap. What the process finds (the contents of the log areas, of
  memory that is not initialised, which pages of the DRAM heap are mapped) is the
  parameter \<open>boot\<close>. The global variables are pointers (\<^verbatim>\<open>src/src/globalEscort.cpp\<close>) that are null when a process starts: the fields
  \<open>BitMap_set\<close> to \<open>CpMaster_set\<close> say which of those that \<^verbatim>\<open>init.cpp\<close> tests have been set.
\<close>

record 'j library = "'j escort" +
  NVM_config :: nvmconfig_t
  RootTable :: ptr
  is_single :: bool
  BitMap_set :: "bool \<Rightarrow> bool"
  ByteMap_set :: "bool \<Rightarrow> bool"
  ByteMap_NVM_set :: bool
  CpMaster_set :: bool

record boot =
  bt_plog_area :: "block_id \<Rightarrow> plog_block"
  bt_alog_area :: "block_id \<Rightarrow> alog_block"
  bt_heap_bytes :: "bool \<Rightarrow> nat \<Rightarrow> 8 word"
  bt_nvm_bytes :: "nat \<Rightarrow> 8 word"
  bt_mapped :: "nat \<Rightarrow> bool"

subsection \<open>\<^verbatim>\<open>init\<close>\<close>

text \<open>\<^verbatim>\<open>pnew<bytemap_nvm_t>\<close> takes the object and then, in its constructor, the array from the NVM file.\<close>

definition init_bitmap_round :: "boot \<Rightarrow> bool \<Rightarrow> ('j, 'z) library_scheme \<Rightarrow> ('j, 'z) library_scheme res" where
  "init_bitmap_round bt i s =
     rbind (rassert (\<not> BitMap_set s i)) (\<lambda>_.
     let s = s\<lparr>BitMap := (BitMap s)(i := bitmap_new HEAP_SIZE), BitMap_set := (BitMap_set s)(i := True)\<rparr> in
     rbind (rassert (\<not> ByteMap_set s i)) (\<lambda>_.
     Inr (s\<lparr>ByteMap := (ByteMap s)(i := bytemap_dram_new (bt_heap_bytes bt i) HEAP_SIZE),
            ByteMap_set := (ByteMap_set s)(i := True)\<rparr>)))"

definition init_bitmap :: "boot \<Rightarrow> ('j, 'z) library_scheme \<Rightarrow> ('j, 'z) library_scheme res" where
  "init_bitmap bt s =
     rbind (rfold (init_bitmap_round bt) [False, True] s) (\<lambda>s.
     rbind (rassert (\<not> ByteMap_NVM_set s)) (\<lambda>_.
     rbind (nvmconfig_malloc 8 (NVM_config s)) (\<lambda>(p, c).
     rbind (nvmconfig_malloc (HEAP_SIZE div word_of_nat CACHE_LINE_SIZE) c) (\<lambda>(_, c).
     Inr (s\<lparr>ByteMap_NVM := bytemap_nvm_new (bt_nvm_bytes bt) HEAP_SIZE, ByteMap_NVM_set := True,
            NVM_config := set_bytemap_pointer p c\<rparr>)))))"

text \<open>The pointers that \<^verbatim>\<open>init_bitmap\<close> tests are null before the first \<open>escort_init\<close> of a process.\<close>

definition no_maps :: "('j, 'z) library_scheme \<Rightarrow> bool" where
  "no_maps s \<longleftrightarrow> BitMap_set s = (\<lambda>_. False) \<and> ByteMap_set s = (\<lambda>_. False) \<and> \<not> ByteMap_NVM_set s"

definition fresh_library :: "('j, 'z) library_scheme \<Rightarrow> bool" where
  "fresh_library s \<longleftrightarrow> no_maps s \<and> \<not> CpMaster_set s"

lemma both_upd: "f(False := a, True := b) = (\<lambda>i. if i then b else a)"
  by (simp add: fun_eq_iff)

lemma init_bitmap_eq:
  "init_bitmap bt s = (if no_maps s then
     rbind (nvmconfig_malloc 8 (NVM_config s)) (\<lambda>(p, c).
     rbind (nvmconfig_malloc (HEAP_SIZE div word_of_nat CACHE_LINE_SIZE) c) (\<lambda>(_, c).
     Inr (s\<lparr>BitMap := (\<lambda>_. bitmap_new HEAP_SIZE), ByteMap := (\<lambda>i. bytemap_dram_new (bt_heap_bytes bt i) HEAP_SIZE),
            BitMap_set := (\<lambda>_. True), ByteMap_set := (\<lambda>_. True), ByteMap_NVM := bytemap_nvm_new (bt_nvm_bytes bt) HEAP_SIZE,
            ByteMap_NVM_set := True, NVM_config := set_bytemap_pointer p c\<rparr>)))
     else Inl AssertFailed)"
proof -
  have n: "f = (\<lambda>_. False) \<longleftrightarrow> \<not> f False \<and> \<not> f True" for f :: "bool \<Rightarrow> bool"
    by (auto simp: fun_eq_iff all_bool_eq)
  show ?thesis
    by (auto simp: init_bitmap_def init_bitmap_round_def no_maps_def n rassert_def Let_def both_upd fun_eq_iff
        intro!: rbind_cong)
qed

definition init_manager :: "boot \<Rightarrow> ('j, 'z) library_scheme \<Rightarrow> ('j, 'z) library_scheme" where
  "init_manager bt s = s\<lparr>Plog_Management := plog_management_new 1024 (bt_plog_area bt),
     Allocatorlog_Management := allocatorlog_management_new (8192 * 4) (bt_alog_area bt)\<rparr>"

text \<open>A bucket is a cache line: the lock, and at offset 8 the head of the list.\<close>

definition roottable_init :: "ptr \<Rightarrow> (ptr \<Rightarrow> cacheline_t) \<Rightarrow> ptr \<Rightarrow> cacheline_t" where
  "roottable_init p = fold (\<lambda>i. store_bytes (p + word_of_nat (64 * i + 8)) (replicate 8 0)) [0..<512]"

definition init_roottable :: "'j allocator \<Rightarrow> ('j, 'z) library_scheme \<Rightarrow> ('j, 'z) library_scheme" where
  "init_roottable al s =
     (let (p, j) = al_malloc al (64 * 512) (heap_alloc s) in
      s\<lparr>heap_alloc := j, RootTable := p, dram := roottable_init p (dram s),
        NVM_config := set_root_pointer p (NVM_config s)\<rparr>)"

text \<open>
  The constructor of \<^verbatim>\<open>cpmaster_t\<close>: with more than one checkpointing thread, each worker takes a \<^verbatim>\<open>plog_t\<close>
  (24 bytes) from the NVM file.
\<close>

definition cpmaster_new :: "32 word \<Rightarrow> ('j, 'z) library_scheme \<Rightarrow> ('j, 'z) library_scheme res" where
  "cpmaster_new checkpointing_num s =
     (let s = s\<lparr>is_single := (checkpointing_num = 1), ctx_array := [], cp_log := []\<rparr> in
      if is_single s then Inr s
      else rbind (rfold (\<lambda>_ c. rbind (nvmconfig_malloc 24 c) (\<lambda>(_, c). Inr c)) [0..<unat checkpointing_num] (NVM_config s))
        (\<lambda>c. Inr (s\<lparr>NVM_config := c\<rparr>)))"

definition init_checkpointing_thread :: "32 word \<Rightarrow> ('j, 'z) library_scheme \<Rightarrow> ('j, 'z) library_scheme res" where
  "init_checkpointing_thread checkpointing_num s =
     rbind (rassert (\<not> CpMaster_set s)) (\<lambda>_.
     rbind (cpmaster_new checkpointing_num (s\<lparr>NVM_config := set_checkpointing_thread checkpointing_num (NVM_config s)\<rparr>)) (\<lambda>s.
     Inr (s\<lparr>CpMaster_set := True\<rparr>)))"

lemma init_checkpointing_thread_frame:
  assumes "init_checkpointing_thread n s = Inr s'"
  shows "dram s' = dram s \<and> nvm s' = nvm s \<and> GLOBAL_EPOCH s' = GLOBAL_EPOCH s \<and> BitMap s' = BitMap s \<and>
    Plog_Management s' = Plog_Management s \<and> ctx_array s' = [] \<and> cp_log s' = []"
  using assms by (auto simp: init_checkpointing_thread_def cpmaster_new_def Let_def res_simps split: if_splits)

lemma init_checkpointing_thread_1:
  "\<not> CpMaster_set s \<Longrightarrow> init_checkpointing_thread 1 s = Inr (s\<lparr>NVM_config := set_checkpointing_thread 1 (NVM_config s),
     is_single := True, ctx_array := [], cp_log := [], CpMaster_set := True\<rparr>)"
  by (simp add: init_checkpointing_thread_def cpmaster_new_def rassert_def Let_def)

subsection \<open>\<^verbatim>\<open>recovery\<close>\<close>

definition recovery_replay_block :: "block_id \<Rightarrow> ('j, 'z) escort_scheme \<Rightarrow> ('j, 'z) escort_scheme" where
  "recovery_replay_block block s =
     (let s = replay_block block s; m = Plog_Management s
      in s\<lparr>Plog_Management := plog_put block (plog_block_clear (pm_area m block)) m\<rparr>)"

definition replay_redo_logs :: "('j, 'z) escort_scheme \<Rightarrow> ('j, 'z) escort_scheme" where
  "replay_redo_logs s = fold recovery_replay_block (pm_free (Plog_Management s)) s"

text \<open>A page is copied byte by byte, where the byte in DRAM is 0 and the one on NVM is not.\<close>

definition copy_line :: "cacheline_t \<Rightarrow> cacheline_t \<Rightarrow> cacheline_t" where
  "copy_line d n = d\<lparr>cl_content := (\<lambda>k. if cl_content d k = 0 \<and> cl_content n k \<noteq> 0
     then cl_content n k else cl_content d k)\<rparr>"

definition copy_page :: "nat \<Rightarrow> ('j, 'z) library_scheme \<Rightarrow> ('j, 'z) library_scheme" where
  "copy_page i s = fold (\<lambda>j s.
     let dram_space = nc_dram_space (NVM_config s) + word_of_nat (64 * j);
         nvm_space = nc_nvm_space (NVM_config s) + word_of_nat (64 * j)
     in s\<lparr>dram := (dram s)(dram_space := copy_line (dram s dram_space) (nvm s nvm_space))\<rparr>)
     [64 * i..<64 * i + 64] s"

definition copy_heap :: "boot \<Rightarrow> ('j, 'z) library_scheme \<Rightarrow> ('j, 'z) library_scheme" where
  "copy_heap bt s = fold (\<lambda>i s. if bt_mapped bt i then copy_page i s else s) [0..<unat HEAP_SIZE div 4096] s"

definition replay_allocator_logs :: "('j, 'z) escort_scheme \<Rightarrow> ('j, 'z) escort_scheme" where
  "replay_allocator_logs s = fold (\<lambda>block s. let m = Allocatorlog_Management s in
     s\<lparr>Allocatorlog_Management := alog_put block (alog_block_clear (am_area m block)) m\<rparr>)
     (am_free (Allocatorlog_Management s)) s"

text \<open>
  The index after the skip of a large object; \<^verbatim>\<open>bytei\<close> is a signed \<^verbatim>\<open>char\<close>, and \<^verbatim>\<open>bytei*CACHE_LINE_SIZE\<close>
  is computed in 32 bits, unsigned.
\<close>

definition skip_object :: "nat \<Rightarrow> 8 word \<Rightarrow> nat" where
  "skip_object i bytei = (if 128 \<le> sint bytei then i + nat (sint bytei div int CACHE_LINE_SIZE) - 1 else i)"

definition object_bytes :: "8 word \<Rightarrow> size_t" where
  "object_bytes bytei = ucast (word_of_int (sint bytei * int CACHE_LINE_SIZE) :: 32 word)"

lemma no_skip: "skip_object i b = i"
proof -
  have "sint b < 128" using sint_less [of b] by simp
  then show ?thesis by (simp add: skip_object_def)
qed

function apply_metadata_loop :: "'j allocator \<Rightarrow> nat \<Rightarrow> nat \<Rightarrow> ('j, 'z) escort_scheme \<Rightarrow> ('j, 'z) escort_scheme res" where
  "apply_metadata_loop al bytemap_size i s =
     (if i < bytemap_size then
        rbind (bytemap_get_byte (ByteMap_NVM s) i) (\<lambda>bytei.
        let i' = skip_object i bytei;
            (ret, j) = al_malloc al (object_bytes bytei) (heap_alloc s)
        in apply_metadata_loop al bytemap_size (i' + 1) (s\<lparr>heap_alloc := j\<rparr>))
      else Inr s)"
  by pat_completeness auto
termination
  by (relation "measure (\<lambda>(al, n, i, s). n - i)") (auto simp: no_skip)

declare apply_metadata_loop.simps [simp del]

definition apply_metadata :: "'j allocator \<Rightarrow> ('j, 'z) escort_scheme \<Rightarrow> ('j, 'z) escort_scheme res" where
  "apply_metadata al s =
     rbind (get_phase (GLOBAL_EPOCH s)) (\<lambda>phase.
     let s = (if phase = Log_Persistence then replay_allocator_logs s else s) in
     apply_metadata_loop al (unat HEAP_SIZE div CACHE_LINE_SIZE) 0 s)"

subsection \<open>\<^verbatim>\<open>escort_init\<close>\<close>

definition escort_init :: "'j allocator \<Rightarrow> boot \<Rightarrow> 32 word \<Rightarrow> bool \<Rightarrow> ('j, 'z) library_scheme \<Rightarrow> ('j, 'z) library_scheme res" where
  "escort_init al bt checkpointing_num is_recovery s =
     rbind (init_bitmap bt s) (\<lambda>s.
     let s = init_manager bt s in
     rbind (if is_recovery then
              let epoch = Epoch (GLOBAL_EPOCH s) in
              rbind (get_phase epoch) (\<lambda>phase.
              let s = (if phase = Log_Persistence then replay_redo_logs s else s);
                  s = copy_heap bt s in
              rbind (apply_metadata al s) (\<lambda>s.
              Inr (s\<lparr>RootTable := get_roottable (NVM_config s),
                     NVM_config := reset_thread_num (NVM_config s)\<rparr>)))
            else Inr (init_roottable al (s\<lparr>GLOBAL_EPOCH := 2\<rparr>))) (\<lambda>s.
     init_checkpointing_thread checkpointing_num s))"

subsection \<open>A first start leaves the library at rest\<close>

lemma blank_upd: "blank_line\<lparr>cl_content := (cl_content blank_line)(k := 0)\<rparr> = blank_line"
  by (simp add: blank_line_def fun_eq_iff)

lemma store_zero: "(\<And>a. mem a = blank_line) \<Longrightarrow> store_byte p 0 mem = mem"
  by (simp add: store_byte_def Let_def blank_upd fun_eq_iff)

lemma store_zeros: "(\<And>a. mem a = blank_line) \<Longrightarrow> store_bytes p (replicate n 0) mem = mem"
  by (induction n arbitrary: p) (simp_all add: store_zero)

lemma roottable_init_zero:
  assumes "\<And>a. mem a = blank_line"
  shows "roottable_init p mem = mem"
proof -
  have "fold (\<lambda>i. store_bytes (p + word_of_nat (64 * i + 8)) (replicate 8 0)) js mem = mem" for js
    by (induction js) (simp_all only: fold_simps store_zeros [OF assms])
  then show ?thesis by (simp add: roottable_init_def)
qed

lemma first_start_quiescent:
  assumes run: "escort_init al bt n False s = Inr s'"
    and dram: "\<And>a. dram s a = blank_line" and nvm: "\<And>a. nvm s a = blank_line"
  shows "quiescent s'" and "GLOBAL_EPOCH s' = 2" and "heap_image (dram s') = (\<lambda>_. blank_line)"
proof -
  from run obtain p j where s': "dram s' = roottable_init p (dram s)" "nvm s' = nvm s" "GLOBAL_EPOCH s' = 2"
    "BitMap s' = (\<lambda>_. bitmap_new HEAP_SIZE)" "Plog_Management s' = plog_management_new 1024 (bt_plog_area bt)"
    "ctx_array s' = []" "cp_log s' = []"
    by (auto simp: escort_init_def init_bitmap_eq init_roottable_def init_manager_def
        Let_def res_simps split_beta split: if_splits dest!: init_checkpointing_thread_frame)
  have d: "dram s' = dram s" using roottable_init_zero [OF dram] by (simp add: s')
  have blank: "heap_image (\<lambda>a. blank_line) = (\<lambda>_. blank_line)" by (simp add: heap_image_def fun_eq_iff)
  show "heap_image (dram s') = (\<lambda>_. blank_line)" using dram by (simp add: d heap_image_def fun_eq_iff)
  show "GLOBAL_EPOCH s' = 2" by (rule s')
  have "bm_size (bitmap_new HEAP_SIZE) = heap_lines" by (simp add: bitmap_new_def heap_lines_def)
  moreover have "bitmap_is_clear (bitmap_new HEAP_SIZE)" by (simp add: bitmap_is_clear_iff bitmap_new_def)
  moreover have "Epoch 2 = 2" by (simp add: Epoch_take_bit take_bit_eq_mod)
  moreover have "get_phase 2 = Inr NVM_Heap_Update"
    using get_phase_Epoch [of 2] calculation(3) by simp
  ultimately show "quiescent s'"
    using dram nvm by (auto simp: quiescent_def s'(2-) d plog_management_new_ok heap_image_def fun_eq_iff)
qed

subsection \<open>What the recovery mode does\<close>

lemma apply_metadata_loop_frame:
  "apply_metadata_loop al n i s = Inr s' \<Longrightarrow> \<exists>j. s' = s\<lparr>heap_alloc := j\<rparr>"
proof (induction al n i s rule: apply_metadata_loop.induct)
  case (1 al n i s)
  have triv: "\<exists>j. s = s\<lparr>heap_alloc := j\<rparr>" by (rule exI [of _ "heap_alloc s"]) simp
  show ?case
  proof (cases "i < n")
    case True
    with 1(2) obtain b where b: "bytemap_get_byte (ByteMap_NVM s) i = Inr b"
      "apply_metadata_loop al n (skip_object i b + 1)
        (s\<lparr>heap_alloc := snd (al_malloc al (object_bytes b) (heap_alloc s))\<rparr>) = Inr s'"
      by (subst (asm) apply_metadata_loop.simps) (auto simp: res_simps split_beta Let_def)
    have "\<exists>j. s' = (s\<lparr>heap_alloc := snd (al_malloc al (object_bytes b) (heap_alloc s))\<rparr>)\<lparr>heap_alloc := j\<rparr>"
      by (rule 1(1) [OF True b(1) refl refl prod.collapse b(2)])
    then show ?thesis by auto
  next
    case False
    with 1(2) triv show ?thesis by (subst (asm) apply_metadata_loop.simps) simp
  qed
qed

lemma replay_allocator_logs_frame:
  "\<exists>m. replay_allocator_logs s = s\<lparr>Allocatorlog_Management := m\<rparr>"
proof -
  have "\<exists>m. fold (\<lambda>block s. let m = Allocatorlog_Management s in
     s\<lparr>Allocatorlog_Management := alog_put block (alog_block_clear (am_area m block)) m\<rparr>) bs s =
     s\<lparr>Allocatorlog_Management := m\<rparr>" for bs
  proof (induction bs arbitrary: s)
    case Nil
    have "s = s\<lparr>Allocatorlog_Management := Allocatorlog_Management s\<rparr>" by simp
    then show ?case by (metis fold_simps(1))
  next
    case (Cons b bs)
    let ?s = "s\<lparr>Allocatorlog_Management := alog_put b (alog_block_clear
      (am_area (Allocatorlog_Management s) b)) (Allocatorlog_Management s)\<rparr>"
    show ?case using Cons [of ?s] by (auto simp: Let_def)
  qed
  then show ?thesis by (simp add: replay_allocator_logs_def)
qed

lemma apply_metadata_frame:
  "apply_metadata al s = Inr s' \<Longrightarrow> dram s' = dram s \<and> nvm s' = nvm s \<and> NVM_config s' = NVM_config s \<and>
     GLOBAL_EPOCH s' = GLOBAL_EPOCH s \<and> BitMap_set s' = BitMap_set s \<and> CpMaster_set s' = CpMaster_set s"
  for s :: "('j, 'z) library_scheme"
  using replay_allocator_logs_frame [of s]
  by (auto simp: apply_metadata_def Let_def res_simps dest!: apply_metadata_loop_frame split: if_splits)

lemma copy_heap_pointers:
  "BitMap_set (copy_heap bt s) = BitMap_set s \<and> CpMaster_set (copy_heap bt s) = CpMaster_set s"
proof -
  have "BitMap_set (fold (\<lambda>j s. s\<lparr>dram := f j s\<rparr>) js s) = BitMap_set s \<and>
    CpMaster_set (fold (\<lambda>j s. s\<lparr>dram := f j s\<rparr>) js s) = CpMaster_set s" for f js and s :: "('a, 'b) library_scheme"
    by (induction js arbitrary: s) simp_all
  then have "BitMap_set (copy_page i s) = BitMap_set s \<and> CpMaster_set (copy_page i s) = CpMaster_set s"
    for i and s :: "('a, 'b) library_scheme"
    by (simp add: copy_page_def Let_def)
  then have "BitMap_set (fold (\<lambda>i s. if bt_mapped bt i then copy_page i s else s) is s) = BitMap_set s \<and>
    CpMaster_set (fold (\<lambda>i s. if bt_mapped bt i then copy_page i s else s) is s) = CpMaster_set s"
    for "is" and s :: "('a, 'b) library_scheme"
    by (induction "is" arbitrary: s) simp_all
  then show ?thesis by (simp add: copy_heap_def)
qed

text \<open>The lines \<open>J\<close> have been copied from the NVM heap.\<close>

definition nvm_line_of :: "('j, 'z) library_scheme \<Rightarrow> nat \<Rightarrow> cacheline_t" where
  "nvm_line_of s j = nvm s (nc_nvm_space (NVM_config s) + word_of_nat (64 * j))"

definition copied :: "nat set \<Rightarrow> ('j, 'z) library_scheme \<Rightarrow> ('j, 'z) library_scheme \<Rightarrow> bool" where
  "copied J s s' \<longleftrightarrow> (\<exists>h. s' = s\<lparr>dram := h\<rparr> \<and> (\<forall>j < heap_lines. h (line_ptr j) =
     (if j \<in> J then copy_line (dram s (line_ptr j)) (nvm_line_of s j) else dram s (line_ptr j))))"

lemma copied_empty: "copied {} s s"
  by (auto simp: copied_def intro!: exI [of _ "dram s"])

lemma copied_Un:
  assumes "copied J s u" and "copied K u v" and "J \<inter> K = {}"
  shows "copied (J \<union> K) s v"
proof -
  obtain h where u: "u = s\<lparr>dram := h\<rparr>" and h: "\<And>j. j < heap_lines \<Longrightarrow> h (line_ptr j) =
      (if j \<in> J then copy_line (dram s (line_ptr j)) (nvm_line_of s j) else dram s (line_ptr j))"
    using assms(1) by (auto simp: copied_def)
  obtain k where v: "v = u\<lparr>dram := k\<rparr>" and k: "\<And>j. j < heap_lines \<Longrightarrow> k (line_ptr j) =
      (if j \<in> K then copy_line (dram u (line_ptr j)) (nvm_line_of u j) else dram u (line_ptr j))"
    using assms(2) by (auto simp: copied_def)
  have "nvm_line_of u = nvm_line_of s" by (simp add: u nvm_line_of_def fun_eq_iff)
  then show ?thesis
    using h k assms(3) by (auto simp: copied_def u v intro!: exI [of _ k])
qed

lemma copied_line:
  assumes "nc_dram_space (NVM_config s) = DRAM_BASE" and "j < heap_lines"
  shows "copied {j} s (s\<lparr>dram := (dram s)(nc_dram_space (NVM_config s) + word_of_nat (64 * j) :=
     copy_line (dram s (nc_dram_space (NVM_config s) + word_of_nat (64 * j))) (nvm_line_of s j))\<rparr>)"
proof -
  have l: "nc_dram_space (NVM_config s) + word_of_nat (64 * j) = line_ptr j"
    by (simp add: line_ptr_def assms(1))
  show ?thesis
    unfolding l copied_def
    by (intro exI conjI, rule refl) (use assms(2) line_ptr_inj [of _ j] in auto)
qed

lemma copied_fold:
  assumes "\<And>x s. x \<in> set xs \<Longrightarrow> nc_dram_space (NVM_config s) = DRAM_BASE \<Longrightarrow> copied (J x) s (f x s)"
    and "nc_dram_space (NVM_config s) = DRAM_BASE" and "distinct xs"
    and "\<And>x y. x \<in> set xs \<Longrightarrow> y \<in> set xs \<Longrightarrow> x \<noteq> y \<Longrightarrow> J x \<inter> J y = {}"
  shows "copied (\<Union> (J ` set xs)) s (fold f xs s)"
  using assms
proof (induction xs arbitrary: s)
  case Nil
  then show ?case by (simp add: copied_empty)
next
  case (Cons x xs)
  have c: "copied (J x) s (f x s)" using Cons.prems(1,2) by simp
  then have "nc_dram_space (NVM_config (f x s)) = DRAM_BASE"
    using Cons.prems(2) by (auto simp: copied_def)
  then have "copied (\<Union> (J ` set xs)) (f x s) (fold f xs (f x s))"
    using Cons.prems by (intro Cons.IH) auto
  moreover have "J x \<inter> \<Union> (J ` set xs) = {}"
    using Cons.prems(3,4) by fastforce
  ultimately show ?case using copied_Un [OF c] by simp
qed

lemma copy_page_copied:
  assumes "nc_dram_space (NVM_config s) = DRAM_BASE" and "64 * i + 64 \<le> heap_lines"
  shows "copied {64 * i..<64 * i + 64} s (copy_page i s)"
proof -
  have "copied (\<Union> ((\<lambda>j. {j}) ` set [64 * i..<64 * i + 64])) s (copy_page i s)"
    unfolding copy_page_def
    unfolding Let_def nvm_line_of_def [symmetric]
    by (rule copied_fold [OF copied_line]) (use assms in auto)
  then show ?thesis by simp
qed

lemma copy_heap_copied:
  assumes "nc_dram_space (NVM_config s) = DRAM_BASE"
  shows "copied {j. j < heap_lines \<and> bt_mapped bt (j div 64)} s (copy_heap bt s)"
proof -
  define J where "J = (\<lambda>i. if bt_mapped bt i then {64 * i..<64 * i + 64} else {})"
  have n: "unat HEAP_SIZE div 4096 = 2097152" by (simp add: HEAP_SIZE_eq)
  have "copied (\<Union> (J ` set [0..<unat HEAP_SIZE div 4096])) s (copy_heap bt s)"
    unfolding copy_heap_def
  proof (rule copied_fold [OF _ assms])
    show "copied (J x) s' (if bt_mapped bt x then copy_page x s' else s')"
      if "x \<in> set [0..<unat HEAP_SIZE div 4096]" "nc_dram_space (NVM_config s') = DRAM_BASE" for x s'
      using that copy_page_copied [of s' x] copied_empty by (auto simp: J_def n heap_lines_eq)
    show "J x \<inter> J y = {}" if "x \<noteq> y" for x y
      using that by (auto simp: J_def)
  qed simp
  moreover have "\<Union> (J ` set [0..<unat HEAP_SIZE div 4096]) = {j. j < heap_lines \<and> bt_mapped bt (j div 64)}"
  proof -
    have "j \<in> J i \<longleftrightarrow> bt_mapped bt i \<and> j div 64 = i" for i j :: nat
      by (auto simp: J_def)
    then show ?thesis by (auto simp: n heap_lines_eq)
  qed
  ultimately show ?thesis by simp
qed

lemma copy_line_blank: "copy_line blank_line n = n"
  by (rule cacheline_t.equality) (auto simp: copy_line_def blank_line_def fun_eq_iff)

text \<open>The whole of \<^verbatim>\<open>escort_init\<close> in recovery mode: the NVM heap is not touched.\<close>

lemma escort_init_recovery:
  assumes run: "escort_init al bt n True s = Inr s'" and base: "nc_dram_space (NVM_config s) = DRAM_BASE"
  shows "nvm s' = nvm s" and "GLOBAL_EPOCH s' = GLOBAL_EPOCH s"
    and "j < heap_lines \<Longrightarrow> dram s' (line_ptr j) =
      (if bt_mapped bt (j div 64) then copy_line (dram s (line_ptr j)) (nvm_line_of s j) else dram s (line_ptr j))"
proof -
  have np: "get_phase (Epoch (GLOBAL_EPOCH x)) = Inr NVM_Heap_Update" for x :: "('a, 'b) library_scheme"
    by (rule get_phase_Epoch)
  from run obtain u v where u: "init_bitmap bt s = Inr u"
    and m: "apply_metadata al (copy_heap bt (init_manager bt u)) = Inr v"
    and s': "dram s' = dram v" "nvm s' = nvm v" "GLOBAL_EPOCH s' = GLOBAL_EPOCH v"
    unfolding escort_init_def Let_def
    by (auto simp: rbind_eq_Inr np dest!: init_checkpointing_thread_frame)
  from u have iu: "dram u = dram s" "nvm u = nvm s" "GLOBAL_EPOCH u = GLOBAL_EPOCH s"
    "nc_dram_space (NVM_config u) = DRAM_BASE" "nc_nvm_space (NVM_config u) = nc_nvm_space (NVM_config s)"
    using base by (auto simp: init_bitmap_eq Let_def res_simps nvmconfig_malloc_def set_bytemap_pointer_def set_cell_def
        split: if_splits)
  let ?w = "init_manager bt u"
  have w: "nc_dram_space (NVM_config ?w) = DRAM_BASE" using iu by (simp add: init_manager_def)
  have lines: "nvm_line_of ?w = nvm_line_of s"
    using iu by (simp add: nvm_line_of_def init_manager_def fun_eq_iff)
  obtain h where h: "copy_heap bt ?w = ?w\<lparr>dram := h\<rparr>"
    "\<And>j. j < heap_lines \<Longrightarrow> h (line_ptr j) = (if bt_mapped bt (j div 64)
       then copy_line (dram ?w (line_ptr j)) (nvm_line_of ?w j) else dram ?w (line_ptr j))"
    using copy_heap_copied [OF w, of bt] by (auto simp: copied_def)
  have v: "dram v = h" "nvm v = nvm s" "GLOBAL_EPOCH v = GLOBAL_EPOCH s"
    using apply_metadata_frame [OF m [unfolded h(1)]] iu by (simp_all add: init_manager_def)
  show "nvm s' = nvm s" "GLOBAL_EPOCH s' = GLOBAL_EPOCH s" by (simp_all add: s' v)
  show "j < heap_lines \<Longrightarrow> dram s' (line_ptr j) =
      (if bt_mapped bt (j div 64) then copy_line (dram s (line_ptr j)) (nvm_line_of s j) else dram s (line_ptr j))"
    using h(2) [of j] iu(1) by (simp add: s' v(1) lines) (simp add: init_manager_def)
qed

text \<open>
  A process that starts after a crash: the NVM heap and the epoch word are what the crashed process left, and the DRAM heap
  is mapped at the same address again. \<open>fresh_heap\<close>: \<^verbatim>\<open>mprotect\<close> succeeds on every page of it, and it is zero; the
  pages that are not mapped are skipped.
\<close>

definition reopened :: "('j, 'z) escort_scheme \<Rightarrow> ('k, 'y) library_scheme \<Rightarrow> bool" where
  "reopened s l \<longleftrightarrow>
     nvm l = nvm s \<and> GLOBAL_EPOCH l = GLOBAL_EPOCH s \<and> nc_dram_space (NVM_config l) = DRAM_BASE \<and>
     nvmconfig_offset (NVM_config l) = nvm_offset s"

definition fresh_heap :: "boot \<Rightarrow> ('k, 'y) library_scheme \<Rightarrow> bool" where
  "fresh_heap bt l \<longleftrightarrow> (\<forall>a. dram l a = blank_line) \<and> (\<forall>i. bt_mapped bt i)"

lemma recovered_line:
  assumes "reopened s l" and run: "escort_init al bt n True l = Inr l'" and j: "j < heap_lines"
  shows "dram l' (line_ptr j) = (if bt_mapped bt (j div 64) then copy_line (dram l (line_ptr j)) (nvm_image s j)
    else dram l (line_ptr j))"
proof -
  have r: "nvm l = nvm s" "nc_dram_space (NVM_config l) = DRAM_BASE" "nvmconfig_offset (NVM_config l) = nvm_offset s"
    using assms(1) by (simp_all add: reopened_def)
  have "nc_nvm_space (NVM_config l) + word_of_nat (64 * j) = add_addr (line_ptr j) (nvm_offset s)"
    using r(2,3) by (auto simp: nvmconfig_offset_def add_addr_def line_ptr_def algebra_simps)
  then have "nvm_line_of l j = nvm_image s j"
    using j by (simp add: nvm_line_of_def r(1) nvm_image_def heap_image_def)
  then show ?thesis using escort_init_recovery(3) [OF run r(2) j] by simp
qed

lemma recovered_heap:
  assumes "reopened s l" and "fresh_heap bt l" and run: "escort_init al bt n True l = Inr l'"
  shows "heap_image (dram l') = nvm_image s"
proof
  fix j
  show "heap_image (dram l') j = nvm_image s j"
    using recovered_line [OF assms(1) run, of j] assms(2)
    by (cases "j < heap_lines") (simp_all add: fresh_heap_def copy_line_blank heap_image_def nvm_image_def)
qed

text \<open>Replaying the logs would find nothing: \<^verbatim>\<open>init_manager\<close> has emptied every block.\<close>

lemma replay_after_init_manager:
  "nvm (replay_redo_logs (init_manager bt s)) = nvm s"
proof -
  have "nvm (fold recovery_replay_block bs s) = nvm s \<and> (\<forall>b. pb_size (pm_area (Plog_Management (fold recovery_replay_block bs s)) b) =
      pb_size (pm_area (Plog_Management s) b))"
    if "\<forall>b \<in> set bs. pb_size (pm_area (Plog_Management s) b) = 0" for bs and s :: "('a, 'b) library_scheme"
    using that
  proof (induction bs arbitrary: s)
    case Nil
    then show ?case by simp
  next
    case (Cons b bs)
    have z: "pb_size (pm_area (Plog_Management s) b) = 0" using Cons.prems by simp
    then have step: "recovery_replay_block b s = s\<lparr>Plog_Management :=
        plog_put b (plog_block_clear (pm_area (Plog_Management s) b)) (Plog_Management s)\<rparr>"
      by (simp add: recovery_replay_block_def replay_block_def Let_def)
    have same: "pb_size (pm_area (Plog_Management (recovery_replay_block b s)) b') = pb_size (pm_area (Plog_Management s) b')" for b'
      using z by (simp add: step plog_put_def plog_block_clear_def)
    have "nvm (recovery_replay_block b s) = nvm s" by (simp add: step)
    moreover have "\<forall>b' \<in> set bs. pb_size (pm_area (Plog_Management (recovery_replay_block b s)) b') = 0"
      using Cons.prems same by simp
    ultimately show ?case using Cons.IH [of "recovery_replay_block b s"] same by simp
  qed
  from this [of "pm_free (Plog_Management (init_manager bt s))" "init_manager bt s"] show ?thesis
    by (simp add: replay_redo_logs_def init_manager_def plog_management_new_eq plog_block_new_def)
qed

subsection \<open>The recovery mode always completes\<close>

lemma apply_metadata_loop_total:
  "n \<le> by_size (ByteMap_NVM s) \<Longrightarrow> \<exists>s'. apply_metadata_loop al n i s = Inr s'"
proof (induction al n i s rule: apply_metadata_loop.induct)
  case (1 al n i s)
  show ?case
  proof (cases "i < n")
    case True
    have b: "bytemap_get_byte (ByteMap_NVM s) i = Inr (by_bytes (ByteMap_NVM s) i)"
      using 1(2) True by (simp add: bytemap_get_byte_def)
    let ?b = "by_bytes (ByteMap_NVM s) i"
    have "\<exists>s'. apply_metadata_loop al n (skip_object i ?b + 1)
        (s\<lparr>heap_alloc := snd (al_malloc al (object_bytes ?b) (heap_alloc s))\<rparr>) = Inr s'"
      by (rule 1(1) [OF True b refl refl prod.collapse]) (use 1(2) in simp)
    then show ?thesis
      using True b by (subst apply_metadata_loop.simps) (simp add: split_beta Let_def)
  next
    case False
    then show ?thesis by (subst apply_metadata_loop.simps) simp
  qed
qed

text \<open>Room in the NVM file for the object \<^verbatim>\<open>bytemap_nvm_t\<close> and for the start of its array.\<close>

definition bytemap_room :: "nvmconfig_t \<Rightarrow> bool" where
  "bytemap_room c \<longleftrightarrow> nc_tmp_space c - nc_start_address c < nc_nvm_size c \<and>
     nc_tmp_space c + 8 - nc_start_address c < nc_nvm_size c"

lemma init_bitmap_total:
  "bytemap_room (NVM_config l) \<Longrightarrow> no_maps l \<Longrightarrow> \<exists>u. init_bitmap bt l = Inr u \<and> GLOBAL_EPOCH u = GLOBAL_EPOCH l \<and>
     by_size (ByteMap_NVM u) = heap_lines \<and> nc_dram_space (NVM_config u) = nc_dram_space (NVM_config l) \<and>
     CpMaster_set u = CpMaster_set l"
  by (simp add: init_bitmap_eq nvmconfig_malloc_def bytemap_room_def bytemap_nvm_new_def heap_lines_def
      set_bytemap_pointer_def set_cell_def Let_def)

lemma escort_init_recovery_total:
  assumes "bytemap_room (NVM_config l)" and phase: "get_phase (GLOBAL_EPOCH l) = Inr p"
    and base: "nc_dram_space (NVM_config l) = DRAM_BASE" and fresh: "fresh_library l"
  shows "\<exists>l'. escort_init al bt 1 True l = Inr l'"
proof -
  obtain u where u: "init_bitmap bt l = Inr u" "GLOBAL_EPOCH u = GLOBAL_EPOCH l"
    "by_size (ByteMap_NVM u) = heap_lines" "nc_dram_space (NVM_config u) = DRAM_BASE" "\<not> CpMaster_set u"
    using init_bitmap_total [OF assms(1), of bt] base fresh by (auto simp: fresh_library_def)
  let ?w = "init_manager bt u"
  have "nc_dram_space (NVM_config ?w) = DRAM_BASE" using u(4) by (simp add: init_manager_def)
  then obtain h where h: "copy_heap bt ?w = ?w\<lparr>dram := h\<rparr>"
    using copy_heap_copied [of ?w bt] by (auto simp: copied_def)
  obtain m where m: "replay_allocator_logs (?w\<lparr>dram := h\<rparr>) = ?w\<lparr>dram := h, Allocatorlog_Management := m\<rparr>"
    using replay_allocator_logs_frame [of "?w\<lparr>dram := h\<rparr>"] by auto
  have n: "heap_lines \<le> by_size (ByteMap_NVM (?w\<lparr>dram := h\<rparr>))"
    "heap_lines \<le> by_size (ByteMap_NVM (?w\<lparr>dram := h, Allocatorlog_Management := m\<rparr>))"
    using u(3) by (simp_all add: init_manager_def)
  have "get_phase (GLOBAL_EPOCH (?w\<lparr>dram := h\<rparr>)) = Inr p"
    using phase u(2) by (simp add: init_manager_def)
  then have "\<exists>v. apply_metadata al (copy_heap bt ?w) = Inr v"
    using apply_metadata_loop_total [OF n(1), of al 0] apply_metadata_loop_total [OF n(2), of al 0]
    by (auto simp: apply_metadata_def h m heap_lines_def)
  then obtain v where v: "apply_metadata al (copy_heap bt ?w) = Inr v" ..
  have "\<not> CpMaster_set v"
    using apply_metadata_frame [OF v] u(5) by (simp only: copy_heap_pointers) (simp add: init_manager_def)
  moreover have "GLOBAL_EPOCH ?w = GLOBAL_EPOCH l" using u(2) by (simp add: init_manager_def)
  ultimately show ?thesis
    using u(1) v by (auto simp: escort_init_def get_phase_Epoch init_checkpointing_thread_1)
qed

subsection \<open>A process initialises the library once\<close>

text \<open>Nothing sets the pointers to null again, \<^verbatim>\<open>escort_finalize\<close> included.\<close>

lemma second_init_fails:
  assumes "escort_init al bt n r l = Inr l'"
  shows "fresh_library l \<and> escort_init al' bt' n' r' l' = Inl AssertFailed"
proof -
  have np: "get_phase (Epoch (GLOBAL_EPOCH x)) = Inr NVM_Heap_Update" for x :: "('a, 'b) library_scheme"
    by (rule get_phase_Epoch)
  have th: "\<not> CpMaster_set v \<and> BitMap_set w = BitMap_set v" if "init_checkpointing_thread n v = Inr w" for v w :: "('a, 'b) library_scheme"
    using that by (auto simp: init_checkpointing_thread_def cpmaster_new_def Let_def res_simps split: if_splits)
  have m: "BitMap_set v = BitMap_set u \<and> CpMaster_set v = CpMaster_set u"
    if "apply_metadata al (copy_heap bt (init_manager bt u)) = Inr v" for u v :: "('a, 'b) library_scheme"
    using apply_metadata_frame [OF that] by (simp add: copy_heap_pointers init_manager_def)
  have im: "BitMap_set (init_manager bt u) = BitMap_set u" "CpMaster_set (init_manager bt u) = CpMaster_set u"
    for u :: "('a, 'b) library_scheme"
    by (simp_all add: init_manager_def)
  obtain u where u: "init_bitmap bt l = Inr u" using assms by (auto simp: escort_init_def res_simps)
  have i: "no_maps l" "BitMap_set u = (\<lambda>_. True)" "CpMaster_set u = CpMaster_set l"
    using u by (auto simp: init_bitmap_eq res_simps split_beta Let_def split: if_splits)
  have "\<not> CpMaster_set u \<and> BitMap_set l' = BitMap_set u"
    using assms u
    by (cases r) (auto simp: escort_init_def Let_def res_simps np im split_beta init_roottable_def dest!: th m)
  then show ?thesis using i by (auto simp: fresh_library_def escort_init_def init_bitmap_eq no_maps_def fun_eq_iff)
qed


end
