(* ===== verification/RootTableSpec.thy ===== *)
theory RootTableSpec
  imports RootTableT AllocLogs Recovery
begin

section \<open>The root table implements a map, as far as it works\<close>

text \<open>
  The abstract table is a partial map from names to addresses. \<open>table_ok\<close> is the shape of every table
  that the operations of the code can build: a bucket holds at most one node. On such a table
  \<open>get\<close> is lookup and \<open>set\<close> is update of the map, unless the name falls into a bucket that holds another
  name; \<open>remove\<close> never returns.
\<close>

subsection \<open>Bytes that stay the same\<close>

definition same_bytes :: "nat set \<Rightarrow> (ptr \<Rightarrow> cacheline_t) \<Rightarrow> (ptr \<Rightarrow> cacheline_t) \<Rightarrow> bool" where
  "same_bytes A mem mem' \<longleftrightarrow>
     (\<forall>x < heap_bytes. x \<notin> A \<longrightarrow> load_byte (byte_ptr x) mem' = load_byte (byte_ptr x) mem)"

lemma same_bytes_refl [simp]: "same_bytes A mem mem"
  by (simp add: same_bytes_def)

lemma same_bytes_trans: "same_bytes A m1 m2 \<Longrightarrow> same_bytes B m2 m3 \<Longrightarrow> same_bytes (A \<union> B) m1 m3"
  by (simp add: same_bytes_def)

lemma same_bytes_mono: "same_bytes A m1 m2 \<Longrightarrow> A \<subseteq> B \<Longrightarrow> same_bytes B m1 m2"
  by (auto simp: same_bytes_def)

lemma same_bytes_store_bytes:
  "y + length bs \<le> heap_bytes \<Longrightarrow> same_bytes {y..<y + length bs} mem (store_bytes (byte_ptr y) bs mem)"
  by (auto simp: same_bytes_def load_store_bytes)

lemma same_bytes_store_ptr: "y + 8 \<le> heap_bytes \<Longrightarrow> same_bytes {y..<y + 8} mem (store_ptr (byte_ptr y) v mem)"
  using same_bytes_store_bytes [of y "bytes_of_ptr v"] by (simp add: store_ptr_def)

lemma same_bytes_store_byte: "y < heap_bytes \<Longrightarrow> same_bytes {y} mem (store_byte (byte_ptr y) v mem)"
  by (auto simp: same_bytes_def load_store_byte)

lemma same_bytes_byte: "same_bytes A mem mem' \<Longrightarrow> x < heap_bytes \<Longrightarrow> x \<notin> A \<Longrightarrow>
    load_byte (byte_ptr x) mem' = load_byte (byte_ptr x) mem"
  by (simp add: same_bytes_def)

lemma same_bytes_ptr: "same_bytes A mem mem' \<Longrightarrow> x + 8 \<le> heap_bytes \<Longrightarrow> A \<inter> {x..<x + 8} = {} \<Longrightarrow>
    load_ptr (byte_ptr x) mem' = load_ptr (byte_ptr x) mem"
  by (intro load_ptr_cong same_bytes_byte) auto

subsection \<open>The lock\<close>

lemma lock_loop_eq: "lock_loop expected b mem = store_byte b 1 mem"
  by (subst lock_loop.simps, subst lock_loop.simps) (simp add: Let_def)

lemma bucket_lock_eq: "bucket_lock b s = s\<lparr>dram := store_byte b 1 (dram s)\<rparr>"
  by (simp add: bucket_lock_def lock_loop_eq)

subsection \<open>Names\<close>

definition node_id :: "(ptr \<Rightarrow> cacheline_t) \<Rightarrow> nat \<Rightarrow> byte list" where
  "node_id mem n = takeWhile (\<lambda>b. b \<noteq> 0) (map (\<lambda>k. load_byte (byte_ptr (n + k)) mem) [0..<64])"

lemma id_equal_from:
  assumes "0 \<notin> set cs" and "i + length (takeWhile (\<lambda>b. b \<noteq> 0) (map (\<lambda>k. load_byte (byte_ptr (n + k)) mem) [i..<64])) < 64"
  shows "id_equal mem (byte_ptr n) i cs =
    Inr (takeWhile (\<lambda>b. b \<noteq> 0) (map (\<lambda>k. load_byte (byte_ptr (n + k)) mem) [i..<64]) = cs)"
  using assms
proof (induction cs arbitrary: i)
  case Nil
  then have i: "i < 64" by simp
  then show ?case by (simp add: byte_ptr_add upt_conv_Cons)
next
  case (Cons c cs)
  then have i: "i < 64" by simp
  then have up: "map (\<lambda>k. load_byte (byte_ptr (n + k)) mem) [i..<64] =
      load_byte (byte_ptr (n + i)) mem # map (\<lambda>k. load_byte (byte_ptr (n + k)) mem) [Suc i..<64]"
    by (simp add: upt_conv_Cons)
  show ?case
  proof (cases "load_byte (byte_ptr (n + i)) mem = c")
    case True
    with Cons.prems i have "id_equal mem (byte_ptr n) (Suc i) cs =
        Inr (takeWhile (\<lambda>b. b \<noteq> 0) (map (\<lambda>k. load_byte (byte_ptr (n + k)) mem) [Suc i..<64]) = cs)"
      by (intro Cons.IH) (simp_all only: up, auto)
    with True i Cons.prems(1) show ?thesis by (simp only: up) (auto simp: byte_ptr_add)
  next
    case False
    with i show ?thesis by (simp only: up) (auto simp: byte_ptr_add)
  qed
qed

lemma id_equal_iff:
  "0 \<notin> set rootid \<Longrightarrow> length (node_id mem n) < 64 \<Longrightarrow> id_equal mem (byte_ptr n) 0 rootid = Inr (node_id mem n = rootid)"
  using id_equal_from [of rootid 0 n mem] by (simp add: node_id_def)

lemma same_bytes_node_id:
  "same_bytes A mem mem' \<Longrightarrow> n + 64 \<le> heap_bytes \<Longrightarrow> A \<inter> {n..<n + 64} = {} \<Longrightarrow> node_id mem' n = node_id mem n"
  unfolding node_id_def by (intro arg_cong [of _ _ "takeWhile _"] map_cong refl same_bytes_byte) auto

text \<open>
  The name that \<^verbatim>\<open>memcpy\<close> leaves in a node: only if the memory behind it happens to be zero is it the name. \<^verbatim>\<open>strcmp\<close> with
  the name itself decides the same.
\<close>

lemma node_id_bytes:
  assumes "0 \<notin> set rootid" and "length rootid < 64" and "\<forall>i < length rootid. load_byte (byte_ptr (n + i)) mem = rootid ! i"
    and "load_byte (byte_ptr (n + length rootid)) mem = 0"
  shows "node_id mem n = rootid"
proof -
  let ?l = "length rootid"
  have up: "[0..<64] = [0..<?l] @ ?l # [Suc ?l..<64]"
    using assms(2) by (metis less_imp_le_nat upt_add_eq_append upt_conv_Cons le_add_diff_inverse le0 zero_le)
  have name: "map (\<lambda>k. load_byte (byte_ptr (n + k)) mem) [0..<?l] = rootid"
    by (rule nth_equalityI) (simp_all add: assms(3))
  show ?thesis
    using assms(1) unfolding node_id_def up map_append name by (auto simp: assms(4) takeWhile_append)
qed

lemma node_id_stored:
  assumes "0 \<notin> set rootid" and "length rootid < 64" and "n + 64 \<le> heap_bytes"
    and "load_byte (byte_ptr (n + length rootid)) mem = 0"
  shows "node_id (store_bytes (byte_ptr n) rootid mem) n = rootid"
  using assms by (intro node_id_bytes) (simp_all add: load_store_bytes)

lemma id_equal_prefix:
  assumes "\<forall>i < length cs. load_byte (byte_ptr (n + j + i)) mem = cs ! i" and "j + length cs < 64"
  shows "id_equal mem (byte_ptr n) j cs = Inr (load_byte (byte_ptr (n + j + length cs)) mem = 0)"
  using assms
proof (induction cs arbitrary: j)
  case Nil
  then show ?case by (simp add: byte_ptr_add)
next
  case (Cons c cs)
  have "load_byte (byte_ptr (n + j)) mem = c" using Cons.prems(1) by (auto dest: spec [of _ 0])
  moreover have "\<forall>i < length cs. load_byte (byte_ptr (n + (j + 1) + i)) mem = cs ! i"
  proof (intro allI impI)
    fix i assume "i < length cs"
    then show "load_byte (byte_ptr (n + (j + 1) + i)) mem = cs ! i"
      using Cons.prems(1) [rule_format, of "Suc i"] by (simp add: add.assoc)
  qed
  ultimately show ?case
    using Cons.IH [of "j + 1"] Cons.prems(2) by (simp add: byte_ptr_add)
qed

subsection \<open>The tables that the code builds\<close>

text \<open>
  \<open>T\<close> is the place of the table in the heap, \<open>f k\<close> that of the only node of bucket \<open>k\<close>, if there is one. \<open>node_ok\<close>: a node
  is outside the table, its name is terminated and it is the last of its list.
\<close>

definition head_at :: "nat \<Rightarrow> nat \<Rightarrow> nat" where "head_at T k = T + 64 * k + 8"

definition node_ok :: "nat \<Rightarrow> (ptr \<Rightarrow> cacheline_t) \<Rightarrow> nat \<Rightarrow> bool" where
  "node_ok T mem n \<longleftrightarrow> n + 80 \<le> heap_bytes \<and> (n + 80 \<le> T \<or> T + 32768 \<le> n) \<and>
     length (node_id mem n) < 64 \<and> load_ptr (byte_ptr (n + 72)) mem = 0"

definition table_ok :: "nat \<Rightarrow> (nat \<rightharpoonup> nat) \<Rightarrow> (ptr \<Rightarrow> cacheline_t) \<Rightarrow> bool" where
  "table_ok T f mem \<longleftrightarrow> T + 32768 \<le> heap_bytes \<and>
     (\<forall>k < 512. case f k of
        None \<Rightarrow> load_ptr (byte_ptr (head_at T k)) mem = 0
      | Some n \<Rightarrow> load_ptr (byte_ptr (head_at T k)) mem = byte_ptr n \<and> node_ok T mem n) \<and>
     (\<forall>k < 512. \<forall>k' < 512. \<forall>n n'. f k = Some n \<longrightarrow> f k' = Some n' \<longrightarrow> k \<noteq> k' \<longrightarrow> n + 80 \<le> n' \<or> n' + 80 \<le> n)"

definition bucket_no :: "byte list \<Rightarrow> nat" where
  "bucket_no rootid = unat (hashfn rootid)"

definition table_map :: "(nat \<rightharpoonup> nat) \<Rightarrow> (ptr \<Rightarrow> cacheline_t) \<Rightarrow> byte list \<rightharpoonup> ptr" where
  "table_map f mem rootid =
     (if bucket_no rootid < 512 then
        case f (bucket_no rootid) of
          None \<Rightarrow> None
        | Some n \<Rightarrow> if node_id mem n = rootid then Some (load_ptr (byte_ptr (n + 64)) mem) else None
      else None)"

lemma table_ok_head:
  assumes "table_ok T f mem" and "k < 512"
  shows "f k = None \<Longrightarrow> load_ptr (byte_ptr (head_at T k)) mem = 0"
    and "f k = Some n \<Longrightarrow> load_ptr (byte_ptr (head_at T k)) mem = byte_ptr n"
    and "f k = Some n \<Longrightarrow> node_ok T mem n"
  using assms unfolding table_ok_def by (auto split: option.splits)

lemma byte_ptr_nonzero: "x < heap_bytes \<Longrightarrow> byte_ptr x \<noteq> 0"
proof
  assume x: "x < heap_bytes" and z: "byte_ptr x = 0"
  have eq: "byte_ptr x = word_of_nat (0x7f9f14abd000 + x)" by (simp add: byte_ptr_def DRAM_BASE_def)
  have small: "unat (word_of_nat m :: ptr) = m" if "m < 2 ^ 64" for m
    using that by (simp add: unsigned_of_nat take_bit_nat_eq_self)
  have "unat (byte_ptr x) = 0x7f9f14abd000 + x"
    unfolding eq by (rule small) (use x in \<open>simp add: heap_bytes_def heap_lines_eq\<close>)
  with z show False by simp
qed

lemma bucket_at_byte:
  "bucket_no rootid < 512 \<Longrightarrow> bucket_at (byte_ptr T) rootid = Inr (byte_ptr (T + 64 * bucket_no rootid))"
  by (simp add: bucket_at_def bucket_no_def BUCKET_SIZE_def Let_def byte_ptr_def)

lemma bucket_at_out: "512 \<le> bucket_no rootid \<Longrightarrow> bucket_at this rootid = Inl OutOfBounds"
  by (simp add: bucket_at_def bucket_no_def BUCKET_SIZE_def Let_def)

lemma bucket_head_byte: "bucket_head (byte_ptr (T + 64 * k)) = byte_ptr (head_at T k)"
  by (simp add: bucket_head_def head_at_def byte_ptr_add_numeral)

lemma node_fields: "node_addr (byte_ptr n) = byte_ptr (n + 64)" "node_next (byte_ptr n) = byte_ptr (n + 72)"
  by (simp_all add: node_addr_def node_next_def byte_ptr_add_numeral)

text \<open>The search in a bucket.\<close>

lemma find_in_bucket:
  assumes ok: "table_ok T f mem" and k: "k < 512" and id: "0 \<notin> set rootid"
  shows "find_node mem rootid (load_ptr (byte_ptr (head_at T k)) mem) = Some (Inr
    (case f k of None \<Rightarrow> 0 | Some n \<Rightarrow> if node_id mem n = rootid then byte_ptr n else 0))"
proof (cases "f k")
  case None
  then show ?thesis using table_ok_head(1) [OF ok k] by (simp add: find_node.simps)
next
  case (Some n)
  note h = table_ok_head(2,3) [OF ok k Some]
  then have n: "byte_ptr n \<noteq> 0" "length (node_id mem n) < 64" "load_ptr (node_next (byte_ptr n)) mem = 0"
    using byte_ptr_nonzero [of n] by (auto simp: node_ok_def node_fields)
  have end_of_list: "find_node mem rootid 0 = Some (Inr 0)" by (simp add: find_node.simps)
  show ?thesis
    unfolding h(1) using n
    by (simp add: Some find_node.simps [of mem rootid "byte_ptr n"] id_equal_iff [OF id n(2)] end_of_list)
qed

lemma roottable_get_map:
  assumes ok: "table_ok T f (dram s)" and k: "bucket_no rootid < 512" and id: "0 \<notin> set rootid"
  shows "roottable_get (byte_ptr T) rootid s = Inr (case table_map f (dram s) rootid of None \<Rightarrow> 0 | Some a \<Rightarrow> a)"
proof (cases "f (bucket_no rootid)")
  case None
  then show ?thesis
    using k by (simp add: roottable_get_def bucket_at_byte bucket_head_byte find_in_bucket [OF ok k id]
        or_diverges_def table_map_def)
next
  case (Some n)
  then have "byte_ptr n \<noteq> 0" using table_ok_head(3) [OF ok k Some] byte_ptr_nonzero [of n] by (simp add: node_ok_def)
  with Some k show ?thesis
    by (simp add: roottable_get_def bucket_at_byte bucket_head_byte find_in_bucket [OF ok k id]
        or_diverges_def table_map_def node_fields)
qed

text \<open>\<open>get\<close> on a bucket with one node looks at this bucket and its node only.\<close>

lemma get_one_node:
  assumes k: "bucket_no rootid < 512" and head: "load_ptr (byte_ptr (head_at T (bucket_no rootid))) (dram s) = byte_ptr n"
    and n: "n < heap_bytes" and last: "load_ptr (byte_ptr (n + 72)) (dram s) = 0"
    and found: "id_equal (dram s) (byte_ptr n) 0 rootid = Inr found"
  shows "roottable_get (byte_ptr T) rootid s = Inr (if found then load_ptr (byte_ptr (n + 64)) (dram s) else 0)"
proof -
  have "find_node (dram s) rootid 0 = Some (Inr 0)" by (simp add: find_node.simps)
  then have "find_node (dram s) rootid (byte_ptr n) = Some (Inr (if found then byte_ptr n else 0))"
    using byte_ptr_nonzero [OF n] found last by (subst find_node.simps) (simp add: node_fields)
  then show ?thesis
    using k byte_ptr_nonzero [OF n]
    by (simp add: roottable_get_def bucket_at_byte bucket_head_byte head or_diverges_def node_fields)
qed

lemma get_node:
  assumes "bucket_no rootid < 512" and "0 \<notin> set rootid" and "node_ok T (dram s) n"
    and "load_ptr (byte_ptr (head_at T (bucket_no rootid))) (dram s) = byte_ptr n"
  shows "roottable_get (byte_ptr T) rootid s =
    Inr (if node_id (dram s) n = rootid then load_ptr (byte_ptr (n + 64)) (dram s) else 0)"
  using assms(3) id_equal_iff [OF assms(2), of "dram s" n]
  by (intro get_one_node [OF assms(1,4)]) (simp_all add: node_ok_def)

lemma get_other_bucket:
  assumes ok: "table_ok T f (dram s)" and k: "bucket_no r < 512" "0 \<notin> set r"
    and head: "load_ptr (byte_ptr (head_at T (bucket_no r))) (dram s') = load_ptr (byte_ptr (head_at T (bucket_no r))) (dram s)"
    and node: "\<And>n. f (bucket_no r) = Some n \<Longrightarrow> node_ok T (dram s') n \<and> node_id (dram s') n = node_id (dram s) n \<and>
      load_ptr (byte_ptr (n + 64)) (dram s') = load_ptr (byte_ptr (n + 64)) (dram s)"
  shows "roottable_get (byte_ptr T) r s' = roottable_get (byte_ptr T) r s"
proof (cases "f (bucket_no r)")
  case None
  then have "load_ptr (byte_ptr (head_at T (bucket_no r))) (dram s) = 0" by (rule table_ok_head(1) [OF ok k(1)])
  with head k(1) show ?thesis
    by (simp add: roottable_get_def bucket_at_byte bucket_head_byte or_diverges_def find_node.simps)
next
  case (Some n)
  show ?thesis
    using get_node [OF k, of T s n] get_node [OF k, of T s' n] head node [OF Some] table_ok_head(2,3) [OF ok k(1) Some] by simp
qed

text \<open>A memory that agrees with another outside \<open>A\<close> has the same table, if \<open>A\<close> avoids heads and nodes.\<close>

lemma node_ok_frame:
  assumes "same_bytes A mem mem'" and "A \<inter> {n..<n + 80} \<subseteq> {n + 64..<n + 72}" and "node_ok T mem n"
  shows "node_ok T mem' n" and "node_id mem' n = node_id mem n"
proof -
  have n: "n + 80 \<le> heap_bytes" using assms(3) by (simp add: node_ok_def)
  show id: "node_id mem' n = node_id mem n"
    by (rule same_bytes_node_id [OF assms(1)]) (use n assms(2) in auto)
  have "load_ptr (byte_ptr (n + 72)) mem' = load_ptr (byte_ptr (n + 72)) mem"
    by (rule same_bytes_ptr [OF assms(1)]) (use n assms(2) in auto)
  then show "node_ok T mem' n" using assms(3) id by (simp add: node_ok_def)
qed

lemma table_ok_frame:
  assumes "same_bytes A mem mem'" and ok: "table_ok T f mem"
    and heads: "\<And>k. k < 512 \<Longrightarrow> A \<inter> {head_at T k..<head_at T k + 8} = {}"
    and nodes: "\<And>k n. k < 512 \<Longrightarrow> f k = Some n \<Longrightarrow> A \<inter> {n..<n + 80} \<subseteq> {n + 64..<n + 72}"
  shows "table_ok T f mem'"
proof -
  have T: "T + 32768 \<le> heap_bytes" using ok by (simp add: table_ok_def)
  have h: "load_ptr (byte_ptr (head_at T k)) mem' = load_ptr (byte_ptr (head_at T k)) mem" if "k < 512" for k
    by (rule same_bytes_ptr [OF assms(1) _ heads [OF that]]) (use T that in \<open>simp add: head_at_def\<close>)
  have "case f k of None \<Rightarrow> load_ptr (byte_ptr (head_at T k)) mem' = 0
      | Some n \<Rightarrow> load_ptr (byte_ptr (head_at T k)) mem' = byte_ptr n \<and> node_ok T mem' n" if k: "k < 512" for k
    using table_ok_head [OF ok k] h [OF k] node_ok_frame(1) [OF assms(1) nodes [OF k]]
    by (cases "f k") auto
  then show ?thesis using ok unfolding table_ok_def by blast
qed

subsection \<open>The steps of \<open>set\<close>\<close>

lemma may_mark_same_heap: "same_heap s s' \<Longrightarrow> may_mark k t s \<Longrightarrow> may_mark k t s'"
  using same_heap_ctx [of s s' t] same_heap_length [of s s'] by (simp add: may_mark_def same_heap_def)

lemma may_mark_dram [simp]: "may_mark k t (s\<lparr>dram := d\<rparr>) = may_mark k t s"
  by (simp add: may_mark_def)

lemma mark_bytes:
  assumes "may_mark (Suc k) t s" and "x < heap_bytes" and "num_bits sz = 1"
  obtains s' where "mark t (byte_ptr x) sz s = Inr s'" and "may_mark k t s'" and "dram s' = dram s"
  using mark_total [of sz k t s "byte_ptr x" "x div 64"] only_marks_sel(1) assms heap_bytes_line [OF assms(2)]
    bitmap_get_index_byte [OF assms(2)] by (auto simp: Suc_le_eq)

lemma num_bits_8 [simp]: "num_bits 8 = 1" and num_bits_64 [simp]: "num_bits 64 = 1"
  by (simp_all add: num_bits_def LOG_CACHE_LINE_SIZE_def)

lemma bucket_unlock_ok:
  assumes "load_byte (byte_ptr x) (dram s) = 1"
  shows "bucket_unlock (byte_ptr x) s = Inr (s\<lparr>dram := store_byte (byte_ptr x) 0 (dram s)\<rparr>)"
  using assms by (simp add: bucket_unlock_def)

lemma node_update_ok:
  assumes "may_mark (Suc k) t s" and "n + 80 \<le> heap_bytes"
  obtains s' where "node_update t (byte_ptr n) a s = Inr s'" and "dram s' = store_ptr (byte_ptr (n + 64)) a (dram s)"
proof -
  obtain u where "mark t (byte_ptr (n + 64)) 8 s = Inr u" "dram u = dram s"
    using mark_bytes [OF assms(1), of "n + 64" 8] assms(2) by auto
  then show ?thesis using that by (simp add: node_update_def node_fields store_field_def)
qed

lemma node_new_ok:
  assumes "may_mark (Suc (Suc k)) t s" and "n + 80 \<le> heap_bytes" and "length rootid \<le> 64"
  obtains s' where "node_new t rootid a (byte_ptr n) s = Inr s'" and "may_mark k t s'"
    and "dram s' = store_ptr (byte_ptr (n + 64)) a (store_bytes (byte_ptr n) rootid
      (store_ptr (byte_ptr (n + 72)) 0 (dram s)))"
proof -
  define s0 where "s0 = store_field (byte_ptr (n + 72)) 0 s"
  have "may_mark (Suc (Suc k)) t s0" using assms(1) by (simp add: s0_def store_field_def)
  then obtain u where u: "mark t (byte_ptr n) 64 s0 = Inr u" "may_mark (Suc k) t u" "dram u = dram s0"
    using mark_bytes [of "Suc k" t s0 n 64] assms(2) by auto
  then obtain v where v: "mark t (byte_ptr (n + 64)) 8 u = Inr v" "may_mark k t v" "dram v = dram u"
    using mark_bytes [of k t u "n + 64" 8] assms(2) by auto
  have run: "node_new t rootid a (byte_ptr n) s =
      Inr (store_field (byte_ptr (n + 64)) a (v\<lparr>dram := store_bytes (byte_ptr n) rootid (dram v)\<rparr>))"
    using u(1) v(1) assms(3) by (simp add: node_new_def node_fields s0_def [symmetric])
  show ?thesis
    by (rule that [OF run]) (use u(3) v(2,3) in \<open>simp_all add: store_field_def s0_def\<close>)
qed

lemma fits_byte:
  assumes "n + unat sz \<le> heap_bytes" and "0 < unat sz" and "unat sz \<le> 4096"
  shows "fits (byte_ptr n) sz"
proof -
  have "n < heap_bytes" using assms by simp
  moreover have "n div 64 + (unat sz div 64 + 63) div 64 \<le> heap_lines"
  proof -
    have "unat sz div 64 \<le> 64" using assms(3) by simp
    then have "(unat sz div 64 + 63) div 64 \<le> 1" by simp
    moreover have "n div 64 < heap_lines" using calculation heap_bytes_line [OF \<open>n < heap_bytes\<close>] by simp
    ultimately show ?thesis by linarith
  qed
  ultimately show ?thesis
    by (simp add: fits_def bytemap_get_index_byte heap_bytes_line lines_of_def)
qed

text \<open>\<open>malloc\<close> inside an operation.\<close>

lemma malloc_in_op:
  assumes "t < length (ctx_array s)" and "uc_epoch (ctx_array s ! t) \<noteq> 0" and "alloc_ok s"
    and "am_free (Allocatorlog_Management s) \<noteq> []" and "al_malloc al sz (heap_alloc s) = (p, j)" and "fits p sz"
  obtains s' where "malloc_with_create_log al t sz s = Inr (p, s')" and "same_heap s s'"
proof -
  obtain s' where "record_alloc_op t (uc_epoch (ctx_array s ! t)) p sz (s\<lparr>heap_alloc := j\<rparr>) = Inr s'"
    using record_alloc_op_total [of "s\<lparr>heap_alloc := j\<rparr>" p sz t "uc_epoch (ctx_array s ! t)"] assms by auto
  then have "malloc_with_create_log al t sz s = Inr (p, s')"
    using assms by (simp add: malloc_with_create_log_def get_ctx_def)
  then show ?thesis using that malloc_same_heap by blast
qed

subsection \<open>\<open>set\<close> updates the map\<close>

lemma lock_not_head: "{T + 64 * k} \<inter> {head_at T k'..<head_at T k' + 8} = {}"
proof -
  have "\<not> (64 * k' + 8 \<le> 64 * k \<and> 64 * k < 64 * k' + 16)" for k k' :: nat by presburger
  from this [of k' k] show ?thesis by (auto simp: head_at_def)
qed

lemma heads_apart: "k \<noteq> k' \<Longrightarrow> {head_at T k..<head_at T k + 8} \<inter> {head_at T k'..<head_at T k' + 8} = {}"
  by (auto simp: head_at_def)

text \<open>The table after the value of the only node of a bucket has changed.\<close>

lemma table_updated:
  assumes ok: "table_ok T f mem" and k: "k < 512" and n: "f k = Some n"
    and same: "same_bytes ({T + 64 * k} \<union> {n + 64..<n + 72}) mem mem'"
    and new: "load_ptr (byte_ptr (n + 64)) mem' = a"
    and id: "node_id mem n = rootid" and no: "bucket_no rootid = k"
  shows "table_ok T f mem'" and "table_map f mem' = (table_map f mem)(rootid \<mapsto> a)"
proof -
  let ?A = "{T + 64 * k} \<union> {n + 64..<n + 72}"
  have T: "T + 32768 \<le> heap_bytes" using ok by (simp add: table_ok_def)
  have nd: "n + 80 \<le> heap_bytes" "n + 80 \<le> T \<or> T + 32768 \<le> n"
    using table_ok_head(3) [OF ok k n] by (simp_all add: node_ok_def)
  have apart: "?A \<inter> {n'..<n' + 80} = {}" if "k' < 512" "f k' = Some n'" "k' \<noteq> k" for k' n'
  proof -
    have "n + 80 \<le> n' \<or> n' + 80 \<le> n" using ok that k n unfolding table_ok_def by blast
    moreover have "n' + 80 \<le> T \<or> T + 32768 \<le> n'" using table_ok_head(3) [OF ok that(1,2)] by (simp add: node_ok_def)
    ultimately show ?thesis using k by auto
  qed
  have own: "?A \<inter> {n..<n + 80} \<subseteq> {n + 64..<n + 72}" using nd(2) k by auto
  have nodes: "?A \<inter> {n'..<n' + 80} \<subseteq> {n' + 64..<n' + 72}" if "k' < 512" "f k' = Some n'" for k' n'
    using apart [OF that] own n that by (cases "k' = k") auto
  show "table_ok T f mem'"
  proof (rule table_ok_frame [OF same ok _ nodes])
    fix k' :: nat assume "k' < 512"
    then have "{n + 64..<n + 72} \<inter> {head_at T k'..<head_at T k' + 8} = {}" using nd(2) by (auto simp: head_at_def)
    then show "?A \<inter> {head_at T k'..<head_at T k' + 8} = {}" using lock_not_head [of T k k'] by blast
  qed
  have ids: "node_id mem' n' = node_id mem n'" if "k' < 512" "f k' = Some n'" for k' n'
    using node_ok_frame(2) [OF same nodes [OF that] table_ok_head(3) [OF ok that]] .
  have "table_map f mem' id' = ((table_map f mem)(rootid \<mapsto> a)) id'" for id'
  proof (cases "bucket_no id' < 512 \<and> f (bucket_no id') \<noteq> None")
    case False
    then show ?thesis using no k n by (auto simp: table_map_def)
  next
    case True
    then obtain n' where n': "bucket_no id' < 512" "f (bucket_no id') = Some n'" by blast
    show ?thesis
    proof (cases "bucket_no id' = k")
      case True
      then show ?thesis using n' n new id ids [OF n'] by (auto simp: table_map_def no)
    next
      case False
      have "n' + 80 \<le> heap_bytes" using table_ok_head(3) [OF ok n'] by (simp add: node_ok_def)
      then have "load_ptr (byte_ptr (n' + 64)) mem' = load_ptr (byte_ptr (n' + 64)) mem"
        using apart [OF n' False] by (intro same_bytes_ptr [OF same]) auto
      moreover have "id' \<noteq> rootid" using False no by blast
      ultimately show ?thesis using n' ids [OF n'] by (simp add: table_map_def)
    qed
  qed
  then show "table_map f mem' = (table_map f mem)(rootid \<mapsto> a)" by blast
qed

text \<open>The table after an empty bucket has got a node.\<close>

lemma table_extended_others:
  assumes ok: "table_ok T f mem" and k: "k < 512"
    and same: "same_bytes ({T + 64 * k} \<union> {head_at T k..<head_at T k + 8} \<union> {n..<n + 80}) mem mem'"
    and nd: "n + 80 \<le> T \<or> T + 32768 \<le> n"
    and fresh: "\<forall>k' < 512. \<forall>n'. f k' = Some n' \<longrightarrow> n + 80 \<le> n' \<or> n' + 80 \<le> n"
    and k': "k' < 512"
  shows "k' \<noteq> k \<Longrightarrow> load_ptr (byte_ptr (head_at T k')) mem' = load_ptr (byte_ptr (head_at T k')) mem"
    and "f k' = Some n' \<Longrightarrow> node_ok T mem' n'" and "f k' = Some n' \<Longrightarrow> node_id mem' n' = node_id mem n'"
    and "f k' = Some n' \<Longrightarrow> load_ptr (byte_ptr (n' + 64)) mem' = load_ptr (byte_ptr (n' + 64)) mem"
proof -
  let ?A = "{T + 64 * k} \<union> {head_at T k..<head_at T k + 8} \<union> {n..<n + 80}"
  show "load_ptr (byte_ptr (head_at T k')) mem' = load_ptr (byte_ptr (head_at T k')) mem" if ne: "k' \<noteq> k"
  proof (rule same_bytes_ptr [OF same])
    show "head_at T k' + 8 \<le> heap_bytes" using k' ok by (simp add: head_at_def table_ok_def)
    have "{n..<n + 80} \<inter> {head_at T k'..<head_at T k' + 8} = {}" using nd k' by (auto simp: head_at_def)
    then show "?A \<inter> {head_at T k'..<head_at T k' + 8} = {}"
      using lock_not_head [of T k k'] heads_apart [of k k' T] ne by blast
  qed
  assume f: "f k' = Some n'"
  have nd': "node_ok T mem n'" by (rule table_ok_head(3) [OF ok k' f])
  then have nodes: "?A \<inter> {n'..<n' + 80} = {}"
    using fresh k' f k by (fastforce simp: head_at_def node_ok_def)
  show "node_ok T mem' n'" "node_id mem' n' = node_id mem n'"
    using node_ok_frame [OF same _ nd'] nodes by simp_all
  show "load_ptr (byte_ptr (n' + 64)) mem' = load_ptr (byte_ptr (n' + 64)) mem"
    using nodes nd' by (intro same_bytes_ptr [OF same]) (auto simp: node_ok_def)
qed

lemma table_extended:
  assumes ok: "table_ok T f mem" and k: "k < 512" and none: "f k = None"
    and same: "same_bytes ({T + 64 * k} \<union> {head_at T k..<head_at T k + 8} \<union> {n..<n + 80}) mem mem'"
    and head: "load_ptr (byte_ptr (head_at T k)) mem' = byte_ptr n"
    and node: "node_ok T mem' n" "node_id mem' n = rootid" "load_ptr (byte_ptr (n + 64)) mem' = a"
    and fresh: "\<And>k' n'. k' < 512 \<Longrightarrow> f k' = Some n' \<Longrightarrow> n + 80 \<le> n' \<or> n' + 80 \<le> n"
    and no: "bucket_no rootid = k"
  shows "table_ok T (f(k \<mapsto> n)) mem'" and "table_map (f(k \<mapsto> n)) mem' = (table_map f mem)(rootid \<mapsto> a)"
proof -
  have T: "T + 32768 \<le> heap_bytes" using ok by (simp add: table_ok_def)
  have nd: "n + 80 \<le> T \<or> T + 32768 \<le> n" using node(1) by (simp add: node_ok_def)
  have "\<forall>k' < 512. \<forall>n'. f k' = Some n' \<longrightarrow> n + 80 \<le> n' \<or> n' + 80 \<le> n" using fresh by blast
  note others = table_extended_others [OF ok k same nd this]
  have "case (f(k \<mapsto> n)) k' of None \<Rightarrow> load_ptr (byte_ptr (head_at T k')) mem' = 0
      | Some n \<Rightarrow> load_ptr (byte_ptr (head_at T k')) mem' = byte_ptr n \<and> node_ok T mem' n" if k': "k' < 512" for k'
  proof (cases "k' = k")
    case True
    then show ?thesis using head node(1) by simp
  next
    case False
    then show ?thesis
      using others(1,2) [OF k'] table_ok_head(1,2) [OF ok k'] by (cases "f k'") auto
  qed
  moreover have "n1 + 80 \<le> n2 \<or> n2 + 80 \<le> n1"
    if "k1 < 512" "k2 < 512" "(f(k \<mapsto> n)) k1 = Some n1" "(f(k \<mapsto> n)) k2 = Some n2" "k1 \<noteq> k2" for k1 k2 n1 n2
  proof (cases "k1 = k \<or> k2 = k")
    case True
    then show ?thesis using that fresh [of k1 n1] fresh [of k2 n2] by (auto split: if_splits)
  next
    case False
    then have "f k1 = Some n1" "f k2 = Some n2" using that by simp_all
    with ok that show ?thesis unfolding table_ok_def by blast
  qed
  ultimately show "table_ok T (f(k \<mapsto> n)) mem'" using T unfolding table_ok_def by blast
  have "table_map (f(k \<mapsto> n)) mem' id' = ((table_map f mem)(rootid \<mapsto> a)) id'" for id'
  proof (cases "bucket_no id' = k")
    case True
    then show ?thesis using k none node(2,3) by (auto simp: table_map_def no)
  next
    case False
    then have "id' \<noteq> rootid" using no by blast
    then show ?thesis
      using False others(3,4) [of "bucket_no id'"] by (auto simp: table_map_def split: option.split)
  qed
  then show "table_map (f(k \<mapsto> n)) mem' = (table_map f mem)(rootid \<mapsto> a)" by blast
qed

subsection \<open>The two ways of \<open>set\<close> to return\<close>

lemma set_existing:
  assumes ok: "table_ok T f (dram s)" and k: "bucket_no rootid < 512" and id: "0 \<notin> set rootid"
    and n: "f (bucket_no rootid) = Some n" "node_id (dram s) n = rootid" and ready: "may_mark 1 t s"
  obtains s' where "roottable_set al t (byte_ptr T) rootid a s = Inr s'" and "table_ok T f (dram s')"
    and "table_map f (dram s') = (table_map f (dram s))(rootid \<mapsto> a)"
    and "load_byte (byte_ptr (T + 64 * bucket_no rootid)) (dram s') = 0"
proof -
  let ?k = "bucket_no rootid" and ?l = "T + 64 * bucket_no rootid"
  have T: "T + 32768 \<le> heap_bytes" using ok by (simp add: table_ok_def)
  have nd: "n + 80 \<le> heap_bytes" "n + 80 \<le> T \<or> T + 32768 \<le> n"
    using table_ok_head(3) [OF ok k n(1)] by (simp_all add: node_ok_def)
  have l: "?l < heap_bytes" using T k by simp
  define m1 where "m1 = store_byte (byte_ptr ?l) 1 (dram s)"
  define s1 where "s1 = s\<lparr>dram := m1\<rparr>"
  have same1: "same_bytes {?l} (dram s) m1" unfolding m1_def by (rule same_bytes_store_byte [OF l])
  have ok1: "table_ok T f m1"
  proof (rule table_ok_frame [OF same1 ok])
    fix k' n' assume "k' < 512" "f k' = Some n'"
    then have "n' + 80 \<le> T \<or> T + 32768 \<le> n'" using table_ok_head(3) [OF ok] by (simp add: node_ok_def)
    then show "{?l} \<inter> {n'..<n' + 80} \<subseteq> {n' + 64..<n' + 72}" using k by auto
  qed (rule lock_not_head)
  have id1: "node_id m1 n = rootid"
    using same_bytes_node_id [OF same1, of n] nd k n(2) by auto
  obtain s2 where s2: "node_update t (byte_ptr n) a s1 = Inr s2" "dram s2 = store_ptr (byte_ptr (n + 64)) a m1"
    using node_update_ok [of 0 t s1 n a] ready nd(1) by (auto simp: s1_def)
  have lock: "load_byte (byte_ptr ?l) (dram s2) = 1"
    using l nd k by (auto simp: s2(2) load_byte_store_ptr m1_def load_store_byte)
  let ?s = "s2\<lparr>dram := store_byte (byte_ptr ?l) 0 (dram s2)\<rparr>"
  have run: "roottable_set al t (byte_ptr T) rootid a s = Inr ?s"
    using k n(1) id1 s2(1) byte_ptr_nonzero [of n] nd(1) bucket_unlock_ok [OF lock]
    by (simp add: roottable_set_def bucket_at_byte bucket_lock_eq bucket_head_byte m1_def [symmetric] s1_def [symmetric])
       (simp add: s1_def find_in_bucket [OF ok1 k id] or_diverges_def)
  have same: "same_bytes ({?l} \<union> {n + 64..<n + 72}) (dram s) (dram ?s)"
  proof -
    have a: "same_bytes {n + 64..<n + 72} m1 (dram s2)"
    proof -
      have e: "n + 64 + 8 = n + 72" and le: "n + 64 + 8 \<le> heap_bytes" using nd(1) by simp_all
      from same_bytes_store_ptr [OF le] show ?thesis unfolding e s2(2) .
    qed
    have b: "same_bytes {?l} (dram s2) (dram ?s)" using same_bytes_store_byte [OF l] by simp
    from same_bytes_trans [OF same_bytes_trans [OF same1 a] b] show ?thesis by (rule same_bytes_mono) auto
  qed
  have val: "load_ptr (byte_ptr (n + 64)) (dram ?s) = a"
    using nd l k by (auto simp: load_ptr_store_byte s2(2))
  show ?thesis
    by (rule that [OF run table_updated [OF ok k n(1) same val n(2) refl]]) (use l in \<open>simp add: load_store_byte\<close>)
qed

text \<open>The memory that a new node may take: outside the table and the other nodes.\<close>

definition fresh_node :: "nat \<Rightarrow> (nat \<rightharpoonup> nat) \<Rightarrow> nat \<Rightarrow> bool" where
  "fresh_node T f n \<longleftrightarrow> n + 128 \<le> heap_bytes \<and> (n + 128 \<le> T \<or> T + 32768 \<le> n) \<and>
     (\<forall>k < 512. case f k of None \<Rightarrow> True | Some n' \<Rightarrow> n + 128 \<le> n' \<or> n' + 80 \<le> n)"

definition set_ready :: "nat \<Rightarrow> ('j, 'z) escort_scheme \<Rightarrow> bool" where
  "set_ready t s \<longleftrightarrow> may_mark 3 t s \<and> alloc_ok s \<and> am_free (Allocatorlog_Management s) \<noteq> []"

lemma round_size_node: "word_of_nat (round_size node_size) = (128 :: size_t)"
  by (simp add: round_size_def node_size_def)

text \<open>Up to the new node, which is not in the list yet, \<open>set\<close> goes the same way in both cases that allocate.\<close>

lemma set_allocates:
  assumes T: "T + 32768 \<le> heap_bytes" and k: "bucket_no rootid < 512" and len: "length rootid < 64"
    and ready: "set_ready t s" and fresh: "fresh_node T f n"
    and al: "al_malloc al 128 (heap_alloc s) = (byte_ptr n, j)"
  defines "l \<equiv> T + 64 * bucket_no rootid"
  defines "m1 \<equiv> store_byte (byte_ptr l) 1 (dram s)"
  obtains s2 where "pnew al t node_size (node_new t rootid a) (s\<lparr>dram := m1\<rparr>) = Inr (byte_ptr n, s2)" and "may_mark 1 t s2"
    and "dram s2 = store_ptr (byte_ptr (n + 64)) a (store_bytes (byte_ptr n) rootid (store_ptr (byte_ptr (n + 72)) 0 m1))"
    and "same_bytes {n..<n + 80} m1 (dram s2)"
proof -
  let ?s1 = "s\<lparr>dram := m1\<rparr>"
  have n: "n + 128 \<le> heap_bytes" using fresh by (simp add: fresh_node_def)
  have mm: "may_mark 3 t s" using ready by (simp add: set_ready_def)
  have "fits (byte_ptr n) 128" using n by (intro fits_byte) simp_all
  moreover have "alloc_ok ?s1" using ready by (simp add: set_ready_def alloc_ok_def alogs_def)
  ultimately obtain u where u: "malloc_with_create_log al t 128 ?s1 = Inr (byte_ptr n, u)" "same_heap ?s1 u"
    using malloc_in_op [of t ?s1 al 128 "byte_ptr n" j] mm ready al by (auto simp: may_mark_def set_ready_def)
  have "may_mark (Suc (Suc 1)) t u"
    by (rule may_mark_same_heap [OF u(2)]) (use mm in \<open>simp add: eval_nat_numeral\<close>)
  then obtain s2 where s2: "node_new t rootid a (byte_ptr n) u = Inr s2" "may_mark 1 t s2"
    "dram s2 = store_ptr (byte_ptr (n + 64)) a (store_bytes (byte_ptr n) rootid (store_ptr (byte_ptr (n + 72)) 0 (dram u)))"
    using node_new_ok [of 1 t u n rootid a] n len by auto
  have d: "dram u = m1" using u(2) by (simp add: same_heap_def)
  have run: "pnew al t node_size (node_new t rootid a) ?s1 = Inr (byte_ptr n, s2)"
    using u(1) s2(1) by (simp add: pnew_def round_size_node)
  have "same_bytes {n + 72..<n + 72 + 8} m1 (store_ptr (byte_ptr (n + 72)) 0 m1)"
    using n by (intro same_bytes_store_ptr) simp
  moreover have "same_bytes {n..<n + length rootid} (store_ptr (byte_ptr (n + 72)) 0 m1)
      (store_bytes (byte_ptr n) rootid (store_ptr (byte_ptr (n + 72)) 0 m1))"
    using n len by (intro same_bytes_store_bytes) simp
  moreover have "same_bytes {n + 64..<n + 64 + 8} (store_bytes (byte_ptr n) rootid (store_ptr (byte_ptr (n + 72)) 0 m1)) (dram s2)"
    unfolding s2(3) d using n by (intro same_bytes_store_ptr) simp
  ultimately have "same_bytes ({n + 72..<n + 72 + 8} \<union> {n..<n + length rootid} \<union> {n + 64..<n + 64 + 8}) m1 (dram s2)"
    by (blast intro: same_bytes_trans)
  then have "same_bytes {n..<n + 80} m1 (dram s2)" by (rule same_bytes_mono) (use len in auto)
  with run s2(2,3) show ?thesis using that by (simp add: d)
qed

text \<open>After the lock is taken the table is still the same.\<close>

lemma table_locked:
  assumes ok: "table_ok T f mem" and k: "k < 512"
  defines "m1 \<equiv> store_byte (byte_ptr (T + 64 * k)) 1 mem"
  shows "table_ok T f m1" and "same_bytes {T + 64 * k} mem m1"
    and "\<And>n. f k = Some n \<Longrightarrow> node_id m1 n = node_id mem n"
proof -
  have l: "T + 64 * k < heap_bytes" using ok k by (simp add: table_ok_def)
  show same: "same_bytes {T + 64 * k} mem m1" unfolding m1_def by (rule same_bytes_store_byte [OF l])
  have apart: "{T + 64 * k} \<inter> {n..<n + 80} = {}" if "k' < 512" "f k' = Some n" for k' n
    using table_ok_head(3) [OF ok that] k by (auto simp: node_ok_def)
  show "table_ok T f m1"
    by (rule table_ok_frame [OF same ok lock_not_head]) (use apart in blast)
  fix n assume n: "f k = Some n"
  show "node_id m1 n = node_id mem n"
    by (rule node_ok_frame(2) [OF same _ table_ok_head(3) [OF ok k n]]) (use apart [OF k n] in blast)
qed

text \<open>What the constructor writes is a node, if the byte behind the name is zero.\<close>

lemma stored_node:
  fixes a :: ptr
  assumes id: "0 \<notin> set rootid" and len: "length rootid < 64" and n: "n + 80 \<le> heap_bytes" "n + 80 \<le> T \<or> T + 32768 \<le> n"
    and blank: "load_byte (byte_ptr (n + length rootid)) m = 0"
  defines "m' \<equiv> store_ptr (byte_ptr (n + 64)) a (store_bytes (byte_ptr n) rootid (store_ptr (byte_ptr (n + 72)) 0 m))"
  shows "node_ok T m' n" and "node_id m' n = rootid" and "load_ptr (byte_ptr (n + 64)) m' = a"
proof -
  let ?m = "store_ptr (byte_ptr (n + 72)) 0 m"
  have "load_byte (byte_ptr (n + length rootid)) ?m = 0" using n len blank by (simp add: load_byte_store_ptr)
  then have "node_id (store_bytes (byte_ptr n) rootid ?m) n = rootid" using n by (intro node_id_stored [OF id len]) simp_all
  moreover have "same_bytes {n + 64..<n + 64 + 8} (store_bytes (byte_ptr n) rootid ?m) m'"
    unfolding m'_def using n by (intro same_bytes_store_ptr) simp
  ultimately show nid: "node_id m' n = rootid" using same_bytes_node_id [of "{n + 64..<n + 64 + 8}" _ m' n] n by simp
  show "load_ptr (byte_ptr (n + 64)) m' = a" using n by (simp add: m'_def)
  show "node_ok T m' n" using nid n len by (simp add: node_ok_def m'_def load_ptr_store_ptr load_ptr_store_bytes)
qed

text \<open>The call: lock, search, new node, the head, unlock. \<open>m2\<close> is the heap with the node, before it is linked.\<close>

lemma set_fresh_run:
  fixes a :: ptr
  assumes ok: "table_ok T f (dram s)" and k: "bucket_no rootid < 512" and id: "0 \<notin> set rootid"
    and len: "length rootid < 64" and none: "f (bucket_no rootid) = None"
    and ready: "set_ready t s" and fresh: "fresh_node T f n"
    and al: "al_malloc al 128 (heap_alloc s) = (byte_ptr n, j)"
  defines "m1 \<equiv> store_byte (byte_ptr (T + 64 * bucket_no rootid)) 1 (dram s)"
  defines "m2 \<equiv> store_ptr (byte_ptr (n + 64)) a (store_bytes (byte_ptr n) rootid (store_ptr (byte_ptr (n + 72)) 0 m1))"
  obtains s' where "roottable_set al t (byte_ptr T) rootid a s = Inr s'"
    and "dram s' = store_byte (byte_ptr (T + 64 * bucket_no rootid)) 0 (store_ptr (byte_ptr (head_at T (bucket_no rootid))) (byte_ptr n) m2)"
    and "same_bytes {n..<n + 80} m1 m2"
proof -
  let ?l = "T + 64 * bucket_no rootid" and ?h = "head_at T (bucket_no rootid)"
  have T: "T + 32768 \<le> heap_bytes" using ok by (simp add: table_ok_def)
  have l: "?l < heap_bytes" "?h + 8 \<le> heap_bytes" "?l \<notin> {?h..<?h + 8}" using T k by (simp_all add: head_at_def)
  have n: "n + 128 \<le> T \<or> T + 32768 \<le> n" using fresh by (simp add: fresh_node_def)
  have apart: "{?h..<?h + 8} \<inter> {n..<n + 80} = {}" "?l \<notin> {n..<n + 80}"
    using n k by (auto simp: head_at_def)
  have ok1: "table_ok T f m1" unfolding m1_def by (rule table_locked(1) [OF ok k])
  obtain s2 where s2: "pnew al t node_size (node_new t rootid a) (s\<lparr>dram := m1\<rparr>) = Inr (byte_ptr n, s2)" "may_mark 1 t s2"
    "dram s2 = m2" "same_bytes {n..<n + 80} m1 (dram s2)"
    using set_allocates [OF T k len ready fresh al] unfolding m1_def m2_def by blast
  have head2: "load_ptr (byte_ptr ?h) (dram s2) = 0"
    using same_bytes_ptr [OF s2(4) l(2)] apart(1) table_ok_head(1) [OF ok1 k none] by (auto simp: inf_commute)
  obtain s3 where s3: "mark t (byte_ptr ?h) 8 s2 = Inr s3" "dram s3 = m2"
    using mark_bytes [of 0 t s2 ?h 8] s2(2,3) l(2) by auto
  let ?m = "store_ptr (byte_ptr ?h) (byte_ptr n) m2" and ?s4 = "store_field (byte_ptr ?h) (byte_ptr n) s3"
  have "load_byte (byte_ptr ?l) ?m = load_byte (byte_ptr ?l) m2"
    by (rule load_byte_store_ptr) (use l in auto)
  also have "\<dots> = load_byte (byte_ptr ?l) m1" by (rule same_bytes_byte [OF s2(4) [unfolded s2(3)] l(1) apart(2)])
  also have "\<dots> = 1" using l by (simp add: m1_def load_store_byte)
  finally have "bucket_unlock (byte_ptr ?l) ?s4 = Inr (?s4\<lparr>dram := store_byte (byte_ptr ?l) 0 ?m\<rparr>)"
    using bucket_unlock_ok [of ?l ?s4] by (simp add: store_field_def s3(2))
  moreover have "find_node m1 rootid (load_ptr (byte_ptr ?h) m1) = Some (Inr 0)"
    using find_in_bucket [OF ok1 k id] none by simp
  ultimately have run: "roottable_set al t (byte_ptr T) rootid a s = Inr (?s4\<lparr>dram := store_byte (byte_ptr ?l) 0 ?m\<rparr>)"
    using k s2(1) head2 s3(1)
    by (simp add: roottable_set_def bucket_at_byte bucket_lock_eq bucket_head_byte m1_def [symmetric] or_diverges_def)
  have "dram (?s4\<lparr>dram := store_byte (byte_ptr ?l) 0 ?m\<rparr>) = store_byte (byte_ptr ?l) 0 ?m" by simp
  from that [OF run this s2(4) [unfolded s2(3)]] show ?thesis .
qed

lemma set_fresh:
  assumes ok: "table_ok T f (dram s)" and k: "bucket_no rootid < 512" and id: "0 \<notin> set rootid"
    and len: "length rootid < 64" and none: "f (bucket_no rootid) = None"
    and ready: "set_ready t s" and fresh: "fresh_node T f n"
    and al: "al_malloc al 128 (heap_alloc s) = (byte_ptr n, j)"
  defines "l \<equiv> T + 64 * bucket_no rootid" and "h \<equiv> head_at T (bucket_no rootid)"
  obtains s' where "roottable_set al t (byte_ptr T) rootid a s = Inr s'"
    and "same_bytes ({l} \<union> {h..<h + 8} \<union> {n..<n + 80}) (dram s) (dram s')"
    and "load_ptr (byte_ptr h) (dram s') = byte_ptr n" and "load_byte (byte_ptr l) (dram s') = 0"
    and "load_ptr (byte_ptr (n + 64)) (dram s') = a" and "load_ptr (byte_ptr (n + 72)) (dram s') = 0"
    and "\<forall>i < length rootid. load_byte (byte_ptr (n + i)) (dram s') = rootid ! i"
    and "load_byte (byte_ptr (n + length rootid)) (dram s') = load_byte (byte_ptr (n + length rootid)) (dram s)"
proof -
  have T: "T + 32768 \<le> heap_bytes" using ok by (simp add: table_ok_def)
  have l: "l < heap_bytes" "h + 8 \<le> heap_bytes" using T k by (simp_all add: l_def h_def head_at_def)
  have n: "n + 128 \<le> heap_bytes" "n + 128 \<le> T \<or> T + 32768 \<le> n" using fresh by (simp_all add: fresh_node_def)
  have apart: "({h..<h + 8} \<union> {l}) \<inter> {n..<n + 80} = {}" using n(2) k by (auto simp: l_def h_def head_at_def)
  define m1 where "m1 = store_byte (byte_ptr l) 1 (dram s)"
  define m2 where "m2 = store_ptr (byte_ptr (n + 64)) a (store_bytes (byte_ptr n) rootid (store_ptr (byte_ptr (n + 72)) 0 m1))"
  have same1: "same_bytes {l} (dram s) m1" unfolding m1_def l_def by (rule table_locked(2) [OF ok k])
  obtain s' where run: "roottable_set al t (byte_ptr T) rootid a s = Inr s'"
    and d: "dram s' = store_byte (byte_ptr l) 0 (store_ptr (byte_ptr h) (byte_ptr n) m2)" and same2: "same_bytes {n..<n + 80} m1 m2"
    using set_fresh_run [OF ok k id len none ready fresh al, of a] unfolding m1_def m2_def l_def h_def by blast
  have late: "same_bytes ({h..<h + 8} \<union> {l}) m2 (dram s')"
    unfolding d by (rule same_bytes_trans [OF same_bytes_store_ptr [OF l(2)] same_bytes_store_byte [OF l(1)]])
  have byte: "load_byte (byte_ptr (n + i)) (dram s') = (if i < length rootid then rootid ! i else load_byte (byte_ptr (n + i)) (dram s))"
    if i: "i < 64" for i
  proof -
    have "load_byte (byte_ptr (n + i)) (dram s') = load_byte (byte_ptr (n + i)) m2"
      by (rule same_bytes_byte [OF late]) (use i n apart in auto)
    moreover have "load_byte (byte_ptr (n + i)) m1 = load_byte (byte_ptr (n + i)) (dram s)"
      by (rule same_bytes_byte [OF same1]) (use i n apart in auto)
    ultimately show ?thesis using i n len by (simp add: m2_def load_byte_store_ptr load_store_bytes)
  qed
  have field: "load_ptr (byte_ptr x) (dram s') = load_ptr (byte_ptr x) m2" if "n \<le> x" "x + 8 \<le> n + 80" for x
    by (rule same_bytes_ptr [OF late]) (use that n apart in auto)
  show ?thesis
  proof (rule that [OF run])
    show "same_bytes ({l} \<union> {h..<h + 8} \<union> {n..<n + 80}) (dram s) (dram s')"
      by (rule same_bytes_mono [OF same_bytes_trans [OF same_bytes_trans [OF same1 same2] late]]) auto
    show "load_ptr (byte_ptr h) (dram s') = byte_ptr n"
      unfolding d using l by (simp add: load_ptr_store_byte l_def h_def head_at_def)
    show "load_byte (byte_ptr l) (dram s') = 0" unfolding d using l(1) by (simp add: load_store_byte)
    show "load_ptr (byte_ptr (n + 64)) (dram s') = a" using field [of "n + 64"] n by (simp add: m2_def)
    show "load_ptr (byte_ptr (n + 72)) (dram s') = 0"
      using field [of "n + 72"] n len by (simp add: m2_def load_ptr_store_ptr load_ptr_store_bytes)
    show "\<forall>i < length rootid. load_byte (byte_ptr (n + i)) (dram s') = rootid ! i" using byte len by simp
    show "load_byte (byte_ptr (n + length rootid)) (dram s') = load_byte (byte_ptr (n + length rootid)) (dram s)" using byte len by simp
  qed
qed

subsection \<open>The ways of \<open>set\<close> and \<open>remove\<close> not to return\<close>

text \<open>
  When the bucket holds another name, \<^verbatim>\<open>curr\<close> is \<^verbatim>\<open>nullptr\<close> after the search, and the loop that looks for the
  end of the list reads \<^verbatim>\<open>curr->next\<close>.
\<close>

lemma set_collision:
  assumes ok: "table_ok T f (dram s)" and k: "bucket_no rootid < 512" and id: "0 \<notin> set rootid"
    and len: "length rootid < 64" and n0: "f (bucket_no rootid) = Some n0" "node_id (dram s) n0 \<noteq> rootid"
    and ready: "set_ready t s" and fresh: "fresh_node T f n"
    and al: "al_malloc al 128 (heap_alloc s) = (byte_ptr n, j)"
  shows "roottable_set al t (byte_ptr T) rootid a s = Inl NullDeref"
proof -
  let ?l = "T + 64 * bucket_no rootid" and ?h = "head_at T (bucket_no rootid)"
  have T: "T + 32768 \<le> heap_bytes" using ok by (simp add: table_ok_def)
  have h: "?h + 8 \<le> heap_bytes" using T k by (simp add: head_at_def)
  define m1 where "m1 = store_byte (byte_ptr ?l) 1 (dram s)"
  have ok1: "table_ok T f m1" and id1: "node_id m1 n0 \<noteq> rootid"
    unfolding m1_def using table_locked(1,3) [OF ok k] n0 by simp_all
  obtain s2 where s2: "pnew al t node_size (node_new t rootid a) (s\<lparr>dram := m1\<rparr>) = Inr (byte_ptr n, s2)"
    "same_bytes {n..<n + 80} m1 (dram s2)"
    using set_allocates [OF T k len ready fresh al] unfolding m1_def by blast
  have apart: "{n..<n + 80} \<inter> {?h..<?h + 8} = {}"
    using fresh k by (auto simp: fresh_node_def head_at_def)
  have "load_ptr (byte_ptr ?h) (dram s2) = byte_ptr n0"
    using same_bytes_ptr [OF s2(2) h apart] table_ok_head(2) [OF ok1 k n0(1)] by simp
  moreover have "byte_ptr n0 \<noteq> 0"
    using table_ok_head(3) [OF ok k n0(1)] by (intro byte_ptr_nonzero) (simp add: node_ok_def)
  moreover have "find_node m1 rootid (load_ptr (byte_ptr ?h) m1) = Some (Inr 0)"
    using find_in_bucket [OF ok1 k id] n0(1) id1 by simp
  ultimately show ?thesis
    using k s2(1)
    by (simp add: roottable_set_def bucket_at_byte bucket_lock_eq bucket_head_byte m1_def [symmetric] or_diverges_def
        last_node.simps [of _ 0])
qed

lemma set_out_of_bounds: "512 \<le> bucket_no rootid \<Longrightarrow> roottable_set al t this rootid a s = Inl OutOfBounds"
  and get_out_of_bounds: "512 \<le> bucket_no rootid \<Longrightarrow> roottable_get this rootid s = Inl OutOfBounds"
  by (simp_all add: roottable_set_def roottable_get_def bucket_at_out)

text \<open>\<^verbatim>\<open>remove\<close> on an empty bucket, on the bucket of the name, and on one that holds another name.\<close>

lemma remove_result:
  assumes ok: "table_ok T f (dram s)" and k: "bucket_no rootid < 512" and id: "0 \<notin> set rootid" and ready: "may_mark 1 t s"
  shows "roottable_remove al t (byte_ptr T) rootid s = Inl
    (case f (bucket_no rootid) of
       None \<Rightarrow> AssertFailed
     | Some n \<Rightarrow> if node_id (dram s) n = rootid then NullDeref else QuickExit)"
proof (cases "f (bucket_no rootid)")
  case None
  then show ?thesis
    using k table_ok_head(1) [OF ok k None] by (simp add: roottable_remove_def bucket_at_byte bucket_head_byte rassert_def)
next
  case (Some n)
  let ?l = "T + 64 * bucket_no rootid" and ?h = "head_at T (bucket_no rootid)"
  define m1 where "m1 = store_byte (byte_ptr ?l) 1 (dram s)"
  have ok1: "table_ok T f m1" and id1: "node_id m1 n = node_id (dram s) n"
    unfolding m1_def using table_locked(1,3) [OF ok k] Some by simp_all
  have T: "T + 32768 \<le> heap_bytes" using ok by (simp add: table_ok_def)
  have h: "?h + 8 \<le> heap_bytes" using T k by (simp add: head_at_def)
  have nd: "n + 80 \<le> heap_bytes" "byte_ptr n \<noteq> 0" "length (node_id m1 n) < 64" "load_ptr (byte_ptr (n + 72)) m1 = 0"
    using table_ok_head(3) [OF ok1 k Some] byte_ptr_nonzero [of n] by (simp_all add: node_ok_def)
  note head = table_ok_head(2) [OF ok k Some] table_ok_head(2) [OF ok1 k Some]
  obtain u where u: "mark t (byte_ptr ?h) 8 (s\<lparr>dram := m1\<rparr>) = Inr u" "dram u = m1"
    using mark_bytes [of 0 t "s\<lparr>dram := m1\<rparr>" ?h 8] ready h by auto
  have start: "roottable_remove al t (byte_ptr T) rootid s =
      rbind (if node_id m1 n = rootid then Inr (byte_ptr n, store_field (byte_ptr ?h) 0 u) else Inr (0, s\<lparr>dram := m1\<rparr>))
        (\<lambda>(remove_node, s). rbind (or_diverges (remove_loop t rootid (load_ptr (byte_ptr ?h) (dram s)) remove_node s))
        (\<lambda>(remove_node, s). if remove_node \<noteq> 0 then rbind (pdelete al t node_size remove_node s) (bucket_unlock (byte_ptr ?l))
          else Inl QuickExit))"
    using k nd head u
    by (simp add: roottable_remove_def bucket_at_byte bucket_head_byte bucket_lock_eq m1_def [symmetric] rassert_def
        id_equal_iff [OF id nd(3)] node_fields)
  show ?thesis
  proof (cases "node_id m1 n = rootid")
    case True
    then show ?thesis
      using Some id1 h by (simp add: start store_field_def or_diverges_def remove_loop.simps [of _ _ 0])
  next
    case False
    then show ?thesis
      using Some id1 head nd
      by (simp add: start or_diverges_def remove_loop.simps [of _ _ "byte_ptr n"] node_fields Let_def)
  qed
qed

text \<open>A list with a second and a third node, of which neither has the name looked for: the loop does not move on.\<close>

lemma remove_stays:
  assumes "current \<noteq> 0" and "load_ptr (node_next current) (dram s) = next_node" "next_node \<noteq> 0"
    and "id_equal (dram s) next_node 0 rootid = Inr False"
  shows "remove_loop t rootid current remove_node s = None"
proof -
  have "\<not> (rootid' = rootid \<and> current' = current \<and> s' = s)"
    if "remove_loop t' rootid' current' remove_node' s' = Some r" for t' rootid' current' remove_node' s' r
    by (rule remove_loop.raw_induct [OF _ that]) (use assms in \<open>fastforce simp: Let_def\<close>)
  then show ?thesis by (metis option.exhaust)
qed

subsection \<open>A new table\<close>

lemma ptr_of_zeros: "ptr_of_bytes (replicate k 0) = 0"
  by (induction k) (simp_all add: ptr_of_bytes_def)

lemma load_zeros:
  assumes "x + 8 \<le> heap_bytes"
  shows "load_ptr (byte_ptr x) (store_bytes (byte_ptr x) (replicate 8 0) mem) = 0"
proof -
  have "map (\<lambda>k. load_byte (byte_ptr x + word_of_nat k) (store_bytes (byte_ptr x) (replicate 8 0) mem)) [0..<8] =
      map (\<lambda>_. 0) [0..<8]"
    using assms by (intro map_cong refl) (simp add: byte_ptr_add load_store_bytes)
  also have "\<dots> = replicate 8 0" by (simp add: map_replicate_const)
  finally show ?thesis by (simp only: load_ptr_def ptr_of_zeros)
qed

lemma roottable_init_ok:
  fixes mem :: "ptr \<Rightarrow> cacheline_t"
  assumes T: "T + 32768 \<le> heap_bytes"
  shows "table_ok T (\<lambda>_. None) (roottable_init (byte_ptr T) mem)"
proof -
  let ?step = "\<lambda>i. store_bytes (byte_ptr T + word_of_nat (64 * i + 8)) (replicate 8 0)"
  have "\<forall>k < n. load_ptr (byte_ptr (head_at T k)) (fold ?step [0..<n] mem) = 0" if "n \<le> 512" for n
    using that
  proof (induction n)
    case 0
    then show ?case by simp
  next
    case (Suc n)
    let ?m = "fold ?step [0..<n] mem"
    have at: "byte_ptr T + word_of_nat (64 * n + 8) = byte_ptr (head_at T n)"
      unfolding byte_ptr_add head_at_def by (simp add: add.assoc)
    have h: "head_at T k + 8 \<le> heap_bytes" if "k < Suc n" for k using T Suc.prems that by (simp add: head_at_def)
    have "load_ptr (byte_ptr (head_at T k)) (?step n ?m) = 0" if "k < Suc n" for k
    proof (cases "k = n")
      case True
      then show ?thesis unfolding at using h [OF that] by (simp only: load_zeros)
    next
      case False
      then have "head_at T k + 8 \<le> head_at T n" using that by (simp add: head_at_def)
      then have "load_ptr (byte_ptr (head_at T k)) (?step n ?m) = load_ptr (byte_ptr (head_at T k)) ?m"
        unfolding at using h [OF that] h [of n] by (intro load_ptr_store_bytes) simp_all
      then show ?thesis using Suc False that by simp
    qed
    then show ?case by simp
  qed
  from this [of 512] show ?thesis using T by (simp add: table_ok_def roottable_init_def)
qed

subsection \<open>The lock does not exclude\<close>

text \<open>A second caller finds the lock taken, and takes it; the first \<^verbatim>\<open>unlock\<close> frees it, the second stops the process.\<close>

lemma lock_twice:
  assumes "x < heap_bytes"
  shows "bucket_lock (byte_ptr x) (bucket_lock (byte_ptr x) s) = bucket_lock (byte_ptr x) s"
  by (simp add: bucket_lock_eq store_byte_def Let_def)

end
