(* ===== verification/Demo.thy ===== *)
theory Demo
  imports Recovery
begin

section \<open>A concrete run\<close>

text \<open>
  One thread writes the byte 7 to the first byte of the heap in an operation; a checkpoint closes
  the epoch, logs the line and enters the phase in which the logs are complete. The states of this
  run instantiate the theorems on all runs.
\<close>

definition demo_al :: "unit allocator" where
  "demo_al = \<lparr>al_malloc = (\<lambda>_ j. (DRAM_BASE, j)), al_free = (\<lambda>_ j. j)\<rparr>"

definition demo_entry :: plog_entry where
  "demo_entry = \<lparr>pe_addr = 0, pe_val = blank_line\<rparr>"

definition demo_block :: plog_block where
  "demo_block = \<lparr>pb_entries = (\<lambda>_. demo_entry), pb_size = 0, pb_max_size = LOG_BLOCK_NUM\<rparr>"

definition demo_start :: "unit escort" where
  "demo_start = \<lparr>GLOBAL_EPOCH = 2, BitMap = (\<lambda>_. \<lparr>bm_bits = (\<lambda>_. False), bm_size = heap_lines\<rparr>),
     ByteMap = (\<lambda>_. \<lparr>by_bytes = (\<lambda>_. 0), by_size = heap_lines\<rparr>),
     ByteMap_NVM = \<lparr>by_bytes = (\<lambda>_. 0), by_size = heap_lines\<rparr>,
     Plog_Management = \<lparr>pm_free = [0], pm_used = [], pm_area = (\<lambda>_. demo_block)\<rparr>,
     Allocatorlog_Management = \<lparr>am_free = [], am_used = [], am_area = (\<lambda>_. undefined)\<rparr>,
     ctx_array = [], cp_log = [], dram = (\<lambda>_. blank_line), nvm = (\<lambda>_. blank_line),
     nvm_offset = 0x1040 - DRAM_BASE, heap_alloc = ()\<rparr>"

lemma heap_lines_demo: "unat HEAP_SIZE div 64 = heap_lines"
  by (simp add: heap_lines_def)

lemma line_ptr_0: "line_ptr 0 = DRAM_BASE" by (simp add: line_ptr_def)

lemma index_0: "bitmap_get_index DRAM_BASE = Inr 0"
  using bitmap_get_index_line [of 0] by (simp add: line_ptr_0 heap_lines_eq)

lemma align_0: "align_down DRAM_BASE = DRAM_BASE"
  using align_down_heap [of 0 0] by (simp add: line_ptr_0 heap_lines_eq)

lemma demo_start_quiescent: "quiescent demo_start"
proof -
  have "Epoch 2 = 2" by (simp add: Epoch_take_bit take_bit_eq_mod)
  moreover have "get_phase 2 = Inr NVM_Heap_Update"
    using get_phase_Epoch [of 2] calculation by simp
  ultimately show ?thesis
    by (auto simp: quiescent_def demo_start_def bitmap_is_clear_iff plog_pool_ok_def pool_ok_def
        demo_block_def plog_entries_def heap_image_def fun_eq_iff)
qed

definition demo_line :: cacheline_t where
  "demo_line = blank_line\<lparr>cl_content := (cl_content blank_line)(0 := 7)\<rparr>"

definition demo_bits :: "(nat \<Rightarrow> bool) \<Rightarrow> bool \<Rightarrow> bitmap_t" where
  "demo_bits f = (\<lambda>_. \<lparr>bm_bits = (\<lambda>_. False), bm_size = heap_lines\<rparr>)(False := \<lparr>bm_bits = f, bm_size = heap_lines\<rparr>)"

definition demo_ctx :: "epoch_t \<Rightarrow> addrlist_t \<Rightarrow> userthreadctx_t" where
  "demo_ctx e l = userthreadctx_new\<lparr>uc_epoch := e, uc_addrlist := (\<lambda>_. [])(False := l)\<rparr>"

text \<open>The states of the run: the thread in its operation, after its write, after its operation, the line logged.\<close>

definition demo_begun :: "unit escort" where
  "demo_begun = demo_start\<lparr>ctx_array := [demo_ctx 2 []]\<rparr>"

definition demo_written :: "unit escort" where
  "demo_written = demo_start\<lparr>ctx_array := [demo_ctx 2 [(DRAM_BASE, 1)]],
     BitMap := demo_bits ((\<lambda>_. False)(0 := True)), dram := (\<lambda>_. blank_line)(DRAM_BASE := demo_line)\<rparr>"

definition demo_ended :: "epoch_t \<Rightarrow> unit escort" where
  "demo_ended e = demo_written\<lparr>GLOBAL_EPOCH := e, ctx_array := [demo_ctx 0 [(DRAM_BASE, 1)]]\<rparr>"

definition demo_logged :: "epoch_t \<Rightarrow> addrlist_t \<Rightarrow> unit escort" where
  "demo_logged e l = demo_start\<lparr>GLOBAL_EPOCH := e, ctx_array := [demo_ctx 0 l],
     BitMap := demo_bits ((\<lambda>_. False)(0 := True, 0 := False)), dram := (\<lambda>_. blank_line)(DRAM_BASE := demo_line),
     cp_log := [0], Plog_Management := \<lparr>pm_free = [], pm_used = [0], pm_area = (\<lambda>_. demo_block)(0 :=
       demo_block\<lparr>pb_entries := (\<lambda>_. demo_entry)(0 := \<lparr>pe_addr = DRAM_BASE, pe_val = demo_line\<rparr>), pb_size := 1\<rparr>)\<rparr>\<rparr>"

definition demo_sealed_epoch :: epoch_t where "demo_sealed_epoch = 0x8000000000000003"
definition demo_logging_epoch :: epoch_t where "demo_logging_epoch = 0x4000000000000003"

definition demo_sys :: "cp_pc \<Rightarrow> epoch_t \<Rightarrow> 'j escort \<Rightarrow> 'j sys" where
  "demo_sys pc e s = \<lparr>sys_pc = pc, sys_epoch = e, sys_st = s\<rparr>"

lemma demo_sys_upd [simp]:
  "sys_pc (demo_sys pc e s) = pc" "sys_epoch (demo_sys pc e s) = e" "sys_st (demo_sys pc e s) = s"
  "(demo_sys pc e s)\<lparr>sys_pc := pc'\<rparr> = demo_sys pc' e s"
  "(demo_sys pc e s)\<lparr>sys_epoch := e'\<rparr> = demo_sys pc e' s"
  "(demo_sys pc e s)\<lparr>sys_st := s'\<rparr> = demo_sys pc e s'"
  by (simp_all add: demo_sys_def)

lemmas demo_defs = demo_start_def demo_begun_def demo_written_def demo_ended_def demo_logged_def
  demo_ctx_def demo_bits_def userthreadctx_new_def

lemma Epoch_small [simp]: "Epoch 0 = 0" "Epoch 2 = 2" "Epoch 3 = 3"
  by (simp_all add: Epoch_take_bit take_bit_eq_mod)

lemma Epoch_demo [simp]: "Epoch demo_sealed_epoch = 3" "Epoch demo_logging_epoch = 3"
  by (simp_all add: demo_sealed_epoch_def demo_logging_epoch_def Epoch_take_bit take_bit_eq_mod)

lemma demo_begin: "begin_op 0 (demo_start\<lparr>ctx_array := [userthreadctx_new]\<rparr>) = Inr demo_begun"
  by (simp add: begin_op_def get_ctx_def put_ctx_def demo_defs fun_eq_iff)

lemma demo_store: "store_byte DRAM_BASE 7 (\<lambda>_. blank_line) = (\<lambda>_. blank_line)(DRAM_BASE := demo_line)"
proof -
  have "ucast DRAM_BASE = (0 :: 6 word)" by (simp add: DRAM_BASE_def)
  then show ?thesis by (simp add: store_byte_def align_0 demo_line_def Let_def)
qed

lemma demo_write: "pwrite 0 DRAM_BASE [7] demo_begun = Inr demo_written"
  by (simp add: pwrite_def mark_def num_bits_def get_ctx_def index_0 align_0 LOG_CACHE_LINE_SIZE_def
      mark_line_def bitmap_is_set_def bitmap_set_def epoch_bit_def heap_lines_eq addrlist_append_def
      put_ctx_def demo_store demo_defs fun_eq_iff)

lemma demo_client_ok: "client_ok 0 DRAM_BASE [7] demo_begun"
  by (simp add: client_ok_def covered_def num_bits_def LOG_CACHE_LINE_SIZE_def DRAM_BASE_def old_op_def demo_defs)

lemma demo_not_old: "\<not> old_op 0 demo_begun"
  by (simp add: old_op_def demo_defs)

lemma demo_end: "end_op 0 demo_written = Inr (demo_ended 2)"
  by (simp add: end_op_def get_ctx_def put_ctx_def demo_defs)

lemma demo_log_line: "log_line False 0 DRAM_BASE (demo_ended demo_logging_epoch) =
  Inr (demo_logged demo_logging_epoch [(DRAM_BASE, 1)])"
  by (simp add: log_line_def bitmap_is_set_def plog_push_back_def plog_acquire_def plog_management_pop_def
      plog_block_append_def plog_put_def bitmap_clear_def demo_defs heap_lines_eq demo_block_def demo_entry_def
      LOG_BLOCK_NUM_def fun_eq_iff)

text \<open>The run up to the write, up to the end of the operation, and up to the commit.\<close>

definition demo_event :: "cacheline_t event" where
  "demo_event = Write False {0} (heap_image (dram demo_written))"

lemma demo_lines: "write_lines DRAM_BASE [7] = {0}"
  by (auto simp: write_lines_def index_0 num_bits_def LOG_CACHE_LINE_SIZE_def)

lemma demo_init: "sys_init demo_start = demo_sys Cp_Idle 2 demo_start"
  by (simp add: sys_init_def demo_sys_def demo_start_def)

lemma demo_user_steps:
  "user_step (demo_sys Cp_Idle 2 (demo_start\<lparr>ctx_array := [userthreadctx_new]\<rparr>)) Tau (demo_sys Cp_Idle 2 demo_begun)"
  "user_step (demo_sys Cp_Idle 2 demo_begun) demo_event (demo_sys Cp_Idle 2 demo_written)"
  "user_step (demo_sys Cp_Idle 2 demo_written) Tau (demo_sys Cp_Idle 2 (demo_ended 2))"
  using begin_step [of 0 "demo_sys Cp_Idle 2 (demo_start\<lparr>ctx_array := [userthreadctx_new]\<rparr>)" demo_begun]
    write_step [of 0 DRAM_BASE "[7]" "demo_sys Cp_Idle 2 demo_begun" demo_written]
    end_step [of 0 "demo_sys Cp_Idle 2 demo_written"] demo_begin demo_write demo_client_ok demo_not_old demo_end
  by (simp_all add: demo_event_def demo_lines)

lemma demo_run_written:
  "sys_run demo_al (sys_init demo_start) [demo_event, Tau, Tau] (demo_sys Cp_Idle 2 demo_written)"
proof -
  have "sys_step demo_al (demo_sys Cp_Idle 2 demo_start) Tau
      (demo_sys Cp_Idle 2 (demo_start\<lparr>ctx_array := [userthreadctx_new]\<rparr>))"
    using user_init [of "demo_sys Cp_Idle 2 demo_start"] by (simp add: demo_start_def)
  then show ?thesis
    unfolding demo_init using demo_user_steps(1,2) by (blast intro: sys_run.intros by_user)
qed

lemma demo_enter:
  "enter_phase 3 Multi_Epoch_Existence (demo_ended 2) = Inr (demo_sealed_epoch, demo_ended demo_sealed_epoch)"
  "enter_phase demo_sealed_epoch Log_Persistence (demo_ended demo_sealed_epoch) =
     Inr (demo_logging_epoch, demo_ended demo_logging_epoch)"
  "enter_phase demo_logging_epoch NVM_Heap_Update (demo_logged demo_logging_epoch []) = Inr (3, demo_logged 3 [])"
  by (simp_all add: enter_phase_def set_phase_def Let_def epoch_mask_def mask_multiple_epoch_existence_def
      mask_log_persistence_def mask_nvm_heap_update_def demo_sealed_epoch_def demo_logging_epoch_def demo_defs)

lemma demo_prev_parity: "prev_parity s = False" if "Epoch (GLOBAL_EPOCH s) = 3"
  using that by (simp add: prev_parity_def epoch_bit_def)

lemma demo_ended_sel [simp]: "ctx_array (demo_ended e) = [demo_ctx 0 [(DRAM_BASE, 1)]]" "GLOBAL_EPOCH (demo_ended e) = e"
  "ctx_array (demo_logged e l) = [demo_ctx 0 l]" "GLOBAL_EPOCH (demo_logged e l) = e"
  by (simp_all add: demo_ended_def demo_logged_def)

lemma demo_step_end:
  "sys_step demo_al (demo_sys Cp_Idle 2 demo_written) Tau (demo_sys Cp_Idle 2 (demo_ended 2))"
  by (rule by_user [OF demo_user_steps(3)])

text \<open>The checkpointing thread: it closes the epoch, waits, logs the line, commits.\<close>

lemma demo_seal:
  "cp_step (demo_sys Cp_Idle 2 (demo_ended 2)) Boundary (demo_sys (Cp_Wait 0) demo_sealed_epoch (demo_ended demo_sealed_epoch))"
  using seal_step [of "demo_sys Cp_Idle 2 (demo_ended 2)"] demo_enter(1) by simp

lemma demo_commits:
  "cp_step (demo_sys (Cp_NextCtx 1) demo_logging_epoch (demo_logged demo_logging_epoch [])) Commit
     (demo_sys (Cp_Update 0 []) 3 (demo_logged 3 []))"
  using commit_step [of "demo_sys (Cp_NextCtx 1) demo_logging_epoch (demo_logged demo_logging_epoch [])"] demo_enter(3)
  by simp

lemma demo_logging_steps:
  "cp_step (demo_sys (Cp_Wait 0) demo_sealed_epoch (demo_ended demo_sealed_epoch)) Tau
     (demo_sys (Cp_Wait 1) demo_sealed_epoch (demo_ended demo_sealed_epoch))"
  "cp_step (demo_sys (Cp_Wait 1) demo_sealed_epoch (demo_ended demo_sealed_epoch)) Tau
     (demo_sys (Cp_NextCtx 0) demo_logging_epoch (demo_ended demo_logging_epoch))"
  "cp_step (demo_sys (Cp_NextCtx 0) demo_logging_epoch (demo_ended demo_logging_epoch)) Tau
     (demo_sys (Cp_Log 0 [(DRAM_BASE, 1)] 0) demo_logging_epoch (demo_ended demo_logging_epoch))"
proof -
  show "cp_step (demo_sys (Cp_Wait 0) demo_sealed_epoch (demo_ended demo_sealed_epoch)) Tau
      (demo_sys (Cp_Wait 1) demo_sealed_epoch (demo_ended demo_sealed_epoch))"
    using wait_step [of "demo_sys (Cp_Wait 0) demo_sealed_epoch (demo_ended demo_sealed_epoch)" 0]
    by (simp add: left_previous_epoch_def demo_ctx_def)
  show "cp_step (demo_sys (Cp_Wait 1) demo_sealed_epoch (demo_ended demo_sealed_epoch)) Tau
      (demo_sys (Cp_NextCtx 0) demo_logging_epoch (demo_ended demo_logging_epoch))"
    using waited_step [of "demo_sys (Cp_Wait 1) demo_sealed_epoch (demo_ended demo_sealed_epoch)"] demo_enter(2) by simp
  show "cp_step (demo_sys (Cp_NextCtx 0) demo_logging_epoch (demo_ended demo_logging_epoch)) Tau
      (demo_sys (Cp_Log 0 [(DRAM_BASE, 1)] 0) demo_logging_epoch (demo_ended demo_logging_epoch))"
    using list_step [of "demo_sys (Cp_NextCtx 0) demo_logging_epoch (demo_ended demo_logging_epoch)" 0]
    by (simp add: demo_prev_parity) (simp add: demo_ctx_def)
qed

lemma demo_line_steps:
  "cp_step (demo_sys (Cp_Log 0 [(DRAM_BASE, 1)] 0) demo_logging_epoch (demo_ended demo_logging_epoch)) Tau
     (demo_sys (Cp_Log 0 [(DRAM_BASE, 1)] 1) demo_logging_epoch (demo_logged demo_logging_epoch [(DRAM_BASE, 1)]))"
  "cp_step (demo_sys (Cp_Log 0 [(DRAM_BASE, 1)] 1) demo_logging_epoch (demo_logged demo_logging_epoch [(DRAM_BASE, 1)])) Tau
     (demo_sys (Cp_Log 0 [] 0) demo_logging_epoch (demo_logged demo_logging_epoch [(DRAM_BASE, 1)]))"
  "cp_step (demo_sys (Cp_Log 0 [] 0) demo_logging_epoch (demo_logged demo_logging_epoch [(DRAM_BASE, 1)])) Tau
     (demo_sys (Cp_NextCtx 1) demo_logging_epoch (demo_logged demo_logging_epoch []))"
proof -
  let ?l = "demo_logged demo_logging_epoch [(DRAM_BASE, 1)]"
  show "cp_step (demo_sys (Cp_Log 0 [(DRAM_BASE, 1)] 0) demo_logging_epoch (demo_ended demo_logging_epoch)) Tau
      (demo_sys (Cp_Log 0 [(DRAM_BASE, 1)] 1) demo_logging_epoch ?l)"
    using line_step [of "demo_sys (Cp_Log 0 [(DRAM_BASE, 1)] 0) demo_logging_epoch (demo_ended demo_logging_epoch)"
        0 DRAM_BASE 1 "[]" 0 0 ?l] demo_log_line
    by (simp add: demo_prev_parity index_0)
  show "cp_step (demo_sys (Cp_Log 0 [(DRAM_BASE, 1)] 1) demo_logging_epoch ?l) Tau
      (demo_sys (Cp_Log 0 [] 0) demo_logging_epoch ?l)"
    using region_step [of "demo_sys (Cp_Log 0 [(DRAM_BASE, 1)] 1) demo_logging_epoch ?l" 0 DRAM_BASE 1 "[]" 1] by simp
  have "clear_list False 0 ?l = Inr (demo_logged demo_logging_epoch [])"
    by (simp add: clear_list_def get_ctx_def put_ctx_def addrlist_clear_def demo_logged_def demo_ctx_def userthreadctx_new_def)
  then show "cp_step (demo_sys (Cp_Log 0 [] 0) demo_logging_epoch ?l) Tau
      (demo_sys (Cp_NextCtx 1) demo_logging_epoch (demo_logged demo_logging_epoch []))"
    using list_done_step [of "demo_sys (Cp_Log 0 [] 0) demo_logging_epoch ?l" 0 0] by (simp add: demo_prev_parity)
qed

lemmas demo_step_seal = by_checkpointing [OF demo_seal]
lemmas demo_step_commit = by_checkpointing [OF demo_commits]

lemma demo_run_logging:
  "sys_run al (demo_sys (Cp_Wait 0) demo_sealed_epoch (demo_ended demo_sealed_epoch)) [Tau, Tau, Tau]
     (demo_sys (Cp_Log 0 [(DRAM_BASE, 1)] 0) demo_logging_epoch (demo_ended demo_logging_epoch))"
  using demo_logging_steps by (blast intro: sys_run.intros by_checkpointing)

lemma demo_run_logged:
  "sys_run al (demo_sys (Cp_Log 0 [(DRAM_BASE, 1)] 0) demo_logging_epoch (demo_ended demo_logging_epoch))
     [Tau, Tau, Tau] (demo_sys (Cp_NextCtx 1) demo_logging_epoch (demo_logged demo_logging_epoch []))"
  using demo_line_steps by (blast intro: sys_run.intros by_checkpointing)

definition demo_events :: "cacheline_t event list" where
  "demo_events = Commit # [Tau, Tau, Tau] @ [Tau, Tau, Tau] @ Boundary # Tau # [demo_event, Tau, Tau]"

definition demo_commit :: "unit sys" where
  "demo_commit = demo_sys (Cp_Update 0 []) 3 (demo_logged 3 [])"

lemma demo_run: "sys_run demo_al (sys_init demo_start) demo_events demo_commit"
  unfolding demo_events_def demo_commit_def
  by (rule sys_run.run_step [OF _ demo_step_commit])
     (rule sys_run_trans [OF demo_run_logged sys_run_trans [OF demo_run_logging
       sys_run.run_step [OF sys_run.run_step [OF demo_run_written demo_step_end] demo_step_seal]]])

text \<open>The promised heap after the commit has the byte; the NVM heap does not have it yet.\<close>

lemma demo_durable:
  "sp_durable (spec_run demo_events (heap_image (dram demo_start))) 0 = demo_line"
  by (simp add: demo_events_def demo_event_def spec_run_def spec_init_def override_on_def heap_image_def
      line_ptr_0 demo_written_def heap_lines_eq)

lemma demo_nvm: "nvm_image (sys_st demo_commit) 0 = blank_line"
  by (simp add: nvm_image_def heap_image_def demo_commit_def demo_logged_def demo_start_def)

lemma demo_line_not_blank: "demo_line \<noteq> blank_line"
proof
  assume "demo_line = blank_line"
  then have "cl_content demo_line 0 = cl_content blank_line 0" by simp
  then show False by (simp add: demo_line_def) (simp add: blank_line_def)
qed

subsection \<open>A process that starts after a crash of the run\<close>

definition demo_boot :: boot where
  "demo_boot = \<lparr>bt_plog_area = (\<lambda>_. demo_block), bt_alog_area = (\<lambda>_. undefined), bt_heap_bytes = (\<lambda>_ _. 0),
     bt_nvm_bytes = (\<lambda>_. 0), bt_mapped = (\<lambda>_. True)\<rparr>"

text \<open>What is left of a state: the NVM heap and the epoch word; the DRAM heap is mapped afresh.\<close>

definition reboot :: "unit escort \<Rightarrow> unit library" where
  "reboot s = \<lparr>GLOBAL_EPOCH = GLOBAL_EPOCH s, BitMap = BitMap s, ByteMap = ByteMap s,
     ByteMap_NVM = ByteMap_NVM s, Plog_Management = Plog_Management s,
     Allocatorlog_Management = Allocatorlog_Management s, ctx_array = [], cp_log = [],
     dram = (\<lambda>_. blank_line), nvm = nvm s, nvm_offset = nvm_offset s, heap_alloc = (),
     NVM_config = demo_config, RootTable = 0, is_single = True,
     BitMap_set = (\<lambda>_. False), ByteMap_set = (\<lambda>_. False), ByteMap_NVM_set = False, CpMaster_set = False\<rparr>"

lemma demo_room: "bytemap_room demo_config"
  by (simp add: bytemap_room_def demo_config_sel HEAP_SIZE_eq)

lemma reboot_reopened: "nvm_offset s = 0x1040 - DRAM_BASE \<Longrightarrow> reopened s (reboot s)"
  by (simp add: reopened_def reboot_def demo_config_sel nvmconfig_offset_def)

lemma reboot_fresh: "fresh_heap demo_boot (reboot s)" "fresh_library (reboot s)"
  by (simp_all add: fresh_heap_def fresh_library_def no_maps_def reboot_def demo_boot_def)

lemma reboot_recovers:
  "get_phase (GLOBAL_EPOCH s) = Inr p \<Longrightarrow> \<exists>l'. escort_init demo_al bt 1 True (reboot s) = Inr l'"
  by (rule escort_init_recovery_total) (simp_all add: reboot_fresh, simp_all add: reboot_def demo_room demo_config_sel)

end
