(* ===== verification/AllocClaims.thy ===== *)
theory AllocClaims
  imports AllocCheckpoint Demo
begin

section \<open>What the bookkeeping of allocations guarantees\<close>

text \<open>
  The theorems on \<^verbatim>\<open>malloc\<close>, \<^verbatim>\<open>free\<close> and the helper threads, with an instance of each on a state in
  which one thread is in an operation and the pool has one block of the allocator log.
\<close>

definition demo_record :: alog_entry where
  "demo_record = \<lparr>ae_addr = 0, ae_size = 0, ae_is_valid = False\<rparr>"

definition demo_alog_block :: alog_block where
  "demo_alog_block = \<lparr>ab_entries = (\<lambda>_. demo_record), ab_size = 0, ab_max_size = ALLOCATOR_LOG_BLOCK_NUM, ab_epoch = 0\<rparr>"

definition demo_alloc :: "unit escort" where
  "demo_alloc = demo_begun\<lparr>Allocatorlog_Management := \<lparr>am_free = [0], am_used = [], am_area = (\<lambda>_. demo_alog_block)\<rparr>\<rparr>"

lemma demo_alloc_ok: "alloc_ok demo_alloc"
  by (rule alloc_okI)
     (simp_all add: demo_alloc_def demo_defs alogs_def alog_pool_ok_def pool_ok_def demo_alog_block_def alog_entries_def)

lemma demo_fits: "fits DRAM_BASE 64"
  using fits_line [of 0 64] by (simp add: line_ptr_0 heap_lines_eq lines_of_def)

lemma demo_index: "bytemap_get_index DRAM_BASE = Inr 0"
  using bytemap_get_index_heap [of 0 0] by (simp add: line_ptr_0 heap_lines_eq)

lemma demo_alloc_sel [simp]:
  "length (ctx_array demo_alloc) = 1" "ctx_array demo_alloc \<noteq> []" "uc_epoch (ctx_array demo_alloc ! 0) = 2"
  "by_bytes (ByteMap demo_alloc b) k = 0" "uc_allocatorlog (ctx_array demo_alloc ! 0) b = []"
  "GLOBAL_EPOCH demo_alloc = 2" "am_free (Allocatorlog_Management demo_alloc) = [0]"
  by (simp_all add: demo_alloc_def demo_defs)

lemma demo_free: "\<exists>s'. free_with_create_log demo_al 0 DRAM_BASE 64 demo_alloc = Inr s'"
proof -
  obtain u where u: "record_alloc_op 0 2 DRAM_BASE 64 demo_alloc = Inr u"
    using record_alloc_op_total [OF demo_alloc_ok demo_fits, of 0 2] by auto
  have "get_phase 2 = Inr NVM_Heap_Update" using get_phase_Epoch [of 2] by simp
  then show ?thesis by (simp add: free_with_create_log_def get_ctx_def u)
qed

text \<open>\<open>malloc\<close>, \<open>free\<close> and the three passes of the helper threads keep the invariant of the allocator logs: the
  logs own distinct blocks of the pool and every record is of an object inside the heap, as long as the memory
  allocator returns, and the client frees, objects inside the heap.\<close>

lemma alloc_invariant:
  assumes "alloc_ok s" and "fits a sz"
  shows "(malloc_with_create_log al t sz s = Inr (a, s1) \<longrightarrow> alloc_ok s1) \<and>
    (free_with_create_log al t a sz s = Inr s2 \<longrightarrow> alloc_ok s2) \<and>
    (dealloc al s = Inr s3 \<longrightarrow> alloc_ok s3) \<and> (check_valid s = Inr s4 \<longrightarrow> alloc_ok s4) \<and>
    (cpallocator_checkpointing s = Inr s5 \<longrightarrow> alloc_ok s5)"
  using malloc_alloc_ok [of al t sz s a s1] free_alloc_ok [of al t a sz s s2] dealloc_alloc_ok [of al s s3]
    check_valid_effect [OF assms(1)] cpallocator_checkpointing_effect [OF assms(1)] assms
  by (metis sum.inject(2))

text \<open>C27: any number of operations on one object in one epoch: its byte alternates between 1 and -1, and every
  other operation, beginning with the first, appends a record to the allocator log; so the third one appends a
  second record of the same object.\<close>

theorem repeated_operations:
  assumes "repeat_op n t e a sz s = Inr s'" and "alloc_ok s" and "fits a sz"
    and "bytemap_get_index a = Inr k" and "t < length (ctx_array s)"
    and "by_bytes (ByteMap s (epoch_bit e)) k = 0"
  shows "by_bytes (ByteMap s' (epoch_bit e)) k = byte_after n \<and>
    alog_contents (Allocatorlog_Management s') (uc_allocatorlog (ctx_array s' ! t) (epoch_bit e)) =
    alog_contents (Allocatorlog_Management s) (uc_allocatorlog (ctx_array s ! t) (epoch_bit e)) @
      replicate ((n + 1) div 2) (a, sz)"
  using repeat_op_effect [OF assms] by blast

theorem repeated_operations_witness:
  "\<exists>s'. repeat_op 1 0 2 DRAM_BASE 64 demo_alloc = Inr s' \<and>
     alog_contents (Allocatorlog_Management s') (uc_allocatorlog (ctx_array s' ! 0) False) = [(DRAM_BASE, 64)]"
proof -
  have b: "epoch_bit 2 = False" by (simp add: epoch_bit_def)
  obtain u where "record_alloc_op 0 2 DRAM_BASE 64 demo_alloc = Inr u"
    using record_alloc_op_total [OF demo_alloc_ok demo_fits, of 0 2] by auto
  then have u: "repeat_op 1 0 2 DRAM_BASE 64 demo_alloc = Inr u" by (simp add: repeat_op_def)
  have "alog_contents (Allocatorlog_Management u) (uc_allocatorlog (ctx_array u ! 0) False) = [(DRAM_BASE, 64)]"
    using repeated_operations [OF u demo_alloc_ok demo_fits demo_index] by (simp add: b alog_contents_def)
  with u show ?thesis by blast
qed

text \<open>\<open>check_valid\<close> always returns; a record stays valid exactly if the byte of its object is 1 (an odd number
  of operations) and no record visited before it is of the same object, and the bytes of all recorded
  objects are reset.\<close>

lemma check_valid_flags:
  assumes "alloc_ok s"
  shows "\<exists>s'. check_valid s = Inr s' \<and>
    (\<forall>q \<in> set (prev_positions s). ae_is_valid (rec_at s' q) \<longleftrightarrow> ae_is_valid (rec_at s q) \<and>
       by_bytes (ByteMap s (prev_parity s)) (obj_index s q) = 1 \<and>
       (\<forall>r \<in> set (takeWhile (\<lambda>r. r \<noteq> q) (prev_positions s)). obj_index s r \<noteq> obj_index s q)) \<and>
    (\<forall>j. by_bytes (ByteMap s' (prev_parity s)) j =
       (if j \<in> obj_index s ` set (prev_positions s) then 0 else by_bytes (ByteMap s (prev_parity s)) j))"
proof -
  obtain s' where s': "check_valid s = Inr s'" "visited (prev_parity s) (prev_positions s) s s'"
    using check_valid_effect [OF assms] by blast
  have "\<forall>q \<in> set (prev_positions s). ae_is_valid (rec_at s' q) \<longleftrightarrow> ae_is_valid (rec_at s q) \<and>
       by_bytes (ByteMap s (prev_parity s)) (obj_index s q) = 1 \<and>
       (\<forall>r \<in> set (takeWhile (\<lambda>r. r \<noteq> q) (prev_positions s)). obj_index s r \<noteq> obj_index s q)"
    using visited_valid [OF s'(2)] by (auto simp: stays_valid_def)
  then show ?thesis using s' by (auto simp: visited_def)
qed

text \<open>The pass that records the objects of the closed epoch on NVM always returns; it writes the size of every
  record of the closed epoch, in the order of the logs, and empties these logs.\<close>

lemma objects_recorded:
  assumes "alloc_ok s"
  shows "\<exists>s'. cpallocator_checkpointing s = Inr s' \<and> prev_blocks s' = [] \<and>
    rfold record_size (prev_records s) (ByteMap_NVM s) = Inr (ByteMap_NVM s')"
  using cpallocator_checkpointing_effect [OF assms] by metis

lemma invalidated_shape: "same_shape s (invalidated q s)"
  by (auto simp: same_shape_def rec_at_invalidated) (auto simp: invalidated_def Let_def alog_put_def)

text \<open>The pass ignores the validity flags that \<open>check_valid\<close> computes: a record marked invalid (an object
  allocated and freed again in the epoch, or a duplicate) is recorded on NVM like a valid one.\<close>

lemma validity_ignored:
  assumes "alloc_ok s"
  shows "\<exists>s1 s2. cpallocator_checkpointing s = Inr s1 \<and> cpallocator_checkpointing (invalidated q s) = Inr s2 \<and>
    ByteMap_NVM s2 = ByteMap_NVM s1"
proof -
  let ?s = "invalidated q s"
  have e: "alog_entries (am_area (Allocatorlog_Management ?s) b) = alog_entries (am_area (Allocatorlog_Management s) b)" for b
    by (rule alog_entries_shape [OF invalidated_shape])
  have same: "alogs ?s = alogs s" "ByteMap_NVM ?s = ByteMap_NVM s" "ByteMap ?s = ByteMap s" "prev_parity ?s = prev_parity s"
    "prev_blocks ?s = prev_blocks s" "am_free (Allocatorlog_Management ?s) = am_free (Allocatorlog_Management s)"
    "am_used (Allocatorlog_Management ?s) = am_used (Allocatorlog_Management s)"
    by (simp_all add: invalidated_def Let_def alogs_def alog_put_def prev_parity_def prev_blocks_def)
  have "alloc_ok ?s"
    using alloc_okD [OF assms] by (intro alloc_okI) (simp_all add: same e alog_pool_ok_def)
  moreover have "prev_records ?s = prev_records s"
    by (simp add: prev_records_def same alog_contents_def e)
  ultimately show ?thesis
    using cpallocator_checkpointing_effect [OF assms] cpallocator_checkpointing_effect [of ?s] same(2)
    by (metis sum.inject(2))
qed

text \<open>Inside an operation, \<open>free\<close> gives the object back to the memory allocator at once, except in an
  operation that began while two epochs existed: then it only notes the object for later.\<close>

lemma free_delayed:
  assumes "free_with_create_log al t a sz s = Inr s'" and "uc_epoch (ctx_array s ! t) = e" and "e \<noteq> 0"
  shows "\<exists>ph. get_phase e = Inr ph \<and>
    heap_alloc s' = (if ph = Multi_Epoch_Existence then heap_alloc s else al_free al a (heap_alloc s)) \<and>
    uc_delay_dealloc (ctx_array s' ! t) (epoch_bit e) = uc_delay_dealloc (ctx_array s ! t) (epoch_bit e) @
      (if ph = Multi_Epoch_Existence then [a] else [])"
proof -
  obtain w where t: "t < length (ctx_array s)" and w: "record_alloc_op t e a sz s = Inr w"
    and r: "release_or_delay al t e a w = Inr s'"
    using assms by (auto simp: free_with_create_log_unfold res_simps)
  have f: "heap_alloc w = heap_alloc s \<and> uc_delay_dealloc (ctx_array w ! t) = uc_delay_dealloc (ctx_array s ! t) \<and>
      length (ctx_array w) = length (ctx_array s)"
    using w t unfolding record_alloc_op_def Let_def rbind_eq_Inr
    by (auto simp: res_simps split: if_splits)
  obtain ph where ph: "get_phase e = Inr ph" using r by (auto simp: release_or_delay_def res_simps)
  have "heap_alloc s' = (if ph = Multi_Epoch_Existence then heap_alloc s else al_free al a (heap_alloc s)) \<and>
    uc_delay_dealloc (ctx_array s' ! t) (epoch_bit e) = uc_delay_dealloc (ctx_array s ! t) (epoch_bit e) @
      (if ph = Multi_Epoch_Existence then [a] else [])"
  proof (cases "ph = Multi_Epoch_Existence")
    case True
    then show ?thesis using r f t by (auto simp: release_or_delay_def ph get_ctx_def)
  next
    case False
    then show ?thesis using r f by (auto simp: release_or_delay_def ph)
  qed
  with ph show ?thesis by blast
qed

text \<open>The deallocator always returns: it frees the objects noted in the closed epoch, context by context and in
  the order of the calls, and forgets them; nothing else changes.\<close>

lemma dealloc_frees:
  "dealloc al s = Inr (s\<lparr>heap_alloc := fold (al_free al) (delayed (prev_parity s) s) (heap_alloc s),
     ctx_array := map (forget_delayed (prev_parity s)) (ctx_array s)\<rparr>)"
  by (rule dealloc_effect)

end
