(* ===== verification/RootTableClaims.thy ===== *)
theory RootTableClaims
  imports RootTableSpec AllocClaims
begin

section \<open>What the root table guarantees, and where it fails\<close>

text \<open>
  The theorems on the operations of the root table. Their instances run on a heap that has the table at its
  start, behind it a node with the name \<open>a\<close>, and a thread in an operation.
\<close>

subsection \<open>A concrete table\<close>

definition demo_memory :: "ptr \<Rightarrow> cacheline_t" where
  "demo_memory = store_ptr (byte_ptr (head_at 0 97)) (byte_ptr 32768)
     (store_ptr (byte_ptr (32768 + 64)) 5 (store_bytes (byte_ptr 32768) [97]
       (store_ptr (byte_ptr (32768 + 72)) 0 (\<lambda>_. blank_line))))"

definition demo_blank :: "unit escort" where
  "demo_blank = demo_alloc\<lparr>dram := (\<lambda>_. blank_line)\<rparr>"

definition demo_table :: "unit escort" where
  "demo_table = demo_alloc\<lparr>dram := demo_memory\<rparr>"

definition demo_heap :: "nat \<Rightarrow> unit allocator" where
  "demo_heap n = \<lparr>al_malloc = (\<lambda>_ j. (byte_ptr n, j)), al_free = (\<lambda>_ j. j)\<rparr>"

lemma heap_bytes_value: "heap_bytes = 8589934592"
  by (simp add: heap_bytes_def heap_lines_eq)

lemma load_byte_blank [simp]: "load_byte p (\<lambda>_. blank_line) = 0"
  by (simp add: load_byte_def blank_line_def)

lemma load_ptr_blank [simp]: "load_ptr p (\<lambda>_. blank_line) = 0"
proof -
  have "map (\<lambda>k. load_byte (p + word_of_nat k) (\<lambda>_. blank_line)) [0..<8] = replicate 8 0"
    by (simp add: map_replicate_const)
  then show ?thesis by (simp only: load_ptr_def ptr_of_zeros)
qed

lemma demo_blank_ok: "table_ok 0 (\<lambda>_. None) (\<lambda>_. blank_line)"
  by (simp add: table_ok_def heap_bytes_value)

lemma demo_bucket: "bucket_no [97] = 97" "bucket_no [48, 49] = 97" "bucket_no [98] = 98"
  by (simp_all add: bucket_no_def hashfn_def)

lemma demo_table_ok:
  "table_ok 0 [97 \<mapsto> 32768] demo_memory" "table_map [97 \<mapsto> 32768] demo_memory = [[97] \<mapsto> 5]"
  "node_id demo_memory 32768 = [97]"
proof -
  let ?m = "store_ptr (byte_ptr (32768 + 64)) 5 (store_bytes (byte_ptr 32768) [97]
       (store_ptr (byte_ptr (32768 + 72)) 0 (\<lambda>_. blank_line)))"
  have h: "head_at 0 97 = 6216" by (simp add: head_at_def)
  have node: "node_ok 0 ?m 32768" "node_id ?m 32768 = [97]" "load_ptr (byte_ptr (32768 + 64)) ?m = 5"
    using stored_node [of "[97]" 32768 0 "\<lambda>_. blank_line" 5] by (simp_all add: heap_bytes_value)
  have s: "same_bytes {6216..<6216 + 8} ?m demo_memory"
    unfolding demo_memory_def h by (rule same_bytes_store_ptr) (simp add: heap_bytes_value)
  have m: "same_bytes {32768..<32768 + 80} (\<lambda>_. blank_line) ?m"
    by (rule same_bytes_trans [THEN same_bytes_mono, OF same_bytes_trans [OF same_bytes_store_ptr same_bytes_store_bytes] same_bytes_store_ptr])
       (auto simp: heap_bytes_value)
  have n: "node_ok 0 demo_memory 32768" "node_id demo_memory 32768 = [97]"
    using node_ok_frame [OF s _ node(1)] node(2) by auto
  have v: "load_ptr (byte_ptr (32768 + 64)) demo_memory = 5"
    using same_bytes_ptr [OF s, of "32768 + 64"] node(3) by (simp add: heap_bytes_value)
  have hd: "load_ptr (byte_ptr (head_at 0 97)) demo_memory = byte_ptr 32768"
    unfolding demo_memory_def h by (simp add: heap_bytes_value)
  have all: "same_bytes ({0 + 64 * 97} \<union> {head_at 0 97..<head_at 0 97 + 8} \<union> {32768..<32768 + 80}) (\<lambda>_. blank_line) demo_memory"
    by (rule same_bytes_mono [OF same_bytes_trans [OF m s]]) (auto simp: h)
  note ext = table_extended [OF demo_blank_ok _ refl all hd n v]
  show "table_ok 0 [97 \<mapsto> 32768] demo_memory"
    by (rule ext(1)) (simp_all add: demo_bucket)
  have "table_map (\<lambda>_. None) (\<lambda>_. blank_line) = (\<lambda>_. None)" by (simp add: table_map_def fun_eq_iff)
  then show "table_map [97 \<mapsto> 32768] demo_memory = [[97] \<mapsto> 5]" using ext(2) by (simp add: demo_bucket)
  show "node_id demo_memory 32768 = [97]" by (rule n)
qed

lemma demo_ready: "set_ready 0 demo_blank" "set_ready 0 demo_table" "may_mark 1 0 demo_table" "may_mark (Suc 0) 0 demo_table"
proof -
  have r: "may_mark 3 0 demo_alloc"
    by (simp add: may_mark_def demo_alloc_def demo_defs plog_room_def LOG_BLOCK_NUM_def plog_pool_ok_def pool_ok_def
        demo_block_def plog_entries_def log_ok_def)
  have "alloc_ok (demo_alloc\<lparr>dram := d\<rparr>)" for d
    using demo_alloc_ok by (simp add: alloc_ok_def alogs_def)
  then show "set_ready 0 demo_blank" "set_ready 0 demo_table"
    using r by (simp_all add: set_ready_def demo_blank_def demo_table_def)
  show "may_mark 1 0 demo_table" "may_mark (Suc 0) 0 demo_table"
    using may_mark_le [OF r, of 1] by (simp_all add: demo_table_def)
qed

lemma demo_dram [simp]: "dram demo_blank = (\<lambda>_. blank_line)" "dram demo_table = demo_memory"
  by (simp_all add: demo_blank_def demo_table_def)

subsection \<open>The operations that work\<close>

text \<open>On a table in which every bucket holds at most one node, \<open>get\<close> is lookup in the map that the table
  stands for; a name that is not there gives \<^verbatim>\<open>nullptr\<close>.\<close>

lemma table_lookup:
  assumes "table_ok T f (dram s)" and "bucket_no rootid < 512" and "0 \<notin> set rootid"
  shows "roottable_get (byte_ptr T) rootid s = Inr (case table_map f (dram s) rootid of None \<Rightarrow> 0 | Some a \<Rightarrow> a)"
  by (rule roottable_get_map [OF assms])

text \<open>C23: \<open>set\<close> of a name that the table has returns, updates the map at that name and nowhere else, keeps the
  shape of the table and leaves the bucket unlocked; \<open>get\<close> then yields the new address.\<close>

theorem table_update:
  assumes "table_ok T f (dram s)" and "bucket_no rootid < 512" and "0 \<notin> set rootid"
    and "table_map f (dram s) rootid \<noteq> None" and "may_mark 1 t s"
  shows "\<exists>s'. roottable_set al t (byte_ptr T) rootid a s = Inr s' \<and> table_ok T f (dram s') \<and>
    table_map f (dram s') = (table_map f (dram s))(rootid \<mapsto> a) \<and> roottable_get (byte_ptr T) rootid s' = Inr a \<and>
    load_byte (byte_ptr (T + 64 * bucket_no rootid)) (dram s') = 0"
proof -
  obtain n where "f (bucket_no rootid) = Some n" "node_id (dram s) n = rootid"
    using assms(4) by (auto simp: table_map_def split: if_splits option.splits)
  from set_existing [OF assms(1-3) this assms(5)] obtain s' where
    s': "roottable_set al t (byte_ptr T) rootid a s = Inr s'" "table_ok T f (dram s')"
    "table_map f (dram s') = (table_map f (dram s))(rootid \<mapsto> a)"
    "load_byte (byte_ptr (T + 64 * bucket_no rootid)) (dram s') = 0" by blast
  moreover have "roottable_get (byte_ptr T) rootid s' = Inr a"
    using roottable_get_map [OF s'(2) assms(2,3)] by (simp add: s'(3))
  ultimately show ?thesis by blast
qed

theorem table_update_witness:
  "\<exists>s'. roottable_set demo_al 0 (byte_ptr 0) [97] 9 demo_table = Inr s' \<and> roottable_get (byte_ptr 0) [97] s' = Inr 9"
  using table_update [of 0 "[97 \<mapsto> 32768]" demo_table "[97]" 0 demo_al 9]
  by (auto simp: demo_table_ok demo_bucket demo_ready)

text \<open>C24: \<open>set\<close> of a name whose bucket is empty returns, whatever the allocated memory held, if the allocator gives a
  place apart from the table and the logs have room: the bucket is unlocked, and no name of another bucket is affected.
  \<open>get\<close> then yields the new address exactly if the allocated memory was zero behind the name; the map is extended by the
  name. Otherwise \<open>get\<close> does not find the name.\<close>

theorem table_insert:
  assumes "table_ok T f (dram s)" and "bucket_no rootid < 512" and "0 \<notin> set rootid" and "length rootid < 64"
    and "f (bucket_no rootid) = None" and "set_ready t s" and "fresh_node T f n"
    and "al_malloc al 128 (heap_alloc s) = (byte_ptr n, j)"
  defines "terminated \<equiv> load_byte (byte_ptr (n + length rootid)) (dram s) = 0"
  shows "\<exists>s'. roottable_set al t (byte_ptr T) rootid a s = Inr s' \<and>
    load_byte (byte_ptr (T + 64 * bucket_no rootid)) (dram s') = 0 \<and>
    roottable_get (byte_ptr T) rootid s' = Inr (if terminated then a else 0) \<and>
    (terminated \<longrightarrow> table_ok T (f(bucket_no rootid \<mapsto> n)) (dram s') \<and>
       table_map (f(bucket_no rootid \<mapsto> n)) (dram s') = (table_map f (dram s))(rootid \<mapsto> a)) \<and>
    (\<forall>r. bucket_no r < 512 \<longrightarrow> bucket_no r \<noteq> bucket_no rootid \<longrightarrow> 0 \<notin> set r \<longrightarrow>
       roottable_get (byte_ptr T) r s' = roottable_get (byte_ptr T) r s)"
proof -
  from set_fresh [OF assms(1-8)] obtain s' where
    s': "roottable_set al t (byte_ptr T) rootid a s = Inr s'" and
    same: "same_bytes ({T + 64 * bucket_no rootid} \<union> {head_at T (bucket_no rootid)..<head_at T (bucket_no rootid) + 8} \<union> {n..<n + 80})
      (dram s) (dram s')" and
    head: "load_ptr (byte_ptr (head_at T (bucket_no rootid))) (dram s') = byte_ptr n" and
    free: "load_byte (byte_ptr (T + 64 * bucket_no rootid)) (dram s') = 0" and
    node: "load_ptr (byte_ptr (n + 64)) (dram s') = a" "load_ptr (byte_ptr (n + 72)) (dram s') = 0"
      "\<forall>i < length rootid. load_byte (byte_ptr (n + i)) (dram s') = rootid ! i"
      "load_byte (byte_ptr (n + length rootid)) (dram s') = load_byte (byte_ptr (n + length rootid)) (dram s)" .
  have n: "n + 80 \<le> heap_bytes" "n + 80 \<le> T \<or> T + 32768 \<le> n" using assms(7) by (auto simp: fresh_node_def)
  have apart: "n + 80 \<le> n' \<or> n' + 80 \<le> n" if "k' < 512" "f k' = Some n'" for k' n'
  proof -
    have "n + 128 \<le> n' \<or> n' + 80 \<le> n" using assms(7) that unfolding fresh_node_def by fastforce
    then show ?thesis by linarith
  qed
  have "id_equal (dram s') (byte_ptr n) 0 rootid = Inr terminated"
    using id_equal_prefix [of rootid n 0 "dram s'"] node(3,4) assms(4) by (simp add: terminated_def)
  then have get: "roottable_get (byte_ptr T) rootid s' = Inr (if terminated then a else 0)"
    using get_one_node [OF assms(2) head _ node(2)] n(1) by (simp add: node(1))
  have ext: "table_ok T (f(bucket_no rootid \<mapsto> n)) (dram s') \<and>
      table_map (f(bucket_no rootid \<mapsto> n)) (dram s') = (table_map f (dram s))(rootid \<mapsto> a)" if "terminated"
  proof -
    have id: "node_id (dram s') n = rootid"
      by (rule node_id_bytes [OF assms(3,4) node(3)]) (use node(4) that in \<open>simp add: terminated_def\<close>)
    then have "node_ok T (dram s') n" using n node(2) assms(4) by (simp add: node_ok_def)
    from table_extended [OF assms(1,2,5) same head this id node(1) _ refl] apart show ?thesis by blast
  qed
  have "\<forall>k' < 512. \<forall>n'. f k' = Some n' \<longrightarrow> n + 80 \<le> n' \<or> n' + 80 \<le> n" using apart by blast
  note others = table_extended_others [OF assms(1,2) same n(2) this]
  have "roottable_get (byte_ptr T) r s' = roottable_get (byte_ptr T) r s"
    if "bucket_no r < 512" "bucket_no r \<noteq> bucket_no rootid" "0 \<notin> set r" for r
    using others [OF that(1)] that(2) by (intro get_other_bucket [OF assms(1) that(1,3)]) simp_all
  with s' free get ext show ?thesis by blast
qed

text \<open>The same call on memory that is zero and on memory with a byte left behind the name.\<close>

definition demo_used :: "unit escort" where
  "demo_used = demo_alloc\<lparr>dram := store_byte (byte_ptr 32769) 7 (\<lambda>_. blank_line)\<rparr>"

lemma demo_used_ok:
  "table_ok 0 (\<lambda>_. None) (dram demo_used)" "set_ready 0 demo_used" "load_byte (byte_ptr 32769) (dram demo_used) = 7"
proof -
  have d: "dram demo_used = store_byte (byte_ptr 32769) 7 (\<lambda>_. blank_line)" by (simp add: demo_used_def)
  have "load_ptr (byte_ptr (head_at 0 k)) (dram demo_used) = 0" if "k < 512" for k
    unfolding d using that by (simp add: load_ptr_store_byte heap_bytes_value head_at_def)
  then show "table_ok 0 (\<lambda>_. None) (dram demo_used)" by (simp add: table_ok_def heap_bytes_value)
  show "set_ready 0 demo_used"
    using demo_ready(1) by (simp add: set_ready_def may_mark_def demo_blank_def demo_used_def alloc_ok_def alogs_def)
  show "load_byte (byte_ptr 32769) (dram demo_used) = 7" unfolding d by (simp add: load_store_byte heap_bytes_value)
qed

theorem table_insert_witness:
  "(\<exists>s'. roottable_set (demo_heap 32768) 0 (byte_ptr 0) [97] 5 demo_blank = Inr s' \<and>
     roottable_get (byte_ptr 0) [97] s' = Inr 5) \<and>
   (\<exists>s'. roottable_set (demo_heap 32768) 0 (byte_ptr 0) [97] 5 demo_used = Inr s' \<and>
     roottable_get (byte_ptr 0) [97] s' = Inr 0)"
proof -
  have f: "fresh_node 0 (\<lambda>_. None) 32768" by (simp add: fresh_node_def heap_bytes_value)
  note ins = table_insert [where f = "\<lambda>_. None" and T = 0 and n = 32768 and rootid = "[97]" and t = 0 and al = "demo_heap 32768" and a = 5]
  show ?thesis
    using ins [of demo_blank "()"] ins [of demo_used "()"] f
    by (auto simp: demo_blank_ok demo_bucket demo_heap_def demo_used_ok demo_ready)
qed

text \<open>The constructor of the root table empties every bucket, so that no name is found, whatever the memory held.\<close>

lemma table_empty:
  assumes "T + 32768 \<le> heap_bytes"
  shows "table_ok T (\<lambda>_. None) (roottable_init (byte_ptr T) mem) \<and>
    table_map (\<lambda>_. None) (roottable_init (byte_ptr T) mem) = (\<lambda>_. None)"
  using roottable_init_ok [OF assms] by (simp add: table_map_def fun_eq_iff)

subsection \<open>The operations that fail\<close>

text \<open>C37: \<open>set\<close> of a name whose bucket holds another name reads \<^verbatim>\<open>curr->next\<close> through \<^verbatim>\<open>nullptr\<close>; so a bucket
  never gets a second node.\<close>

theorem table_collision:
  assumes "table_ok T f (dram s)" and "bucket_no rootid < 512" and "0 \<notin> set rootid" and "length rootid < 64"
    and "f (bucket_no rootid) = Some other" and "node_id (dram s) other \<noteq> rootid" and "set_ready t s" and "fresh_node T f n"
    and "al_malloc al 128 (heap_alloc s) = (byte_ptr n, j)"
  shows "roottable_set al t (byte_ptr T) rootid a s = Inl NullDeref"
  by (rule set_collision [OF assms])

theorem table_collision_witness: "roottable_set (demo_heap 40000) 0 (byte_ptr 0) [48, 49] 5 demo_table = Inl NullDeref"
  by (rule table_collision [where f = "[97 \<mapsto> 32768]" and other = 32768 and n = 40000])
     (simp_all add: demo_table_ok demo_bucket demo_ready demo_heap_def fresh_node_def heap_bytes_value)

text \<open>\<open>remove\<close> never returns on such a table: an empty bucket fails the assertion, a name that is there is
  unlinked and then \<^verbatim>\<open>nullptr\<close> is followed, any other name stops the process.\<close>

lemma table_remove:
  assumes "table_ok T f (dram s)" and "bucket_no rootid < 512" and "0 \<notin> set rootid" and "may_mark 1 t s"
  shows "roottable_remove al t (byte_ptr T) rootid s = Inl
    (case f (bucket_no rootid) of
       None \<Rightarrow> AssertFailed
     | Some n \<Rightarrow> if node_id (dram s) n = rootid then NullDeref else QuickExit)"
  by (rule remove_result [OF assms])

text \<open>The sum of the characters of a name of ASCII letters does not wrap around.\<close>

lemma hashfn_sum:
  assumes "\<And>c. c \<in> set rootid \<Longrightarrow> unat c < 128" and "length rootid \<le> 2 ^ 20"
  shows "unat (hashfn rootid) = sum_list (map unat rootid)"
proof -
  have c: "scast c = (word_of_nat (unat c) :: 32 word)" if "unat c < 128" for c :: byte
  proof -
    define m where "m = unat c"
    have u: "uint c = int m" by (simp add: m_def)
    have "sint c = int m"
      using that unfolding sint_uint u m_def [symmetric] by (intro signed_take_bit_int_eq_self) simp_all
    then have "sint c = int (unat c)" by (simp only: m_def)
    then show ?thesis by (metis of_int_of_nat_eq of_int_sint)
  qed
  have "fold (\<lambda>c ret. ret + scast c) rootid (word_of_nat k :: 32 word) = word_of_nat (k + sum_list (map unat rootid))" for k
    using assms(1)
  proof (induction rootid arbitrary: k)
    case Nil
    then show ?case by simp
  next
    case (Cons a rootid)
    have "word_of_nat k + scast a = (word_of_nat (k + unat a) :: 32 word)" using c [of a] Cons.prems by simp
    then show ?case using Cons.IH [of "k + unat a"] Cons.prems by (simp add: add.assoc del: of_nat_add)
  qed
  from this [of 0] have "hashfn rootid = word_of_nat (sum_list (map unat rootid))" by (simp add: hashfn_def)
  moreover have "sum_list (map unat rootid) \<le> 127 * length rootid"
  proof -
    have "sum_list (map unat rootid) \<le> sum_list (map (\<lambda>_. 127) rootid)"
      by (intro sum_list_mono) (use assms(1) in \<open>force simp: less_Suc_eq_le [symmetric]\<close>)
    then show ?thesis by (simp add: sum_list_triv)
  qed
  then have "sum_list (map unat rootid) < 2 ^ 32" using assms(2) by simp
  ultimately show ?thesis by (simp add: unsigned_of_nat take_bit_nat_eq_self)
qed

text \<open>A name of at least six letters (ASCII codes from 86 on) is beyond the array of buckets: \<open>set\<close> and
  \<open>get\<close> read outside the table, in every state.\<close>

lemma table_long_name:
  assumes "6 \<le> length rootid" and "length rootid \<le> 2 ^ 20" and "\<And>c. c \<in> set rootid \<Longrightarrow> 86 \<le> unat c \<and> unat c < 128"
  shows "roottable_set al t this rootid a s = Inl OutOfBounds \<and> roottable_get this rootid s = Inl OutOfBounds \<and>
    roottable_remove al t this rootid s = Inl OutOfBounds"
proof -
  have "sum_list (map (\<lambda>_. 86) rootid) \<le> sum_list (map unat rootid)"
    by (intro sum_list_mono) (use assms(3) in blast)
  then have "512 \<le> sum_list (map unat rootid)" using assms(1) by (simp add: sum_list_triv)
  then have "512 \<le> bucket_no rootid" using hashfn_sum [OF _ assms(2)] assms(3) by (simp add: bucket_no_def)
  then show ?thesis by (simp add: set_out_of_bounds get_out_of_bounds roottable_remove_def bucket_at_out)
qed

text \<open>C38: the lock of a bucket does not exclude: a second caller takes it as well, and of the two calls of
  \<open>unlock\<close> that follow the second stops the process.\<close>

theorem bucket_lock_not_exclusive:
  assumes "x < heap_bytes"
  shows "load_byte (byte_ptr x) (dram (bucket_lock (byte_ptr x) s)) = 1 \<and>
    bucket_lock (byte_ptr x) (bucket_lock (byte_ptr x) s) = bucket_lock (byte_ptr x) s \<and>
    (\<exists>s'. bucket_unlock (byte_ptr x) (bucket_lock (byte_ptr x) (bucket_lock (byte_ptr x) s)) = Inr s' \<and>
      bucket_unlock (byte_ptr x) s' = Inl QuickExit)"
  using assms by (simp add: lock_twice) (simp add: bucket_lock_eq bucket_unlock_def load_store_byte)

theorem bucket_lock_not_exclusive_witness:
  "bucket_lock (byte_ptr 0) (bucket_lock (byte_ptr 0) demo_table) = bucket_lock (byte_ptr 0) demo_table"
  using bucket_lock_not_exclusive [of 0 demo_table] by (simp add: heap_bytes_value)

text \<open>The constructor of a node copies the name without its terminator: in memory that has been used before
  and is not zero behind the name, the node gets another name.\<close>

lemma name_not_terminated:
  assumes "may_mark 2 t s" and "n + 80 \<le> heap_bytes" and "length rootid < 64"
    and "load_byte (byte_ptr (n + length rootid)) (dram s) \<noteq> 0"
  shows "\<exists>s'. node_new t rootid a (byte_ptr n) s = Inr s' \<and> node_id (dram s') n \<noteq> rootid"
proof -
  obtain s' where s': "node_new t rootid a (byte_ptr n) s = Inr s'"
    "dram s' = store_ptr (byte_ptr (n + 64)) a (store_bytes (byte_ptr n) rootid (store_ptr (byte_ptr (n + 72)) 0 (dram s)))"
    using node_new_ok [of 0 t s n rootid a] assms by (auto simp: eval_nat_numeral)
  let ?l = "length rootid"
  have l: "load_byte (byte_ptr (n + ?l)) (dram s') \<noteq> 0"
    using assms(2-4) by (simp add: s'(2) load_byte_store_ptr load_store_bytes)
  have "node_id (dram s') n \<noteq> rootid"
  proof
    assume id: "node_id (dram s') n = rootid"
    let ?bs = "map (\<lambda>k. load_byte (byte_ptr (n + k)) (dram s')) [0..<64]"
    have "length (takeWhile (\<lambda>b. b \<noteq> 0) ?bs) = ?l" using id by (simp add: node_id_def)
    then have "?bs ! ?l = 0" using nth_length_takeWhile [of "\<lambda>b. b \<noteq> 0" ?bs] assms(3) by simp
    with l assms(3) show False by simp
  qed
  with s'(1) show ?thesis by blast
qed

end
