(* ===== verification/MarkClaims.thy ===== *)
theory MarkClaims
  imports MarkTotal RootTableClaims
begin

section \<open>What \<^verbatim>\<open>mark\<close> does\<close>

text \<open>
  The theorems on a single call of \<^verbatim>\<open>userthreadctx_t::mark\<close>: which lines it flags and which it copies, and which it
  misses.
\<close>

text \<open>C4: with room in the redo log pool \<open>mark\<close> returns and leaves the heap as it is. It flags the lines it counts for the
  epoch of the operation and takes them from the other epoch; of these lines, exactly those that were modified in
  the other epoch and not yet in this one are copied to the redo log, with the content before the write; no
  other line is flagged or logged.\<close>

theorem mark_copies_on_write:
  fixes s :: "('j, 'z) escort_scheme"
  assumes "may_mark (num_bits sz) t s" and "bitmap_get_index addr = Inr i" and "i + num_bits sz \<le> heap_lines"
    and "mark_pre (epoch_bit (uc_epoch (ctx_array s ! t))) {i..<i + num_bits sz} s"
  shows "\<exists>s'. mark t addr sz s = Inr s' \<and> dram s' = dram s \<and>
    BitMap s' = marked_bits (epoch_bit (uc_epoch (ctx_array s ! t))) {i..<i + num_bits sz} (BitMap s) \<and>
    (\<forall>j. logged s' j = (if j \<in> {i..<i + num_bits sz} \<and> \<not> bm_bits (BitMap s (epoch_bit (uc_epoch (ctx_array s ! t)))) j \<and>
        bm_bits (BitMap s (\<not> epoch_bit (uc_epoch (ctx_array s ! t)))) j
      then Some (dram s (line_ptr j)) else logged s j))"
proof -
  obtain s' where s': "mark t addr sz s = Inr s'"
    using mark_total [of sz 0 t s addr i] assms(1-3) by auto
  from mark_frame(4,8,12) [OF s' assms(2,4)] s' show ?thesis by blast
qed

text \<open>A heap in which line 0 was modified in the previous epoch.\<close>

definition demo_flagged :: "unit escort" where
  "demo_flagged = demo_alloc\<lparr>BitMap := (\<lambda>p. \<lparr>bm_bits = (\<lambda>i. p \<and> i = 0), bm_size = heap_lines\<rparr>)\<rparr>"

lemma demo_flagged_logs: "wf_logs (Plog_Management demo_flagged) (redo_logs demo_flagged)" "logged demo_flagged i = None"
proof -
  have "redo_logs demo_flagged = [[], []]"
    by (simp add: redo_logs_def demo_flagged_def demo_alloc_def demo_defs demo_ctx_def userthreadctx_new_def)
  moreover have "plog_pool_ok (Plog_Management demo_flagged)"
    using demo_ready(3) by (simp add: may_mark_def demo_table_def demo_flagged_def)
  ultimately show "wf_logs (Plog_Management demo_flagged) (redo_logs demo_flagged)" "logged demo_flagged i = None"
    by (simp_all add: wf_logs_def logged_def all_entries_def logs_contents_def plog_contents_def contents_def log_ok_def)
qed

lemma demo_flagged_ready: "may_mark 1 0 demo_flagged" "may_mark (Suc 0) 0 demo_flagged" "mark_pre False I demo_flagged"
proof -
  have "may_mark 1 0 demo_alloc" using demo_ready(3) by (simp add: demo_table_def)
  then show "may_mark 1 0 demo_flagged" "may_mark (Suc 0) 0 demo_flagged"
    by (simp_all add: may_mark_def demo_flagged_def)
  show "mark_pre False I demo_flagged"
    using demo_flagged_logs by (simp add: mark_pre_def) (simp add: demo_flagged_def)
qed

lemma demo_flagged_sel:
  "uc_epoch (ctx_array demo_flagged ! 0) = 2" "dram demo_flagged = dram demo_start" "bm_bits (BitMap demo_flagged p) i = (p \<and> i = 0)"
  "\<not> epoch_bit 2"
  by (simp_all add: demo_flagged_def demo_alloc_def demo_defs demo_ctx_def epoch_bit_def)

theorem mark_copies_on_write_witness:
  "\<exists>s'. mark 0 DRAM_BASE 8 demo_flagged = Inr s' \<and> logged s' 0 = Some blank_line \<and> logged s' 1 = None"
  using mark_copies_on_write [of 8 0 demo_flagged DRAM_BASE 0]
  by (auto simp: demo_flagged_ready index_0 heap_lines_eq demo_flagged_sel demo_flagged_logs demo_start_def)

text \<open>C36: \<open>mark\<close> counts lines from the size alone: an object of at most a line that straddles two lines has only its first
  line flagged and copied, so that its last byte is in a line that is neither.\<close>

theorem mark_misses_line:
  assumes "mark t (byte_ptr x) (word_of_nat n) s = Inr s'" and "n \<le> 64" and "64 < x mod 64 + n" and "x + n \<le> heap_bytes"
    and "mark_pre (epoch_bit (uc_epoch (ctx_array s ! t))) {x div 64..<x div 64 + 1} s"
  shows "(x + n - 1) div 64 = x div 64 + 1 \<and> bm_bits (BitMap s' p) (x div 64 + 1) = bm_bits (BitMap s p) (x div 64 + 1) \<and>
    logged s' (x div 64 + 1) = logged s (x div 64 + 1)"
proof -
  have n: "0 < n" using assms(3) mod_less_divisor [of 64 x] by (cases n) auto
  have "num_bits (word_of_nat n) = 1"
  proof -
    have "unat (word_of_nat n + 64 - 1 :: size_t) = n + 63"
    proof -
      have "word_of_nat n + 64 - 1 = (word_of_nat (n + 63) :: size_t)" by simp
      moreover have small: "unat (word_of_nat m :: size_t) = m" if "m < 2 ^ 64" for m
        using that by (simp add: unsigned_of_nat take_bit_nat_eq_self)
      have "unat (word_of_nat (n + 63) :: size_t) = n + 63" by (rule small) (use assms(2) in simp)
      ultimately show ?thesis by (simp only:)
    qed
    moreover have "(n + 63) div 64 = 1" using n assms(2) by simp
    ultimately show ?thesis
      by (simp add: num_bits_def LOG_CACHE_LINE_SIZE_def drop_bit_eq_div unat_div)
  qed
  moreover have idx: "bitmap_get_index (byte_ptr x) = Inr (x div 64)"
    using assms(4) n by (intro bitmap_get_index_byte) simp
  moreover have "(x + n - 1) div 64 = x div 64 + 1"
  proof -
    define q r where "q = x div 64" and "r = x mod 64"
    have x: "x = 64 * q + r" "r < 64" by (simp_all add: q_def r_def)
    have "64 < r + n" using assms(3) by (simp add: r_def)
    then have "x + n - 1 = 64 * (q + 1) + (r + n - 65)" "r + n - 65 < 64" using x assms(2) by simp_all
    then have "(x + n - 1) div 64 = q + 1" by simp
    then show ?thesis by (simp only: q_def)
  qed
  moreover note mark_frame(8,12) [OF assms(1) idx]
  ultimately show ?thesis using assms(5) by (simp add: marked_bits_def)
qed

theorem mark_misses_line_witness:
  "\<exists>s'. mark 0 (byte_ptr 60) 8 demo_flagged = Inr s' \<and> \<not> bm_bits (BitMap s' False) 1"
proof -
  have idx: "bitmap_get_index (byte_ptr 60) = Inr 0" by (simp add: bitmap_get_index_byte heap_bytes_value)
  obtain s' where s': "mark 0 (byte_ptr 60) 8 demo_flagged = Inr s'"
    using mark_total [of 8 0 0 demo_flagged "byte_ptr 60" 0] by (auto simp: demo_flagged_ready idx heap_lines_eq)
  have "bm_bits (BitMap s' False) (60 div 64 + 1) = bm_bits (BitMap demo_flagged False) (60 div 64 + 1)"
    using mark_misses_line [of 0 60 8 demo_flagged s' False] s'
    by (simp add: heap_bytes_value demo_flagged_sel demo_flagged_ready)
  with s' show ?thesis by (simp add: demo_flagged_sel)
qed

end
