(* ===== verification/DebugT.thy ===== *)
theory DebugT
  imports GlobalEscort
begin

section \<open>Statistics and messages\<close>

text \<open>
  \<^verbatim>\<open>src/src/debug.hpp\<close> and \<^verbatim>\<open>src/src/debug.cpp\<close>: the two counters of log entries, and the functions and macros that
  print. The counters count only in a build with \<^verbatim>\<open>MEASURE\<close> (the argument \<open>enabled\<close>), but the averages are computed
  in every build. The timers are floating-point numbers, which cannot fail; they are left out.
\<close>

record debug_t =
  num_plog :: "64 word"
  num_plog_user :: "64 word"

definition debug_new :: debug_t where
  "debug_new = \<lparr>num_plog = 0, num_plog_user = 0\<rparr>"

definition add_plog :: "bool \<Rightarrow> size_t \<Rightarrow> debug_t \<Rightarrow> debug_t" where
  "add_plog enabled sz d = (if enabled then d\<lparr>num_plog := num_plog d + sz\<rparr> else d)"

definition add_plog_user :: "bool \<Rightarrow> debug_t \<Rightarrow> debug_t" where
  "add_plog_user enabled d = (if enabled then d\<lparr>num_plog_user := num_plog_user d + 1\<rparr> else d)"

definition plog_ave :: "epoch_t \<Rightarrow> debug_t \<Rightarrow> debug_t res" where
  "plog_ave epoch d =
     (if epoch - 2 = 0 then Inl DivByZero
      else Inr (d\<lparr>num_plog := num_plog d div (epoch - 2), num_plog_user := num_plog_user d div (epoch - 2)\<rparr>))"

lemma plog_ave_total: "epoch \<noteq> 2 \<Longrightarrow> \<exists>d'. plog_ave epoch d = Inr d'"
  by (simp add: plog_ave_def)

subsection \<open>Messages\<close>

text \<open>What has been written to the two streams. The arguments are given as the characters that the stream makes of them.\<close>

record streams =
  out_stream :: string
  err_stream :: string

definition to_cout :: "string \<Rightarrow> streams \<Rightarrow> streams" where
  "to_cout w z = z\<lparr>out_stream := out_stream z @ w\<rparr>"

definition to_cerr :: "string \<Rightarrow> streams \<Rightarrow> streams" where
  "to_cerr w z = z\<lparr>err_stream := err_stream z @ w\<rparr>"

definition endl :: string where "endl = [CHR 0x0A]"

text \<open>The functions without arguments end the line; both of them on \<^verbatim>\<open>std::cout\<close>.\<close>

definition print_nil :: "streams \<Rightarrow> streams" where
  "print_nil z = to_cout endl z"

definition print_error_nil :: "streams \<Rightarrow> streams" where
  "print_error_nil z = to_cout endl z"

fun debug_print :: "string list \<Rightarrow> streams \<Rightarrow> streams" where
  "debug_print [] z = print_nil z"
| "debug_print (msg # args) z = debug_print args (to_cout msg (to_cout '' '' z))"

fun debug_print_error :: "string list \<Rightarrow> streams \<Rightarrow> streams" where
  "debug_print_error [] z = print_error_nil z"
| "debug_print_error (msg # args) z = debug_print_error args (to_cerr msg (to_cerr '' '' z))"

definition print_first :: "string \<Rightarrow> string list \<Rightarrow> streams \<Rightarrow> streams" where
  "print_first msg args z = debug_print args (to_cout msg z)"

definition print_error_first :: "string \<Rightarrow> string list \<Rightarrow> streams \<Rightarrow> streams" where
  "print_error_first msg args z = debug_print_error args (to_cerr msg z)"

text \<open>The macros: \<^verbatim>\<open>DEBUG_PRINT\<close> prints in a build with \<^verbatim>\<open>DEBUG_MODE\<close> only, \<^verbatim>\<open>DEBUG_ERROR\<close> prints and stops the process.\<close>

definition DEBUG_PRINT :: "bool \<Rightarrow> string \<Rightarrow> string list \<Rightarrow> streams \<Rightarrow> streams" where
  "DEBUG_PRINT debug_mode msg args z = (if debug_mode then print_first msg args z else z)"

definition DEBUG_ERROR :: "string \<Rightarrow> string \<Rightarrow> string list \<Rightarrow> streams \<Rightarrow> unit res \<times> streams" where
  "DEBUG_ERROR file msg args z = (Inl QuickExit, to_cerr endl (to_cerr file (print_error_first msg args z)))"

lemma print_first_output:
  "print_first msg args z = z\<lparr>out_stream := out_stream z @ msg @ concat (map (\<lambda>w. '' '' @ w) args) @ endl\<rparr>"
proof -
  have "debug_print args z = z\<lparr>out_stream := out_stream z @ concat (map (\<lambda>w. '' '' @ w) args) @ endl\<rparr>" for z
    by (induction args arbitrary: z) (simp_all add: print_nil_def to_cout_def)
  then show ?thesis by (simp add: print_first_def to_cout_def)
qed

text \<open>The line of an error message is ended on the other stream, so the name of the file follows the message without a break.\<close>

lemma DEBUG_ERROR_output:
  "DEBUG_ERROR file msg args z = (Inl QuickExit,
     z\<lparr>out_stream := out_stream z @ endl, err_stream := err_stream z @ msg @ concat (map (\<lambda>w. '' '' @ w) args) @ file @ endl\<rparr>)"
proof -
  have "debug_print_error args z =
    z\<lparr>out_stream := out_stream z @ endl, err_stream := err_stream z @ concat (map (\<lambda>w. '' '' @ w) args)\<rparr>" for z
    by (induction args arbitrary: z) (simp_all add: print_error_nil_def to_cout_def to_cerr_def)
  then show ?thesis by (simp add: DEBUG_ERROR_def print_error_first_def to_cerr_def)
qed

end
