(* ===== verification/EscortApi.thy ===== *)
theory EscortApi
  imports RootTableSpec DebugT
begin

section \<open>The interface of the library\<close>

text \<open>
  \<^verbatim>\<open>src/src/Escort.cpp\<close>, the registration of user threads and the loop of \<^verbatim>\<open>checkpointing\<close> in
  \<^verbatim>\<open>src/src/checkpointing.cpp\<close> and \<^verbatim>\<open>src/src/checkpointing.hpp\<close>, and the root operations of
  \<^verbatim>\<open>src/src/userthreadctx_t.cpp\<close>. A thread is a number; \<open>lv_ctx\<close> is the thread-local pointer \<^verbatim>\<open>lv::ctx\<close>,
  the position of the context in \<^verbatim>\<open>_ctx_array\<close> or \<^verbatim>\<open>nullptr\<close>. Every function is the code of one thread
  without interference by the others; a wait for something that only another thread can do is the outcome \<open>Diverges\<close>.
\<close>

record 'j process = "'j library" +
  ctx_delete_array :: "nat \<Rightarrow> nat option list"
  execute_right :: bool
  num_wait_threads :: "32 word"
  isPersisting :: bool
  lv_ctx :: "nat \<Rightarrow> nat option"

subsection \<open>User threads and the checkpointing thread\<close>

definition has_execute_right :: "('j, 'z) process_scheme \<Rightarrow> bool \<times> ('j, 'z) process_scheme" where
  "has_execute_right s = (if execute_right s then (False, s) else (True, s\<lparr>execute_right := True\<rparr>))"

definition release_execute_right :: "('j, 'z) process_scheme \<Rightarrow> ('j, 'z) process_scheme" where
  "release_execute_right s = s\<lparr>execute_right := False\<rparr>"

text \<open>\<^verbatim>\<open>while(!has_execute_right()) {}\<close>\<close>

definition wait_execute_right :: "('j, 'z) process_scheme \<Rightarrow> ('j, 'z) process_scheme res" where
  "wait_execute_right s = (let (b, s) = has_execute_right s in if b then Inr s else Inl Diverges)"

definition init_userthreadctx :: "userthreadctx_t \<Rightarrow> ('j, 'z) process_scheme \<Rightarrow> ('j, 'z) process_scheme res" where
  "init_userthreadctx ctx s =
     (let s = s\<lparr>num_wait_threads := num_wait_threads s + 1\<rparr> in
      rbind (wait_execute_right s) (\<lambda>s.
      let s = s\<lparr>ctx_array := ctx_array s @ [ctx]\<rparr>;
          s = s\<lparr>NVM_config := add_user_num (NVM_config s)\<rparr>;
          s = s\<lparr>num_wait_threads := num_wait_threads s - 1\<rparr>
      in Inr (release_execute_right s)))"

definition finalize_userthreadctx :: "nat option \<Rightarrow> ('j, 'z) process_scheme \<Rightarrow> ('j, 'z) process_scheme res" where
  "finalize_userthreadctx ctx s =
     (let s = s\<lparr>num_wait_threads := num_wait_threads s + 1\<rparr> in
      rbind (wait_execute_right s) (\<lambda>s.
      let epoch = GLOBAL_EPOCH s; slot = unat ((epoch - 2) mod 4);
          s = s\<lparr>ctx_delete_array := (ctx_delete_array s)(slot := ctx_delete_array s slot @ [ctx])\<rparr>;
          s = s\<lparr>num_wait_threads := num_wait_threads s - 1\<rparr>
      in Inr (release_execute_right s)))"

definition get_num_user_threads :: "('j, 'z) escort_scheme \<Rightarrow> nat" where
  "get_num_user_threads s = length (ctx_array s)"

text \<open>The loop of \<^verbatim>\<open>checkpointing\<close>: \<open>n\<close> rounds, then the averages, then the last checkpoint.\<close>

fun checkpoint_rounds ::
  "'j allocator \<Rightarrow> bool \<Rightarrow> nat \<Rightarrow> epoch_t \<Rightarrow> ('j, 'z) escort_scheme \<Rightarrow> (epoch_t \<times> ('j, 'z) escort_scheme) res" where
  "checkpoint_rounds al single 0 epoch s = Inr (epoch, s)"
| "checkpoint_rounds al single (Suc n) epoch s =
     rbind (checkpoint_round al single epoch s) (\<lambda>(epoch, s). checkpoint_rounds al single n epoch s)"

definition checkpointing_end ::
  "bool \<Rightarrow> epoch_t \<Rightarrow> debug_t \<Rightarrow> ('j, 'z) escort_scheme \<Rightarrow> (debug_t \<times> ('j, 'z) escort_scheme) res" where
  "checkpointing_end single epoch d s =
     rbind (plog_ave epoch d) (\<lambda>d. rbind (finalize single epoch s) (\<lambda>s. Inr (d, s)))"

definition checkpointing ::
  "'j allocator \<Rightarrow> bool \<Rightarrow> nat \<Rightarrow> debug_t \<Rightarrow> ('j, 'z) escort_scheme \<Rightarrow> (debug_t \<times> ('j, 'z) escort_scheme) res" where
  "checkpointing al single n d s =
     (let epoch = Epoch (GLOBAL_EPOCH s) in
      rbind (checkpoint_rounds al single n epoch s) (\<lambda>(epoch, s). checkpointing_end single epoch d s))"

subsection \<open>\<^verbatim>\<open>userthreadctx_t\<close>: the roots\<close>

definition in_operation :: "nat \<Rightarrow> ('j, 'z) escort_scheme \<Rightarrow> unit res" where
  "in_operation t s = rbind (get_ctx t s) (\<lambda>ctx. rassert (uc_epoch ctx \<noteq> 0))"

definition set_root ::
  "'j allocator \<Rightarrow> nat \<Rightarrow> byte list \<Rightarrow> ptr \<Rightarrow> ('j, 'z) library_scheme \<Rightarrow> ('j, 'z) library_scheme res" where
  "set_root al t rootid addr s = rbind (in_operation t s) (\<lambda>_. roottable_set al t (RootTable s) rootid addr s)"

definition get_root :: "nat \<Rightarrow> byte list \<Rightarrow> ('j, 'z) library_scheme \<Rightarrow> ptr res" where
  "get_root t rootid s = rbind (in_operation t s) (\<lambda>_. roottable_get (RootTable s) rootid s)"

definition remove_root ::
  "'j allocator \<Rightarrow> nat \<Rightarrow> byte list \<Rightarrow> ('j, 'z) library_scheme \<Rightarrow> ('j, 'z) library_scheme res" where
  "remove_root al t rootid s = rbind (in_operation t s) (\<lambda>_. roottable_remove al t (RootTable s) rootid s)"

subsection \<open>\<^verbatim>\<open>Escort.cpp\<close>\<close>

definition escort_is_recovery :: "nvmconfig_t res \<Rightarrow> nvmconfig_t option \<Rightarrow> (bool \<times> nvmconfig_t) res" where
  "escort_is_recovery create cfg =
     rbind (case cfg of None \<Rightarrow> create | Some c \<Rightarrow> Inr c) (\<lambda>c. Inr (is_dirty c, c))"

text \<open>\<^verbatim>\<open>join\<close> waits until the checkpointing thread, whose variable \<^verbatim>\<open>epoch\<close> is the argument, has left its loop and ended.\<close>

definition escort_finalize ::
  "epoch_t \<Rightarrow> debug_t \<Rightarrow> ('j, 'z) process_scheme \<Rightarrow> (debug_t \<times> ('j, 'z) process_scheme) res" where
  "escort_finalize epoch d s = checkpointing_end (is_single s) epoch d (s\<lparr>isPersisting := False\<rparr>)"

definition escort_thread_init :: "nat \<Rightarrow> ('j, 'z) process_scheme \<Rightarrow> ('j, 'z) process_scheme res" where
  "escort_thread_init th s =
     rbind (rassert (lv_ctx s th = None)) (\<lambda>_.
     let pos = length (ctx_array s) in
     rbind (init_userthreadctx userthreadctx_new s) (\<lambda>s.
     Inr (s\<lparr>lv_ctx := (lv_ctx s)(th \<mapsto> pos)\<rparr>)))"

definition escort_thread_finalize :: "nat \<Rightarrow> ('j, 'z) process_scheme \<Rightarrow> ('j, 'z) process_scheme res" where
  "escort_thread_finalize th s = finalize_userthreadctx (lv_ctx s th) s"

text \<open>\<^verbatim>\<open>assert(lv::ctx != nullptr)\<close>\<close>

definition own_ctx :: "nat \<Rightarrow> ('j, 'z) process_scheme \<Rightarrow> nat res" where
  "own_ctx th s = (case lv_ctx s th of None \<Rightarrow> Inl AssertFailed | Some t \<Rightarrow> Inr t)"

definition escort_malloc ::
  "'j allocator \<Rightarrow> nat \<Rightarrow> size_t \<Rightarrow> ('j, 'z) process_scheme \<Rightarrow> (ptr \<times> ('j, 'z) process_scheme) res" where
  "escort_malloc al th sz s = rbind (own_ctx th s) (\<lambda>t. malloc_with_create_log al t sz s)"

definition escort_free ::
  "'j allocator \<Rightarrow> nat \<Rightarrow> ptr \<Rightarrow> size_t \<Rightarrow> ('j, 'z) process_scheme \<Rightarrow> ('j, 'z) process_scheme res" where
  "escort_free al th addr sz s = rbind (own_ctx th s) (\<lambda>t. free_with_create_log al t addr sz s)"

definition escort_begin_op :: "nat \<Rightarrow> ('j, 'z) process_scheme \<Rightarrow> ('j, 'z) process_scheme res" where
  "escort_begin_op th s = rbind (own_ctx th s) (\<lambda>t. begin_op t s)"

definition escort_end_op :: "nat \<Rightarrow> ('j, 'z) process_scheme \<Rightarrow> ('j, 'z) process_scheme res" where
  "escort_end_op th s = rbind (own_ctx th s) (\<lambda>t. end_op t s)"

definition escort_write_region ::
  "nat \<Rightarrow> ptr \<Rightarrow> size_t \<Rightarrow> ('j, 'z) process_scheme \<Rightarrow> ('j, 'z) process_scheme res" where
  "escort_write_region th addr sz s = rbind (own_ctx th s) (\<lambda>t. mark t addr sz s)"

definition escort_set_root ::
  "'j allocator \<Rightarrow> nat \<Rightarrow> byte list \<Rightarrow> ptr \<Rightarrow> ('j, 'z) process_scheme \<Rightarrow> ('j, 'z) process_scheme res" where
  "escort_set_root al th rootid addr s = rbind (own_ctx th s) (\<lambda>t. set_root al t rootid addr s)"

definition escort_get_root :: "nat \<Rightarrow> byte list \<Rightarrow> ('j, 'z) process_scheme \<Rightarrow> ptr res" where
  "escort_get_root th rootid s = rbind (own_ctx th s) (\<lambda>t. get_root t rootid s)"

text \<open>The function calls \<^verbatim>\<open>get_root\<close> and drops the result.\<close>

definition escort_remove_root :: "nat \<Rightarrow> byte list \<Rightarrow> ('j, 'z) process_scheme \<Rightarrow> ('j, 'z) process_scheme res" where
  "escort_remove_root th rootid s = rbind (own_ctx th s) (\<lambda>t. rbind (get_root t rootid s) (\<lambda>_. Inr s))"

text \<open>The numbers of the enumerators, and the casts to \<^verbatim>\<open>int\<close>.\<close>

definition phase_number :: "epoch_phase \<Rightarrow> 32 word" where
  "phase_number ph = word_of_nat (phase_rank ph)"

definition escort_get_current_status ::
  "('j, 'z) process_scheme \<Rightarrow> (32 word \<times> 32 word \<times> 32 word \<times> 32 word) res" where
  "escort_get_current_status s =
     rbind (get_phase (GLOBAL_EPOCH s)) (\<lambda>ph.
     Inr (ucast (Epoch (GLOBAL_EPOCH s)), phase_number ph, word_of_nat (get_num_user_threads s),
          word_of_nat (get_num_used_alloc_logs (Allocatorlog_Management s))))"

end
