(* ===== verification/CallFrame.thy ===== *)
theory CallFrame
  imports EscortApi AllocCheckpoint
begin

section \<open>What the operations leave alone\<close>

text \<open>
  The operations of the lower layers neither add nor remove a context, nor touch the part of the state
  of the process that lies above them (the configuration, the root pointer, the thread-local pointers,
  the right to execute). Unlike the frames of \<open>HeapFrame\<close> and \<open>MarkTotal\<close> this one
  holds for every operation, those that write the heaps included.
\<close>

named_theorems keeps_intros \<open>operations that keep the upper part of the state\<close>

definition keeps :: "('j, 'z) escort_scheme \<Rightarrow> ('j, 'z) escort_scheme \<Rightarrow> bool" where
  "keeps s s' \<longleftrightarrow> escort.more s' = escort.more s \<and> length (ctx_array s') = length (ctx_array s)"

lemma keeps_refl [simp]: "keeps s s"
  by (simp add: keeps_def)

lemma keeps_trans [trans]: "keeps s u \<Longrightarrow> keeps u v \<Longrightarrow> keeps s v"
  by (simp add: keeps_def)

lemma keeps_upd [simp]:
  "keeps s (s'\<lparr>GLOBAL_EPOCH := x1\<rparr>) = keeps s s'" "keeps s (s'\<lparr>BitMap := x2\<rparr>) = keeps s s'"
  "keeps s (s'\<lparr>ByteMap := x3\<rparr>) = keeps s s'" "keeps s (s'\<lparr>ByteMap_NVM := x4\<rparr>) = keeps s s'"
  "keeps s (s'\<lparr>Plog_Management := x5\<rparr>) = keeps s s'" "keeps s (s'\<lparr>Allocatorlog_Management := x6\<rparr>) = keeps s s'"
  "keeps s (s'\<lparr>cp_log := x7\<rparr>) = keeps s s'" "keeps s (s'\<lparr>dram := x8\<rparr>) = keeps s s'"
  "keeps s (s'\<lparr>nvm := x9\<rparr>) = keeps s s'" "keeps s (s'\<lparr>heap_alloc := x10\<rparr>) = keeps s s'"
  "keeps s (put_ctx t c s') = keeps s s'"
  by (simp_all add: keeps_def put_ctx_def)

lemma keeps_upd_left [simp]:
  "keeps (s\<lparr>BitMap := x2\<rparr>) s' = keeps s s'" "keeps (s\<lparr>heap_alloc := x10\<rparr>) s' = keeps s s'"
  "keeps (s\<lparr>dram := x8\<rparr>) s' = keeps s s'" "keeps (s\<lparr>GLOBAL_EPOCH := x1\<rparr>) s' = keeps s s'"
  "keeps (put_ctx t c s) s' = keeps s s'"
  by (simp_all add: keeps_def put_ctx_def)

lemma keeps_process:
  fixes s :: "('j, 'z) process_scheme"
  assumes "keeps s s'"
  shows "lv_ctx s' = lv_ctx s" and "execute_right s' = execute_right s" and "RootTable s' = RootTable s"
    and "NVM_config s' = NVM_config s" and "is_single s' = is_single s" and "length (ctx_array s') = length (ctx_array s)"
  using assms by (cases s; cases s'; simp add: keeps_def)+

lemma rfold_keeps:
  assumes "rfold f xs s = Inr s'" and "\<And>x a b. f x a = Inr b \<Longrightarrow> keeps a b"
  shows "keeps s s'"
  by (rule rfold_invariant [OF assms(1), where I = "keeps s"]) (auto intro: keeps_trans assms(2))

subsection \<open>User threads\<close>

lemma begin_op_keeps [keeps_intros]: "begin_op t s = Inr s' \<Longrightarrow> keeps s s'"
  by (auto simp: begin_op_def res_simps Let_def)

lemma end_op_keeps [keeps_intros]: "end_op t s = Inr s' \<Longrightarrow> keeps s s'"
  by (auto simp: end_op_def res_simps)

lemma push_user_log_keeps: "push_user_log t e s = Inr s' \<Longrightarrow> keeps s s'"
  by (auto simp: push_user_log_def res_simps)

lemma mark_line_keeps: "mark_line t b i a s = Inr (new, s') \<Longrightarrow> keeps s s'"
  by (auto simp: mark_line_def res_simps split: if_splits dest!: push_user_log_keeps)

lemma mark_loop_keeps: "mark_loop t b n i a app s = Inr (app', s') \<Longrightarrow> keeps s s'"
  by (induction n arbitrary: i a app s) (auto simp: res_simps dest!: mark_line_keeps intro: keeps_trans)

lemma mark_keeps [keeps_intros]: "mark t a sz s = Inr s' \<Longrightarrow> keeps s s'"
  by (auto simp: mark_def res_simps Let_def split: if_splits dest!: mark_loop_keeps)

lemma pwrite_keeps [keeps_intros]: "pwrite t a val s = Inr s' \<Longrightarrow> keeps s s'"
  by (auto simp: pwrite_def res_simps dest!: mark_keeps)

lemma record_alloc_op_keeps: "record_alloc_op t e a sz s = Inr s' \<Longrightarrow> keeps s s'"
  by (auto simp: record_alloc_op_def res_simps Let_def split: if_splits)

lemma malloc_keeps [keeps_intros]: "malloc_with_create_log al t sz s = Inr (p, s') \<Longrightarrow> keeps s s'"
  by (auto simp: malloc_with_create_log_def res_simps Let_def split_beta split: if_splits
      dest!: record_alloc_op_keeps begin_op_keeps end_op_keeps) (simp_all add: keeps_def)

lemma free_keeps [keeps_intros]: "free_with_create_log al t a sz s = Inr s' \<Longrightarrow> keeps s s'"
  by (auto simp: free_with_create_log_unfold release_or_delay_def res_simps Let_def split_beta split: if_splits
      dest!: record_alloc_op_keeps begin_op_keeps end_op_keeps) (simp_all add: keeps_def)

subsection \<open>The root table\<close>

lemma bucket_unlock_keeps: "bucket_unlock b s = Inr s' \<Longrightarrow> keeps s s'"
  by (auto simp: bucket_unlock_def split: if_splits)

lemma node_new_keeps: "node_new t rootid a n s = Inr s' \<Longrightarrow> keeps s s'"
  by (auto simp: node_new_def store_field_def res_simps Let_def split: if_splits dest!: mark_keeps intro: keeps_trans)

lemma node_update_keeps: "node_update t n a s = Inr s' \<Longrightarrow> keeps s s'"
  by (auto simp: node_update_def store_field_def res_simps dest!: mark_keeps)

lemma pnew_keeps:
  assumes "pnew al t sz f s = Inr (p, s')" and "\<And>p s s'. f p s = Inr s' \<Longrightarrow> keeps s s'"
  shows "keeps s s'"
  using assms by (auto simp: pnew_def res_simps dest!: malloc_keeps intro: keeps_trans)

lemma roottable_set_keeps [keeps_intros]:
  assumes "roottable_set al t this rootid a s = Inr s'"
  shows "keeps s s'"
proof -
  define s1 where "s1 b = bucket_lock b s" for b
  have s1: "keeps (s1 b) = keeps s" for b by (simp add: s1_def bucket_lock_def fun_eq_iff)
  show ?thesis
    using assms unfolding roottable_set_def Let_def s1_def [symmetric]
    by (auto simp: res_simps store_field_def s1 split: if_splits
        dest!: node_update_keeps bucket_unlock_keeps mark_keeps pnew_keeps [OF _ node_new_keeps])
       (simp_all add: keeps_def s1_def bucket_lock_def)
qed

subsection \<open>The checkpoint\<close>

lemma fold_keeps: "(\<And>x s. keeps s (f x s)) \<Longrightarrow> keeps s (fold f xs s)"
  by (induction xs arbitrary: s) (auto intro: keeps_trans)

lemma check_valid_keeps: "check_valid s = Inr s' \<Longrightarrow> keeps s s'"
  unfolding check_valid_def Let_def check_valid_block_def
  by (erule rfold_keeps, auto simp: res_simps elim!: rfold_keeps)
     (auto simp: check_valid_entry_def res_simps Let_def split: if_splits)

lemma cpallocator_checkpointing_keeps: "cpallocator_checkpointing s = Inr s' \<Longrightarrow> keeps s s'"
proof -
  have e: "record_sizes_entry b i u = Inr v \<Longrightarrow> keeps u v" for b i and u v :: "('a, 'b) escort_scheme"
    by (auto simp: record_sizes_entry_def res_simps Let_def)
  have b: "record_sizes_block b u = Inr v \<Longrightarrow> keeps u v" for b and u v :: "('a, 'b) escort_scheme"
    unfolding record_sizes_block_def by (erule rfold_keeps) (rule e)
  assume "cpallocator_checkpointing s = Inr s'"
  then show "keeps s s'"
    unfolding cpallocator_checkpointing_def Let_def
    by (rule rfold_keeps) (auto simp: res_simps split_beta dest!: rfold_keeps [OF _ b])
qed

lemma dealloc_keeps: "dealloc al s = Inr s' \<Longrightarrow> keeps s s'"
  using dealloc_effect [of al s] by (auto simp: keeps_def)

lemma log_line_keeps: "log_line p i a s = Inr s' \<Longrightarrow> keeps s s'"
  by (auto simp: log_line_def res_simps split: if_splits)

lemma log_lines_keeps: "log_lines p n i a s = Inr s' \<Longrightarrow> keeps s s'"
  by (induction n arbitrary: i a s) (auto simp: res_simps dest!: log_line_keeps intro: keeps_trans)

lemma log_persistence_unit_keeps: "log_persistence_unit s = Inr s' \<Longrightarrow> keeps s s'"
proof -
  have r: "log_region p r u = Inr v \<Longrightarrow> keeps u v" for p r and u v :: "('a, 'b) escort_scheme"
    by (auto simp: log_region_def res_simps split_beta dest!: log_lines_keeps)
  have c: "log_ctx p t u = Inr v \<Longrightarrow> keeps u v" for p t and u v :: "('a, 'b) escort_scheme"
    by (auto simp: log_ctx_def clear_list_def res_simps dest!: rfold_keeps [OF _ r])
  assume "log_persistence_unit s = Inr s'"
  then show "keeps s s'" unfolding log_persistence_unit_def by (rule rfold_keeps) (rule c)
qed

lemma nvm_heap_update_unit_keeps: "keeps s (nvm_heap_update_unit s)"
proof -
  have e: "keeps u (replay_entry x u)" for x and u :: "('a, 'b) escort_scheme"
    by (simp add: replay_entry_def Let_def)
  have r: "keeps u (replay_redo_log l u)" for l and u :: "('a, 'b) escort_scheme"
    unfolding replay_redo_log_def
    by (rule fold_keeps) (simp add: replay_block_def Let_def fold_keeps e)
  have c: "keeps u (clear_redo_logs u)" for u :: "('a, 'b) escort_scheme"
    unfolding clear_redo_logs_def
    by (rule keeps_trans [OF _ fold_keeps]) (simp_all add: clear_cp_log_def clear_ctx_log_def Let_def split_beta)
  show ?thesis
    unfolding nvm_heap_update_unit_def Let_def
    by (rule keeps_trans [OF keeps_trans [OF r fold_keeps] c]) (rule r)
qed

lemma enter_phase_keeps: "enter_phase e p s = Inr (e', s') \<Longrightarrow> keeps s s'"
  by (auto simp: enter_phase_def res_simps)

lemma log_and_update_keeps:
  "log_persistence single s = Inr s' \<Longrightarrow> keeps s s'" "nvm_heap_update single s = Inr s' \<Longrightarrow> keeps s s'"
  by (auto simp: log_persistence_def nvm_heap_update_def res_simps split: if_splits
      dest!: check_valid_keeps log_persistence_unit_keeps cpallocator_checkpointing_keeps
      intro: keeps_trans keeps_trans [OF _ nvm_heap_update_unit_keeps])

lemma checkpoint_round_keeps [keeps_intros]: "checkpoint_round al single e s = Inr (e', s') \<Longrightarrow> keeps s s'"
  by (auto simp: checkpoint_round_def res_simps dest!: enter_phase_keeps dealloc_keeps log_and_update_keeps)
     (simp_all add: keeps_def)

lemma finalize_keeps [keeps_intros]: "finalize single e s = Inr s' \<Longrightarrow> keeps s s'"
  by (auto simp: finalize_def res_simps dest!: enter_phase_keeps log_and_update_keeps) (simp_all add: keeps_def)

end
