(* ===== verification/ApiClaims.thy ===== *)
theory ApiClaims
  imports CallFrame RootTableClaims
begin

section \<open>What a client of the interface can rely on\<close>

text \<open>
  Sequences of calls of the interface by any threads, with checkpoints between them, and what holds
  after them; then the calls that do not do what their name says.
\<close>

datatype api_call =
    Thread_Init nat
  | Thread_Finalize nat
  | Begin_Op nat
  | End_Op nat
  | Malloc nat size_t
  | Free nat ptr size_t
  | Write_Region nat ptr size_t
  | Set_Root nat "byte list" ptr
  | Remove_Root nat "byte list"
  | Checkpoint

fun api_step :: "'j allocator \<Rightarrow> api_call \<Rightarrow> ('j, 'z) process_scheme \<Rightarrow> ('j, 'z) process_scheme res" where
  "api_step al (Thread_Init th) s = escort_thread_init th s"
| "api_step al (Thread_Finalize th) s = escort_thread_finalize th s"
| "api_step al (Begin_Op th) s = escort_begin_op th s"
| "api_step al (End_Op th) s = escort_end_op th s"
| "api_step al (Malloc th sz) s = rbind (escort_malloc al th sz s) (\<lambda>(_, s). Inr s)"
| "api_step al (Free th addr sz) s = escort_free al th addr sz s"
| "api_step al (Write_Region th addr sz) s = escort_write_region th addr sz s"
| "api_step al (Set_Root th rootid addr) s = escort_set_root al th rootid addr s"
| "api_step al (Remove_Root th rootid) s = escort_remove_root th rootid s"
| "api_step al Checkpoint s = rbind (checkpoint_round al (is_single s) (GLOBAL_EPOCH s) s) (\<lambda>(_, s). Inr s)"

definition api_run :: "'j allocator \<Rightarrow> api_call list \<Rightarrow> ('j, 'z) process_scheme \<Rightarrow> ('j, 'z) process_scheme res" where
  "api_run al = rfold (api_step al)"

text \<open>Every registered thread has a context of its own, and the file counts the contexts.\<close>

definition threads_ok :: "('j, 'z) process_scheme \<Rightarrow> bool" where
  "threads_ok s \<longleftrightarrow> \<not> execute_right s \<and>
     (\<forall>th t. lv_ctx s th = Some t \<longrightarrow> t < length (ctx_array s)) \<and>
     (\<forall>th th' t. lv_ctx s th = Some t \<longrightarrow> lv_ctx s th' = Some t \<longrightarrow> th = th') \<and>
     nc_cells (NVM_config s) (nc_user_num_addr (NVM_config s)) = word_of_nat (length (ctx_array s))"

lemma threads_ok_keeps: "keeps s s' \<Longrightarrow> threads_ok s \<Longrightarrow> threads_ok s'"
  by (simp add: threads_ok_def keeps_process)

definition registers :: "('j, 'z) process_scheme \<Rightarrow> ('j, 'z) process_scheme \<Rightarrow> bool" where
  "registers s s' \<longleftrightarrow> (\<exists>th. lv_ctx s th = None \<and> lv_ctx s' = (lv_ctx s)(th \<mapsto> length (ctx_array s))) \<and>
     ctx_array s' = ctx_array s @ [userthreadctx_new] \<and> NVM_config s' = add_user_num (NVM_config s) \<and>
     \<not> execute_right s'"

text \<open>A call keeps the upper part of the state, registers a thread, or notes a finished context.\<close>

lemma thread_init_registers: "escort_thread_init th s = Inr s' \<Longrightarrow> registers s s' \<and> lv_ctx s' th = Some (length (ctx_array s))"
  by (auto simp: escort_thread_init_def init_userthreadctx_def wait_execute_right_def has_execute_right_def
      release_execute_right_def registers_def res_simps rassert_def Let_def split: if_splits)

lemma thread_finalize_frame:
  "escort_thread_finalize th s = Inr s' \<Longrightarrow> lv_ctx s' = lv_ctx s \<and> ctx_array s' = ctx_array s \<and>
     NVM_config s' = NVM_config s \<and> \<not> execute_right s' \<and>
     ctx_delete_array s' = (ctx_delete_array s)(unat ((GLOBAL_EPOCH s - 2) mod 4) :=
       ctx_delete_array s (unat ((GLOBAL_EPOCH s - 2) mod 4)) @ [lv_ctx s th])"
  by (auto simp: escort_thread_finalize_def finalize_userthreadctx_def wait_execute_right_def has_execute_right_def
      release_execute_right_def res_simps Let_def split: if_splits)

lemma api_step_cases:
  assumes "api_step al call s = Inr s'"
  shows "keeps s s' \<or> registers s s' \<or> (\<exists>th. escort_thread_finalize th s = Inr s')"
  using assms
  by (cases call)
     (auto simp: escort_begin_op_def escort_end_op_def escort_malloc_def escort_free_def escort_write_region_def
       escort_set_root_def set_root_def escort_remove_root_def res_simps
       dest!: thread_init_registers intro: keeps_intros)

lemma api_step_threads_ok:
  assumes "api_step al call s = Inr s'" and "threads_ok s"
  shows "threads_ok s'"
proof -
  consider "keeps s s'" | "registers s s'" | th where "escort_thread_finalize th s = Inr s'"
    using api_step_cases [OF assms(1)] by blast
  then show ?thesis
  proof cases
    case 1
    then show ?thesis using assms(2) by (rule threads_ok_keeps)
  next
    case 2
    then show ?thesis
      using assms(2) by (fastforce simp: threads_ok_def registers_def add_user_num_def set_cell_def split: if_splits)
  next
    case 3
    then show ?thesis using assms(2) thread_finalize_frame [OF 3] by (simp add: threads_ok_def)
  qed
qed

text \<open>The registered threads stay registered.\<close>

lemma api_step_registered:
  assumes "api_step al call s = Inr s'" and "lv_ctx s th = Some t"
  shows "lv_ctx s' th = Some t \<and> length (ctx_array s) \<le> length (ctx_array s')"
proof -
  consider "keeps s s'" | "registers s s'" | th' where "escort_thread_finalize th' s = Inr s'"
    using api_step_cases [OF assms(1)] by blast
  then show ?thesis
  proof cases
    case 1
    then show ?thesis using assms(2) by (simp add: keeps_process)
  next
    case 2
    then show ?thesis using assms(2) by (auto simp: registers_def)
  next
    case 3
    then show ?thesis using assms(2) thread_finalize_frame [OF 3] by simp
  qed
qed

subsection \<open>Registered threads\<close>

definition demo_process :: "unit escort \<Rightarrow> unit process" where
  "demo_process s = \<lparr>GLOBAL_EPOCH = GLOBAL_EPOCH s, BitMap = BitMap s, ByteMap = ByteMap s,
     ByteMap_NVM = ByteMap_NVM s, Plog_Management = Plog_Management s,
     Allocatorlog_Management = Allocatorlog_Management s, ctx_array = ctx_array s, cp_log = cp_log s,
     dram = dram s, nvm = nvm s, nvm_offset = nvm_offset s, heap_alloc = (),
     NVM_config = reset_thread_num demo_config, RootTable = byte_ptr 0, is_single = True,
     BitMap_set = (\<lambda>_. True), ByteMap_set = (\<lambda>_. True), ByteMap_NVM_set = True, CpMaster_set = True,
     ctx_delete_array = (\<lambda>_. []), execute_right = False, num_wait_threads = 0, isPersisting = True,
     lv_ctx = (if ctx_array s = [] then (\<lambda>_. None) else [0 \<mapsto> 0])\<rparr>"

lemma demo_process_threads_ok: "threads_ok (demo_process demo_start)"
  by (simp add: threads_ok_def demo_process_def demo_start_def reset_thread_num_def set_cell_def)

lemma demo_two_threads: "\<exists>s'. api_run demo_al [Thread_Init 1, Thread_Init 2, Thread_Finalize 1] (demo_process demo_start) = Inr s' \<and>
    lv_ctx s' 1 = Some 0 \<and> length (ctx_array s') = 2"
  by (simp add: api_run_def escort_thread_init_def init_userthreadctx_def wait_execute_right_def has_execute_right_def
      release_execute_right_def rassert_def escort_thread_finalize_def finalize_userthreadctx_def Let_def demo_process_def
      demo_start_def)

text \<open>C31: whatever threads call, in any order and with any checkpoints between the calls, as long as every call
  returns: each registered thread has a context of its own in the list of contexts, the right to execute is
  free between the calls, and the file counts the contexts.\<close>

theorem threads_apart:
  assumes "api_run al calls s = Inr s'" and "threads_ok s"
  shows "threads_ok s'"
  using assms(1) unfolding api_run_def
  by (rule rfold_invariant [where I = threads_ok]) (use assms(2) api_step_threads_ok in blast)+

theorem threads_apart_witness:
  "\<exists>s'. api_run demo_al [Thread_Init 1, Thread_Init 2, Thread_Finalize 1] (demo_process demo_start) = Inr s' \<and> threads_ok s'"
  using demo_two_threads threads_apart [OF _ demo_process_threads_ok] by blast

text \<open>A context is never given up: once a thread is registered it stays registered under the same context,
  \<open>escort_thread_finalize\<close> or not, so that its next \<open>escort_thread_init\<close> fails the assertion; and the number of
  contexts the checkpointing thread visits never goes down.\<close>

lemma contexts_never_freed:
  assumes "api_run al calls s = Inr s'" and "lv_ctx s th = Some t"
  shows "lv_ctx s' th = Some t \<and> escort_thread_init th s' = Inl AssertFailed \<and>
    get_num_user_threads s \<le> get_num_user_threads s'"
proof -
  have "lv_ctx s' th = Some t \<and> length (ctx_array s) \<le> length (ctx_array s')"
    using assms(1) unfolding api_run_def
  proof (rule rfold_invariant [where I = "\<lambda>u. lv_ctx u th = Some t \<and> length (ctx_array s) \<le> length (ctx_array u)"])
    show "lv_ctx s th = Some t \<and> length (ctx_array s) \<le> length (ctx_array s)" using assms(2) by simp
    show "lv_ctx b th = Some t \<and> length (ctx_array s) \<le> length (ctx_array b)"
      if "lv_ctx a th = Some t \<and> length (ctx_array s) \<le> length (ctx_array a)" "api_step al x a = Inr b" for x a b
      using api_step_registered [OF that(2), of th t] that(1) by auto
  qed
  then show ?thesis by (simp add: escort_thread_init_def rassert_def get_num_user_threads_def)
qed

text \<open>The phase bits do not matter modulo 4.\<close>

lemma slot_of_epoch: "unat ((e - 2) mod 4) = (unat (Epoch e) + 2) mod 4" for e :: "64 word"
proof -
  have a: "unat (w mod 4) = unat w mod 4" for w :: "64 word" by (simp add: unat_mod)
  have b: "unat (Epoch e) mod 4 = unat e mod 4" unfolding unat_Epoch by (simp add: mod_mod_cancel)
  have m: "(- 2 :: 64 word) = 18446744073709551614" by simp
  have d: "unat (e - 2) = (unat e + (2 ^ 64 - 2)) mod 2 ^ 64"
    unfolding diff_conv_add_uminus [of e 2] m by (simp add: unat_word_ariths)
  have "unat (e - 2) mod 4 = (unat e + (2 ^ 64 - 2)) mod 4" unfolding d by (simp add: mod_mod_cancel)
  also have "\<dots> = (unat e + (2 ^ 64 - 2) mod 4) mod 4" by (simp only: mod_add_right_eq)
  also have "(2 ^ 64 - 2) mod 4 = (2 :: nat)" by simp
  also have "(unat e + 2) mod 4 = (unat e mod 4 + 2) mod 4" by (simp only: mod_add_left_eq)
  also have "\<dots> = (unat (Epoch e) + 2) mod 4" by (simp only: b [symmetric] mod_add_left_eq)
  finally show ?thesis by (simp only: a)
qed

text \<open>The list to which a finished context is noted is one of the four of \<^verbatim>\<open>_ctx_delete_array\<close>, chosen by the
  number of the epoch whatever its phase; no other list changes.\<close>

lemma delete_array_bounds:
  assumes "escort_thread_finalize th s = Inr s'"
  shows "\<exists>slot < 4. slot = (unat (Epoch (GLOBAL_EPOCH s)) + 2) mod 4 \<and>
    ctx_delete_array s' = (ctx_delete_array s)(slot := ctx_delete_array s slot @ [lv_ctx s th])"
  using thread_finalize_frame [OF assms]
  by (intro exI [of _ "(unat (Epoch (GLOBAL_EPOCH s)) + 2) mod 4"]) (simp add: slot_of_epoch)

subsection \<open>Calls outside an operation\<close>

text \<open>Outside an operation, every call that needs one fails its assertion; \<open>malloc\<close> and \<open>free\<close>, which open an
  operation of their own, are not among them.\<close>

lemma outside_operation:
  assumes "lv_ctx s th = Some t" and "t < length (ctx_array s)" and "uc_epoch (ctx_array s ! t) = 0"
  shows "escort_end_op th s = Inl AssertFailed \<and> escort_write_region th addr sz s = Inl AssertFailed \<and>
    escort_set_root al th rootid addr s = Inl AssertFailed \<and> escort_get_root th rootid s = Inl AssertFailed \<and>
    escort_remove_root th rootid s = Inl AssertFailed"
  using assms
  by (simp add: escort_end_op_def escort_write_region_def escort_set_root_def escort_get_root_def escort_remove_root_def
      own_ctx_def end_op_def mark_def set_root_def get_root_def in_operation_def get_ctx_def rassert_def)

text \<open>A thread that has not called \<open>escort_thread_init\<close> can call nothing else.\<close>

lemma unregistered_thread:
  assumes "lv_ctx s th = None"
  shows "escort_begin_op th s = Inl AssertFailed \<and> escort_end_op th s = Inl AssertFailed \<and>
    escort_malloc al th sz s = Inl AssertFailed \<and> escort_free al th addr sz s = Inl AssertFailed \<and>
    escort_write_region th addr sz s = Inl AssertFailed \<and> escort_set_root al th rootid addr s = Inl AssertFailed \<and>
    escort_get_root th rootid s = Inl AssertFailed \<and> escort_remove_root th rootid s = Inl AssertFailed"
  using assms
  by (simp add: escort_begin_op_def escort_end_op_def escort_malloc_def escort_free_def escort_write_region_def
      escort_set_root_def escort_get_root_def escort_remove_root_def own_ctx_def)

subsection \<open>Calls that do something else\<close>

text \<open>\<open>escort_remove_root\<close> of a name that the table has returns, and \<open>escort_get_root\<close> still finds the name.\<close>

lemma removed_root_found:
  assumes "lv_ctx s th = Some t" and "t < length (ctx_array s)" and "uc_epoch (ctx_array s ! t) \<noteq> 0"
    and "RootTable s = byte_ptr T" and "table_ok T f (dram s)" and "bucket_no rootid < 512" and "0 \<notin> set rootid"
    and "table_map f (dram s) rootid = Some a"
  shows "\<exists>s'. escort_remove_root th rootid s = Inr s' \<and> escort_get_root th rootid s' = Inr a"
proof -
  have "roottable_get (RootTable s) rootid s = Inr a"
    using roottable_get_map [OF assms(5-7)] assms(4,8) by simp
  then have "get_root t rootid s = Inr a"
    using assms(2,3) by (simp add: get_root_def in_operation_def get_ctx_def rassert_def)
  then show ?thesis using assms(1) by (simp add: escort_remove_root_def escort_get_root_def own_ctx_def)
qed

lemma first_start_epoch: "escort_init al bt n False l = Inr l' \<Longrightarrow> GLOBAL_EPOCH l' = 2"
  by (auto simp: escort_init_def init_roottable_def Let_def res_simps split_beta dest!: init_checkpointing_thread_frame)

text \<open>If the process that has started the library for the first time ends before the checkpointing thread has
  entered its loop, the thread divides by the number of its rounds, which is zero.\<close>

lemma end_before_first_round:
  assumes "escort_init al bt n False l = Inr l'"
  shows "checkpointing al single 0 d l' = Inl DivByZero"
proof -
  have "Epoch 2 = 2" by (simp add: Epoch_take_bit take_bit_eq_mod)
  then show ?thesis
    using first_start_epoch [OF assms] by (simp add: checkpointing_def checkpointing_end_def plog_ave_def)
qed

end
