(* ===== verification/ExecuteRight.thy ===== *)
theory ExecuteRight
  imports Prelude
begin

section \<open>The right to execute\<close>

text \<open>
  The list of contexts is read by the checkpointing thread and extended by user threads. \<^verbatim>\<open>_has_execute_right\<close>
  and \<^verbatim>\<open>_num_wait_threads\<close> of \<^verbatim>\<open>cpmaster_t\<close> are to keep the two apart: the loop of \<^verbatim>\<open>checkpointing\<close>,
  \<^verbatim>\<open>init_userthreadctx\<close> and \<^verbatim>\<open>finalize_userthreadctx\<close> (\<^verbatim>\<open>src/src/checkpointing.cpp\<close>) as threads that take turns
  at single accesses of these two variables. Fewer than \<open>2\<^sup>3\<^sup>2\<close> threads are assumed, so that the counter
  is a natural number.
\<close>

text \<open>
  The checkpointing thread: at the test of the loop, at the wait for the right, in a round, at the wait for \<^verbatim>\<open>_num_wait_threads\<close>,
  and in \<^verbatim>\<open>finalize\<close>. The test reads \<^verbatim>\<open>isPersisting\<close>, which \<open>escort_finalize\<close> clears at any time, also before the first
  round; it may go either way. A user thread: outside, at the wait for the right, with the right before and after
  the decrement of the counter.
\<close>

datatype cp_place = Cp_Test | Cp_Acquire | Cp_Round | Cp_Pause | Cp_Finalize

datatype user_place = U_Out | U_Waiting | U_Inside | U_Leaving

record right_state =
  rs_right :: bool
  rs_waiting :: nat
  rs_cp :: cp_place
  rs_user :: "nat \<Rightarrow> user_place"
  rs_served :: "nat list"

definition rights_init :: right_state where
  "rights_init = \<lparr>rs_right = False, rs_waiting = 0, rs_cp = Cp_Test, rs_user = (\<lambda>_. U_Out), rs_served = []\<rparr>"

inductive right_step :: "right_state \<Rightarrow> right_state \<Rightarrow> bool" where
  cp_enter: "rs_cp s = Cp_Test \<Longrightarrow> right_step s (s\<lparr>rs_cp := Cp_Acquire\<rparr>)"
| cp_stop: "rs_cp s = Cp_Test \<Longrightarrow> right_step s (s\<lparr>rs_cp := Cp_Finalize\<rparr>)"
| cp_acquire: "rs_cp s = Cp_Acquire \<Longrightarrow> \<not> rs_right s \<Longrightarrow>
    right_step s (s\<lparr>rs_right := True, rs_cp := Cp_Round\<rparr>)"
| cp_release: "rs_cp s = Cp_Round \<Longrightarrow> right_step s (s\<lparr>rs_right := False, rs_cp := Cp_Pause\<rparr>)"
| cp_again: "rs_cp s = Cp_Pause \<Longrightarrow> rs_waiting s = 0 \<Longrightarrow> right_step s (s\<lparr>rs_cp := Cp_Test\<rparr>)"
| user_count: "rs_user s t = U_Out \<Longrightarrow>
    right_step s (s\<lparr>rs_waiting := rs_waiting s + 1, rs_user := (rs_user s)(t := U_Waiting)\<rparr>)"
| user_acquire: "rs_user s t = U_Waiting \<Longrightarrow> \<not> rs_right s \<Longrightarrow>
    right_step s (s\<lparr>rs_right := True, rs_user := (rs_user s)(t := U_Inside), rs_served := rs_served s @ [t]\<rparr>)"
| user_uncount: "rs_user s t = U_Inside \<Longrightarrow>
    right_step s (s\<lparr>rs_waiting := rs_waiting s - 1, rs_user := (rs_user s)(t := U_Leaving)\<rparr>)"
| user_release: "rs_user s t = U_Leaving \<Longrightarrow>
    right_step s (s\<lparr>rs_right := False, rs_user := (rs_user s)(t := U_Out)\<rparr>)"

definition counted :: "right_state \<Rightarrow> nat set" where
  "counted s = {t. rs_user s t = U_Waiting \<or> rs_user s t = U_Inside}"

definition holders :: "right_state \<Rightarrow> nat set" where
  "holders s = {t. rs_user s t = U_Inside \<or> rs_user s t = U_Leaving}"

definition rights_inv :: "right_state \<Rightarrow> bool" where
  "rights_inv s \<longleftrightarrow> finite (counted s) \<and> rs_waiting s = card (counted s) \<and>
     (\<forall>t u. t \<in> holders s \<longrightarrow> u \<in> holders s \<longrightarrow> t = u) \<and>
     (rs_cp s = Cp_Round \<longrightarrow> holders s = {}) \<and>
     (rs_right s \<longleftrightarrow> rs_cp s = Cp_Round \<or> holders s \<noteq> {})"

lemma rights_inv_init: "rights_inv rights_init"
  by (simp add: rights_inv_def rights_init_def counted_def holders_def)

lemma counted_upd:
  "rs_user s t = U_Out \<Longrightarrow> counted (s\<lparr>rs_waiting := n, rs_user := (rs_user s)(t := U_Waiting)\<rparr>) = insert t (counted s)"
  "rs_user s t = U_Waiting \<Longrightarrow>
     counted (s\<lparr>rs_right := r, rs_user := (rs_user s)(t := U_Inside), rs_served := l\<rparr>) = counted s"
  "rs_user s t = U_Inside \<Longrightarrow> counted (s\<lparr>rs_waiting := n, rs_user := (rs_user s)(t := U_Leaving)\<rparr>) = counted s - {t}"
  "rs_user s t = U_Leaving \<Longrightarrow> counted (s\<lparr>rs_right := r, rs_user := (rs_user s)(t := U_Out)\<rparr>) = counted s"
  by (auto simp: counted_def)

lemma holders_upd:
  "rs_user s t = U_Out \<Longrightarrow> holders (s\<lparr>rs_waiting := n, rs_user := (rs_user s)(t := U_Waiting)\<rparr>) = holders s"
  "holders (s\<lparr>rs_right := r, rs_user := (rs_user s)(t := U_Inside), rs_served := l\<rparr>) = insert t (holders s)"
  "rs_user s t = U_Inside \<Longrightarrow> holders (s\<lparr>rs_waiting := n, rs_user := (rs_user s)(t := U_Leaving)\<rparr>) = holders s"
  "holders (s\<lparr>rs_right := r, rs_user := (rs_user s)(t := U_Out)\<rparr>) = holders s - {t}"
  by (auto simp: holders_def)

lemma counted_cp [simp]: "counted (s\<lparr>rs_right := r\<rparr>) = counted s" "counted (s\<lparr>rs_cp := p\<rparr>) = counted s"
  and holders_cp [simp]: "holders (s\<lparr>rs_right := r\<rparr>) = holders s" "holders (s\<lparr>rs_cp := p\<rparr>) = holders s"
  by (simp_all add: counted_def holders_def)

lemma right_step_inv:
  assumes "right_step s s'" and "rights_inv s"
  shows "rights_inv s'"
  using assms(1)
proof (cases rule: right_step.cases)
  case (user_count t)
  then have "t \<notin> counted s" by (simp add: counted_def)
  then show ?thesis using user_count assms(2) by (simp add: rights_inv_def counted_upd holders_upd)
next
  case (user_acquire t)
  then show ?thesis using assms(2) by (simp add: rights_inv_def counted_upd holders_upd)
next
  case (user_uncount t)
  then have "t \<in> counted s" by (simp add: counted_def)
  then show ?thesis using user_uncount assms(2) by (simp add: rights_inv_def counted_upd holders_upd)
next
  case (user_release t)
  then have "t \<in> holders s" by (simp add: holders_def)
  then have "holders s - {t} = {}" "rs_cp s \<noteq> Cp_Round" using assms(2) unfolding rights_inv_def by blast+
  then show ?thesis using user_release assms(2) by (simp add: rights_inv_def counted_upd holders_upd)
qed (use assms(2) in \<open>auto simp: rights_inv_def\<close>)

lemma rights_reachable_inv: "right_step\<^sup>*\<^sup>* rights_init s \<Longrightarrow> rights_inv s"
  by (induction rule: rtranclp_induct) (auto intro: rights_inv_init right_step_inv)

subsection \<open>No deadlock\<close>

text \<open>A step of a thread that is already on its way.\<close>

definition moves :: "right_state \<Rightarrow> bool" where
  "moves s \<longleftrightarrow> (\<exists>s'. right_step s s' \<and> (\<forall>t. rs_user s t = U_Out \<longrightarrow> rs_user s' t = U_Out))"

lemma inv_moves:
  assumes inv: "rights_inv s" and busy: "rs_cp s \<noteq> Cp_Finalize \<or> counted s \<noteq> {}"
  shows "moves s"
proof (cases "holders s = {}")
  case False
  then obtain t where "rs_user s t = U_Inside \<or> rs_user s t = U_Leaving" by (auto simp: holders_def)
  then show ?thesis unfolding moves_def using user_uncount [of s t] user_release [of s t] by fastforce
next
  case True
  then have free: "rs_right s \<longleftrightarrow> rs_cp s = Cp_Round" using inv by (simp add: rights_inv_def)
  show ?thesis
  proof (cases "counted s = {} \<or> rs_cp s \<in> {Cp_Test, Cp_Acquire, Cp_Round}")
    case True
    then have "rs_waiting s = 0 \<or> rs_cp s \<in> {Cp_Test, Cp_Acquire, Cp_Round}" using inv by (auto simp: rights_inv_def)
    then have "\<exists>r p. right_step s (s\<lparr>rs_right := r, rs_cp := p\<rparr>) \<or> right_step s (s\<lparr>rs_cp := p\<rparr>)"
      using busy True free cp_enter [of s] cp_acquire [of s] cp_release [of s] cp_again [of s]
      by (cases "rs_cp s") auto
    then show ?thesis unfolding moves_def by fastforce
  next
    case False
    then obtain t where "rs_user s t = U_Waiting" "\<not> rs_right s"
      using True free by (auto simp: counted_def holders_def)
    then show ?thesis unfolding moves_def using user_acquire [of s t] by fastforce
  qed
qed

subsection \<open>A waiting thread is served before the next round\<close>

lemma counted_waiting: "rights_inv s \<Longrightarrow> t \<in> counted s \<Longrightarrow> 0 < rs_waiting s"
  unfolding rights_inv_def by (metis card_gt_0_iff empty_iff)

definition served_or_paused :: "nat \<Rightarrow> nat \<Rightarrow> right_state \<Rightarrow> bool" where
  "served_or_paused n t s \<longleftrightarrow> n < count_list (rs_served s) t \<or>
     (rs_cp s = Cp_Pause \<and> rs_user s t = U_Waiting \<and> n \<le> count_list (rs_served s) t)"

lemma served_or_paused_step:
  assumes "right_step s s'" and "rights_inv s" and "served_or_paused n t s"
  shows "served_or_paused n t s'"
  using assms(1)
proof (cases rule: right_step.cases)
  case cp_again
  then show ?thesis using assms(2,3) counted_waiting [OF assms(2), of t] by (auto simp: served_or_paused_def counted_def)
qed (use assms(3) in \<open>auto simp: served_or_paused_def\<close>)

lemma served_before_next_round:
  assumes "rights_inv s" and "rs_cp s = Cp_Pause" and "rs_user s t = U_Waiting"
    and "right_step\<^sup>*\<^sup>* s s'" and "rs_cp s' \<noteq> Cp_Pause"
  shows "count_list (rs_served s) t < count_list (rs_served s') t"
proof -
  have "rights_inv s' \<and> served_or_paused (count_list (rs_served s) t) t s'"
    using assms(4)
  proof (induction rule: rtranclp_induct)
    case base
    then show ?case using assms(1-3) by (simp add: served_or_paused_def)
  next
    case (step u v)
    then show ?case using right_step_inv served_or_paused_step by blast
  qed
  then show ?thesis using assms(5) by (simp add: served_or_paused_def)
qed

subsection \<open>What the protocol guarantees\<close>

lemma rights_first_step: "right_step\<^sup>*\<^sup>* rights_init (rights_init\<lparr>rs_waiting := 1, rs_user := (\<lambda>_. U_Out)(7 := U_Waiting)\<rparr>)"
  using user_count [of rights_init 7] by (intro r_into_rtranclp) (simp add: rights_init_def)

text \<open>C28: in every reachable state at most one thread has the right to execute: no two user threads are inside, and none
  is while the checkpointing thread is in a round; the counter is the number of threads that wait or are inside.\<close>

theorem right_exclusive:
  assumes "right_step\<^sup>*\<^sup>* rights_init s"
  shows "(\<forall>t u. t \<in> holders s \<longrightarrow> u \<in> holders s \<longrightarrow> t = u) \<and> (rs_cp s = Cp_Round \<longrightarrow> holders s = {}) \<and>
    rs_waiting s = card (counted s)"
  using rights_reachable_inv [OF assms] by (simp add: rights_inv_def)

theorem right_exclusive_witness: "card (counted (rights_init\<lparr>rs_waiting := 1, rs_user := (\<lambda>_. U_Out)(7 := U_Waiting)\<rparr>)) = 1"
  using right_exclusive [OF rights_first_step] by simp

text \<open>C30: no deadlock: as long as the checkpointing thread has not left its loop or a thread waits for the right, some
  thread that is on its way can take a step.\<close>

theorem right_no_deadlock:
  assumes "right_step\<^sup>*\<^sup>* rights_init s" and "rs_cp s \<noteq> Cp_Finalize \<or> counted s \<noteq> {}"
  shows "\<exists>s'. right_step s s' \<and> (\<forall>t. rs_user s t = U_Out \<longrightarrow> rs_user s' t = U_Out)"
  using inv_moves [OF rights_reachable_inv [OF assms(1)] assms(2)] by (simp add: moves_def)

theorem right_no_deadlock_witness: "\<exists>s'. right_step rights_init s'"
  using right_no_deadlock [of rights_init] by (auto simp: rights_init_def)

text \<open>C29: no starvation by the checkpointing thread: a thread that waits when a round has ended is served before the
  next round begins or the loop is left.\<close>

theorem right_served_before_round:
  assumes "right_step\<^sup>*\<^sup>* rights_init s" and "rs_cp s = Cp_Pause" and "rs_user s t = U_Waiting"
    and "right_step\<^sup>*\<^sup>* s s'" and "rs_cp s' \<noteq> Cp_Pause"
  shows "count_list (rs_served s) t < count_list (rs_served s') t"
  by (rule served_before_next_round [OF rights_reachable_inv [OF assms(1)] assms(2-5)])

definition demo_rights :: "cp_place \<Rightarrow> bool \<Rightarrow> nat \<Rightarrow> user_place \<Rightarrow> nat list \<Rightarrow> right_state" where
  "demo_rights p r n u l = \<lparr>rs_right = r, rs_waiting = n, rs_cp = p, rs_user = (\<lambda>_. U_Out)(7 := u), rs_served = l\<rparr>"

lemma demo_rights_start: "right_step\<^sup>*\<^sup>* rights_init (demo_rights Cp_Pause False 0 U_Out [])"
proof -
  have 0: "rights_init = demo_rights Cp_Test False 0 U_Out []"
    by (simp add: rights_init_def demo_rights_def fun_eq_iff)
  have e: "right_step (demo_rights Cp_Test False 0 U_Out []) (demo_rights Cp_Acquire False 0 U_Out [])"
    using cp_enter [of "demo_rights Cp_Test False 0 U_Out []"] by (simp add: demo_rights_def)
  have 1: "right_step (demo_rights Cp_Acquire False 0 U_Out []) (demo_rights Cp_Round True 0 U_Out [])"
    using cp_acquire [of "demo_rights Cp_Acquire False 0 U_Out []"] by (simp add: demo_rights_def)
  have 2: "right_step (demo_rights Cp_Round True 0 U_Out []) (demo_rights Cp_Pause False 0 U_Out [])"
    using cp_release [of "demo_rights Cp_Round True 0 U_Out []"] by (simp add: demo_rights_def)
  show ?thesis unfolding 0 using e 1 2 by (meson converse_rtranclp_into_rtranclp rtranclp.rtrancl_refl)
qed

lemma demo_rights_run:
  "right_step\<^sup>*\<^sup>* rights_init (demo_rights Cp_Pause False 1 U_Waiting [])"
  "right_step\<^sup>*\<^sup>* (demo_rights Cp_Pause False 1 U_Waiting []) (demo_rights Cp_Test False 0 U_Out [7])"
proof -
  have 3: "right_step (demo_rights Cp_Pause False 0 U_Out []) (demo_rights Cp_Pause False 1 U_Waiting [])"
    using user_count [of "demo_rights Cp_Pause False 0 U_Out []" 7] by (simp add: demo_rights_def)
  have 4: "right_step (demo_rights Cp_Pause False 1 U_Waiting []) (demo_rights Cp_Pause True 1 U_Inside [7])"
    using user_acquire [of "demo_rights Cp_Pause False 1 U_Waiting []" 7] by (simp add: demo_rights_def)
  have 5: "right_step (demo_rights Cp_Pause True 1 U_Inside [7]) (demo_rights Cp_Pause True 0 U_Leaving [7])"
    using user_uncount [of "demo_rights Cp_Pause True 1 U_Inside [7]" 7] by (simp add: demo_rights_def)
  have 6: "right_step (demo_rights Cp_Pause True 0 U_Leaving [7]) (demo_rights Cp_Pause False 0 U_Out [7])"
    using user_release [of "demo_rights Cp_Pause True 0 U_Leaving [7]" 7] by (simp add: demo_rights_def)
  have 7: "right_step (demo_rights Cp_Pause False 0 U_Out [7]) (demo_rights Cp_Test False 0 U_Out [7])"
    using cp_again [of "demo_rights Cp_Pause False 0 U_Out [7]"] by (simp add: demo_rights_def)
  show "right_step\<^sup>*\<^sup>* rights_init (demo_rights Cp_Pause False 1 U_Waiting [])"
    using demo_rights_start 3 by (rule rtranclp.rtrancl_into_rtrancl)
  show "right_step\<^sup>*\<^sup>* (demo_rights Cp_Pause False 1 U_Waiting []) (demo_rights Cp_Test False 0 U_Out [7])"
    using 4 5 6 7 by (meson converse_rtranclp_into_rtranclp rtranclp.rtrancl_refl)
qed

theorem right_served_before_round_witness:
  "count_list (rs_served (demo_rights Cp_Pause False 1 U_Waiting [])) 7 <
   count_list (rs_served (demo_rights Cp_Test False 0 U_Out [7])) 7"
  by (rule right_served_before_round [OF demo_rights_run(1) _ _ demo_rights_run(2)]) (simp_all add: demo_rights_def)

text \<open>C39: the last checkpoint is not protected: \<open>finalize\<close> does not take the right, so that a thread that registers
  can extend the list of contexts while the last checkpoint goes through it.\<close>

theorem finalize_not_protected:
  "\<exists>s t. right_step\<^sup>*\<^sup>* rights_init s \<and> rs_cp s = Cp_Finalize \<and> rs_user s t = U_Inside"
proof -
  have t: "right_step (demo_rights Cp_Pause False 0 U_Out []) (demo_rights Cp_Test False 0 U_Out [])"
    using cp_again [of "demo_rights Cp_Pause False 0 U_Out []"] by (simp add: demo_rights_def)
  have 3: "right_step (demo_rights Cp_Test False 0 U_Out []) (demo_rights Cp_Finalize False 0 U_Out [])"
    using cp_stop [of "demo_rights Cp_Test False 0 U_Out []"] by (simp add: demo_rights_def)
  have 4: "right_step (demo_rights Cp_Finalize False 0 U_Out []) (demo_rights Cp_Finalize False 1 U_Waiting [])"
    using user_count [of "demo_rights Cp_Finalize False 0 U_Out []" 7] by (simp add: demo_rights_def)
  have 5: "right_step (demo_rights Cp_Finalize False 1 U_Waiting []) (demo_rights Cp_Finalize True 1 U_Inside [7])"
    using user_acquire [of "demo_rights Cp_Finalize False 1 U_Waiting []" 7] by (simp add: demo_rights_def)
  have "right_step\<^sup>*\<^sup>* rights_init (demo_rights Cp_Finalize True 1 U_Inside [7])"
    using demo_rights_start t 3 4 5 by (meson rtranclp.rtrancl_into_rtrancl)
  then show ?thesis by (auto simp: demo_rights_def)
qed

end
