(* ===== verification/CowRace.thy ===== *)
theory CowRace
  imports MarkEffect
begin

section \<open>Copy on write against the log loop, at single accesses\<close>

text \<open>
  The steps of \<open>sys_step\<close> take the body of the loop of \<^verbatim>\<open>mark\<close> (\<^verbatim>\<open>src/src/userthreadctx_t.cpp\<close>) and the body of the
  loop of \<^verbatim>\<open>log_persistence_unit\<close> (\<^verbatim>\<open>src/src/checkpointing.cpp\<close>) as one step each. In the code nothing makes them so:
  the bitmaps are plain arrays, and the tests, the clearing and the push are accesses of their own. Here one line, one
  user thread in an operation of the current epoch and the checkpointing thread are followed at these accesses,
  through two checkpoints. Each thread runs a straight line of accesses, so an access is a function on the state, and
  an interleaving is a schedule, a list of \<open>True\<close> (the user thread) and \<open>False\<close> (the checkpointing thread).

  Shown: run without interruption, the accesses of a body do to the line what \<open>mark_line\<close> and \<open>log_line\<close> do; interrupted,
  each of the two checkpoints can leave on NVM the content of the checkpoint before.
\<close>

subsection \<open>The line and the two threads\<close>

text \<open>
  The user thread: the test of the new bit, that of the old one, the clearing of the old bit, the push of the old content, the setting of
  the new bit, then the write of the client and the end of the operation.
\<close>

datatype cow_user = Cu_Test | Cu_Test_Prev | Cu_Clear | Cu_Push | Cu_Set | Cu_Write | Cu_Done

text \<open>
  The checkpointing thread in a round: the test of the bit, the push, the clearing of the bit; the replay of its own log and of the
  log of the user thread; the clearing of the logs; then the wait for the operation, which precedes the second round.
\<close>

datatype cow_cp = Cc_Test | Cc_Push | Cc_Clear | Cc_Replay_Own | Cc_Replay_User | Cc_Clear_Logs | Cc_Wait | Cc_End

text \<open>
  \<open>cw_flag\<close>: the bit of the line in the bitmap of either parity. \<open>cw_round\<close>: the parity a round logs, \<open>False\<close> in the first
  and \<open>True\<close> in the second. \<open>cw_new\<close>: what the client is going to write.
\<close>

record 'l cow =
  cw_round :: bool
  cw_flag :: "bool \<Rightarrow> bool"
  cw_dram :: 'l
  cw_nvm :: 'l
  cw_new :: 'l
  cw_own_log :: "'l option"
  cw_user_log :: "'l option"
  cw_user :: cow_user
  cw_cp :: cow_cp

text \<open>The line was written in the epoch that has been closed: it holds \<open>b\<close>, the NVM heap still has \<open>a\<close>; the user thread is going to write \<open>c\<close>.\<close>

definition cow_init :: "'l \<Rightarrow> 'l \<Rightarrow> 'l \<Rightarrow> 'l cow" where
  "cow_init a b c = \<lparr>cw_round = False, cw_flag = (\<lambda>p. \<not> p), cw_dram = b, cw_nvm = a, cw_new = c,
     cw_own_log = None, cw_user_log = None, cw_user = Cu_Test, cw_cp = Cc_Test\<rparr>"

text \<open>The accesses of the user thread.\<close>

definition user_access :: "'l cow \<Rightarrow> 'l cow" where
  "user_access w = (case cw_user w of
     Cu_Test \<Rightarrow> w\<lparr>cw_user := (if cw_flag w True then Cu_Write else Cu_Test_Prev)\<rparr>
   | Cu_Test_Prev \<Rightarrow> w\<lparr>cw_user := (if cw_flag w False then Cu_Clear else Cu_Set)\<rparr>
   | Cu_Clear \<Rightarrow> w\<lparr>cw_flag := (cw_flag w)(False := False), cw_user := Cu_Push\<rparr>
   | Cu_Push \<Rightarrow> w\<lparr>cw_user_log := Some (cw_dram w), cw_user := Cu_Set\<rparr>
   | Cu_Set \<Rightarrow> w\<lparr>cw_flag := (cw_flag w)(True := True), cw_user := Cu_Write\<rparr>
   | Cu_Write \<Rightarrow> w\<lparr>cw_dram := cw_new w, cw_user := Cu_Done\<rparr>
   | Cu_Done \<Rightarrow> w)"

text \<open>The replay of a log that has at most one entry for the line.\<close>

definition replay_line :: "'l option \<Rightarrow> 'l \<Rightarrow> 'l" where
  "replay_line l v = (case l of None \<Rightarrow> v | Some u \<Rightarrow> u)"

text \<open>The checkpointing thread in the log loop, in the update of the NVM heap, and in the wait for the operation before the next round.\<close>

definition log_access :: "'l cow \<Rightarrow> 'l cow" where
  "log_access w = (case cw_cp w of
     Cc_Test \<Rightarrow> w\<lparr>cw_cp := (if cw_flag w (cw_round w) then Cc_Push else Cc_Replay_Own)\<rparr>
   | Cc_Push \<Rightarrow> w\<lparr>cw_own_log := Some (cw_dram w), cw_cp := Cc_Clear\<rparr>
   | Cc_Clear \<Rightarrow> w\<lparr>cw_flag := (cw_flag w)(cw_round w := False), cw_cp := Cc_Replay_Own\<rparr>
   | _ \<Rightarrow> w)"

definition update_access :: "'l cow \<Rightarrow> 'l cow" where
  "update_access w = (case cw_cp w of
     Cc_Replay_Own \<Rightarrow> w\<lparr>cw_nvm := replay_line (cw_own_log w) (cw_nvm w), cw_cp := Cc_Replay_User\<rparr>
   | Cc_Replay_User \<Rightarrow> w\<lparr>cw_nvm := replay_line (cw_user_log w) (cw_nvm w), cw_cp := Cc_Clear_Logs\<rparr>
   | Cc_Clear_Logs \<Rightarrow> w\<lparr>cw_own_log := None, cw_user_log := None, cw_cp := (if cw_round w then Cc_End else Cc_Wait)\<rparr>
   | _ \<Rightarrow> w)"

definition wait_access :: "'l cow \<Rightarrow> 'l cow" where
  "wait_access w = (if cw_user w = Cu_Done then w\<lparr>cw_round := True, cw_cp := Cc_Test\<rparr> else w)"

definition cp_access :: "'l cow \<Rightarrow> 'l cow" where
  "cp_access w =
     (if cw_cp w \<in> {Cc_Test, Cc_Push, Cc_Clear} then log_access w
      else if cw_cp w \<in> {Cc_Replay_Own, Cc_Replay_User, Cc_Clear_Logs} then update_access w
      else if cw_cp w = Cc_Wait then wait_access w else w)"

lemmas cp_access_defs = cp_access_def log_access_def update_access_def wait_access_def

definition cow_access :: "bool \<Rightarrow> 'l cow \<Rightarrow> 'l cow" where
  "cow_access user w = (if user then user_access w else cp_access w)"

definition cow_run :: "bool list \<Rightarrow> 'l cow \<Rightarrow> 'l cow" where
  "cow_run sched w = fold cow_access sched w"

subsection \<open>The accesses without interruption\<close>

text \<open>What the state of the library shows of line \<open>i\<close> while the epoch of parity \<open>b\<close> is the current one.\<close>

definition shows_line :: "nat \<Rightarrow> bool \<Rightarrow> ('j, 'z) escort_scheme \<Rightarrow> cacheline_t cow \<Rightarrow> bool" where
  "shows_line i b s w \<longleftrightarrow>
     cw_flag w True = bm_bits (BitMap s b) i \<and> cw_flag w False = bm_bits (BitMap s (\<not> b)) i \<and>
     cw_dram w = dram s (line_ptr i) \<and>
     logged s i = (case cw_user_log w of Some v \<Rightarrow> Some v | None \<Rightarrow> cw_own_log w)"

text \<open>The accesses of the user thread up to its write, in a row.\<close>

lemma user_accesses:
  assumes "cw_user w = Cu_Test"
  shows "\<exists>n. cow_run (replicate n True) w =
    (if cw_flag w True then w\<lparr>cw_user := Cu_Write\<rparr>
     else w\<lparr>cw_user_log := (if cw_flag w False then Some (cw_dram w) else cw_user_log w), cw_flag := (\<lambda>p. p), cw_user := Cu_Write\<rparr>)"
proof -
  consider "cw_flag w True" | "\<not> cw_flag w True" "cw_flag w False" | "\<not> cw_flag w True" "\<not> cw_flag w False" by blast
  then show ?thesis
  proof cases
    case 1
    then have "cow_run (replicate 1 True) w = w\<lparr>cw_user := Cu_Write\<rparr>"
      using assms by (simp add: cow_run_def cow_access_def user_access_def)
    with 1 show ?thesis by (metis)
  next
    case 2
    then have "cow_run (replicate 5 True) w = w\<lparr>cw_user_log := Some (cw_dram w), cw_flag := (cw_flag w)(False := False, True := True), cw_user := Cu_Write\<rparr>"
      using assms by (simp add: cow_run_def cow_access_def user_access_def numeral_eq_Suc)
    moreover have "(cw_flag w)(False := False, True := True) = (\<lambda>p. p)" by (auto simp: fun_eq_iff)
    ultimately show ?thesis using 2 by (intro exI [of _ 5]) simp
  next
    case 3
    then have "cow_run (replicate 3 True) w = w\<lparr>cw_flag := (cw_flag w)(True := True), cw_user := Cu_Write\<rparr>"
      using assms by (simp add: cow_run_def cow_access_def user_access_def numeral_eq_Suc)
    moreover have "(cw_flag w)(True := True) = (\<lambda>p. p)" using 3 by (auto simp: fun_eq_iff)
    ultimately show ?thesis using 3 by (intro exI [of _ 3]) simp
  qed
qed

lemma mark_line_is_accesses:
  assumes pre: "mark_pre b {i} s" and i: "i < heap_lines" and t: "t < length (ctx_array s)"
    and run: "mark_line t b i (line_ptr i) s = Inr (new, s')"
    and w: "shows_line i b s w" "cw_user w = Cu_Test"
  shows "\<exists>n. shows_line i b s' (cow_run (replicate n True) w) \<and> cw_user (cow_run (replicate n True) w) = Cu_Write"
proof -
  have fresh: "bm_bits (BitMap s (\<not> b)) i \<Longrightarrow> logged s i = None" using pre by (simp add: mark_pre_def)
  from mark_line_effect(1) [OF pre _ i t run] obtain m l where
    s': "s' = put_ctx t ((ctx_array s ! t)\<lparr>uc_log := l\<rparr>) (s\<lparr>BitMap := marked_bits b {i} (BitMap s), Plog_Management := m\<rparr>)"
    and log: "logged s' i = (if \<not> bm_bits (BitMap s b) i \<and> bm_bits (BitMap s (\<not> b)) i
      then Some (dram s (line_ptr i)) else logged s i)"
    by (auto simp: mark_effect_def)
  have eff: "BitMap s' = marked_bits b {i} (BitMap s)" "dram s' = dram s"
    by (simp_all add: s' put_ctx_def)
  obtain n where n: "cow_run (replicate n True) w =
    (if cw_flag w True then w\<lparr>cw_user := Cu_Write\<rparr>
     else w\<lparr>cw_user_log := (if cw_flag w False then Some (cw_dram w) else cw_user_log w), cw_flag := (\<lambda>p. p), cw_user := Cu_Write\<rparr>)"
    using user_accesses [OF w(2)] by blast
  have "shows_line i b s' (cow_run (replicate n True) w)"
    unfolding n using w log fresh eff
    by (auto simp: shows_line_def marked_bits_same marked_bits_other split: option.splits)
  moreover have "cw_user (cow_run (replicate n True) w) = Cu_Write" by (simp add: n)
  ultimately show ?thesis by blast
qed

text \<open>The accesses of the checkpointing thread in the log loop, in a row.\<close>

lemma log_accesses:
  assumes "cw_cp w = Cc_Test"
  shows "\<exists>n. cow_run (replicate n False) w =
    (if cw_flag w (cw_round w) then w\<lparr>cw_own_log := Some (cw_dram w), cw_flag := (cw_flag w)(cw_round w := False), cw_cp := Cc_Replay_Own\<rparr>
     else w\<lparr>cw_cp := Cc_Replay_Own\<rparr>)"
proof (cases "cw_flag w (cw_round w)")
  case True
  then have "cow_run (replicate 3 False) w =
      w\<lparr>cw_own_log := Some (cw_dram w), cw_flag := (cw_flag w)(cw_round w := False), cw_cp := Cc_Replay_Own\<rparr>"
    using assms by (simp add: cow_run_def cow_access_def cp_access_defs numeral_eq_Suc)
  with True show ?thesis by (intro exI [of _ 3]) simp
next
  case False
  then have "cow_run (replicate 1 False) w = w\<lparr>cw_cp := Cc_Replay_Own\<rparr>"
    using assms by (simp add: cow_run_def cow_access_def cp_access_defs)
  with False show ?thesis by (intro exI [of _ 1]) simp
qed

lemma log_line_is_accesses:
  assumes wf: "wf_logs (Plog_Management s) (redo_logs s)" and i: "i < heap_lines"
    and fresh: "bm_bits (BitMap s (\<not> b)) i \<Longrightarrow> logged s i = None"
    and run: "log_line (\<not> b) i (line_ptr i) s = Inr s'"
    and w: "shows_line i b s w" "cw_cp w = Cc_Test" "\<not> cw_round w"
  shows "\<exists>n. shows_line i b s' (cow_run (replicate n False) w) \<and> cw_cp (cow_run (replicate n False) w) = Cc_Replay_Own"
proof -
  obtain n where n: "cow_run (replicate n False) w =
    (if cw_flag w (cw_round w) then w\<lparr>cw_own_log := Some (cw_dram w), cw_flag := (cw_flag w)(cw_round w := False), cw_cp := Cc_Replay_Own\<rparr>
     else w\<lparr>cw_cp := Cc_Replay_Own\<rparr>)"
    using log_accesses [OF w(2)] by blast
  have "shows_line i b s' (cow_run (replicate n False) w)"
  proof (cases "bm_bits (BitMap s (\<not> b)) i")
    case True
    with log_line_ok [OF wf i fresh run] obtain l m where
      s': "s' = s\<lparr>cp_log := l, Plog_Management := m, BitMap := (BitMap s)((\<not> b) :=
         (BitMap s (\<not> b))\<lparr>bm_bits := (bm_bits (BitMap s (\<not> b)))(i := False)\<rparr>)\<rparr>"
      and log: "logged s' = (logged s)(i \<mapsto> dram s (line_ptr i))"
      by auto
    have "BitMap s' b = BitMap s b" "\<not> bm_bits (BitMap s' (\<not> b)) i" "dram s' = dram s" by (simp_all add: s')
    then show ?thesis
      using w log fresh [OF True] True by (auto simp: n shows_line_def split: option.splits)
  next
    case False
    with log_line_ok [OF wf i fresh run] have "s' = s" by simp
    with w False show ?thesis by (simp add: n shows_line_def split: option.split)
  qed
  moreover have "cw_cp (cow_run (replicate n False) w) = Cc_Replay_Own" by (simp add: n)
  ultimately show ?thesis by blast
qed

subsection \<open>The accesses interleaved\<close>

text \<open>
  The user thread clears the bit and is preempted before the push: the log loop takes the line for copied, and the
  round ends with nothing of it on NVM. Or it is preempted after the test: the round logs and copies the line, clears the logs, and then
  the push leaves an entry for the next round, which replays the log of the user thread after its own.
\<close>

definition cleared_before_push :: "bool list" where
  "cleared_before_push = replicate 3 True @ replicate 4 False"

definition pushed_too_late :: "bool list" where
  "pushed_too_late = replicate 2 True @ replicate 6 False @ replicate 4 True @ replicate 7 False"

text \<open>C11: with the accesses as the code has them, a round can end, its logs cleared, with the NVM heap still at what the line
  contained a checkpoint earlier, although its epoch has been committed; and it can end with the NVM heap at the
  content of the epoch before, although the DRAM heap has the new content and both bits are clear, so that no later
  round copies the line.\<close>

theorem cow_race:
  fixes a b c :: 'l
  defines "w1 \<equiv> cow_run cleared_before_push (cow_init a b c)"
    and "w2 \<equiv> cow_run pushed_too_late (cow_init a b c)"
  shows "cw_cp w1 = Cc_Wait \<and> cw_nvm w1 = a \<and> cw_dram w1 = b \<and> cw_own_log w1 = None \<and> cw_user_log w1 = None \<and>
    cw_cp w2 = Cc_End \<and> cw_nvm w2 = b \<and> cw_dram w2 = c \<and> (\<forall>p. \<not> cw_flag w2 p)"
  unfolding w1_def w2_def
  by (simp add: cleared_before_push_def pushed_too_late_def cow_run_def cow_access_def user_access_def cp_access_defs
      cow_init_def replay_line_def numeral_eq_Suc all_bool_eq)

end
