(* ===== verification/OldVersion.thy ===== *)
theory OldVersion
  imports Checkpointing
begin

section \<open>The variant \<^verbatim>\<open>OLD_VERSION\<close>: arrays instead of blocks\<close>

text \<open>
  Compiled with \<^verbatim>\<open>OLD_VERSION\<close>, the lists of modified lines (\<^verbatim>\<open>src/src/addrlist_t.hpp\<close>) and the redo logs
  (\<^verbatim>\<open>src/src/plog_t.hpp\<close>, \<^verbatim>\<open>src/src/plog_t.cpp\<close>) are stacks in arrays of \<^verbatim>\<open>LOG_SIZE\<close> elements, a list has single lines
  instead of regions, and \<^verbatim>\<open>mark\<close>, \<^verbatim>\<open>log_persistence_unit\<close> and \<^verbatim>\<open>replay_redo_log\<close> work on these. Its
  \<^verbatim>\<open>allocatorlog_t\<close> names members that it does not declare and is not modelled; so the state of this theory
  (\<open>old_escort\<close>) has no allocator logs.
\<close>

definition LOG_SIZE :: nat where
  "LOG_SIZE = 4096 * 1024 * 4"

subsection \<open>\<^verbatim>\<open>addrlist_t\<close>\<close>

record old_addrlist =
  oa_list :: "nat \<Rightarrow> ptr"
  oa_size :: nat
  oa_max_size :: nat

definition old_addrlist_new :: "(nat \<Rightarrow> ptr) \<Rightarrow> old_addrlist" where
  "old_addrlist_new mem = \<lparr>oa_list = (\<lambda>i. if i < LOG_SIZE then 0 else mem i), oa_size = 0, oa_max_size = LOG_SIZE\<rparr>"

definition old_addrlist_append :: "ptr \<Rightarrow> old_addrlist \<Rightarrow> old_addrlist res" where
  "old_addrlist_append addr l =
     rbind (rassert (oa_size l < oa_max_size l)) (\<lambda>_.
     Inr (l\<lparr>oa_list := (oa_list l)(oa_size l := addr), oa_size := oa_size l + 1\<rparr>))"

definition old_addrlist_pop :: "old_addrlist \<Rightarrow> (ptr \<times> old_addrlist) res" where
  "old_addrlist_pop l =
     rbind (rassert (oa_size l > 0)) (\<lambda>_.
     let l = l\<lparr>oa_size := oa_size l - 1\<rparr> in Inr (oa_list l (oa_size l), l))"

definition old_addrlist_is_empty :: "old_addrlist \<Rightarrow> bool" where
  "old_addrlist_is_empty l \<longleftrightarrow> oa_size l = 0"

subsection \<open>\<^verbatim>\<open>plog_t\<close>\<close>

record old_plog =
  op_array :: "nat \<Rightarrow> plog_entry"
  op_size :: nat
  op_max_size :: nat

definition old_plog_new :: "(nat \<Rightarrow> plog_entry) \<Rightarrow> old_plog" where
  "old_plog_new mem = \<lparr>op_array = mem, op_size = 0, op_max_size = LOG_SIZE\<rparr>"

definition old_entry_set :: "ptr \<times> cacheline_t \<Rightarrow> plog_entry \<Rightarrow> plog_entry" where
  "old_entry_set entry e = e\<lparr>pe_addr := fst entry, pe_val := assign (pe_val e) (snd entry)\<rparr>"

definition old_entry_clear :: "plog_entry \<Rightarrow> plog_entry" where
  "old_entry_clear e = e\<lparr>pe_addr := 0, pe_val := assign_u32 (pe_val e) 0\<rparr>"

text \<open>Nothing tests whether there is room in the array.\<close>

definition old_plog_push_back :: "ptr \<times> cacheline_t \<Rightarrow> old_plog \<Rightarrow> old_plog res" where
  "old_plog_push_back entry l =
     (if op_size l < LOG_SIZE then
        Inr (l\<lparr>op_array := (op_array l)(op_size l := old_entry_set entry (op_array l (op_size l))), op_size := op_size l + 1\<rparr>)
      else Inl OutOfBounds)"

text \<open>With an empty log \<^verbatim>\<open>_size--\<close> wraps around and the access is out of bounds.\<close>

definition old_plog_pop :: "old_plog \<Rightarrow> (plog_entry \<times> old_plog) res" where
  "old_plog_pop l =
     (if 0 < op_size l \<and> op_size l \<le> LOG_SIZE then
        let l = l\<lparr>op_size := op_size l - 1\<rparr> in Inr (op_array l (op_size l), l)
      else Inl OutOfBounds)"

definition old_plog_is_empty :: "old_plog \<Rightarrow> bool" where
  "old_plog_is_empty l \<longleftrightarrow> op_size l = 0"

definition old_plog_clear :: "old_plog \<Rightarrow> old_plog" where
  "old_plog_clear l = l\<lparr>op_size := 0\<rparr>"

subsection \<open>The state\<close>

record old_ctx =
  oc_epoch :: epoch_t
  oc_addrlist :: "bool \<Rightarrow> old_addrlist"
  oc_log :: old_plog

record old_escort =
  o_GLOBAL_EPOCH :: epoch_t
  o_BitMap :: "bool \<Rightarrow> bitmap_t"
  o_ctx_array :: "old_ctx list"
  o_cp_log :: old_plog
  o_dram :: "ptr \<Rightarrow> cacheline_t"
  o_nvm :: "ptr \<Rightarrow> cacheline_t"
  o_nvm_offset :: size_t

definition old_get_ctx :: "nat \<Rightarrow> old_escort \<Rightarrow> old_ctx res" where
  "old_get_ctx t u = (if t < length (o_ctx_array u) then Inr (o_ctx_array u ! t) else Inl AssertFailed)"

definition old_put_ctx :: "nat \<Rightarrow> old_ctx \<Rightarrow> old_escort \<Rightarrow> old_escort" where
  "old_put_ctx t ctx u = u\<lparr>o_ctx_array := (o_ctx_array u)[t := ctx]\<rparr>"

lemma old_get_ctx_Inr [res_simps]:
  "old_get_ctx t u = Inr ctx \<longleftrightarrow> t < length (o_ctx_array u) \<and> ctx = o_ctx_array u ! t"
  by (auto simp: old_get_ctx_def)

lemma old_put_ctx_simps [simp]:
  "o_GLOBAL_EPOCH (old_put_ctx t c u) = o_GLOBAL_EPOCH u" "o_BitMap (old_put_ctx t c u) = o_BitMap u"
  "o_ctx_array (old_put_ctx t c u) = (o_ctx_array u)[t := c]" "o_cp_log (old_put_ctx t c u) = o_cp_log u"
  "o_dram (old_put_ctx t c u) = o_dram u" "o_nvm (old_put_ctx t c u) = o_nvm u"
  "o_nvm_offset (old_put_ctx t c u) = o_nvm_offset u"
  by (simp_all add: old_put_ctx_def)

subsection \<open>\<^verbatim>\<open>mark\<close>\<close>

definition old_push_user_log :: "nat \<Rightarrow> ptr \<times> cacheline_t \<Rightarrow> old_escort \<Rightarrow> old_escort res" where
  "old_push_user_log t entry u =
     rbind (old_get_ctx t u) (\<lambda>ctx.
     rbind (old_plog_push_back entry (oc_log ctx)) (\<lambda>l.
     Inr (old_put_ctx t (ctx\<lparr>oc_log := l\<rparr>) u)))"

definition old_append_line :: "nat \<Rightarrow> bool \<Rightarrow> ptr \<Rightarrow> old_escort \<Rightarrow> old_escort res" where
  "old_append_line t cur addr u =
     rbind (old_get_ctx t u) (\<lambda>ctx.
     rbind (old_addrlist_append addr (oc_addrlist ctx cur)) (\<lambda>l.
     Inr (old_put_ctx t (ctx\<lparr>oc_addrlist := (oc_addrlist ctx)(cur := l)\<rparr>) u)))"

definition old_mark_line :: "nat \<Rightarrow> bool \<Rightarrow> nat \<Rightarrow> ptr \<Rightarrow> old_escort \<Rightarrow> old_escort res" where
  "old_mark_line t cur index addr u =
     rbind (bitmap_is_set (o_BitMap u cur) index) (\<lambda>curr_set.
     if \<not> curr_set then
       rbind (bitmap_is_set (o_BitMap u (\<not> cur)) index) (\<lambda>prev_set.
       rbind (if prev_set then
                let old_val = o_dram u addr in
                rbind (bitmap_clear index (o_BitMap u (\<not> cur))) (\<lambda>bm.
                old_push_user_log t (addr, old_val) (u\<lparr>o_BitMap := (o_BitMap u)((\<not> cur) := bm)\<rparr>))
              else Inr u) (\<lambda>u.
       rbind (bitmap_set index (o_BitMap u cur)) (\<lambda>bm.
       old_append_line t cur addr (u\<lparr>o_BitMap := (o_BitMap u)(cur := bm)\<rparr>))))
     else Inr u)"

fun old_mark_loop :: "nat \<Rightarrow> bool \<Rightarrow> nat \<Rightarrow> nat \<Rightarrow> ptr \<Rightarrow> old_escort \<Rightarrow> old_escort res" where
  "old_mark_loop t cur 0 index addr u = Inr u"
| "old_mark_loop t cur (Suc n) index addr u =
     rbind (old_mark_line t cur index addr u)
       (old_mark_loop t cur n (index + 1) (add_addr addr (word_of_nat CACHE_LINE_SIZE)))"

definition old_mark :: "nat \<Rightarrow> ptr \<Rightarrow> size_t \<Rightarrow> old_escort \<Rightarrow> old_escort res" where
  "old_mark t addr sz u =
     rbind (old_get_ctx t u) (\<lambda>ctx.
     let epoch = oc_epoch ctx in
     rbind (rassert (epoch \<noteq> 0)) (\<lambda>_.
     let cur = epoch_bit epoch in
     rbind (bitmap_get_index addr) (\<lambda>index.
     old_mark_loop t cur (num_bits sz) index (align_down addr) u)))"

text \<open>\<^verbatim>\<open>pwrite\<close> is the same in both variants.\<close>

definition old_pwrite :: "nat \<Rightarrow> ptr \<Rightarrow> byte list \<Rightarrow> old_escort \<Rightarrow> old_escort res" where
  "old_pwrite t addr val u =
     rbind (old_mark t addr (word_of_nat (length val)) u) (\<lambda>u.
     Inr (u\<lparr>o_dram := store_bytes addr val (o_dram u)\<rparr>))"

subsection \<open>The checkpointing thread\<close>

text \<open>One round of the loop over the list of a thread: the last line is taken off and logged unless it has been copied.\<close>

definition old_log_entry :: "bool \<Rightarrow> nat \<Rightarrow> old_escort \<Rightarrow> old_escort res" where
  "old_log_entry prev t u =
     rbind (old_get_ctx t u) (\<lambda>ctx.
     rbind (old_addrlist_pop (oc_addrlist ctx prev)) (\<lambda>(cl, l).
     let u = old_put_ctx t (ctx\<lparr>oc_addrlist := (oc_addrlist ctx)(prev := l)\<rparr>) u in
     rbind (bitmap_get_index cl) (\<lambda>idx.
     rbind (bitmap_is_set (o_BitMap u prev) idx) (\<lambda>is_set.
     if is_set then
       rbind (old_plog_push_back (cl, o_dram u cl) (o_cp_log u)) (\<lambda>lg.
       rbind (bitmap_clear idx (o_BitMap u prev)) (\<lambda>bm.
       Inr (u\<lparr>o_cp_log := lg, o_BitMap := (o_BitMap u)(prev := bm)\<rparr>)))
     else Inr u))))"

definition old_list_size :: "bool \<Rightarrow> nat \<Rightarrow> old_escort \<Rightarrow> nat" where
  "old_list_size prev t u = oa_size (oc_addrlist (o_ctx_array u ! t) prev)"

lemma old_log_entry_size:
  "old_log_entry prev t u = Inr u' \<Longrightarrow> old_list_size prev t u = old_list_size prev t u' + 1"
  by (auto simp: old_log_entry_def old_list_size_def old_addrlist_pop_def res_simps Let_def rassert_def split: if_splits)

function old_log_list :: "bool \<Rightarrow> nat \<Rightarrow> old_escort \<Rightarrow> old_escort res" where
  "old_log_list prev t u =
     rbind (old_get_ctx t u) (\<lambda>ctx.
     if old_addrlist_is_empty (oc_addrlist ctx prev) then Inr u
     else rbind (old_log_entry prev t u) (old_log_list prev t))"
  by pat_completeness auto
termination
  by (relation "measure (\<lambda>(prev, t, u). old_list_size prev t u)") (auto dest: old_log_entry_size)

declare old_log_list.simps [simp del]

definition old_log_persistence_unit :: "old_escort \<Rightarrow> old_escort res" where
  "old_log_persistence_unit u =
     (let prev = epoch_bit (Epoch (o_GLOBAL_EPOCH u) - 1) in
      rfold (old_log_list prev) [0..<length (o_ctx_array u)] u)"

function old_replay_redo_log ::
  "size_t \<Rightarrow> old_plog \<Rightarrow> (ptr \<Rightarrow> cacheline_t) \<Rightarrow> (old_plog \<times> (ptr \<Rightarrow> cacheline_t)) res" where
  "old_replay_redo_log offset log h =
     (if old_plog_is_empty log then Inr (log, h)
      else
        rbind (old_plog_pop log) (\<lambda>(entry, log).
        let nvm_cl = add_addr (pe_addr entry) offset in
        old_replay_redo_log offset log (h(nvm_cl := assign (h nvm_cl) (pe_val entry)))))"
  by pat_completeness auto
termination
  by (relation "measure (\<lambda>(offset, log, h). op_size log)")
    (auto simp: old_plog_pop_def old_plog_is_empty_def Let_def split: if_splits)

declare old_replay_redo_log.simps [simp del]

definition old_replay_cp :: "old_escort \<Rightarrow> old_escort res" where
  "old_replay_cp u =
     rbind (old_replay_redo_log (o_nvm_offset u) (o_cp_log u) (o_nvm u)) (\<lambda>(l, h).
     Inr (u\<lparr>o_cp_log := l, o_nvm := h\<rparr>))"

definition old_replay_ctx :: "nat \<Rightarrow> old_escort \<Rightarrow> old_escort res" where
  "old_replay_ctx t u =
     rbind (old_get_ctx t u) (\<lambda>ctx.
     rbind (old_replay_redo_log (o_nvm_offset u) (oc_log ctx) (o_nvm u)) (\<lambda>(l, h).
     Inr ((old_put_ctx t (ctx\<lparr>oc_log := l\<rparr>) u)\<lparr>o_nvm := h\<rparr>)))"

definition old_clear_redo_logs :: "old_escort \<Rightarrow> old_escort" where
  "old_clear_redo_logs u =
     u\<lparr>o_cp_log := old_plog_clear (o_cp_log u),
       o_ctx_array := map (\<lambda>ctx. ctx\<lparr>oc_log := old_plog_clear (oc_log ctx)\<rparr>) (o_ctx_array u)\<rparr>"

definition old_nvm_heap_update_unit :: "old_escort \<Rightarrow> old_escort res" where
  "old_nvm_heap_update_unit u =
     rbind (old_replay_cp u) (\<lambda>u.
     rbind (rfold old_replay_ctx [0..<length (o_ctx_array u)] u) (\<lambda>u.
     Inr (old_clear_redo_logs u)))"

end
