(* ===== verification/OldLogs.thy ===== *)
theory OldLogs
  imports OldVersion CheckpointCorrect
begin

section \<open>What the operations of \<^verbatim>\<open>OLD_VERSION\<close> do to flags, lists and logs\<close>

subsection \<open>Entries of logs\<close>

definition line_entries :: "(ptr \<times> cacheline_t) list \<Rightarrow> bool" where
  "line_entries es \<longleftrightarrow> distinct (map fst es) \<and> fst ` set es \<subseteq> line_ptr ` {..<heap_lines}"

definition old_plog_entries :: "old_plog \<Rightarrow> (ptr \<times> cacheline_t) list" where
  "old_plog_entries l = map (\<lambda>k. (pe_addr (op_array l k), pe_val (op_array l k))) [0..<op_size l]"

definition old_entries :: "old_escort \<Rightarrow> (ptr \<times> cacheline_t) list" where
  "old_entries u = old_plog_entries (o_cp_log u) @ concat (map (old_plog_entries \<circ> oc_log) (o_ctx_array u))"

definition old_logged :: "old_escort \<Rightarrow> nat \<rightharpoonup> cacheline_t" where
  "old_logged u = entries_map (old_entries u)"

lemma line_entries_mset: "mset es = mset es' \<Longrightarrow> line_entries es' = line_entries es"
proof -
  assume m: "mset es = mset es'"
  then have "mset (map fst es) = mset (map fst es')" by simp
  then have "distinct (map fst es) = distinct (map fst es')" by (rule mset_eq_imp_distinct_iff)
  with mset_eq_setD [OF m] show ?thesis by (simp add: line_entries_def)
qed

lemma entries_map_mset:
  assumes "mset es = mset es'" and "line_entries es"
  shows "entries_map es' = entries_map es"
proof -
  have d: "distinct (map fst es)" "distinct (map fst es')"
    using assms line_entries_mset [OF assms(1)] by (simp_all add: line_entries_def)
  have "map_of es' a = map_of es a" for a
  proof -
    have "map_of es' a = Some v \<longleftrightarrow> map_of es a = Some v" for v
      by (simp add: map_of_eq_Some_iff d mset_eq_setD [OF assms(1)])
    then show ?thesis by (metis not_Some_eq)
  qed
  then show ?thesis by (simp add: entries_map_def fun_eq_iff)
qed

lemma entries_map_Cons:
  "i < heap_lines \<Longrightarrow> entries_map ((line_ptr i, v) # es) = (entries_map es)(i \<mapsto> v)"
  by (auto simp: entries_map_def fun_eq_iff dest: line_ptr_inj)

lemma line_entries_Cons:
  "i < heap_lines \<Longrightarrow> line_entries ((line_ptr i, v) # es) \<longleftrightarrow> entries_map es i = None \<and> line_entries es"
  by (auto simp: line_entries_def entries_map_def map_of_eq_None_iff)

lemma entries_map_add:
  assumes "mset es' = add_mset (line_ptr i, v) (mset es)" and "line_entries es" and "i < heap_lines"
    and "entries_map es i = None"
  shows "line_entries es'" and "entries_map es' = (entries_map es)(i \<mapsto> v)"
proof -
  have m: "mset ((line_ptr i, v) # es) = mset es'" using assms(1) by simp
  have l: "line_entries ((line_ptr i, v) # es)" using assms(2-4) by (simp add: line_entries_Cons)
  show "line_entries es'" using line_entries_mset [OF m] l by simp
  show "entries_map es' = (entries_map es)(i \<mapsto> v)"
    using entries_map_mset [OF m l] entries_map_Cons [OF assms(3)] by simp
qed

lemma old_plog_push_entries:
  assumes "old_plog_push_back e l = Inr l'"
  shows "old_plog_entries l' = old_plog_entries l @ [e]" and "op_size l' = op_size l + 1" and "op_size l < LOG_SIZE"
  using assms
  by (auto simp: old_plog_push_back_def old_plog_entries_def old_entry_set_def assign_def split: if_splits)

lemma old_plog_push_total: "op_size l < LOG_SIZE \<Longrightarrow> \<exists>l'. old_plog_push_back e l = Inr l'"
  by (simp add: old_plog_push_back_def)

subsection \<open>Well-formed states\<close>

definition old_list_ok :: "old_addrlist \<Rightarrow> bool" where
  "old_list_ok l \<longleftrightarrow> oa_max_size l = LOG_SIZE \<and> oa_size l \<le> LOG_SIZE \<and>
     (\<forall>k < oa_size l. oa_list l k \<in> line_ptr ` {..<heap_lines})"

definition old_ctx_ok :: "old_ctx \<Rightarrow> bool" where
  "old_ctx_ok ctx \<longleftrightarrow> op_size (oc_log ctx) \<le> LOG_SIZE \<and> (\<forall>b. old_list_ok (oc_addrlist ctx b))"

definition old_ok :: "old_escort \<Rightarrow> bool" where
  "old_ok u \<longleftrightarrow> (\<forall>b. bm_size (o_BitMap u b) = heap_lines) \<and> line_entries (old_entries u) \<and>
     op_size (o_cp_log u) \<le> LOG_SIZE \<and> (\<forall>ctx \<in> set (o_ctx_array u). old_ctx_ok ctx)"

definition old_listed :: "bool \<Rightarrow> old_escort \<Rightarrow> nat set" where
  "old_listed p u = {i. i < heap_lines \<and>
     (\<exists>ctx \<in> set (o_ctx_array u). \<exists>k < oa_size (oc_addrlist ctx p). oa_list (oc_addrlist ctx p) k = line_ptr i)}"

lemma old_listedI:
  "ctx \<in> set (o_ctx_array u) \<Longrightarrow> \<exists>k < oa_size (oc_addrlist ctx p). oa_list (oc_addrlist ctx p) k = line_ptr i \<Longrightarrow>
   i < heap_lines \<Longrightarrow> i \<in> old_listed p u"
  by (auto simp: old_listed_def)

definition old_flagged :: "bool \<Rightarrow> old_escort \<Rightarrow> nat set" where
  "old_flagged p u = {i. i < heap_lines \<and> bm_bits (o_BitMap u p) i}"

text \<open>What no operation on marks changes.\<close>

definition old_frame :: "old_escort \<Rightarrow> old_escort \<Rightarrow> bool" where
  "old_frame u u' \<longleftrightarrow> o_GLOBAL_EPOCH u' = o_GLOBAL_EPOCH u \<and> o_dram u' = o_dram u \<and> o_nvm u' = o_nvm u \<and>
     o_nvm_offset u' = o_nvm_offset u \<and> map oc_epoch (o_ctx_array u') = map oc_epoch (o_ctx_array u)"

lemma old_frame_refl [simp]: "old_frame u u"
  by (simp add: old_frame_def)

lemma old_frame_trans: "old_frame u v \<Longrightarrow> old_frame v w \<Longrightarrow> old_frame u w"
  by (simp add: old_frame_def)

lemma old_frame_length: "old_frame u v \<Longrightarrow> length (o_ctx_array v) = length (o_ctx_array u)"
  unfolding old_frame_def by (metis length_map)

lemma all_set_update: "(\<forall>x \<in> set xs. P x) \<Longrightarrow> P y \<Longrightarrow> \<forall>x \<in> set (xs[t := y]). P x"
  using set_update_subset_insert [of xs t y] by blast

text \<open>Pushing on the log of a user thread.\<close>

lemma mset_concat_update:
  "t < length xs \<Longrightarrow> mset (f y) = add_mset e (mset (f (xs ! t))) \<Longrightarrow>
   mset (concat (map f (xs[t := y]))) = add_mset e (mset (concat (map f xs)))"
proof (induction xs arbitrary: t)
  case Nil
  then show ?case by simp
next
  case (Cons x xs)
  then show ?case by (cases t) simp_all
qed

lemma map_update_same: "f y = f (xs ! t) \<Longrightarrow> map f (xs[t := y]) = map f xs"
  by (cases "t < length xs") (simp_all add: map_update list_update_same_conv list_update_beyond)

lemma bex_update_same:
  assumes "P y = P (xs ! t)"
  shows "(\<exists>x \<in> set (xs[t := y]). P x) \<longleftrightarrow> (\<exists>x \<in> set xs. P x)"
proof -
  have "True \<in> set (map P (xs[t := y])) \<longleftrightarrow> True \<in> set (map P xs)"
    by (simp only: map_update_same [of P, OF assms])
  then show ?thesis by (simp only: set_map image_iff) (simp only: eq_commute [of True] eq_True)
qed

lemma old_plog_entries_update:
  "oc_log c = oc_log (o_ctx_array u ! t) \<Longrightarrow> old_entries (old_put_ctx t c u) = old_entries u"
  by (simp add: old_entries_def map_update_same)

subsection \<open>\<^verbatim>\<open>mark\<close>\<close>

text \<open>The effect of marking the lines \<open>I\<close> for the parity \<open>b\<close>.\<close>

definition old_marks :: "bool \<Rightarrow> nat set \<Rightarrow> old_escort \<Rightarrow> old_escort \<Rightarrow> bool" where
  "old_marks b I u u' \<longleftrightarrow> old_frame u u' \<and> old_ok u' \<and>
     (\<forall>i. bm_bits (o_BitMap u' b) i \<longleftrightarrow> bm_bits (o_BitMap u b) i \<or> i \<in> I) \<and>
     (\<forall>i. bm_bits (o_BitMap u' (\<not> b)) i \<longleftrightarrow>
        bm_bits (o_BitMap u (\<not> b)) i \<and> \<not> (i \<in> I \<and> \<not> bm_bits (o_BitMap u b) i)) \<and>
     (\<forall>i. old_logged u' i = (if i \<in> I \<and> \<not> bm_bits (o_BitMap u b) i \<and> bm_bits (o_BitMap u (\<not> b)) i
        then Some (o_dram u (line_ptr i)) else old_logged u i)) \<and>
     (\<forall>p. old_listed p u \<subseteq> old_listed p u') \<and> {i \<in> I. i < heap_lines \<and> \<not> bm_bits (o_BitMap u b) i} \<subseteq> old_listed b u'"

text \<open>Room for \<open>n\<close> lines in the list and in the log of thread \<open>t\<close>.\<close>

definition old_room :: "nat \<Rightarrow> nat \<Rightarrow> bool \<Rightarrow> old_escort \<Rightarrow> bool" where
  "old_room n t b u \<longleftrightarrow> t < length (o_ctx_array u) \<and> oa_size (oc_addrlist (o_ctx_array u ! t) b) + n \<le> LOG_SIZE \<and>
     op_size (oc_log (o_ctx_array u ! t)) + n \<le> LOG_SIZE"

lemma old_push_user_log_ok:
  assumes ok: "old_ok u" and t: "t < length (o_ctx_array u)" and i: "i < heap_lines"
    and room: "op_size (oc_log (o_ctx_array u ! t)) < LOG_SIZE" and fresh: "old_logged u i = None"
  shows "\<exists>l. old_push_user_log t (line_ptr i, v) u = Inr (old_put_ctx t ((o_ctx_array u ! t)\<lparr>oc_log := l\<rparr>) u) \<and>
    op_size l = op_size (oc_log (o_ctx_array u ! t)) + 1 \<and>
    old_ok (old_put_ctx t ((o_ctx_array u ! t)\<lparr>oc_log := l\<rparr>) u) \<and>
    old_logged (old_put_ctx t ((o_ctx_array u ! t)\<lparr>oc_log := l\<rparr>) u) = (old_logged u)(i \<mapsto> v)"
proof -
  let ?c = "o_ctx_array u ! t"
  obtain l where l: "old_plog_push_back (line_ptr i, v) (oc_log ?c) = Inr l"
    using old_plog_push_total [OF room] by blast
  let ?u = "old_put_ctx t (?c\<lparr>oc_log := l\<rparr>) u"
  note p = old_plog_push_entries [OF l]
  have m: "mset (old_entries ?u) = add_mset (line_ptr i, v) (mset (old_entries u))"
    unfolding old_entries_def
    using mset_concat_update [OF t, of "old_plog_entries \<circ> oc_log" "?c\<lparr>oc_log := l\<rparr>" "(line_ptr i, v)"] p(1) by simp
  note a = entries_map_add [OF m _ i]
  have le: "line_entries (old_entries u)" using ok by (simp add: old_ok_def)
  have fr: "entries_map (old_entries u) i = None" using fresh by (simp add: old_logged_def)
  have "old_ctx_ok ?c" using ok t by (simp add: old_ok_def)
  then have "old_ctx_ok (?c\<lparr>oc_log := l\<rparr>)" using p(2,3) by (simp add: old_ctx_ok_def)
  then have cs: "\<forall>ctx \<in> set ((o_ctx_array u)[t := ?c\<lparr>oc_log := l\<rparr>]). old_ctx_ok ctx"
    using ok by (intro all_set_update) (simp_all add: old_ok_def)
  then have "old_ok ?u" using ok cs a(1) [OF le fr] by (simp add: old_ok_def)
  moreover have "old_logged ?u = (old_logged u)(i \<mapsto> v)" using a(2) [OF le fr] by (simp add: old_logged_def)
  moreover have "old_push_user_log t (line_ptr i, v) u = Inr ?u" using l t by (simp add: old_push_user_log_def old_get_ctx_def)
  ultimately show ?thesis using p(2) by blast
qed

lemma old_append_line_ok:
  assumes ok: "old_ok u" and t: "t < length (o_ctx_array u)" and i: "i < heap_lines"
    and room: "oa_size (oc_addrlist (o_ctx_array u ! t) b) < LOG_SIZE"
  shows "\<exists>u'. old_append_line t b (line_ptr i) u = Inr u' \<and> old_frame u u' \<and> old_ok u' \<and> o_BitMap u' = o_BitMap u \<and>
    old_logged u' = old_logged u \<and> (\<forall>p. old_listed p u \<subseteq> old_listed p u') \<and> i \<in> old_listed b u' \<and>
    oa_size (oc_addrlist (o_ctx_array u' ! t) b) = oa_size (oc_addrlist (o_ctx_array u ! t) b) + 1 \<and>
    oc_log (o_ctx_array u' ! t) = oc_log (o_ctx_array u ! t)"
proof -
  let ?c = "o_ctx_array u ! t"
  let ?l = "oc_addrlist ?c b"
  define l' where "l' = ?l\<lparr>oa_list := (oa_list ?l)(oa_size ?l := line_ptr i), oa_size := oa_size ?l + 1\<rparr>"
  define c' where "c' = ?c\<lparr>oc_addrlist := (oc_addrlist ?c)(b := l')\<rparr>"
  define u' where "u' = old_put_ctx t c' u"
  have cok: "old_ctx_ok ?c" using ok t by (simp add: old_ok_def)
  then have mx: "oa_max_size ?l = LOG_SIZE" by (simp add: old_ctx_ok_def old_list_ok_def)
  have run: "old_append_line t b (line_ptr i) u = Inr u'"
    using t room mx by (simp add: old_append_line_def old_get_ctx_def old_addrlist_append_def l'_def c'_def u'_def)
  have "old_list_ok l'"
    using cok i room by (auto simp: old_ctx_ok_def old_list_ok_def l'_def less_Suc_eq)
  then have c'ok: "old_ctx_ok c'" using cok by (simp add: old_ctx_ok_def c'_def)
  have e: "old_entries u' = old_entries u" unfolding u'_def by (rule old_plog_entries_update) (simp add: c'_def)
  have "map oc_epoch ((o_ctx_array u)[t := c']) = map oc_epoch (o_ctx_array u)"
    by (rule map_update_same) (simp add: c'_def)
  then have fr: "old_frame u u'" by (simp add: old_frame_def u'_def)
  have "\<forall>ctx \<in> set ((o_ctx_array u)[t := c']). old_ctx_ok ctx"
    using ok c'ok by (intro all_set_update) (simp_all add: old_ok_def)
  then have ok': "old_ok u'" using ok e by (simp add: old_ok_def u'_def)
  have c'in: "c' \<in> set (o_ctx_array u')" using t by (simp add: u'_def set_update_memI)
  have grow: "\<exists>k < oa_size (oc_addrlist c' p). oa_list (oc_addrlist c' p) k = a"
    if "k < oa_size (oc_addrlist ?c p)" "oa_list (oc_addrlist ?c p) k = a" for p k a
    using that by (intro exI [of _ k]) (auto simp: c'_def l'_def)
  have "old_listed p u \<subseteq> old_listed p u'" for p
  proof
    fix j assume j: "j \<in> old_listed p u"
    then obtain r k where r: "r < length (o_ctx_array u)" "k < oa_size (oc_addrlist (o_ctx_array u ! r) p)"
      "oa_list (oc_addrlist (o_ctx_array u ! r) p) k = line_ptr j"
      by (auto simp: old_listed_def in_set_conv_nth)
    have jl: "j < heap_lines" using j by (simp add: old_listed_def)
    show "j \<in> old_listed p u'"
    proof (cases "r = t")
      case True
      with grow [of k p] r(2,3) show ?thesis by (intro old_listedI [OF c'in _ jl]) simp
    next
      case False
      then have "o_ctx_array u ! r \<in> set (o_ctx_array u')"
        using r(1) nth_mem [of r "(o_ctx_array u)[t := c']"] by (simp add: u'_def)
      then show ?thesis by (rule old_listedI) (use r(2,3) jl in auto)
    qed
  qed
  moreover have "i \<in> old_listed b u'"
    using c'in i by (auto simp: old_listed_def c'_def l'_def intro!: bexI [of _ c'] exI [of _ "oa_size ?l"])
  moreover have "oa_size (oc_addrlist (o_ctx_array u' ! t) b) = oa_size (oc_addrlist (o_ctx_array u ! t) b) + 1"
    "oc_log (o_ctx_array u' ! t) = oc_log (o_ctx_array u ! t)"
    using t by (simp_all add: u'_def c'_def l'_def)
  ultimately show ?thesis using run fr ok' e by (simp add: old_logged_def) (simp add: u'_def)
qed

lemma old_marks_refl: "old_ok u \<Longrightarrow> old_marks b {} u u"
  by (simp add: old_marks_def)

text \<open>A line that is marked already.\<close>

lemma old_marks_flagged: "old_ok u \<Longrightarrow> bm_bits (o_BitMap u b) i \<Longrightarrow> old_marks b {i} u u"
  by (auto simp: old_marks_def fun_eq_iff)

lemma old_marks_insert:
  assumes "old_marks b {i} u v" and "old_marks b J v w" and "i \<notin> J"
  shows "old_marks b (insert i J) u w"
proof -
  have fr: "old_frame u v" "old_frame v w" and "old_ok w" using assms(1,2) by (simp_all add: old_marks_def)
  have d: "o_dram v = o_dram u" using fr(1) by (simp add: old_frame_def)
  have b: "bm_bits (o_BitMap v b) j \<longleftrightarrow> bm_bits (o_BitMap u b) j \<or> j = i"
    "bm_bits (o_BitMap v (\<not> b)) j \<longleftrightarrow> bm_bits (o_BitMap u (\<not> b)) j \<and> \<not> (j = i \<and> \<not> bm_bits (o_BitMap u b) j)"
    "bm_bits (o_BitMap w b) j \<longleftrightarrow> bm_bits (o_BitMap v b) j \<or> j \<in> J"
    "bm_bits (o_BitMap w (\<not> b)) j \<longleftrightarrow> bm_bits (o_BitMap v (\<not> b)) j \<and> \<not> (j \<in> J \<and> \<not> bm_bits (o_BitMap v b) j)" for j
    using assms(1,2) by (simp_all add: old_marks_def)
  have l: "old_logged v j = (if j = i \<and> \<not> bm_bits (o_BitMap u b) j \<and> bm_bits (o_BitMap u (\<not> b)) j
      then Some (o_dram u (line_ptr j)) else old_logged u j)"
    "old_logged w j = (if j \<in> J \<and> \<not> bm_bits (o_BitMap v b) j \<and> bm_bits (o_BitMap v (\<not> b)) j
      then Some (o_dram v (line_ptr j)) else old_logged v j)" for j
    using assms(1,2) by (simp_all add: old_marks_def)
  have sub: "old_listed p u \<subseteq> old_listed p v" "old_listed p v \<subseteq> old_listed p w" for p
    using assms(1,2) by (simp_all add: old_marks_def)
  have new: "i < heap_lines \<Longrightarrow> \<not> bm_bits (o_BitMap u b) i \<Longrightarrow> i \<in> old_listed b v"
    "{j \<in> J. j < heap_lines \<and> \<not> bm_bits (o_BitMap v b) j} \<subseteq> old_listed b w"
    using assms(1,2) by (auto simp: old_marks_def)
  have "{j \<in> insert i J. j < heap_lines \<and> \<not> bm_bits (o_BitMap u b) j} \<subseteq> old_listed b w"
  proof
    fix j assume j: "j \<in> {j \<in> insert i J. j < heap_lines \<and> \<not> bm_bits (o_BitMap u b) j}"
    show "j \<in> old_listed b w"
    proof (cases "j = i")
      case True
      then show ?thesis using j new(1) sub(2) by auto
    next
      case False
      then show ?thesis using j new(2) b(1) by auto
    qed
  qed
  moreover have "old_listed p u \<subseteq> old_listed p w" for p using sub by blast
  ultimately show ?thesis
    using old_frame_trans [OF fr] \<open>old_ok w\<close> b l d assms(3) unfolding old_marks_def by auto
qed

text \<open>The copy on write: the line's old bit is cleared and its content goes to the log, if the bit was set.\<close>

definition old_uncopied :: "bool \<Rightarrow> nat \<Rightarrow> old_escort \<Rightarrow> old_escort" where
  "old_uncopied b i u = (if bm_bits (o_BitMap u (\<not> b)) i then u\<lparr>o_BitMap := (o_BitMap u)((\<not> b) :=
     (o_BitMap u (\<not> b))\<lparr>bm_bits := (bm_bits (o_BitMap u (\<not> b)))(i := False)\<rparr>)\<rparr> else u)"

lemma old_uncopied_facts:
  "o_ctx_array (old_uncopied b i u) = o_ctx_array u" "old_entries (old_uncopied b i u) = old_entries u"
  "old_frame u (old_uncopied b i u)" "old_listed p (old_uncopied b i u) = old_listed p u"
  "old_logged (old_uncopied b i u) = old_logged u" "old_ok (old_uncopied b i u) \<longleftrightarrow> old_ok u"
  "o_BitMap (old_uncopied b i u) b = o_BitMap u b"
  "bm_bits (o_BitMap (old_uncopied b i u) (\<not> b)) j \<longleftrightarrow> bm_bits (o_BitMap u (\<not> b)) j \<and> j \<noteq> i"
proof -
  show "o_ctx_array (old_uncopied b i u) = o_ctx_array u" "old_entries (old_uncopied b i u) = old_entries u"
    "old_frame u (old_uncopied b i u)" "old_listed p (old_uncopied b i u) = old_listed p u" "o_BitMap (old_uncopied b i u) b = o_BitMap u b"
    by (simp_all add: old_uncopied_def old_entries_def old_frame_def old_listed_def)
  then show "old_logged (old_uncopied b i u) = old_logged u" by (simp add: old_logged_def)
  show "old_ok (old_uncopied b i u) \<longleftrightarrow> old_ok u"
  proof -
    have "bm_size (o_BitMap (old_uncopied b i u) q) = bm_size (o_BitMap u q)" for q by (simp add: old_uncopied_def)
    moreover have "o_cp_log (old_uncopied b i u) = o_cp_log u" by (simp add: old_uncopied_def)
    ultimately show ?thesis using \<open>o_ctx_array (old_uncopied b i u) = o_ctx_array u\<close> by (simp add: old_ok_def old_entries_def)
  qed
  show "bm_bits (o_BitMap (old_uncopied b i u) (\<not> b)) j \<longleftrightarrow> bm_bits (o_BitMap u (\<not> b)) j \<and> j \<noteq> i"
    by (auto simp: old_uncopied_def)
qed

lemma old_copy_ok:
  assumes ok: "old_ok u" and i: "i < heap_lines" and t: "t < length (o_ctx_array u)"
    and room: "bm_bits (o_BitMap u (\<not> b)) i \<Longrightarrow> op_size (oc_log (o_ctx_array u ! t)) < LOG_SIZE"
    and fresh: "bm_bits (o_BitMap u (\<not> b)) i \<Longrightarrow> old_logged u i = None"
  obtains v where "(if bm_bits (o_BitMap u (\<not> b)) i then old_push_user_log t (line_ptr i, o_dram u (line_ptr i)) (old_uncopied b i u)
      else Inr (old_uncopied b i u)) = Inr v"
    and "old_ok v" and "old_frame u v" and "o_BitMap v = o_BitMap (old_uncopied b i u)"
    and "\<And>p. old_listed p v = old_listed p u" and "oc_addrlist (o_ctx_array v ! t) = oc_addrlist (o_ctx_array u ! t)"
    and "op_size (oc_log (o_ctx_array v ! t)) \<le> op_size (oc_log (o_ctx_array u ! t)) + 1"
    and "old_logged v = (if bm_bits (o_BitMap u (\<not> b)) i then (old_logged u)(i \<mapsto> o_dram u (line_ptr i)) else old_logged u)"
proof (cases "bm_bits (o_BitMap u (\<not> b)) i")
  case False
  with ok show ?thesis by (intro that [of u]) (simp_all add: old_uncopied_def old_frame_def)
next
  case True
  let ?c = "o_ctx_array u ! t" and ?u1 = "old_uncopied b i u"
  note u1 = old_uncopied_facts [where b = b and i = i and u = u]
  obtain l where l: "old_push_user_log t (line_ptr i, o_dram u (line_ptr i)) ?u1 = Inr (old_put_ctx t (?c\<lparr>oc_log := l\<rparr>) ?u1)"
    "op_size l = op_size (oc_log ?c) + 1" "old_ok (old_put_ctx t (?c\<lparr>oc_log := l\<rparr>) ?u1)"
    "old_logged (old_put_ctx t (?c\<lparr>oc_log := l\<rparr>) ?u1) = (old_logged ?u1)(i \<mapsto> o_dram u (line_ptr i))"
    using old_push_user_log_ok [of ?u1 t i "o_dram u (line_ptr i)"] ok room [OF True] t i fresh [OF True] u1(1,5,6) by auto
  let ?v = "old_put_ctx t (?c\<lparr>oc_log := l\<rparr>) ?u1"
  have "old_frame u ?v" using u1(1,3) by (simp add: old_frame_def map_update_same)
  moreover have "old_listed p ?v = old_listed p u" for p
    by (simp add: old_listed_def u1(1) bex_update_same)
  ultimately show ?thesis using l t u1(5) True by (intro that [of ?v]) (simp_all add: u1(1))
qed

text \<open>Marking a line takes at most one place in the list and one in the log.\<close>

lemma old_mark_line_effect:
  assumes ok: "old_ok u" and i: "i < heap_lines" and t: "t < length (o_ctx_array u)"
    and list: "\<not> bm_bits (o_BitMap u b) i \<Longrightarrow> oa_size (oc_addrlist (o_ctx_array u ! t) b) < LOG_SIZE"
    and log: "\<not> bm_bits (o_BitMap u b) i \<Longrightarrow> bm_bits (o_BitMap u (\<not> b)) i \<Longrightarrow> op_size (oc_log (o_ctx_array u ! t)) < LOG_SIZE"
    and fresh: "bm_bits (o_BitMap u (\<not> b)) i \<Longrightarrow> old_logged u i = None"
  shows "\<exists>u'. old_mark_line t b i (line_ptr i) u = Inr u' \<and> old_marks b {i} u u' \<and>
    oa_size (oc_addrlist (o_ctx_array u' ! t) b) \<le> oa_size (oc_addrlist (o_ctx_array u ! t) b) + 1 \<and>
    op_size (oc_log (o_ctx_array u' ! t)) \<le> op_size (oc_log (o_ctx_array u ! t)) + 1"
proof (cases "bm_bits (o_BitMap u b) i")
  case True
  then have "old_mark_line t b i (line_ptr i) u = Inr u"
    using ok i by (simp add: old_mark_line_def bitmap_is_set_def old_ok_def)
  then show ?thesis using old_marks_flagged [of u b i] True ok by auto
next
  case False
  have sz: "bm_size (o_BitMap u p) = heap_lines" for p using ok by (simp add: old_ok_def)
  obtain u2 where copy: "(if bm_bits (o_BitMap u (\<not> b)) i then old_push_user_log t (line_ptr i, o_dram u (line_ptr i)) (old_uncopied b i u)
      else Inr (old_uncopied b i u)) = Inr u2"
    and u2: "old_ok u2" "old_frame u u2" "o_BitMap u2 = o_BitMap (old_uncopied b i u)"
    "\<And>p. old_listed p u2 = old_listed p u" "oc_addrlist (o_ctx_array u2 ! t) = oc_addrlist (o_ctx_array u ! t)"
    "op_size (oc_log (o_ctx_array u2 ! t)) \<le> op_size (oc_log (o_ctx_array u ! t)) + 1"
    "old_logged u2 = (if bm_bits (o_BitMap u (\<not> b)) i then (old_logged u)(i \<mapsto> o_dram u (line_ptr i)) else old_logged u)"
    using old_copy_ok [OF ok i t log [OF False] fresh] by metis
  define u3 where "u3 = u2\<lparr>o_BitMap := (o_BitMap u2)(b := (o_BitMap u b)\<lparr>bm_bits := (bm_bits (o_BitMap u b))(i := True)\<rparr>)\<rparr>"
  have u3: "o_ctx_array u3 = o_ctx_array u2" "old_frame u2 u3" "old_logged u3 = old_logged u2" "\<And>p. old_listed p u3 = old_listed p u2"
    by (simp_all add: u3_def old_frame_def old_logged_def old_entries_def old_listed_def)
  have u3ok: "old_ok u3" using u2(1) sz by (simp add: u3_def old_ok_def old_entries_def)
  have len: "length (o_ctx_array u2) = length (o_ctx_array u)" by (rule old_frame_length [OF u2(2)])
  obtain u4 where u4: "old_append_line t b (line_ptr i) u3 = Inr u4" "old_frame u3 u4" "old_ok u4" "o_BitMap u4 = o_BitMap u3"
    "old_logged u4 = old_logged u3" "\<And>p. old_listed p u3 \<subseteq> old_listed p u4" "i \<in> old_listed b u4"
    "oa_size (oc_addrlist (o_ctx_array u4 ! t) b) = oa_size (oc_addrlist (o_ctx_array u ! t) b) + 1"
    "oc_log (o_ctx_array u4 ! t) = oc_log (o_ctx_array u2 ! t)"
    using old_append_line_ok [OF u3ok _ i, of t b] t list [OF False] u2(5) by (auto simp: u3(1) len)
  have "old_mark_line t b i (line_ptr i) u = Inr u4"
    using False i sz u4(1) copy u2(3) old_uncopied_facts(7) [where b = b and i = i and u = u]
    by (auto simp: old_mark_line_def bitmap_is_set_def bitmap_clear_def bitmap_set_def old_uncopied_def u3_def Let_def split: if_splits)
  moreover have "old_frame u u4" using u2(2) u3(2) u4(2) old_frame_trans by blast
  moreover have "old_marks b {i} u u4"
    using \<open>old_frame u u4\<close> u4(3-7) u3(3,4) u2(3,4,7) old_uncopied_facts(7,8) [where b = b and i = i and u = u] False
    unfolding old_marks_def by (auto simp: u3_def)
  ultimately show ?thesis using u2(6) u4(8,9) by (intro exI [of _ u4]) simp
qed

lemma old_mark_line_ok:
  assumes "old_ok u" and "i < heap_lines" and room: "old_room (Suc n) t b u"
    and "bm_bits (o_BitMap u (\<not> b)) i \<Longrightarrow> old_logged u i = None"
  shows "\<exists>u'. old_mark_line t b i (line_ptr i) u = Inr u' \<and> old_marks b {i} u u' \<and> old_room n t b u'"
proof -
  obtain u' where u': "old_mark_line t b i (line_ptr i) u = Inr u'" "old_marks b {i} u u'"
    "oa_size (oc_addrlist (o_ctx_array u' ! t) b) \<le> oa_size (oc_addrlist (o_ctx_array u ! t) b) + 1"
    "op_size (oc_log (o_ctx_array u' ! t)) \<le> op_size (oc_log (o_ctx_array u ! t)) + 1"
    using old_mark_line_effect [where b = b and t = t, OF assms(1,2) _ _ _ assms(4)] room by (auto simp: old_room_def)
  moreover have "length (o_ctx_array u') = length (o_ctx_array u)" using u'(2) by (intro old_frame_length) (simp add: old_marks_def)
  ultimately show ?thesis using room by (auto simp: old_room_def)
qed

text \<open>Without room a line is marked as well, or an array is full.\<close>

lemma old_mark_line_cases:
  assumes ok: "old_ok u" and i: "i < heap_lines" and t: "t < length (o_ctx_array u)"
    and fresh: "bm_bits (o_BitMap u (\<not> b)) i \<Longrightarrow> old_logged u i = None"
  shows "(\<exists>u'. old_mark_line t b i (line_ptr i) u = Inr u' \<and> old_marks b {i} u u') \<or>
    old_mark_line t b i (line_ptr i) u \<in> {Inl OutOfBounds, Inl AssertFailed}"
proof -
  let ?c = "o_ctx_array u ! t"
  have sz: "bm_size (o_BitMap u p) = heap_lines" for p using ok by (simp add: old_ok_def)
  have mx: "oa_max_size (oc_addrlist ?c b) = LOG_SIZE" using ok t by (simp add: old_ok_def old_ctx_ok_def old_list_ok_def)
  consider "bm_bits (o_BitMap u b) i" | "\<not> bm_bits (o_BitMap u b) i" "bm_bits (o_BitMap u (\<not> b)) i" "\<not> op_size (oc_log ?c) < LOG_SIZE"
    | "\<not> bm_bits (o_BitMap u b) i" "bm_bits (o_BitMap u (\<not> b)) i \<Longrightarrow> op_size (oc_log ?c) < LOG_SIZE" "\<not> oa_size (oc_addrlist ?c b) < LOG_SIZE"
    | "bm_bits (o_BitMap u (\<not> b)) i \<Longrightarrow> op_size (oc_log ?c) < LOG_SIZE" "oa_size (oc_addrlist ?c b) < LOG_SIZE"
    by blast
  then show ?thesis
  proof cases
    case 1
    then show ?thesis using old_mark_line_effect [OF ok i t _ _ fresh] by blast
  next
    case 2
    then show ?thesis
      using i sz t by (simp add: old_mark_line_def bitmap_is_set_def bitmap_clear_def old_push_user_log_def old_get_ctx_def
          old_plog_push_back_def)
  next
    case 3
    then show ?thesis
      using i sz t mx by (simp add: old_mark_line_def bitmap_is_set_def bitmap_clear_def bitmap_set_def old_push_user_log_def
          old_get_ctx_def old_plog_push_back_def old_append_line_def old_addrlist_append_def rassert_def)
  next
    case 4
    then show ?thesis using old_mark_line_effect [OF ok i t _ _ fresh] by blast
  qed
qed

end
