(* ===== verification/OldCheckpoint.thy ===== *)
theory OldCheckpoint
  imports OldLogs
begin

section \<open>A checkpoint of \<^verbatim>\<open>OLD_VERSION\<close>\<close>

text \<open>
  What the log loop must not change is the map from lines to the contents that the update of the NVM heap is going to write,
  those in a log and those that the loop has still to log (\<open>old_snap\<close>). When the loop ends no line is left to log, so that
  the update writes what the map said at the beginning.
\<close>

lemma old_mark_loop_ok:
  assumes "old_ok u" and "i + n \<le> heap_lines" and "old_room n t b u"
    and "\<And>j. j \<in> {i..<i + n} \<Longrightarrow> bm_bits (o_BitMap u (\<not> b)) j \<Longrightarrow> old_logged u j = None"
  shows "\<exists>u'. old_mark_loop t b n i (line_ptr i) u = Inr u' \<and> old_marks b {i..<i + n} u u'"
  using assms
proof (induction n arbitrary: i u)
  case 0
  then show ?case by (simp add: old_marks_refl)
next
  case (Suc n)
  obtain v where v: "old_mark_line t b i (line_ptr i) u = Inr v" "old_marks b {i} u v" "old_room n t b v"
    using old_mark_line_ok [OF Suc.prems(1) _ Suc.prems(3), of i] Suc.prems(2,4) by auto
  have "old_ok v" using v(2) by (simp add: old_marks_def)
  moreover have "bm_bits (o_BitMap v (\<not> b)) j \<Longrightarrow> old_logged v j = None" if "j \<in> {Suc i..<Suc i + n}" for j
    using v(2) Suc.prems(4) [of j] that by (simp add: old_marks_def)
  ultimately obtain w where w: "old_mark_loop t b n (Suc i) (line_ptr (Suc i)) v = Inr w" "old_marks b {Suc i..<Suc i + n} v w"
    using Suc.IH [of v "Suc i"] v(3) Suc.prems(2) by auto
  have "insert i {Suc i..<Suc i + n} = {i..<i + Suc n}" by auto
  with old_marks_insert [OF v(2) w(2)] have "old_marks b {i..<i + Suc n} u w" by simp
  then show ?case using v(1) w(1) by (simp add: line_ptr_Suc)
qed

lemma old_mark_loop_cases:
  assumes "old_ok u" and "i + n \<le> heap_lines" and "t < length (o_ctx_array u)"
    and "\<And>j. j \<in> {i..<i + n} \<Longrightarrow> bm_bits (o_BitMap u (\<not> b)) j \<Longrightarrow> old_logged u j = None"
  shows "(\<exists>u'. old_mark_loop t b n i (line_ptr i) u = Inr u' \<and> old_marks b {i..<i + n} u u') \<or>
    old_mark_loop t b n i (line_ptr i) u \<in> {Inl OutOfBounds, Inl AssertFailed}"
  using assms
proof (induction n arbitrary: i u)
  case 0
  then show ?case by (simp add: old_marks_refl)
next
  case (Suc n)
  from old_mark_line_cases [OF Suc.prems(1) _ Suc.prems(3), of i b] Suc.prems(2,4) consider
    v where "old_mark_line t b i (line_ptr i) u = Inr v" "old_marks b {i} u v"
    | "old_mark_line t b i (line_ptr i) u \<in> {Inl OutOfBounds, Inl AssertFailed}" by auto
  then show ?case
  proof cases
    case (1 v)
    have v: "old_ok v" "length (o_ctx_array v) = length (o_ctx_array u)"
      using 1(2) old_frame_length [of u v] by (simp_all add: old_marks_def)
    have "bm_bits (o_BitMap v (\<not> b)) j \<Longrightarrow> old_logged v j = None" if "j \<in> {Suc i..<Suc i + n}" for j
      using 1(2) Suc.prems(4) [of j] that by (simp add: old_marks_def)
    with Suc.IH [of v "Suc i"] v Suc.prems(2,3) have rest:
      "(\<exists>w. old_mark_loop t b n (Suc i) (line_ptr (Suc i)) v = Inr w \<and> old_marks b {Suc i..<Suc i + n} v w) \<or>
       old_mark_loop t b n (Suc i) (line_ptr (Suc i)) v \<in> {Inl OutOfBounds, Inl AssertFailed}" by auto
    have "insert i {Suc i..<Suc i + n} = {i..<i + Suc n}" by auto
    then have "old_marks b {Suc i..<Suc i + n} v w \<Longrightarrow> old_marks b {i..<i + Suc n} u w" for w
      using old_marks_insert [OF 1(2), of "{Suc i..<Suc i + n}" w] by simp
    with rest 1(1) show ?thesis by (auto simp: line_ptr_Suc)
  next
    case 2
    then show ?thesis by auto
  qed
qed

subsection \<open>The log loop\<close>

definition old_snap :: "bool \<Rightarrow> old_escort \<Rightarrow> nat \<rightharpoonup> cacheline_t" where
  "old_snap p u i = (if i \<in> old_flagged p u then Some (o_dram u (line_ptr i)) else old_logged u i)"

text \<open>What holds when the log loop starts: every flagged line is in a list and in no log, and the log of the checkpointing thread has room.\<close>

definition old_loggable :: "bool \<Rightarrow> old_escort \<Rightarrow> bool" where
  "old_loggable p u \<longleftrightarrow> old_ok u \<and> old_flagged p u \<subseteq> old_listed p u \<and>
     (\<forall>i \<in> old_flagged p u. old_logged u i = None) \<and> op_size (o_cp_log u) + card (old_flagged p u) \<le> LOG_SIZE"

text \<open>What the loop has changed from \<open>u\<close> to \<open>v\<close>.\<close>

definition old_logs_lines :: "bool \<Rightarrow> old_escort \<Rightarrow> old_escort \<Rightarrow> bool" where
  "old_logs_lines p u v \<longleftrightarrow> old_frame u v \<and> old_loggable p v \<and> old_snap p v = old_snap p u \<and>
     o_BitMap v (\<not> p) = o_BitMap u (\<not> p) \<and> old_listed (\<not> p) v = old_listed (\<not> p) u"

lemma old_logs_lines_trans: "old_logs_lines p u v \<Longrightarrow> old_logs_lines p v w \<Longrightarrow> old_logs_lines p u w"
  unfolding old_logs_lines_def using old_frame_trans by auto

lemma finite_old_flagged [simp]: "finite (old_flagged p u)"
  by (simp add: old_flagged_def)

text \<open>The last line of the list of a thread is taken off.\<close>

definition old_popped :: "bool \<Rightarrow> nat \<Rightarrow> old_escort \<Rightarrow> old_escort" where
  "old_popped p t u =
     (let ctx = o_ctx_array u ! t; l = oc_addrlist ctx p
      in old_put_ctx t (ctx\<lparr>oc_addrlist := (oc_addrlist ctx)(p := l\<lparr>oa_size := oa_size l - 1\<rparr>)\<rparr>) u)"

lemma old_popped_facts:
  assumes ok: "old_ok u" and t: "t < length (o_ctx_array u)" and ne: "0 < old_list_size p t u"
  obtains i where "i < heap_lines"
    and "oa_list (oc_addrlist (o_ctx_array u ! t) p) (old_list_size p t u - 1) = line_ptr i"
    and "old_listed p u \<subseteq> insert i (old_listed p (old_popped p t u))"
    and "old_listed (\<not> p) (old_popped p t u) = old_listed (\<not> p) u"
    and "old_frame u (old_popped p t u)" and "old_entries (old_popped p t u) = old_entries u" and "old_ok (old_popped p t u)"
proof -
  let ?c = "o_ctx_array u ! t" and ?v = "old_popped p t u"
  let ?l = "oc_addrlist ?c p"
  let ?l' = "?l\<lparr>oa_size := oa_size ?l - 1\<rparr>"
  define c' where "c' = ?c\<lparr>oc_addrlist := (oc_addrlist ?c)(p := ?l')\<rparr>"
  have v: "?v = old_put_ctx t c' u" by (simp add: old_popped_def c'_def Let_def)
  have cok: "old_ctx_ok ?c" using ok t by (simp add: old_ok_def)
  then have "oa_list ?l (oa_size ?l - 1) \<in> line_ptr ` {..<heap_lines}"
    using ne by (simp add: old_ctx_ok_def old_list_ok_def old_list_size_def)
  then obtain i where i: "i < heap_lines" "oa_list ?l (oa_size ?l - 1) = line_ptr i" by auto
  have "old_list_ok ?l" using cok by (simp add: old_ctx_ok_def)
  then have "old_list_ok ?l'" by (auto simp: old_list_ok_def)
  then have "old_ctx_ok c'" using cok by (simp add: old_ctx_ok_def c'_def)
  then have "\<forall>ctx \<in> set ((o_ctx_array u)[t := c']). old_ctx_ok ctx"
    using ok by (intro all_set_update) (simp_all add: old_ok_def)
  moreover have e: "old_entries ?v = old_entries u" unfolding v by (rule old_plog_entries_update) (simp add: c'_def)
  ultimately have ok': "old_ok ?v" using ok by (simp add: old_ok_def e) (simp add: v)
  have fr: "old_frame u ?v" by (simp add: v old_frame_def map_update_same c'_def)
  have other: "old_listed (\<not> p) ?v = old_listed (\<not> p) u"
    by (simp add: v old_listed_def bex_update_same c'_def)
  have "old_listed p u \<subseteq> insert i (old_listed p ?v)"
  proof
    fix j assume "j \<in> old_listed p u"
    then obtain r k where j: "j < heap_lines" and r: "r < length (o_ctx_array u)" "k < oa_size (oc_addrlist (o_ctx_array u ! r) p)"
      "oa_list (oc_addrlist (o_ctx_array u ! r) p) k = line_ptr j"
      by (auto simp: old_listed_def in_set_conv_nth)
    show "j \<in> insert i (old_listed p ?v)"
    proof (cases "r = t \<and> k = oa_size ?l - 1")
      case True
      then show ?thesis using r(3) i j line_ptr_inj by auto
    next
      case False
      have "(o_ctx_array u)[t := c'] ! r \<in> set (o_ctx_array ?v)" using r(1) by (simp add: v)
      moreover have "\<exists>k < oa_size (oc_addrlist ((o_ctx_array u)[t := c'] ! r) p).
          oa_list (oc_addrlist ((o_ctx_array u)[t := c'] ! r) p) k = line_ptr j"
      proof (cases "r = t")
        case True
        then show ?thesis using r False by (intro exI [of _ k]) (auto simp: c'_def)
      next
        case False
        then show ?thesis using r by auto
      qed
      ultimately have "j \<in> old_listed p ?v" using j by (rule old_listedI)
      then show ?thesis by simp
    qed
  qed
  with that i other fr e ok' show ?thesis by (simp add: old_list_size_def)
qed

text \<open>
  \<open>w\<close> is \<open>u\<close> after the line \<open>i\<close> has been taken off a list. If its flag is gone, that is all; else it is logged and its
  flag cleared.
\<close>

lemma old_logs_unflagged:
  assumes lg: "old_loggable p u" and bit: "i \<notin> old_flagged p u"
    and w: "old_frame u w" "old_ok w" "old_entries w = old_entries u" "o_BitMap w = o_BitMap u" "o_cp_log w = o_cp_log u"
    and sub: "old_listed p u \<subseteq> insert i (old_listed p w)" and other: "old_listed (\<not> p) w = old_listed (\<not> p) u"
  shows "old_logs_lines p u w"
proof -
  have fl: "old_flagged q w = old_flagged q u" for q by (simp add: old_flagged_def w(4))
  have lgd: "old_logged w = old_logged u" by (simp add: old_logged_def w(3))
  have "old_flagged p w \<subseteq> old_listed p w" using sub lg bit unfolding fl old_loggable_def by blast
  then have "old_loggable p w" using lg w(2) by (simp add: old_loggable_def fl lgd w(5))
  moreover have "old_snap p w = old_snap p u" using w(1) by (simp add: old_snap_def fun_eq_iff fl lgd old_frame_def)
  ultimately show ?thesis using w(1) other by (simp add: old_logs_lines_def w(4))
qed

lemma old_logs_flagged:
  assumes lg: "old_loggable p u" and fi: "i \<in> old_flagged p u"
    and w: "old_frame u w" "old_ok w" "old_entries w = old_entries u" "o_BitMap w = o_BitMap u" "o_cp_log w = o_cp_log u"
    and sub: "old_listed p u \<subseteq> insert i (old_listed p w)" and other: "old_listed (\<not> p) w = old_listed (\<not> p) u"
    and l: "old_plog_push_back (line_ptr i, o_dram u (line_ptr i)) (o_cp_log u) = Inr l"
  defines "v \<equiv> w\<lparr>o_cp_log := l, o_BitMap := (o_BitMap u)(p :=
    (o_BitMap u p)\<lparr>bm_bits := (bm_bits (o_BitMap u p))(i := False)\<rparr>)\<rparr>"
  shows "old_logs_lines p u v"
proof -
  have ok: "old_ok u" and i: "i < heap_lines" using lg fi by (simp_all add: old_loggable_def old_flagged_def)
  note pe = old_plog_push_entries [OF l]
  have card: "card (old_flagged p u - {i}) + 1 = card (old_flagged p u)"
    using card_Suc_Diff1 [of "old_flagged p u" i] fi by simp
  have flv: "old_flagged p v = old_flagged p u - {i}" by (auto simp: v_def old_flagged_def)
  have m: "mset (old_entries v) = add_mset (line_ptr i, o_dram u (line_ptr i)) (mset (old_entries u))"
    using pe(1) w(3) by (simp add: v_def old_entries_def w(5))
  have none: "entries_map (old_entries u) i = None" using lg fi by (simp add: old_loggable_def old_logged_def)
  have le: "line_entries (old_entries u)" using ok by (simp add: old_ok_def)
  have lgv: "old_logged v = (old_logged u)(i \<mapsto> o_dram u (line_ptr i))"
    using entries_map_add(2) [OF m le i none] by (simp add: old_logged_def)
  have frv: "old_frame u v" using w(1) by (simp add: old_frame_def v_def)
  have "old_ok v"
    using w(2) entries_map_add(1) [OF m le i none] pe(2,3) ok unfolding old_ok_def by (simp add: v_def w(5))
  moreover have lv: "old_listed q v = old_listed q w" for q by (simp add: old_listed_def v_def)
  moreover have "old_flagged p v \<subseteq> old_listed p v"
    using sub lg by (auto simp: flv lv old_loggable_def)
  ultimately have "old_loggable p v"
    using lg card pe(2) by (auto simp: old_loggable_def flv lgv) (simp add: v_def)
  moreover have "old_snap p v = old_snap p u"
    using fi frv by (auto simp: old_snap_def fun_eq_iff flv lgv old_frame_def)
  moreover have "o_BitMap v (\<not> p) = o_BitMap u (\<not> p)" by (simp add: v_def)
  ultimately show ?thesis using frv other lv by (simp add: old_logs_lines_def)
qed

lemma old_log_entry_ok:
  assumes lg: "old_loggable p u" and t: "t < length (o_ctx_array u)" and ne: "0 < old_list_size p t u"
  shows "\<exists>v. old_log_entry p t u = Inr v \<and> old_logs_lines p u v \<and> (\<forall>r. r \<noteq> t \<longrightarrow> old_list_size p r v = old_list_size p r u)"
proof -
  have ok: "old_ok u" using lg by (simp add: old_loggable_def)
  let ?u = "old_popped p t u"
  obtain i where i: "i < heap_lines"
    and top: "oa_list (oc_addrlist (o_ctx_array u ! t) p) (old_list_size p t u - 1) = line_ptr i"
    and sub: "old_listed p u \<subseteq> insert i (old_listed p ?u)" and other: "old_listed (\<not> p) ?u = old_listed (\<not> p) u"
    and fr: "old_frame u ?u" and e: "old_entries ?u = old_entries u" and ok': "old_ok ?u"
    by (rule old_popped_facts [OF ok t ne])
  have bm: "o_BitMap ?u = o_BitMap u" "o_cp_log ?u = o_cp_log u" by (simp_all add: old_popped_def Let_def)
  have sz: "bm_size (o_BitMap u p) = heap_lines" using ok by (simp add: old_ok_def)
  have rest: "old_list_size p r ?u = old_list_size p r u" if "r \<noteq> t" for r
    using that by (simp add: old_list_size_def old_popped_def Let_def)
  have pop: "old_addrlist_pop (oc_addrlist (o_ctx_array u ! t) p) = Inr (line_ptr i,
      (oc_addrlist (o_ctx_array u ! t) p)\<lparr>oa_size := oa_size (oc_addrlist (o_ctx_array u ! t) p) - 1\<rparr>)"
    using ne top by (simp add: old_addrlist_pop_def old_list_size_def Let_def)
  show ?thesis
  proof (cases "bm_bits (o_BitMap u p) i")
    case False
    have "old_log_entry p t u = Inr ?u"
      using False i sz bitmap_get_index_line [OF i]
      by (simp add: old_log_entry_def old_get_ctx_def t pop bitmap_is_set_def) (simp add: old_popped_def Let_def)
    moreover have "i \<notin> old_flagged p u" using False by (simp add: old_flagged_def)
    from old_logs_unflagged [OF lg this fr ok' e bm sub other] have "old_logs_lines p u ?u" .
    ultimately show ?thesis using rest by blast
  next
    case True
    then have fi: "i \<in> old_flagged p u" using i by (simp add: old_flagged_def)
    then have "0 < card (old_flagged p u)" by (auto simp: card_gt_0_iff)
    then have "op_size (o_cp_log u) < LOG_SIZE" using lg by (simp add: old_loggable_def)
    then obtain l where l: "old_plog_push_back (line_ptr i, o_dram u (line_ptr i)) (o_cp_log u) = Inr l"
      using old_plog_push_total by blast
    let ?v = "?u\<lparr>o_cp_log := l, o_BitMap := (o_BitMap u)(p := (o_BitMap u p)\<lparr>bm_bits := (bm_bits (o_BitMap u p))(i := False)\<rparr>)\<rparr>"
    have "old_log_entry p t u = Inr ?v"
      using True i sz bitmap_get_index_line [OF i] l
      by (simp add: old_log_entry_def old_get_ctx_def t pop bitmap_is_set_def bitmap_clear_def)
        (simp add: old_popped_def Let_def)
    moreover have "old_list_size p r ?v = old_list_size p r ?u" for r by (simp add: old_list_size_def)
    ultimately show ?thesis using old_logs_flagged [OF lg fi fr ok' e bm sub other l] rest by auto
  qed
qed

lemma old_log_list_ok:
  assumes "old_loggable p u" and "t < length (o_ctx_array u)"
  shows "\<exists>v. old_log_list p t u = Inr v \<and> old_logs_lines p u v \<and> old_list_size p t v = 0 \<and>
    (\<forall>r. r \<noteq> t \<longrightarrow> old_list_size p r v = old_list_size p r u)"
  using assms
proof (induction "old_list_size p t u" arbitrary: u)
  case 0
  then have "old_log_list p t u = Inr u"
    by (simp add: old_log_list.simps [of p t u] old_get_ctx_def old_addrlist_is_empty_def old_list_size_def)
  then show ?case using 0 by (auto simp: old_logs_lines_def)
next
  case (Suc n)
  then have ne: "0 < old_list_size p t u" by simp
  obtain v where v: "old_log_entry p t u = Inr v" "old_logs_lines p u v"
    "\<And>r. r \<noteq> t \<Longrightarrow> old_list_size p r v = old_list_size p r u"
    using old_log_entry_ok [OF Suc.prems ne] by blast
  have "n = old_list_size p t v" using old_log_entry_size [OF v(1)] Suc.hyps(2) by simp
  moreover have "old_loggable p v" "t < length (o_ctx_array v)"
    using v(2) old_frame_length [of u v] Suc.prems(2) by (simp_all add: old_logs_lines_def)
  ultimately obtain w where w: "old_log_list p t v = Inr w" "old_logs_lines p v w" "old_list_size p t w = 0"
    "\<And>r. r \<noteq> t \<Longrightarrow> old_list_size p r w = old_list_size p r v"
    using Suc.hyps(1) [of v] by blast
  have "old_log_list p t u = Inr w"
    using v(1) w(1) ne Suc.prems(2)
    by (simp add: old_log_list.simps [of p t u] old_get_ctx_def old_addrlist_is_empty_def old_list_size_def)
  then show ?case using old_logs_lines_trans [OF v(2) w(2)] v(3) w(3,4) by auto
qed

lemma old_log_lists_ok:
  assumes "old_loggable p u" and "n \<le> length (o_ctx_array u)"
  shows "\<exists>v. rfold (old_log_list p) [0..<n] u = Inr v \<and> old_logs_lines p u v \<and> (\<forall>r < n. old_list_size p r v = 0)"
  using assms(2)
proof (induction n)
  case 0
  then show ?case using assms(1) by (simp add: old_logs_lines_def)
next
  case (Suc n)
  then obtain v where v: "rfold (old_log_list p) [0..<n] u = Inr v" "old_logs_lines p u v" "\<forall>r < n. old_list_size p r v = 0"
    by auto
  have "old_loggable p v" "n < length (o_ctx_array v)"
    using v(2) old_frame_length [of u v] Suc.prems by (simp_all add: old_logs_lines_def)
  then obtain w where w: "old_log_list p n v = Inr w" "old_logs_lines p v w" "old_list_size p n w = 0"
    "\<forall>r. r \<noteq> n \<longrightarrow> old_list_size p r w = old_list_size p r v"
    using old_log_list_ok by blast
  then show ?case
    using v old_logs_lines_trans [OF v(2) w(2)] by (auto simp: rfold_append less_Suc_eq)
qed

text \<open>The log loop returns, unflags every line and logs what it is to log.\<close>

lemma old_log_persistence_ok:
  assumes "old_loggable p u" and "p = epoch_bit (Epoch (o_GLOBAL_EPOCH u) - 1)"
  shows "\<exists>v. old_log_persistence_unit u = Inr v \<and> old_logs_lines p u v \<and> old_flagged p v = {} \<and> old_logged v = old_snap p u"
proof -
  obtain v where v: "rfold (old_log_list p) [0..<length (o_ctx_array u)] u = Inr v" "old_logs_lines p u v"
    "\<forall>r < length (o_ctx_array u). old_list_size p r v = 0"
    using old_log_lists_ok [OF assms(1) order_refl] by blast
  have "length (o_ctx_array v) = length (o_ctx_array u)"
    using v(2) old_frame_length by (simp add: old_logs_lines_def)
  then have "old_listed p v = {}"
    using v(3) by (auto simp: old_listed_def old_list_size_def in_set_conv_nth)
  then have fl: "old_flagged p v = {}" using v(2) by (auto simp: old_logs_lines_def old_loggable_def)
  have "old_logged v = old_snap p v" by (simp add: old_snap_def fun_eq_iff fl)
  then have "old_logged v = old_snap p u" using v(2) by (simp add: old_logs_lines_def)
  with v fl assms(2) show ?thesis by (simp add: old_log_persistence_unit_def)
qed

end
