(* ===== verification/OldEquiv.thy ===== *)
theory OldEquiv
  imports OldCheckpoint CheckpointLive
begin

section \<open>The two variants agree\<close>

subsection \<open>The update of the NVM heap in \<^verbatim>\<open>OLD_VERSION\<close>\<close>

definition heap_write :: "size_t \<Rightarrow> (ptr \<times> cacheline_t) list \<Rightarrow> (ptr \<Rightarrow> cacheline_t) \<Rightarrow> ptr \<Rightarrow> cacheline_t" where
  "heap_write offset es h = fold (\<lambda>e h. h(add_addr (fst e) offset := snd e)) es h"

definition old_nvm_image :: "old_escort \<Rightarrow> nat \<Rightarrow> cacheline_t" where
  "old_nvm_image u = heap_image (\<lambda>a. o_nvm u (add_addr a (o_nvm_offset u)))"

lemma replay_entry_heap_write: "fold replay_entry es s = s\<lparr>nvm := heap_write (nvm_offset s) es (nvm s)\<rparr>"
  by (induction es arbitrary: s) (simp_all add: heap_write_def replay_entry_def Let_def)

lemma heap_write_image:
  assumes "line_entries es"
  shows "heap_image (\<lambda>a. heap_write off es h (add_addr a off)) = overlay (entries_map es) (heap_image (\<lambda>a. h (add_addr a off)))"
proof -
  define s :: "unit escort" where "s = undefined\<lparr>nvm_offset := off, nvm := h\<rparr>"
  have "nvm_image (fold replay_entry es s) = overlay (entries_map es) (nvm_image s)"
    using assms by (intro replay_entries) (simp_all add: line_entries_def)
  then show ?thesis by (simp add: replay_entry_heap_write nvm_image_def s_def)
qed

lemma old_plog_entries_pop:
  "op_size l = Suc n \<Longrightarrow> old_plog_entries l =
     old_plog_entries (l\<lparr>op_size := n\<rparr>) @ [(pe_addr (op_array l n), pe_val (op_array l n))]"
  by (simp add: old_plog_entries_def)

lemma old_replay_ok:
  "op_size l \<le> LOG_SIZE \<Longrightarrow>
   old_replay_redo_log off l h = Inr (l\<lparr>op_size := 0\<rparr>, heap_write off (rev (old_plog_entries l)) h)"
proof (induction "op_size l" arbitrary: l h)
  case 0
  then show ?case
    by (simp add: old_replay_redo_log.simps [of off l h] old_plog_is_empty_def old_plog_entries_def heap_write_def)
next
  case (Suc n)
  let ?e = "op_array l n"
  have l: "op_size l = Suc n" using Suc.hyps(2) by simp
  have "old_replay_redo_log off (l\<lparr>op_size := n\<rparr>) (h(add_addr (pe_addr ?e) off := pe_val ?e)) =
      Inr (l\<lparr>op_size := 0\<rparr>, heap_write off (rev (old_plog_entries (l\<lparr>op_size := n\<rparr>))) (h(add_addr (pe_addr ?e) off := pe_val ?e)))"
    using Suc.hyps(1) [of "l\<lparr>op_size := n\<rparr>"] Suc.prems l by simp
  then show ?case
    using l Suc.prems
    by (simp add: old_replay_redo_log.simps [of off l h] old_plog_is_empty_def old_plog_pop_def
        old_plog_entries_pop [OF l] heap_write_def)
qed

text \<open>The logs after their replay.\<close>

definition old_emptied :: "old_ctx \<Rightarrow> old_ctx" where
  "old_emptied ctx = ctx\<lparr>oc_log := (oc_log ctx)\<lparr>op_size := 0\<rparr>\<rparr>"

lemma old_replay_ctxs_ok:
  assumes "\<forall>ctx \<in> set (o_ctx_array u). op_size (oc_log ctx) \<le> LOG_SIZE" and "n \<le> length (o_ctx_array u)"
  shows "rfold old_replay_ctx [0..<n] u = Inr (u\<lparr>
      o_ctx_array := map old_emptied (take n (o_ctx_array u)) @ drop n (o_ctx_array u),
      o_nvm := heap_write (o_nvm_offset u) (concat (map (\<lambda>c. rev (old_plog_entries (oc_log c))) (take n (o_ctx_array u)))) (o_nvm u)\<rparr>)"
  using assms(2)
proof (induction n)
  case 0
  then show ?case by (simp add: heap_write_def)
next
  case (Suc n)
  let ?cs = "o_ctx_array u"
  have n: "n < length ?cs" using Suc.prems by simp
  let ?u = "u\<lparr>o_ctx_array := map old_emptied (take n ?cs) @ drop n ?cs,
      o_nvm := heap_write (o_nvm_offset u) (concat (map (\<lambda>c. rev (old_plog_entries (oc_log c))) (take n ?cs))) (o_nvm u)\<rparr>"
  have IH: "rfold old_replay_ctx [0..<n] u = Inr ?u" using Suc by simp
  have at: "o_ctx_array ?u ! n = ?cs ! n" using n by (simp add: nth_append)
  have sz: "op_size (oc_log (?cs ! n)) \<le> LOG_SIZE" using assms(1) n by simp
  have upd: "(map old_emptied (take n ?cs) @ drop n ?cs)[n := old_emptied (?cs ! n)] =
      map old_emptied (take (Suc n) ?cs) @ drop (Suc n) ?cs"
    using n by (simp add: list_update_append take_Suc_conv_app_nth Cons_nth_drop_Suc [symmetric])
  have "old_replay_ctx n ?u = Inr (?u\<lparr>o_ctx_array := (o_ctx_array ?u)[n := old_emptied (?cs ! n)],
      o_nvm := heap_write (o_nvm_offset u) (rev (old_plog_entries (oc_log (?cs ! n)))) (o_nvm ?u)\<rparr>)"
    using n at by (simp add: old_replay_ctx_def old_get_ctx_def old_replay_ok [OF sz] old_emptied_def old_put_ctx_def)
  then show ?case
    using n by (simp add: rfold_append IH upd heap_write_def take_Suc_conv_app_nth)
qed

text \<open>The update writes the logged lines to the NVM heap and empties the logs.\<close>

lemma old_update_ok:
  assumes ok: "old_ok u"
  shows "\<exists>v. old_nvm_heap_update_unit u = Inr v \<and> old_nvm_image v = overlay (old_logged u) (old_nvm_image u) \<and>
    old_logged v = Map.empty \<and> old_ok v \<and> o_GLOBAL_EPOCH v = o_GLOBAL_EPOCH u \<and> o_dram v = o_dram u \<and>
    o_nvm_offset v = o_nvm_offset u \<and> o_BitMap v = o_BitMap u \<and>
    map oc_epoch (o_ctx_array v) = map oc_epoch (o_ctx_array u) \<and> (\<forall>p. old_listed p v = old_listed p u)"
proof -
  let ?cs = "o_ctx_array u" and ?off = "o_nvm_offset u"
  let ?es = "rev (old_plog_entries (o_cp_log u)) @ concat (map (\<lambda>c. rev (old_plog_entries (oc_log c))) ?cs)"
  have cs: "\<forall>ctx \<in> set ?cs. op_size (oc_log ctx) \<le> LOG_SIZE" and cp: "op_size (o_cp_log u) \<le> LOG_SIZE"
    using ok by (auto simp: old_ok_def old_ctx_ok_def)
  define v where "v = u\<lparr>o_cp_log := (o_cp_log u)\<lparr>op_size := 0\<rparr>, o_ctx_array := map old_emptied ?cs,
    o_nvm := heap_write ?off ?es (o_nvm u)\<rparr>"
  have cp': "old_replay_cp u = Inr (u\<lparr>o_cp_log := (o_cp_log u)\<lparr>op_size := 0\<rparr>,
      o_nvm := heap_write ?off (rev (old_plog_entries (o_cp_log u))) (o_nvm u)\<rparr>)"
    by (simp add: old_replay_cp_def old_replay_ok [OF cp])
  have "rfold old_replay_ctx [0..<length ?cs] (u\<lparr>o_cp_log := (o_cp_log u)\<lparr>op_size := 0\<rparr>,
      o_nvm := heap_write ?off (rev (old_plog_entries (o_cp_log u))) (o_nvm u)\<rparr>) = Inr v"
    using old_replay_ctxs_ok [of "u\<lparr>o_cp_log := (o_cp_log u)\<lparr>op_size := 0\<rparr>,
      o_nvm := heap_write ?off (rev (old_plog_entries (o_cp_log u))) (o_nvm u)\<rparr>" "length ?cs"] cs
    by (simp add: v_def heap_write_def)
  moreover have "old_clear_redo_logs v = v"
    by (simp add: old_clear_redo_logs_def v_def old_plog_clear_def old_emptied_def)
  ultimately have run: "old_nvm_heap_update_unit u = Inr v"
    by (simp add: old_nvm_heap_update_unit_def cp')
  have m: "mset (old_entries u) = mset ?es"
    by (simp add: old_entries_def mset_concat comp_def)
  have le: "line_entries (old_entries u)" using ok by (simp add: old_ok_def)
  have im: "old_nvm_image v = overlay (old_logged u) (old_nvm_image u)"
    using heap_write_image [of ?es ?off "o_nvm u"] line_entries_mset [OF m] le entries_map_mset [OF m le]
    by (simp add: old_nvm_image_def v_def old_logged_def)
  have e: "old_entries v = []" by (simp add: old_entries_def v_def old_plog_entries_def old_emptied_def)
  have "old_logged v = Map.empty" by (simp add: old_logged_def e entries_map_def fun_eq_iff)
  moreover have "old_ok v"
    using ok unfolding old_ok_def e by (auto simp: v_def line_entries_def old_ctx_ok_def old_emptied_def)
  moreover have "old_listed p v = old_listed p u" for p by (simp add: old_listed_def v_def old_emptied_def)
  ultimately show ?thesis using run im by (simp add: v_def) (simp add: old_emptied_def comp_def)
qed

subsection \<open>The log loop and the update with blocks\<close>

definition snap :: "bool \<Rightarrow> ('j, 'z) escort_scheme \<Rightarrow> nat \<rightharpoonup> cacheline_t" where
  "snap p s i = (if i \<in> flagged p s then Some (dram s (line_ptr i)) else logged s i)"

definition marked_lines :: "addrlist_t \<Rightarrow> nat set" where
  "marked_lines l = \<Union> (region_lines ` set l)"

lemma region_lines_heap:
  "j < heap_lines \<Longrightarrow> j + n \<le> heap_lines \<Longrightarrow> region_lines (line_ptr j, n) = {j..<j + n}"
  by (auto simp: region_lines_def dest: line_ptr_inj)

definition loggable :: "bool \<Rightarrow> ('j, 'z) escort_scheme \<Rightarrow> bool" where
  "loggable p s \<longleftrightarrow> wf_logs (Plog_Management s) (redo_logs s) \<and> (\<forall>i \<in> flagged p s. logged s i = None)"

text \<open>The lines \<open>F\<close> have been logged.\<close>

definition logs_lines :: "bool \<Rightarrow> nat set \<Rightarrow> ('j, 'z) escort_scheme \<Rightarrow> ('j, 'z) escort_scheme \<Rightarrow> bool" where
  "logs_lines p F s s' \<longleftrightarrow> loggable p s' \<and> flagged p s' = flagged p s - F \<and> snap p s' = snap p s \<and>
     BitMap s' (\<not> p) = BitMap s (\<not> p) \<and> bm_size (BitMap s' p) = bm_size (BitMap s p) \<and> GLOBAL_EPOCH s' = GLOBAL_EPOCH s \<and> dram s' = dram s \<and> nvm s' = nvm s \<and>
     nvm_offset s' = nvm_offset s \<and> map uc_epoch (ctx_array s') = map uc_epoch (ctx_array s)"

lemma logs_lines_refl: "loggable p s \<Longrightarrow> logs_lines p {} s s"
  by (simp add: logs_lines_def)

lemma logs_lines_trans: "logs_lines p F s u \<Longrightarrow> logs_lines p G u v \<Longrightarrow> logs_lines p (F \<union> G) s v"
  by (auto simp: logs_lines_def)

lemma log_line_logs:
  assumes lg: "loggable p s" and i: "i < heap_lines" and run: "log_line p i (line_ptr i) s = Inr s'"
  shows "logs_lines p {i} s s' \<and> ctx_array s' = ctx_array s"
proof -
  have fresh: "bm_bits (BitMap s p) i \<Longrightarrow> logged s i = None" using lg i by (simp add: loggable_def flagged_def)
  have wf: "wf_logs (Plog_Management s) (redo_logs s)" using lg by (simp add: loggable_def)
  note r = log_line_ok [OF wf i fresh run]
  show ?thesis
  proof (cases "bm_bits (BitMap s p) i")
    case False
    then have "s' = s" "flagged p s - {i} = flagged p s" using r by (auto simp: flagged_def)
    then show ?thesis using lg by (simp add: logs_lines_def)
  next
    case True
    then obtain l m where s': "s' = s\<lparr>cp_log := l, Plog_Management := m, BitMap := (BitMap s)(p :=
         (BitMap s p)\<lparr>bm_bits := (bm_bits (BitMap s p))(i := False)\<rparr>)\<rparr>"
      and wf': "wf_logs (Plog_Management s') (redo_logs s')" and log: "logged s' = (logged s)(i \<mapsto> dram s (line_ptr i))"
      using r by auto
    have fl: "flagged p s' = flagged p s - {i}" by (auto simp: s' flagged_def)
    have fi: "i \<in> flagged p s" using True i by (simp add: flagged_def)
    have fr: "BitMap s' (\<not> p) = BitMap s (\<not> p)" "bm_size (BitMap s' p) = bm_size (BitMap s p)" "GLOBAL_EPOCH s' = GLOBAL_EPOCH s" "dram s' = dram s" "nvm s' = nvm s"
      "nvm_offset s' = nvm_offset s" "ctx_array s' = ctx_array s" by (simp_all add: s')
    have "snap p s' = snap p s" using fi by (auto simp: snap_def fun_eq_iff fl log fr)
    moreover have "loggable p s'" using lg wf' by (auto simp: loggable_def fl log)
    ultimately show ?thesis using fl fr by (simp add: logs_lines_def)
  qed
qed

lemma log_lines_logs:
  assumes "loggable p s" and "i + n \<le> heap_lines" and "log_lines p n i (line_ptr i) s = Inr s'"
  shows "logs_lines p {i..<i + n} s s' \<and> ctx_array s' = ctx_array s"
  using assms
proof (induction n arbitrary: i s)
  case 0
  then show ?case by (simp add: logs_lines_refl)
next
  case (Suc n)
  then obtain u where u: "log_line p i (line_ptr i) s = Inr u" "log_lines p n (Suc i) (line_ptr (Suc i)) u = Inr s'"
    by (auto simp: res_simps line_ptr_Suc)
  have 1: "logs_lines p {i} s u" "ctx_array u = ctx_array s"
    using log_line_logs [OF Suc.prems(1) _ u(1)] Suc.prems(2) by simp_all
  then have "loggable p u" by (simp add: logs_lines_def)
  with Suc.IH [OF _ _ u(2)] Suc.prems(2)
  have 2: "logs_lines p {Suc i..<Suc i + n} u s'" "ctx_array s' = ctx_array u" by simp_all
  have "{i} \<union> {Suc i..<Suc i + n} = {i..<i + Suc n}" by auto
  with logs_lines_trans [OF 1(1) 2(1)] 1(2) 2(2) show ?case by simp
qed

lemma log_region_logs:
  assumes lg: "loggable p s" and a: "a = line_ptr j" "j < heap_lines" "j + n \<le> heap_lines"
    and run: "log_region p (a, n) s = Inr s'"
  shows "logs_lines p {j..<j + n} s s' \<and> ctx_array s' = ctx_array s"
  using run log_lines_logs [OF lg a(3)] by (simp add: log_region_def a(1) bitmap_get_index_line [OF a(2)])

lemma log_regions_logs:
  assumes "loggable p s" and "regions_ok es" and "rfold (log_region p) es s = Inr s'"
  shows "logs_lines p (marked_lines es) s s' \<and> ctx_array s' = ctx_array s"
  using assms
proof (induction es arbitrary: s)
  case Nil
  then show ?case by (simp add: logs_lines_refl marked_lines_def)
next
  case (Cons e es)
  obtain a n where e: "e = (a, n)" by (cases e)
  obtain j where j: "a = line_ptr j" "j < heap_lines" "j + n \<le> heap_lines"
    using Cons.prems(2) by (auto simp: regions_ok_def e)
  from Cons.prems(3) obtain u where u: "log_region p (a, n) s = Inr u" "rfold (log_region p) es u = Inr s'"
    by (auto simp: res_simps e)
  note 1 = log_region_logs [OF Cons.prems(1) j u(1)]
  then have "loggable p u" by (simp add: logs_lines_def)
  moreover have "regions_ok es" using Cons.prems(2) by (simp add: regions_ok_def)
  ultimately have 2: "logs_lines p (marked_lines es) u s' \<and> ctx_array s' = ctx_array u" using u(2) by (rule Cons.IH)
  have "{j..<j + n} \<union> marked_lines es = marked_lines (e # es)"
    using region_lines_heap [OF j(2,3)] by (simp add: marked_lines_def e j(1))
  with logs_lines_trans [of p _ s u _ s'] 1 2 show ?case by metis
qed

lemma log_ctx_logs:
  assumes lg: "loggable p s" and t: "t < length (ctx_array s)" and reg: "regions_ok (uc_addrlist (ctx_array s ! t) p)"
    and run: "log_ctx p t s = Inr s'"
  shows "logs_lines p (marked_lines (uc_addrlist (ctx_array s ! t) p)) s s' \<and>
    ctx_array s' = (ctx_array s)[t := (ctx_array s ! t)\<lparr>uc_addrlist := (uc_addrlist (ctx_array s ! t))(p := [])\<rparr>]"
proof -
  let ?c = "(ctx_array s ! t)\<lparr>uc_addrlist := (uc_addrlist (ctx_array s ! t))(p := [])\<rparr>"
  from run t obtain u where u: "rfold (log_region p) (uc_addrlist (ctx_array s ! t) p) s = Inr u" "clear_list p t u = Inr s'"
    by (auto simp: log_ctx_def res_simps)
  note 1 = log_regions_logs [OF lg reg u(1)]
  have s': "s' = put_ctx t ?c u" using u(2) 1 t by (simp add: clear_list_def get_ctx_def addrlist_clear_def)
  have rl: "redo_logs s' = redo_logs u" unfolding s' using 1 t by (intro redo_logs_put_ctx_same) simp_all
  have log: "logged s' = logged u" by (rule logged_cong) (simp add: all_entries_def rl, simp add: s')
  have fl: "flagged p s' = flagged p u" by (simp add: flagged_def s')
  have "snap p s' = snap p u" by (simp add: snap_def fun_eq_iff fl log) (simp add: s')
  moreover have "loggable p s'" using 1 by (simp add: logs_lines_def loggable_def fl log rl) (simp add: s')
  moreover have "map uc_epoch ((ctx_array s)[t := ?c]) = map uc_epoch (ctx_array s)" by (rule map_update_same) simp
  ultimately show ?thesis using 1 by (simp add: logs_lines_def fl) (simp add: s')
qed

lemma log_ctxs_logs:
  assumes "loggable p s" and "\<forall>ctx \<in> set (ctx_array s). regions_ok (uc_addrlist ctx p)" and "n \<le> length (ctx_array s)"
    and "rfold (log_ctx p) [0..<n] s = Inr s'"
  shows "logs_lines p (\<Union>t < n. marked_lines (uc_addrlist (ctx_array s ! t) p)) s s' \<and>
    ctx_array s' = map (\<lambda>c. c\<lparr>uc_addrlist := (uc_addrlist c)(p := [])\<rparr>) (take n (ctx_array s)) @ drop n (ctx_array s)"
  using assms(3,4)
proof (induction n arbitrary: s')
  case 0
  then show ?case using assms(1) by (simp add: logs_lines_refl)
next
  case (Suc n)
  let ?cs = "ctx_array s"
  let ?e = "\<lambda>c. c\<lparr>uc_addrlist := (uc_addrlist c)(p := [])\<rparr>"
  have n: "n < length ?cs" using Suc.prems(1) by simp
  from Suc.prems(2) obtain u where u: "rfold (log_ctx p) [0..<n] s = Inr u" "log_ctx p n u = Inr s'"
    by (auto simp: rfold_append res_simps)
  have IH: "logs_lines p (\<Union>t < n. marked_lines (uc_addrlist (?cs ! t) p)) s u"
    "ctx_array u = map ?e (take n ?cs) @ drop n ?cs"
    using Suc.IH [OF less_imp_le [OF n] u(1)] by blast+
  have at: "ctx_array u ! n = ?cs ! n" "n < length (ctx_array u)" using n by (simp_all add: IH(2) nth_append)
  have "regions_ok (uc_addrlist (ctx_array u ! n) p)" using assms(2) n by (simp add: at)
  moreover have "loggable p u" using IH(1) by (simp add: logs_lines_def)
  ultimately have 2: "logs_lines p (marked_lines (uc_addrlist (?cs ! n) p)) u s'"
    "ctx_array s' = (ctx_array u)[n := ?e (?cs ! n)]"
    using log_ctx_logs [OF _ at(2) _ u(2)] by (simp_all add: at)
  have "(map ?e (take n ?cs) @ drop n ?cs)[n := ?e (?cs ! n)] = map ?e (take (Suc n) ?cs) @ drop (Suc n) ?cs"
    using n by (simp add: list_update_append take_Suc_conv_app_nth Cons_nth_drop_Suc [symmetric])
  moreover have "(\<Union>t < n. marked_lines (uc_addrlist (?cs ! t) p)) \<union> marked_lines (uc_addrlist (?cs ! n) p) =
      (\<Union>t < Suc n. marked_lines (uc_addrlist (?cs ! t) p))"
    by (auto simp: less_Suc_eq)
  ultimately show ?case using logs_lines_trans [OF IH(1) 2(1)] 2(2) IH(2) by (simp del: fun_upd_apply)
qed

lemma log_persistence_logs:
  assumes lg: "loggable p s" and reg: "\<forall>ctx \<in> set (ctx_array s). regions_ok (uc_addrlist ctx p)"
    and p: "p = prev_parity s" and cov: "flagged p s \<subseteq> list_lines p UNIV s" and run: "log_persistence_unit s = Inr s'"
  shows "logs_lines p (list_lines p UNIV s) s s'" and "flagged p s' = {}" and "logged s' = snap p s"
    and "ctx_array s' = map (\<lambda>c. c\<lparr>uc_addrlist := (uc_addrlist c)(p := [])\<rparr>) (ctx_array s)"
proof -
  have "(\<Union>t < length (ctx_array s). marked_lines (uc_addrlist (ctx_array s ! t) p)) = list_lines p UNIV s"
    by (simp add: list_lines_def marked_lines_def)
  moreover have "rfold (log_ctx p) [0..<length (ctx_array s)] s = Inr s'"
    using run by (simp only: log_persistence_unit_def p)
  note log_ctxs_logs [OF lg reg order_refl this]
  ultimately show l: "logs_lines p (list_lines p UNIV s) s s'"
    and "ctx_array s' = map (\<lambda>c. c\<lparr>uc_addrlist := (uc_addrlist c)(p := [])\<rparr>) (ctx_array s)"
    by (simp_all del: fun_upd_apply)
  show fl: "flagged p s' = {}" using l cov by (auto simp: logs_lines_def)
  have "logged s' = snap p s'" by (simp add: snap_def fun_eq_iff fl)
  with l show "logged s' = snap p s" by (simp add: logs_lines_def)
qed

lemma update_unit_effect:
  assumes "wf_logs (Plog_Management s) (redo_logs s)"
  defines "s' \<equiv> nvm_heap_update_unit s"
  shows "nvm_image s' = overlay (logged s) (nvm_image s)" and "logged s' = Map.empty"
    and "GLOBAL_EPOCH s' = GLOBAL_EPOCH s" and "BitMap s' = BitMap s" and "dram s' = dram s" and "nvm_offset s' = nvm_offset s"
    and "map uc_epoch (ctx_array s') = map uc_epoch (ctx_array s)"
    and "map uc_addrlist (ctx_array s') = map uc_addrlist (ctx_array s)"
    and "wf_logs (Plog_Management s') (redo_logs s')"
proof -
  let ?r = "fold replay_redo_log (redo_logs s) s"
  obtain h where h: "?r = s\<lparr>nvm := h\<rparr>" using replay_all_logs(2) [OF assms(1)] by blast
  have "redo_logs s = cp_log s # map uc_log (ctx_array s)" by (simp add: redo_logs_def)
  moreover have "replay_redo_log (cp_log s) s = s\<lparr>nvm := nvm (replay_redo_log (cp_log s) s)\<rparr>"
    unfolding replay_redo_log_entries using replay_entries_only_nvm [of "plog_contents (Plog_Management s) (cp_log s)" s] by auto
  then have "ctx_array (replay_redo_log (cp_log s) s) = ctx_array s" by (metis escort.select_convs(7) escort.surjective escort.update_convs(10))
  ultimately have s': "s' = clear_redo_logs (s\<lparr>nvm := h\<rparr>)"
    unfolding s'_def nvm_heap_update_unit_def Let_def h [symmetric] by (simp add: fold_map comp_def)
  have "wf_logs (Plog_Management (s\<lparr>nvm := h\<rparr>)) (redo_logs (s\<lparr>nvm := h\<rparr>))" using assms(1) by simp
  then obtain m where m: "s' = s\<lparr>nvm := h, cp_log := [], Plog_Management := m, ctx_array := map (\<lambda>c. c\<lparr>uc_log := []\<rparr>) (ctx_array s)\<rparr>"
    and wf: "wf_logs m (redo_logs s')"
    using clear_redo_logs_ok unfolding s' by fastforce
  show "nvm_image s' = overlay (logged s) (nvm_image s)"
    using replay_all_logs(1) [OF assms(1)] by (simp add: h m nvm_image_def)
  have "redo_logs s' = map (\<lambda>_. []) (redo_logs s)" by (simp add: redo_logs_def m)
  then have "all_entries s' = []" by (simp add: all_entries_def logs_contents_def plog_contents_def contents_def comp_def)
  then show "logged s' = Map.empty" by (simp add: logged_def fun_eq_iff)
  show "GLOBAL_EPOCH s' = GLOBAL_EPOCH s" "BitMap s' = BitMap s" "dram s' = dram s" "nvm_offset s' = nvm_offset s"
    "map uc_epoch (ctx_array s') = map uc_epoch (ctx_array s)"
    "map uc_addrlist (ctx_array s') = map uc_addrlist (ctx_array s)"
    "wf_logs (Plog_Management s') (redo_logs s')"
    using wf by (simp_all add: m)
qed

subsection \<open>Agreement\<close>

text \<open>
  The two variants agree when the client and a recovery see the same: epochs, heaps, flags, and the lines in the logs, whatever the order of the
  entries and the thread whose log has them.
\<close>

definition agree :: "('j, 'z) escort_scheme \<Rightarrow> old_escort \<Rightarrow> bool" where
  "agree s u \<longleftrightarrow> o_GLOBAL_EPOCH u = GLOBAL_EPOCH s \<and> (\<forall>p. old_flagged p u = flagged p s) \<and>
     o_dram u = dram s \<and> o_nvm_offset u = nvm_offset s \<and> old_nvm_image u = nvm_image s \<and> old_logged u = logged s \<and>
     map oc_epoch (o_ctx_array u) = map uc_epoch (ctx_array s)"

text \<open>Both are in order while the epoch of parity \<open>b\<close> is the current one.\<close>

definition both_ok :: "bool \<Rightarrow> ('j, 'z) escort_scheme \<Rightarrow> old_escort \<Rightarrow> bool" where
  "both_ok b s u \<longleftrightarrow> (\<forall>p. bm_size (BitMap s p) = heap_lines) \<and> wf_logs (Plog_Management s) (redo_logs s) \<and>
     (\<forall>ctx \<in> set (ctx_array s). \<forall>p. regions_ok (uc_addrlist ctx p)) \<and> (\<forall>p. flagged p s \<subseteq> list_lines p UNIV s) \<and>
     (\<forall>i \<in> flagged (\<not> b) s. logged s i = None) \<and> old_ok u \<and> (\<forall>p. old_flagged p u \<subseteq> old_listed p u)"

lemma agree_flagged: "agree s u \<Longrightarrow> old_flagged p u = flagged p s"
  by (simp add: agree_def)

lemma agree_length: "agree s u \<Longrightarrow> length (o_ctx_array u) = length (ctx_array s)"
  unfolding agree_def by (metis length_map)

lemma agree_epoch: "agree s u \<Longrightarrow> t < length (ctx_array s) \<Longrightarrow> oc_epoch (o_ctx_array u ! t) = uc_epoch (ctx_array s ! t)"
  using agree_length [of s u] unfolding agree_def by (metis nth_map)

lemma bool_cases: "P b \<Longrightarrow> P (\<not> b) \<Longrightarrow> P p" for p b :: bool
  by (cases "p = b") auto

text \<open>A write with arrays: it marks its lines and stores.\<close>

lemma old_pwrite_run:
  fixes val :: "8 word list"
  defines "n \<equiv> num_bits (word_of_nat (length val))"
  assumes t: "t < length (o_ctx_array u)" and e: "oc_epoch (o_ctx_array u ! t) \<noteq> 0"
    and b: "b = epoch_bit (oc_epoch (o_ctx_array u ! t))" and idx: "bitmap_get_index addr = Inr i"
    and lines: "\<And>j. j \<in> {i..<i + n} \<Longrightarrow> j < heap_lines"
  shows "n = 0 \<or> i + n \<le> heap_lines"
    and "old_pwrite t addr val u = rbind (if n = 0 then Inr u else old_mark_loop t b n i (line_ptr i) u)
      (\<lambda>v. Inr (v\<lparr>o_dram := store_bytes addr val (o_dram v)\<rparr>))"
proof -
  show n: "n = 0 \<or> i + n \<le> heap_lines"
  proof (cases "n = 0")
    case False
    then have "i + n - 1 \<in> {i..<i + n}" by simp
    then have "i + n - 1 < heap_lines" by (rule lines)
    then show ?thesis using False by simp
  qed simp
  have "old_mark_loop t b n i (align_down addr) u = (if n = 0 then Inr u else old_mark_loop t b n i (line_ptr i) u)"
  proof (cases "n = 0")
    case False
    obtain k where "k < 64" "addr = line_ptr i + word_of_nat k" using idx by (rule heap_ptr_of_index)
    then show ?thesis using n False by (simp add: align_down_heap)
  qed simp
  then show "old_pwrite t addr val u = rbind (if n = 0 then Inr u else old_mark_loop t b n i (line_ptr i) u)
      (\<lambda>v. Inr (v\<lparr>o_dram := store_bytes addr val (o_dram v)\<rparr>))"
    using t e idx b by (simp add: old_pwrite_def old_mark_def old_get_ctx_def Let_def n_def)
qed

text \<open>What a write leaves in order on the side of the blocks.\<close>

lemma write_new_ok:
  assumes ok: "both_ok b s u" and pre: "mark_pre b (write_lines addr val) s"
    and b: "b = epoch_bit (uc_epoch (ctx_array s ! t))" and run: "pwrite t addr val s = Inr s'"
  shows "flagged p s' \<subseteq> list_lines p UNIV s'" and "j \<in> flagged (\<not> b) s' \<Longrightarrow> logged s' j = None"
    and "\<forall>ctx \<in> set (ctx_array s'). \<forall>p. regions_ok (uc_addrlist ctx p)"
proof -
  note f = write_frame [OF run pre [unfolded b], folded b]
  note ls = write_lists [OF run pre [unfolded b], folded b]
  have fl: "flagged (\<not> b) s' \<subseteq> flagged (\<not> b) s" by (auto simp: flagged_def f(7) marked_bits_other)
  show "flagged p s' \<subseteq> list_lines p UNIV s'"
  proof (rule bool_cases [of "\<lambda>p. flagged p s' \<subseteq> list_lines p UNIV s'" b p])
    show "flagged b s' \<subseteq> list_lines b UNIV s'" using ls(2) ok by (simp add: both_ok_def)
    show "flagged (\<not> b) s' \<subseteq> list_lines (\<not> b) UNIV s'" using ls(1) fl ok unfolding both_ok_def by blast
  qed
  show "logged s' j = None" if "j \<in> flagged (\<not> b) s'"
    using that fl ok f(11) [of j] by (auto simp: both_ok_def flagged_def f(7) marked_bits_other)
  have "regions_ok (uc_addrlist (ctx_array s' ! r) p)" if "r < length (ctx_array s)" for r p
    using ls(3) [OF _ that] ok by (simp add: both_ok_def)
  then show "\<forall>ctx \<in> set (ctx_array s'). \<forall>p. regions_ok (uc_addrlist ctx p)"
    using f(6) by (auto simp: in_set_conv_nth)
qed

text \<open>What the marks leave in order on the side of the arrays.\<close>

lemma old_marks_listed:
  assumes "old_marks b I u v" and "\<And>p. old_flagged p u \<subseteq> old_listed p u"
  shows "old_flagged p v \<subseteq> old_listed p v"
proof (rule bool_cases [of "\<lambda>p. old_flagged p v \<subseteq> old_listed p v" b p])
  show "old_flagged b v \<subseteq> old_listed b v" "old_flagged (\<not> b) v \<subseteq> old_listed (\<not> b) v"
    using assms(1) assms(2) [of b] assms(2) [of "\<not> b"] unfolding old_marks_def old_flagged_def by blast+
qed

lemma write_agree:
  assumes ag: "agree s u" and pre: "mark_pre b (write_lines addr val) s"
    and b: "b = epoch_bit (uc_epoch (ctx_array s ! t))" and run: "pwrite t addr val s = Inr s'"
    and v: "old_marks b (write_lines addr val) u v"
  shows "agree s' (v\<lparr>o_dram := store_bytes addr val (o_dram v)\<rparr>)"
proof -
  let ?u' = "v\<lparr>o_dram := store_bytes addr val (o_dram v)\<rparr>"
  note f = write_frame [OF run pre [unfolded b], folded b]
  have bits: "bm_bits (o_BitMap u p) j = bm_bits (BitMap s p) j" if "j < heap_lines" for p j
    using agree_flagged [OF ag, of p] that by (auto simp: old_flagged_def flagged_def)
  have lg: "old_logged u = logged s" and dr: "o_dram u = dram s" using ag by (simp_all add: agree_def)
  have fr: "old_frame u v" using v by (simp add: old_marks_def)
  obtain s1 where s1: "mark t addr (word_of_nat (length val)) s = Inr s1" "s' = s1\<lparr>dram := store_bytes addr val (dram s1)\<rparr>"
    using run by (auto simp: pwrite_def res_simps)
  obtain i where idx: "bitmap_get_index addr = Inr i" using s1(1) by (auto simp: mark_def Let_def res_simps)
  have I: "write_lines addr val = {i..<i + num_bits (word_of_nat (length val))}" by (simp add: write_lines_def idx)
  have "dram s1 = dram s" using mark_frame(4) [OF s1(1) idx] pre unfolding b I by simp
  then have dr': "o_dram ?u' = dram s'" using fr dr by (simp add: s1(2) old_frame_def)
  have "bm_bits (o_BitMap ?u' p) j = bm_bits (BitMap s' p) j" if "j < heap_lines" for p j
    using v by (intro bool_cases [of "\<lambda>p. bm_bits (o_BitMap ?u' p) j = bm_bits (BitMap s' p) j" b p])
      (simp_all add: f(7) marked_bits_same marked_bits_other old_marks_def bits [OF that])
  then have bits': "old_flagged p ?u' = flagged p s'" for p by (auto simp: old_flagged_def flagged_def)
  have "old_logged v j = logged s' j" for j
  proof (cases "j \<in> write_lines addr val")
    case True
    then have "j < heap_lines" using f(2) by auto
    then show ?thesis using True v f(11) [of j] by (simp add: old_marks_def bits lg dr)
  next
    case False
    then have "old_logged v j = old_logged u j" using v unfolding old_marks_def by auto
    moreover have "logged s' j = logged s j" using f(11) [of j] False by simp
    ultimately show ?thesis by (simp add: lg)
  qed
  then have lg': "old_logged ?u' = logged s'" by (simp add: fun_eq_iff old_logged_def old_entries_def)
  have "map uc_epoch (ctx_array s') = map uc_epoch (ctx_array s)" by (rule nth_equalityI) (simp_all add: f(6,8))
  moreover have "old_nvm_image ?u' = old_nvm_image u" "nvm_image s' = nvm_image s"
    using fr f(4,5) by (simp_all add: old_nvm_image_def nvm_image_def old_frame_def)
  ultimately show ?thesis
    using ag fr f(3-5) bits' dr' lg' by (simp add: agree_def old_frame_def)
qed

lemma write_agrees:
  assumes ag: "agree s u" and ok: "both_ok b s u" and b: "b = epoch_bit (uc_epoch (ctx_array s ! t))"
    and run: "pwrite t addr val s = Inr s'"
  shows "old_pwrite t addr val u = Inr u' \<Longrightarrow> agree s' u' \<and> both_ok b s' u'"
    and "old_room (num_bits (word_of_nat (length val))) t b u \<Longrightarrow> \<exists>u'. old_pwrite t addr val u = Inr u'"
    and "old_pwrite t addr val u = Inl e \<Longrightarrow> e \<in> {OutOfBounds, AssertFailed}"
proof -
  let ?n = "num_bits (word_of_nat (length val))"
  obtain i where idx: "bitmap_get_index addr = Inr i"
    using run by (auto simp: pwrite_def mark_def Let_def res_simps)
  have I: "write_lines addr val = {i..<i + ?n}" by (simp add: write_lines_def idx)
  have fresh: "bm_bits (BitMap s (\<not> b)) j \<Longrightarrow> logged s j = None" for j
    using ok by (cases "j < heap_lines") (simp_all add: both_ok_def flagged_def logged_def)
  have pre: "mark_pre b (write_lines addr val) s"
    using ok fresh by (simp add: mark_pre_def both_ok_def)
  note f = write_frame [OF run pre [unfolded b], folded b]
  have t: "t < length (ctx_array s)" and e: "uc_epoch (ctx_array s ! t) \<noteq> 0" using f(1) by (simp_all add: in_op_def)
  have u: "old_ok u" "\<And>p. old_flagged p u \<subseteq> old_listed p u" using ok by (simp_all add: both_ok_def)
  have lines: "j < heap_lines" if "j \<in> {i..<i + ?n}" for j using f(2) that unfolding I by blast
  have old_fresh: "bm_bits (o_BitMap u (\<not> b)) j \<Longrightarrow> old_logged u j = None" if "j \<in> {i..<i + ?n}" for j
    using agree_flagged [OF ag, of "\<not> b"] fresh [of j] lines [OF that] ag by (auto simp: old_flagged_def flagged_def agree_def)
  have t': "t < length (o_ctx_array u)" "oc_epoch (o_ctx_array u ! t) \<noteq> 0" "b = epoch_bit (oc_epoch (o_ctx_array u ! t))"
    using t e b agree_length [OF ag] agree_epoch [OF ag t] by simp_all
  have r1: "?n = 0 \<or> i + ?n \<le> heap_lines" by (rule old_pwrite_run(1) [OF t' idx lines])
  have r2: "old_pwrite t addr val u = rbind (if ?n = 0 then Inr u else old_mark_loop t b ?n i (line_ptr i) u)
      (\<lambda>v. Inr (v\<lparr>o_dram := store_bytes addr val (o_dram v)\<rparr>))" by (rule old_pwrite_run(2) [OF t' idx lines])
  note loop = old_mark_loop_cases [where i = i and n = "?n" and b = b, OF u(1) _ t'(1) old_fresh]
  show "agree s' u' \<and> both_ok b s' u'" if run': "old_pwrite t addr val u = Inr u'"
  proof -
    obtain v where v: "u' = v\<lparr>o_dram := store_bytes addr val (o_dram v)\<rparr>"
      "(if ?n = 0 then Inr u else old_mark_loop t b ?n i (line_ptr i) u) = Inr v"
      using run' unfolding r2 by (auto simp: rbind_eq_Inr)
    have m: "old_marks b {i..<i + ?n} u v"
      using v(2) old_marks_refl [OF u(1), of b] loop r1 by (auto split: if_splits)
    have ag': "agree s' u'" unfolding v(1) by (rule write_agree [OF ag pre b run m [folded I]])
    have "old_flagged p u' \<subseteq> old_listed p u'" for p
      using old_marks_listed [OF m u(2)] by (simp add: v(1) old_flagged_def old_listed_def)
    moreover have "old_ok u'" using m by (simp add: v(1) old_marks_def old_ok_def old_entries_def)
    ultimately have "both_ok b s' u'"
      using ok write_new_ok [OF ok pre b run] f(7,10) by (simp add: both_ok_def)
    with ag' show ?thesis by blast
  qed
  show "\<exists>u'. old_pwrite t addr val u = Inr u'" if "old_room ?n t b u"
    using old_mark_loop_ok [where i = i, OF u(1) _ that old_fresh] r1 by (auto simp: r2)
  show "e \<in> {OutOfBounds, AssertFailed}" if "old_pwrite t addr val u = Inl e"
    using that loop r1 by (auto simp: r2 rbind_eq_Inl split: if_splits)
qed

text \<open>The log loops of both variants log the same lines.\<close>

lemma log_loops_agree:
  fixes s :: "('j, 'z) escort_scheme"
  assumes ag: "agree s u" and ok: "both_ok (\<not> prev_parity s) s u"
    and room: "op_size (o_cp_log u) + card (flagged (prev_parity s) s) \<le> LOG_SIZE"
    and run: "log_persistence_unit s = Inr s1"
  obtains u1 where "old_log_persistence_unit u = Inr u1" and "agree s1 u1" and "old_logs_lines (prev_parity s) u u1"
    and "old_flagged (prev_parity s) u1 = {}"
proof -
  let ?p = "prev_parity s"
  have lg: "loggable ?p s" using ok by (simp add: both_ok_def loggable_def)
  have reg: "\<forall>ctx \<in> set (ctx_array s). regions_ok (uc_addrlist ctx ?p)" and cov: "\<And>p. flagged p s \<subseteq> list_lines p UNIV s"
    and u: "old_ok u" "\<And>p. old_flagged p u \<subseteq> old_listed p u" using ok by (simp_all add: both_ok_def)
  note l = log_persistence_logs [OF lg reg refl cov run]
  note l1 = l(1) [unfolded logs_lines_def]
  note fl = agree_flagged [OF ag]
  have d: "o_dram u = dram s" "old_logged u = logged s" using ag by (simp_all add: agree_def)
  have "old_loggable ?p u"
    using u room lg by (simp add: old_loggable_def fl d) (simp add: loggable_def)
  moreover have "?p = epoch_bit (Epoch (o_GLOBAL_EPOCH u) - 1)" using ag by (simp add: agree_def prev_parity_def)
  ultimately obtain u1 where u1: "old_log_persistence_unit u = Inr u1" "old_logs_lines ?p u u1" "old_flagged ?p u1 = {}"
    "old_logged u1 = old_snap ?p u" using old_log_persistence_ok by blast
  have snaps: "old_snap ?p u = snap ?p s" by (simp add: old_snap_def snap_def fun_eq_iff fl d)
  have fr: "old_frame u u1" "o_BitMap u1 (\<not> ?p) = o_BitMap u (\<not> ?p)"
    using u1(2) by (simp_all add: old_logs_lines_def)
  have fls: "old_flagged p u1 = flagged p s1" for p
  proof (rule bool_cases [of "\<lambda>p. old_flagged p u1 = flagged p s1" ?p p])
    show "old_flagged ?p u1 = flagged ?p s1" using u1(3) l(2) by simp
    show "old_flagged (\<not> ?p) u1 = flagged (\<not> ?p) s1"
      using l1 fl [of "\<not> ?p"] by (simp add: old_flagged_def flagged_def fr(2))
  qed
  have "old_nvm_image u1 = old_nvm_image u" "nvm_image s1 = nvm_image s"
    using fr(1) l1 by (simp_all add: old_nvm_image_def nvm_image_def old_frame_def)
  then have "agree s1 u1"
    using ag fr(1) l1 fls u1(4) snaps l(3) by (simp add: agree_def old_frame_def)
  then show ?thesis using that u1(1-3) by blast
qed

text \<open>What the log loop and the update leave in order on the side of the blocks.\<close>

lemma checkpoint_new_ok:
  fixes s :: "('j, 'z) escort_scheme"
  assumes ok: "both_ok (\<not> prev_parity s) s u" and run: "log_persistence_unit s = Inr s1"
  defines "p \<equiv> prev_parity s" and "s2 \<equiv> nvm_heap_update_unit s1"
  shows "wf_logs (Plog_Management s1) (redo_logs s1)" and "flagged p s2 = {}"
    and "nvm_image s2 = overlay (snap p s) (nvm_image s)" and "bm_size (BitMap s2 q) = heap_lines"
    and "flagged q s2 \<subseteq> list_lines q UNIV s2" and "\<forall>ctx \<in> set (ctx_array s2). \<forall>q. regions_ok (uc_addrlist ctx q)"
proof -
  have lg: "loggable p s" using ok by (simp add: both_ok_def loggable_def p_def)
  have reg: "\<forall>ctx \<in> set (ctx_array s). regions_ok (uc_addrlist ctx p)" and cov: "\<And>p. flagged p s \<subseteq> list_lines p UNIV s"
    using ok by (simp_all add: both_ok_def)
  note l = log_persistence_logs [OF lg reg p_def [THEN meta_eq_to_obj_eq] cov run]
  note l1 = l(1) [unfolded logs_lines_def]
  show wf: "wf_logs (Plog_Management s1) (redo_logs s1)" using l1 by (simp add: loggable_def)
  note n = update_unit_effect [OF wf, folded s2_def]
  have fl: "flagged q s2 = flagged q s1" for q by (simp add: flagged_def n(4))
  show "flagged p s2 = {}" using l(2) by (simp add: fl)
  have "nvm_image s1 = nvm_image s" using l1 by (simp add: nvm_image_def)
  then show "nvm_image s2 = overlay (snap p s) (nvm_image s)" using n(1) by (simp add: l(3))
  show "bm_size (BitMap s2 q) = heap_lines"
    using ok l1 by (intro bool_cases [of "\<lambda>q. bm_size (BitMap s2 q) = heap_lines" p q]) (simp_all add: both_ok_def n(4))
  have len1: "length (ctx_array s1) = length (ctx_array s)" by (simp add: l(4))
  have len2: "length (ctx_array s2) = length (ctx_array s1)" using n(7) by (metis length_map)
  then have len: "length (ctx_array s2) = length (ctx_array s)" using len1 by simp
  have al: "uc_addrlist (ctx_array s2 ! t) q = (if q = p then [] else uc_addrlist (ctx_array s ! t) q)"
    if "t < length (ctx_array s)" for t q
  proof -
    have "uc_addrlist (ctx_array s2 ! t) = uc_addrlist (ctx_array s1 ! t)" using n(8) that len2 len1 by (metis nth_map)
    then show ?thesis using that by (simp add: l(4))
  qed
  show "flagged q s2 \<subseteq> list_lines q UNIV s2"
  proof (rule bool_cases [of "\<lambda>q. flagged q s2 \<subseteq> list_lines q UNIV s2" p q])
    show "flagged p s2 \<subseteq> list_lines p UNIV s2" using l(2) by (simp add: fl)
    have "flagged (\<not> p) s2 = flagged (\<not> p) s" using l1 by (simp add: flagged_def n(4))
    moreover have "list_lines (\<not> p) UNIV s2 = list_lines (\<not> p) UNIV s" by (simp add: list_lines_def len al)
    ultimately show "flagged (\<not> p) s2 \<subseteq> list_lines (\<not> p) UNIV s2" using cov by simp
  qed
  have "regions_ok (uc_addrlist (ctx_array s2 ! t) q)" if "t < length (ctx_array s)" for t q
    using that ok by (simp add: al both_ok_def) (simp add: regions_ok_def)
  then show "\<forall>ctx \<in> set (ctx_array s2). \<forall>q. regions_ok (uc_addrlist ctx q)" by (auto simp: in_set_conv_nth len)
qed

lemma checkpoint_agrees:
  fixes s :: "('j, 'z) escort_scheme"
  assumes ag: "agree s u" and ok: "both_ok (\<not> prev_parity s) s u"
    and room: "op_size (o_cp_log u) + card (flagged (prev_parity s) s) \<le> LOG_SIZE"
    and run: "log_persistence_unit s = Inr s1"
  defines "s2 \<equiv> nvm_heap_update_unit s1"
  shows "\<exists>u1 u2. old_log_persistence_unit u = Inr u1 \<and> agree s1 u1 \<and> old_nvm_heap_update_unit u1 = Inr u2 \<and>
    agree s2 u2 \<and> nvm_image s2 = overlay (snap (prev_parity s) s) (nvm_image s) \<and>
    (\<forall>b. both_ok b s2 u2) \<and> flagged (prev_parity s) s2 = {}"
proof -
  let ?p = "prev_parity s"
  obtain u1 where u1: "old_log_persistence_unit u = Inr u1" "agree s1 u1" "old_logs_lines ?p u u1" "old_flagged ?p u1 = {}"
    using log_loops_agree [OF ag ok room run] .
  have fr: "old_ok u1" "o_BitMap u1 (\<not> ?p) = o_BitMap u (\<not> ?p)" "old_listed (\<not> ?p) u1 = old_listed (\<not> ?p) u"
    using u1(3) by (simp_all add: old_logs_lines_def old_loggable_def)
  note new = checkpoint_new_ok [OF ok run, folded s2_def]
  note n = update_unit_effect [OF new(1), folded s2_def]
  obtain u2 where u2: "old_nvm_heap_update_unit u1 = Inr u2" "old_nvm_image u2 = overlay (old_logged u1) (old_nvm_image u1)"
    "old_logged u2 = Map.empty" "old_ok u2" "o_GLOBAL_EPOCH u2 = o_GLOBAL_EPOCH u1" "o_dram u2 = o_dram u1"
    "o_nvm_offset u2 = o_nvm_offset u1" "o_BitMap u2 = o_BitMap u1"
    "map oc_epoch (o_ctx_array u2) = map oc_epoch (o_ctx_array u1)" "\<And>p. old_listed p u2 = old_listed p u1"
    using old_update_ok [OF fr(1)] by blast
  have fl2: "old_flagged p u2 = old_flagged p u1" "flagged p s2 = flagged p s1" for p
    by (simp_all add: old_flagged_def flagged_def u2(8) n(4))
  have ag2: "agree s2 u2" using u1(2) n u2(2-9) by (simp add: agree_def fl2)
  have old2: "old_flagged p u2 \<subseteq> old_listed p u2" for p
  proof (rule bool_cases [of "\<lambda>p. old_flagged p u2 \<subseteq> old_listed p u2" ?p p])
    show "old_flagged ?p u2 \<subseteq> old_listed ?p u2" using u1(4) by (simp add: fl2)
    have "old_flagged (\<not> ?p) u1 = old_flagged (\<not> ?p) u" by (simp add: old_flagged_def fr(2))
    then show "old_flagged (\<not> ?p) u2 \<subseteq> old_listed (\<not> ?p) u2" using ok by (simp add: fl2 u2(10) fr(3) both_ok_def)
  qed
  have "both_ok b s2 u2" for b
    using new(4-6) n(2,9) old2 u2(4) by (simp add: both_ok_def)
  then show ?thesis using u1(1,2) u2(1) ag2 new(2,3) by blast
qed

end
