(* ===== verification/OldClaims.thy ===== *)
theory OldClaims
  imports OldEquiv Demo
begin

section \<open>\<^verbatim>\<open>OLD_VERSION\<close>: the properties\<close>

text \<open>The concrete run of theory Demo in \<^verbatim>\<open>OLD_VERSION\<close>: the thread in its operation, and after it.\<close>

definition demo_old_ctx :: "epoch_t \<Rightarrow> nat \<Rightarrow> old_ctx" where
  "demo_old_ctx e n = \<lparr>oc_epoch = e,
     oc_addrlist = (\<lambda>b. (old_addrlist_new (\<lambda>_. 0))\<lparr>oa_list := (\<lambda>_. DRAM_BASE), oa_size := if b then 0 else n\<rparr>),
     oc_log = old_plog_new (\<lambda>_. demo_entry)\<rparr>"

definition demo_old :: "epoch_t \<Rightarrow> epoch_t \<Rightarrow> nat \<Rightarrow> (bool \<Rightarrow> bitmap_t) \<Rightarrow> (ptr \<Rightarrow> cacheline_t) \<Rightarrow> old_escort" where
  "demo_old e e' n bm h = \<lparr>o_GLOBAL_EPOCH = e, o_BitMap = bm, o_ctx_array = [demo_old_ctx e' n],
     o_cp_log = old_plog_new (\<lambda>_. demo_entry), o_dram = h, o_nvm = (\<lambda>_. blank_line), o_nvm_offset = 0x1040 - DRAM_BASE\<rparr>"

lemmas demo_old_defs = demo_old_def demo_old_ctx_def old_addrlist_new_def old_plog_new_def

lemma demo_wf_logs: "plog_pool_ok (Plog_Management demo_start)"
  using demo_start_quiescent by (simp add: quiescent_def)

lemma demo_no_logs:
  "Plog_Management s = Plog_Management demo_start \<Longrightarrow> redo_logs s = [[], []] \<Longrightarrow>
   wf_logs (Plog_Management s) (redo_logs s) \<and> logged s = Map.empty"
  using demo_wf_logs
  by (auto simp: wf_logs_def logs_contents_def plog_contents_def contents_def log_ok_def logged_def all_entries_def)

lemma demo_old_no_logs: "old_logged (demo_old e e' n bm h) = Map.empty" "old_entries (demo_old e e' n bm h) = []"
  by (simp_all add: old_logged_def old_entries_def old_plog_entries_def demo_old_defs entries_map_def fun_eq_iff)

lemma demo_old_ok: "n \<le> 1 \<Longrightarrow> (\<And>b. bm_size (bm b) = heap_lines) \<Longrightarrow> old_ok (demo_old e e' n bm h)"
proof -
  assume n: "n \<le> 1" and bm: "\<And>b. bm_size (bm b) = heap_lines"
  have "DRAM_BASE \<in> line_ptr ` {..<heap_lines}" using line_ptr_0 heap_lines_eq by (intro image_eqI [of _ _ 0]) simp_all
  then have "old_ctx_ok (demo_old_ctx e' n)"
    using n by (simp add: old_ctx_ok_def old_list_ok_def demo_old_defs LOG_SIZE_def)
  then show ?thesis
    using bm unfolding old_ok_def demo_old_no_logs by (simp add: line_entries_def demo_old_def old_plog_new_def)
qed

lemma demo_old_image: "old_nvm_image (demo_old e e' n bm h) = nvm_image demo_start"
  by (simp add: old_nvm_image_def nvm_image_def demo_old_def demo_start_def)

lemma demo_begun_agree: "agree demo_begun (demo_old 2 2 0 (BitMap demo_begun) (dram demo_begun))"
proof -
  have "Plog_Management demo_begun = Plog_Management demo_start" "redo_logs demo_begun = [[], []]"
    by (simp_all add: demo_defs redo_logs_def)
  then have "logged demo_begun = Map.empty" using demo_no_logs by blast
  moreover have "nvm_image demo_begun = nvm_image demo_start" by (simp add: nvm_image_def demo_begun_def)
  ultimately show ?thesis
    by (simp add: agree_def demo_old_no_logs demo_old_image) (simp add: demo_old_defs demo_defs old_flagged_def flagged_def)
qed

lemma demo_begun_ok: "both_ok False demo_begun (demo_old 2 2 0 (BitMap demo_begun) (dram demo_begun))"
proof -
  have "Plog_Management demo_begun = Plog_Management demo_start" "redo_logs demo_begun = [[], []]"
    by (simp_all add: demo_defs redo_logs_def)
  note l = demo_no_logs [OF this]
  have "old_ok (demo_old 2 2 0 (BitMap demo_begun) (dram demo_begun))"
    by (rule demo_old_ok) (simp_all add: demo_defs)
  then show ?thesis
    using l by (simp add: both_ok_def) (simp add: demo_old_defs demo_defs old_flagged_def flagged_def regions_ok_def)
qed

text \<open>C12: \<^verbatim>\<open>OLD_VERSION\<close>, whose logs and lists are arrays, agrees with the version with blocks on every write that the
  latter completes: if they agree before, and the write of the former returns, they agree after it. The write of the former can only fail to
  return because an array is full, which \<open>old_room\<close>, as many places in the list and in the log of the thread as the write
  marks lines, excludes.\<close>

theorem old_write_agrees:
  assumes "agree s u" and "both_ok b s u" and "b = epoch_bit (uc_epoch (ctx_array s ! t))" and "pwrite t addr val s = Inr s'"
  shows "case old_pwrite t addr val u of
      Inr u' \<Rightarrow> agree s' u' \<and> both_ok b s' u'
    | Inl e \<Rightarrow> e \<in> {OutOfBounds, AssertFailed} \<and> \<not> old_room (num_bits (word_of_nat (length val))) t b u"
proof (cases "old_pwrite t addr val u")
  case (Inl e)
  then show ?thesis using write_agrees(2) [OF assms] write_agrees(3) [OF assms Inl] by auto
next
  case (Inr u')
  then show ?thesis using write_agrees(1) [OF assms Inr] by simp
qed

text \<open>In the run of theory Demo there is room.\<close>

theorem old_write_agrees_witness:
  "\<exists>u'. old_pwrite 0 DRAM_BASE [7] (demo_old 2 2 0 (BitMap demo_begun) (dram demo_begun)) = Inr u' \<and>
    agree demo_written u' \<and> both_ok False demo_written u'"
proof -
  let ?u = "demo_old 2 2 0 (BitMap demo_begun) (dram demo_begun)"
  have "False = epoch_bit (uc_epoch (ctx_array demo_begun ! 0))" by (simp add: demo_defs epoch_bit_def)
  note w = old_write_agrees [OF demo_begun_agree demo_begun_ok this demo_write]
  have "old_room (num_bits (word_of_nat (length [7 :: byte]))) 0 False ?u"
    by (simp add: old_room_def demo_old_defs num_bits_def LOG_CACHE_LINE_SIZE_def LOG_SIZE_def)
  with w show ?thesis by (cases "old_pwrite 0 DRAM_BASE [7] ?u") simp_all
qed

text \<open>The run after the operation, when the phase of the logging begins.\<close>

abbreviation demo_new :: "unit escort" where
  "demo_new \<equiv> demo_ended demo_logging_epoch"

abbreviation demo_old_ended :: old_escort where
  "demo_old_ended \<equiv> demo_old demo_logging_epoch 0 1 (BitMap demo_new) (dram demo_new)"

lemma demo_new_logs: "wf_logs (Plog_Management demo_new) (redo_logs demo_new) \<and> logged demo_new = Map.empty"
  by (rule demo_no_logs) (simp_all add: demo_defs redo_logs_def)

lemma demo_new_parity: "prev_parity demo_new = False"
  by (simp add: prev_parity_def demo_ended_def epoch_bit_def)

lemma demo_new_flagged: "flagged p demo_new = (if p then {} else {0})"
  by (auto simp: flagged_def demo_defs heap_lines_eq)

lemma demo_new_agree: "agree demo_new demo_old_ended"
proof -
  have "nvm_image demo_new = nvm_image demo_start" by (simp add: nvm_image_def demo_defs)
  then show ?thesis
    using demo_new_logs by (simp add: agree_def demo_old_no_logs demo_old_image)
      (simp add: demo_old_defs demo_defs old_flagged_def flagged_def)
qed

lemma demo_new_ok: "both_ok True demo_new demo_old_ended"
proof -
  have 1: "old_ok demo_old_ended" by (rule demo_old_ok) (simp_all add: demo_defs)
  have fl: "old_flagged p demo_old_ended = (if p then {} else {0})" for p
    using agree_flagged [OF demo_new_agree] by (simp add: demo_new_flagged)
  have "0 \<in> old_listed False demo_old_ended"
    by (rule old_listedI [of "demo_old_ctx 0 1"]) (simp_all add: demo_old_defs line_ptr_0 heap_lines_eq)
  then have 2: "old_flagged p demo_old_ended \<subseteq> old_listed p demo_old_ended" for p unfolding fl by (cases p) simp_all
  have ctx: "ctx_array demo_new = [demo_ctx 0 [(DRAM_BASE, 1)]]" by (simp add: demo_ended_def)
  have "regions_ok [(DRAM_BASE, 1)]"
    using line_ptr_0 heap_lines_eq by (auto simp: regions_ok_def intro!: exI [of _ 0])
  then have 3: "regions_ok (uc_addrlist c p)" if "c \<in> set (ctx_array demo_new)" for c p
    using that by (simp add: ctx demo_ctx_def) (simp add: regions_ok_def)
  have "0 \<in> list_lines False UNIV demo_new"
    using line_ptr_0 heap_lines_eq by (auto simp: list_lines_def ctx demo_ctx_def region_lines_def intro!: exI [of _ 0])
  then have 4: "flagged p demo_new \<subseteq> list_lines p UNIV demo_new" for p by (simp add: demo_new_flagged)
  show ?thesis
    using demo_new_logs 1 2 3 4 by (simp add: both_ok_def) (simp add: demo_defs)
qed

lemma demo_new_log: "log_persistence_unit demo_new = Inr (demo_logged demo_logging_epoch [])"
proof -
  have ctx: "ctx_array demo_new = [demo_ctx 0 [(DRAM_BASE, 1)]]" by (simp add: demo_ended_def)
  have "clear_list False 0 (demo_logged demo_logging_epoch [(DRAM_BASE, 1)]) = Inr (demo_logged demo_logging_epoch [])"
    by (simp add: clear_list_def get_ctx_def put_ctx_def addrlist_clear_def demo_defs fun_eq_iff)
  then show ?thesis
    by (simp add: log_persistence_unit_def demo_new_parity ctx log_ctx_def get_ctx_def log_region_def index_0 demo_log_line
        demo_ctx_def)
qed

text \<open>C13: the two versions agree on a checkpoint: the log loops (of regions in blocks, of single lines popped from an array)
  leave agreeing states, and so do the updates, which replay the entries in different orders; in both the NVM heap becomes the
  logged lines, or else the flagged ones, over what it was.\<close>

theorem old_checkpoint_agrees:
  assumes "agree s u" and "both_ok (\<not> prev_parity s) s u"
    and "op_size (o_cp_log u) + card (flagged (prev_parity s) s) \<le> LOG_SIZE" and "log_persistence_unit s = Inr s1"
  shows "\<exists>u1 u2. old_log_persistence_unit u = Inr u1 \<and> agree s1 u1 \<and> old_nvm_heap_update_unit u1 = Inr u2 \<and>
    agree (nvm_heap_update_unit s1) u2 \<and> old_nvm_image u2 = overlay (snap (prev_parity s) s) (nvm_image s) \<and>
    (\<forall>b. both_ok b (nvm_heap_update_unit s1) u2)"
  using checkpoint_agrees [OF assms] by (auto simp: agree_def)

theorem old_checkpoint_agrees_witness:
  "\<exists>u1 u2. old_log_persistence_unit demo_old_ended = Inr u1 \<and> old_nvm_heap_update_unit u1 = Inr u2 \<and>
    old_nvm_image u2 0 = demo_line"
proof -
  have d: "dram demo_new (line_ptr 0) = demo_line" by (simp add: demo_defs line_ptr_0)
  have room: "op_size (o_cp_log demo_old_ended) + card (flagged (prev_parity demo_new) demo_new) \<le> LOG_SIZE"
    by (simp add: demo_new_parity demo_new_flagged demo_old_defs LOG_SIZE_def)
  have ok: "both_ok (\<not> prev_parity demo_new) demo_new demo_old_ended" using demo_new_ok by (simp add: demo_new_parity)
  have "overlay (snap (prev_parity demo_new) demo_new) (nvm_image demo_new) 0 = demo_line"
    by (simp add: overlay_def snap_def demo_new_parity demo_new_flagged d)
  with old_checkpoint_agrees [OF demo_new_agree ok room demo_new_log] show ?thesis by metis
qed

text \<open>Where the array of the log is full, the old version writes beyond it.\<close>

lemma old_mark_overflow:
  assumes "t < length (o_ctx_array u)" and "op_size (oc_log (o_ctx_array u ! t)) = LOG_SIZE"
    and "i < bm_size (o_BitMap u b)" "i < bm_size (o_BitMap u (\<not> b))"
    and "\<not> bm_bits (o_BitMap u b) i" "bm_bits (o_BitMap u (\<not> b)) i"
  shows "old_mark_line t b i (line_ptr i) u = Inl OutOfBounds"
  using assms
  by (simp add: old_mark_line_def bitmap_is_set_def bitmap_clear_def old_push_user_log_def old_get_ctx_def
      old_plog_push_back_def)

end
