(* ===== verification/PersistOrder.thy ===== *)
theory PersistOrder
  imports CheckpointCorrect "HOL-Library.Sublist"
begin

section \<open>What a crash finds on NVM: write-backs and fences\<close>

text \<open>
  The other theories take a store to NVM as durable at once. Here a store goes to the cache; it becomes durable when the cache line is
  evicted, at any time, or when the thread has executed \<^verbatim>\<open>_mm_clwb\<close> on the line and after it \<^verbatim>\<open>_mm_sfence\<close> or
  \<^verbatim>\<open>_mm_mfence\<close>. A checkpoint is the sequence of the stores, write-backs and fences of the
  checkpointing thread (\<^verbatim>\<open>log_block_t::append\<close> and \<^verbatim>\<open>clear\<close> in \<^verbatim>\<open>src/src/plog_t.hpp\<close>; \<^verbatim>\<open>checkpointing\<close>,
  \<^verbatim>\<open>replay_redo_log\<close>, \<^verbatim>\<open>nvm_heap_update_unit\<close> and \<^verbatim>\<open>clear_redo_logs\<close> in \<^verbatim>\<open>src/src/checkpointing.cpp\<close>), read off
  the state in which its logs are complete; evictions and other threads come in between at any place.

  Shown: the entries of the log are durable before the commit is, and the lines of the NVM heap before the logs are
  cleared. But the sizes of the blocks and the epoch word are never written back before the
  NVM heap is overwritten, so that a crash can find a heap half updated and nothing that says so.
\<close>

subsection \<open>Memory\<close>

text \<open>
  Each of these lies on cache lines of its own: the two fields of an entry of a log and the size of a block (both are aligned), the
  epoch word, a line of the NVM heap. The bytes of the map of objects share lines (theory MapPersist). The blocks of the
  allocator log, of 1572888 bytes, are not aligned to lines: the size of a block shares its line with entries of the block and of the next
  one, so that a write-back of these writes back the size as well; for the size this is an eviction at that place.
\<close>

datatype loc = Entry_Addr block_id nat | Entry_Val block_id nat | Block_Size block_id | Epoch_Word | Nvm_Line ptr
  | Map_Byte nat | Alog_Size block_id

datatype pval = Ptr_Val ptr | Line_Val cacheline_t | Num_Val nat | Epoch_Val epoch_t | Byte_Val "8 word"

text \<open>Threads are numbers, the checkpointing thread is 0. \<open>Evict l k\<close>: the first \<open>k\<close> stores to \<open>l\<close> reach NVM.\<close>

datatype pevent = Store nat loc pval | Clwb nat loc | Fence nat | Evict loc nat

text \<open>
  The values a location has had, the first before the checkpoint; how many of them are durable; how many of them the
  pending write-backs of each thread cover.
\<close>

record pmem =
  pm_hist :: "loc \<Rightarrow> pval list"
  pm_done :: "loc \<Rightarrow> nat"
  pm_pend :: "nat \<Rightarrow> loc \<Rightarrow> nat"

definition pm_start :: "(loc \<Rightarrow> pval) \<Rightarrow> pmem" where
  "pm_start v = \<lparr>pm_hist = (\<lambda>l. [v l]), pm_done = (\<lambda>_. 1), pm_pend = (\<lambda>_ _. 0)\<rparr>"

fun pstep :: "pevent \<Rightarrow> pmem \<Rightarrow> pmem" where
  "pstep (Store t l v) m = m\<lparr>pm_hist := (pm_hist m)(l := pm_hist m l @ [v])\<rparr>"
| "pstep (Clwb t l) m = m\<lparr>pm_pend := (pm_pend m)(t := (pm_pend m t)(l := length (pm_hist m l)))\<rparr>"
| "pstep (Fence t) m = m\<lparr>pm_done := (\<lambda>l. max (pm_done m l) (pm_pend m t l))\<rparr>"
| "pstep (Evict l k) m = m\<lparr>pm_done := (pm_done m)(l := max (pm_done m l) (min k (length (pm_hist m l))))\<rparr>"

definition prun :: "pevent list \<Rightarrow> pmem \<Rightarrow> pmem" where
  "prun xs m = fold pstep xs m"

definition durable :: "pmem \<Rightarrow> loc \<Rightarrow> pval" where
  "durable m l = pm_hist m l ! (pm_done m l - 1)"

fun by_thread :: "nat \<Rightarrow> pevent \<Rightarrow> bool" where
  "by_thread t (Store r l v) \<longleftrightarrow> r = t"
| "by_thread t (Clwb r l) \<longleftrightarrow> r = t"
| "by_thread t (Fence r) \<longleftrightarrow> r = t"
| "by_thread t (Evict l k) \<longleftrightarrow> False"

fun stores_to :: "loc \<Rightarrow> pevent \<Rightarrow> bool" where
  "stores_to l (Store t l' v) \<longleftrightarrow> l' = l"
| "stores_to l _ \<longleftrightarrow> False"

definition pm_ok :: "pmem \<Rightarrow> bool" where
  "pm_ok m \<longleftrightarrow> (\<forall>l. 1 \<le> pm_done m l \<and> pm_done m l \<le> length (pm_hist m l) \<and> (\<forall>t. pm_pend m t l \<le> length (pm_hist m l)))"

lemma pm_ok_start: "pm_ok (pm_start v)"
  by (simp add: pm_ok_def pm_start_def)

lemma pm_ok_step: "pm_ok m \<Longrightarrow> pm_ok (pstep x m)"
  by (cases x) (auto simp: pm_ok_def le_max_iff_disj intro: le_SucI)

lemma prun_append: "prun (xs @ ys) m = prun ys (prun xs m)"
  by (simp add: prun_def)

lemma pm_ok_run: "pm_ok m \<Longrightarrow> pm_ok (prun xs m)"
  by (induction xs arbitrary: m) (simp_all add: prun_def pm_ok_step)

subsection \<open>The events of a checkpoint\<close>

text \<open>\<^verbatim>\<open>append\<close>: the two fields are written back, the size is not.\<close>

definition append_events :: "nat \<Rightarrow> block_id \<Rightarrow> nat \<Rightarrow> ptr \<times> cacheline_t \<Rightarrow> pevent list" where
  "append_events t b k entry =
     [Store t (Entry_Addr b k) (Ptr_Val (fst entry)), Clwb t (Entry_Addr b k),
      Store t (Entry_Val b k) (Line_Val (snd entry)), Clwb t (Entry_Val b k),
      Store t (Block_Size b) (Num_Val (k + 1))]"

definition block_entry :: "plog_management \<Rightarrow> block_id \<Rightarrow> nat \<Rightarrow> ptr \<times> cacheline_t" where
  "block_entry m b k = (pe_addr (pb_entries (pm_area m b) k), pe_val (pb_entries (pm_area m b) k))"

definition log_events :: "nat \<Rightarrow> plog_management \<Rightarrow> plog_t \<Rightarrow> pevent list" where
  "log_events t m bl = concat (map (\<lambda>b. concat (map (\<lambda>k. append_events t b k (block_entry m b k)) [0..<pb_size (pm_area m b)])) bl)"

text \<open>The commit: a fence, the store of the epoch word with the phase \<open>NVM_Heap_Update\<close>, a fence.\<close>

definition commit_events :: "epoch_t \<Rightarrow> pevent list" where
  "commit_events e = [Fence 0, Store 0 Epoch_Word (Epoch_Val e), Fence 0]"

definition replay_events :: "size_t \<Rightarrow> (ptr \<times> cacheline_t) list \<Rightarrow> pevent list" where
  "replay_events off es = concat (map (\<lambda>e. [Store 0 (Nvm_Line (add_addr (fst e) off)) (Line_Val (snd e)),
     Clwb 0 (Nvm_Line (add_addr (fst e) off))]) es)"

definition clear_events :: "plog_t \<Rightarrow> pevent list" where
  "clear_events bl = concat (map (\<lambda>b. [Store 0 (Block_Size b) (Num_Val 0), Clwb 0 (Block_Size b)]) (rev bl)) @ [Fence 0]"

text \<open>The three parts of a checkpoint, from the state in which the logs are complete.\<close>

definition logging_events :: "('j, 'z) escort_scheme \<Rightarrow> pevent list" where
  "logging_events s = log_events 0 (Plog_Management s) (cp_log s)"

definition update_events :: "('j, 'z) escort_scheme \<Rightarrow> pevent list" where
  "update_events s =
     replay_events (nvm_offset s) (plog_contents (Plog_Management s) (cp_log s)) @ [Fence 0] @
     concat (map (\<lambda>ctx. replay_events (nvm_offset s) (plog_contents (Plog_Management s) (uc_log ctx))) (ctx_array s)) @ [Fence 0]"

definition clearing_events :: "('j, 'z) escort_scheme \<Rightarrow> pevent list" where
  "clearing_events s = clear_events (cp_log s) @ concat (map (\<lambda>ctx. clear_events (uc_log ctx)) (ctx_array s)) @ [Fence 0]"

definition checkpoint_events :: "epoch_t \<Rightarrow> ('j, 'z) escort_scheme \<Rightarrow> pevent list" where
  "checkpoint_events e s = logging_events s @ commit_events e @ update_events s @ clearing_events s"

text \<open>
  A trace of the whole program in which the checkpointing thread has got as far as \<open>ys\<close>, and no other thread
  stores to the locations \<open>L\<close>.
\<close>

definition trace_of :: "loc set \<Rightarrow> pevent list \<Rightarrow> pevent list \<Rightarrow> bool" where
  "trace_of L ys xs \<longleftrightarrow> filter (by_thread 0) xs = ys \<and>
     (\<forall>x \<in> set xs. \<forall>l \<in> L. stores_to l x \<longrightarrow> by_thread 0 x)"

subsection \<open>How durable a location is\<close>

datatype pstat = Unknown | Dirty pval | Pending pval | Durable pval

fun stat_step :: "loc \<Rightarrow> pevent \<Rightarrow> pstat \<Rightarrow> pstat" where
  "stat_step l (Store t l' v) st = (if l' = l then Dirty v else st)"
| "stat_step l (Clwb t l') st = (case st of Dirty v \<Rightarrow> if l' = l then Pending v else st | _ \<Rightarrow> st)"
| "stat_step l (Fence t) st = (case st of Pending v \<Rightarrow> Durable v | _ \<Rightarrow> st)"
| "stat_step l (Evict l' k) st = st"

definition stat :: "loc \<Rightarrow> pevent list \<Rightarrow> pstat \<Rightarrow> pstat" where
  "stat l ys st = fold (stat_step l) ys st"

text \<open>What the status says of the memory.\<close>

fun stat_ok :: "loc \<Rightarrow> pstat \<Rightarrow> pmem \<Rightarrow> bool" where
  "stat_ok l Unknown m \<longleftrightarrow> True"
| "stat_ok l (Dirty v) m \<longleftrightarrow> last (pm_hist m l) = v"
| "stat_ok l (Pending v) m \<longleftrightarrow> last (pm_hist m l) = v \<and> pm_pend m 0 l = length (pm_hist m l)"
| "stat_ok l (Durable v) m \<longleftrightarrow> last (pm_hist m l) = v \<and> pm_done m l = length (pm_hist m l)"

lemma stat_ok_step:
  assumes "pm_ok m" and "stat_ok l st m" and "stores_to l x \<Longrightarrow> by_thread 0 x"
  shows "stat_ok l (if by_thread 0 x then stat_step l x st else st) (pstep x m)"
proof -
  have b: "pm_done m l \<le> length (pm_hist m l)" "\<And>t. pm_pend m t l \<le> length (pm_hist m l)"
    using assms(1) by (simp_all add: pm_ok_def)
  show ?thesis using assms(2,3) b by (cases x; cases st) (auto simp: max_def intro: le_antisym)
qed

lemma stat_ok_run:
  assumes "trace_of L ys xs" and "l \<in> L" and "pm_ok m" and "stat_ok l st m"
  shows "stat_ok l (stat l ys st) (prun xs m)"
  using assms
proof (induction xs arbitrary: ys m st)
  case Nil
  then show ?case by (simp add: trace_of_def prun_def stat_def)
next
  case (Cons x xs)
  have tr: "trace_of L (filter (by_thread 0) xs) xs" and x: "stores_to l x \<Longrightarrow> by_thread 0 x"
    using Cons.prems(1,2) by (auto simp: trace_of_def)
  note step = stat_ok_step [OF Cons.prems(3,4) x] and ok = pm_ok_step [OF Cons.prems(3), of x]
  have "ys = (if by_thread 0 x then [x] else []) @ filter (by_thread 0) xs"
    using Cons.prems(1) by (auto simp: trace_of_def)
  then have "stat l ys st = stat l (filter (by_thread 0) xs) (if by_thread 0 x then stat_step l x st else st)"
    by (simp add: stat_def)
  with Cons.IH [OF tr Cons.prems(2) ok step] show ?case by (simp add: prun_def)
qed

lemma durable_stat:
  assumes "trace_of L ys xs" and "l \<in> L" and "stat l ys Unknown = Durable v"
  shows "durable (prun xs (pm_start v0)) l = v"
proof -
  let ?m = "prun xs (pm_start v0)"
  have "stat_ok l (Durable v) ?m"
    using stat_ok_run [OF assms(1,2) pm_ok_start [of v0], of Unknown] assms(3) by simp
  moreover have "1 \<le> pm_done ?m l \<and> pm_done ?m l \<le> length (pm_hist ?m l)"
    using pm_ok_run [OF pm_ok_start, of xs v0] unfolding pm_ok_def by blast
  then have "pm_hist ?m l \<noteq> []" by auto
  ultimately show ?thesis by (simp add: durable_def last_conv_nth)
qed

lemma stat_append: "stat l (xs @ ys) st = stat l ys (stat l xs st)"
  by (simp add: stat_def)

text \<open>Once written back, a location that is not stored to again stays so, and a fence makes it durable.\<close>

lemma stat_kept:
  "\<forall>y \<in> set ys. \<not> stores_to l y \<Longrightarrow> st \<in> {Pending v, Durable v} \<Longrightarrow> stat l ys st \<in> {Pending v, Durable v}"
proof (induction ys arbitrary: st)
  case Nil
  then show ?case by (simp add: stat_def)
next
  case (Cons y ys)
  have "stat_step l y st \<in> {Pending v, Durable v}" using Cons.prems by (cases y) auto
  with Cons.IH [of "stat_step l y st"] Cons.prems(1) show ?case by (simp add: stat_def)
qed

lemma stat_durable_kept: "\<forall>y \<in> set ys. \<not> stores_to l y \<Longrightarrow> stat l ys (Durable v) = Durable v"
proof (induction ys)
  case Nil
  then show ?case by (simp add: stat_def)
next
  case (Cons y ys)
  have "stat_step l y (Durable v) = Durable v" using Cons.prems by (cases y) auto
  with Cons show ?case by (simp add: stat_def)
qed

lemma stat_persisted:
  assumes "\<forall>y \<in> set (bs @ cs). \<not> stores_to l y"
  shows "stat l (as @ [Store 0 l v, Clwb 0 l] @ bs @ [Fence 0] @ cs) st = Durable v"
proof -
  have "stat l bs (Pending v) \<in> {Pending v, Durable v}" using assms by (intro stat_kept) simp_all
  then have "stat l (bs @ [Fence 0]) (Pending v) = Durable v" by (auto simp: stat_append) (simp_all add: stat_def)
  moreover have "stat l (as @ [Store 0 l v, Clwb 0 l]) st = Pending v" by (simp add: stat_def)
  ultimately have "stat l ((as @ [Store 0 l v, Clwb 0 l]) @ (bs @ [Fence 0])) st = Durable v"
    by (simp only: stat_append)
  then show ?thesis
    using assms stat_durable_kept [of cs l v] stat_append [of l "(as @ [Store 0 l v, Clwb 0 l]) @ (bs @ [Fence 0])" cs st] by simp
qed

text \<open>A location shows its first value as long as nobody has stored to it.\<close>

lemma hist_unstored: "\<forall>x \<in> set xs. \<not> stores_to l x \<Longrightarrow> pm_hist (prun xs m) l = pm_hist m l"
proof (induction xs arbitrary: m)
  case Nil
  then show ?case by (simp add: prun_def)
next
  case (Cons x xs)
  have "pm_hist (pstep x m) l = pm_hist m l" using Cons.prems by (cases x) auto
  with Cons show ?case by (simp add: prun_def)
qed

lemma durable_unstored:
  assumes "trace_of L ys xs" and "l \<in> L" and "\<forall>y \<in> set ys. \<not> stores_to l y"
  shows "durable (prun xs (pm_start v0)) l = v0 l"
proof -
  let ?m = "prun xs (pm_start v0)"
  have "\<not> stores_to l x" if "x \<in> set xs" for x
    using assms that by (auto simp: trace_of_def)
  then have h: "pm_hist ?m l = [v0 l]" using hist_unstored [of xs l "pm_start v0"] by (simp add: pm_start_def)
  have "1 \<le> pm_done ?m l \<and> pm_done ?m l \<le> length (pm_hist ?m l)"
    using pm_ok_run [OF pm_ok_start, of xs v0] unfolding pm_ok_def by blast
  then show ?thesis using h by (simp add: durable_def)
qed

text \<open>What a crash finds at a location is its first value or one that somebody has stored.\<close>

lemma hist_stored: "v \<in> set (pm_hist (prun xs m) l) \<Longrightarrow> v \<in> set (pm_hist m l) \<or> (\<exists>t. Store t l v \<in> set xs)"
proof (induction xs arbitrary: m)
  case Nil
  then show ?case by (simp add: prun_def)
next
  case (Cons x xs)
  have "v \<in> set (pm_hist (pstep x m) l) \<or> (\<exists>t. Store t l v \<in> set xs)"
    using Cons.IH [of "pstep x m"] Cons.prems by (simp add: prun_def)
  then show ?case by (cases x) (auto split: if_splits)
qed

lemma durable_stored:
  assumes "durable (prun xs (pm_start v0)) l \<noteq> v0 l"
  shows "\<exists>t. Store t l (durable (prun xs (pm_start v0)) l) \<in> set xs"
proof -
  let ?m = "prun xs (pm_start v0)"
  have "1 \<le> pm_done ?m l \<and> pm_done ?m l \<le> length (pm_hist ?m l)"
    using pm_ok_run [OF pm_ok_start, of xs v0] unfolding pm_ok_def by blast
  then have "durable ?m l \<in> set (pm_hist ?m l)" unfolding durable_def by (intro nth_mem) linarith
  with hist_stored [of _ xs "pm_start v0" l] assms show ?thesis by (auto simp: pm_start_def)
qed

text \<open>A location whose write-backs nobody has fenced and which has not been evicted shows its first value in a crash.\<close>

definition unflushed :: "loc \<Rightarrow> pevent list \<Rightarrow> bool" where
  "unflushed l xs \<longleftrightarrow> (\<forall>k. Evict l k \<notin> set xs) \<and> (\<forall>t. Clwb t l \<in> set xs \<longrightarrow> Fence t \<notin> set xs)"

lemma done_unflushed:
  assumes "unflushed l xs" and "\<And>t. Fence t \<in> set xs \<Longrightarrow> pm_pend m t l = 0"
  shows "pm_done (prun xs m) l = pm_done m l"
  using assms
proof (induction xs arbitrary: m)
  case Nil
  then show ?case by (simp add: prun_def)
next
  case (Cons x xs)
  have d: "pm_done (pstep x m) l = pm_done m l"
    using Cons.prems by (cases x) (auto simp: unflushed_def)
  have "unflushed l xs" using Cons.prems(1) by (auto simp: unflushed_def)
  moreover have "pm_pend (pstep x m) t l = 0" if t: "Fence t \<in> set xs" for t
    using Cons.prems(2) [of t] Cons.prems(1) t by (cases x) (auto simp: unflushed_def)
  ultimately show ?case using Cons.IH [of "pstep x m"] d by (simp add: prun_def)
qed

lemma hist_first: "pm_hist m l \<noteq> [] \<Longrightarrow> pm_hist (prun xs m) l \<noteq> [] \<and> pm_hist (prun xs m) l ! 0 = pm_hist m l ! 0"
proof (induction xs arbitrary: m)
  case Nil
  then show ?case by (simp add: prun_def)
next
  case (Cons x xs)
  have "pm_hist (pstep x m) l \<noteq> [] \<and> pm_hist (pstep x m) l ! 0 = pm_hist m l ! 0"
    using Cons.prems by (cases x) (auto simp: nth_append)
  with Cons.IH [of "pstep x m"] show ?case by (simp add: prun_def)
qed

lemma durable_unflushed:
  assumes "unflushed l xs"
  shows "durable (prun xs (pm_start v0)) l = v0 l"
proof -
  have "pm_done (prun xs (pm_start v0)) l = 1"
    using done_unflushed [OF assms, of "pm_start v0"] by (simp add: pm_start_def)
  then show ?thesis using hist_first [of "pm_start v0" l xs] by (simp add: durable_def pm_start_def)
qed

text \<open>An eviction makes the last store durable.\<close>

lemma durable_evicted:
  assumes "pm_ok m" and "length (pm_hist m l) \<le> k"
  shows "durable (pstep (Evict l k) m) l = last (pm_hist m l)"
proof -
  have "1 \<le> pm_done m l \<and> pm_done m l \<le> length (pm_hist m l)" using assms(1) unfolding pm_ok_def by blast
  then have "pm_hist m l \<noteq> []" and "max (pm_done m l) (length (pm_hist m l)) = length (pm_hist m l)" by auto
  then show ?thesis using assms(2) by (simp add: durable_def last_conv_nth)
qed

lemma durable_other_evict: "l' \<noteq> l \<Longrightarrow> durable (pstep (Evict l k) m) l' = durable m l'"
  by (simp add: durable_def)

subsection \<open>Where the events of a checkpoint store\<close>

lemma upto_split: "k < n \<Longrightarrow> [0..<n] = [0..<k] @ k # [Suc k..<n]"
  by (metis upt_conv_Cons upt_add_eq_append le0 less_imp_le le_add_diff_inverse)

lemma append_events_stores:
  "x \<in> set (append_events t b k e) \<Longrightarrow> stores_to (Entry_Addr b' k') x \<Longrightarrow> b' = b \<and> k' = k"
  "x \<in> set (append_events t b k e) \<Longrightarrow> stores_to (Entry_Val b' k') x \<Longrightarrow> b' = b \<and> k' = k"
  "x \<in> set (append_events t b k e) \<Longrightarrow> \<not> stores_to Epoch_Word x"
  "x \<in> set (append_events t b k e) \<Longrightarrow> \<not> stores_to (Nvm_Line p) x"
  by (auto simp: append_events_def)

lemma log_events_stores:
  "x \<in> set (log_events t m bl) \<Longrightarrow> \<not> stores_to Epoch_Word x \<and> \<not> stores_to (Nvm_Line p) x"
  by (auto simp: log_events_def dest: append_events_stores)

lemma replay_events_stores:
  "x \<in> set (replay_events off es) \<Longrightarrow> \<not> stores_to Epoch_Word x \<and> \<not> stores_to (Entry_Addr b k) x \<and>
     \<not> stores_to (Entry_Val b k) x \<and> (stores_to (Nvm_Line p) x \<longrightarrow> (\<exists>a v. (a, v) \<in> set es \<and> p = add_addr a off))"
  by (auto simp: replay_events_def)

lemma clear_events_stores:
  "x \<in> set (clear_events bl) \<Longrightarrow> \<not> stores_to Epoch_Word x \<and> \<not> stores_to (Entry_Addr b k) x \<and>
     \<not> stores_to (Entry_Val b k) x \<and> \<not> stores_to (Nvm_Line p) x"
  by (auto simp: clear_events_def)

lemma update_events_stores:
  "x \<in> set (update_events s) \<Longrightarrow> \<not> stores_to Epoch_Word x \<and> \<not> stores_to (Entry_Addr b k) x \<and> \<not> stores_to (Entry_Val b k) x"
  by (auto simp: update_events_def dest: replay_events_stores)

lemma clearing_events_stores:
  "x \<in> set (clearing_events s) \<Longrightarrow> \<not> stores_to Epoch_Word x \<and> \<not> stores_to (Entry_Addr b k) x \<and>
     \<not> stores_to (Entry_Val b k) x \<and> \<not> stores_to (Nvm_Line p) x"
  by (auto simp: clearing_events_def dest: clear_events_stores)

lemma log_events_append: "log_events t m (as @ bs) = log_events t m as @ log_events t m bs"
  by (simp add: log_events_def)

lemma log_events_split:
  assumes "distinct bl" and "b \<in> set bl" and "k < pb_size (pm_area m b)"
  obtains A B where "log_events t m bl = A @ append_events t b k (block_entry m b k) @ B"
    and "\<forall>y \<in> set B. \<not> stores_to (Entry_Addr b k) y \<and> \<not> stores_to (Entry_Val b k) y"
proof -
  obtain as bs where bl: "bl = as @ b # bs" using split_list [OF assms(2)] by blast
  let ?f = "\<lambda>b k. append_events t b k (block_entry m b k)"
  let ?g = "\<lambda>ks. concat (map (?f b) ks)"
  have g: "?g [0..<pb_size (pm_area m b)] = ?g [0..<k] @ ?f b k @ ?g [Suc k..<pb_size (pm_area m b)]"
    unfolding upto_split [OF assms(3)] by simp
  have "log_events t m bl = (log_events t m as @ ?g [0..<k]) @ ?f b k @ (?g [Suc k..<pb_size (pm_area m b)] @ log_events t m bs)"
    unfolding bl log_events_append using g by (simp add: log_events_def)
  moreover have "\<not> stores_to (Entry_Addr b k) y \<and> \<not> stores_to (Entry_Val b k) y"
    if "y \<in> set (?g [Suc k..<pb_size (pm_area m b)] @ log_events t m bs)" for y
  proof -
    have "y \<in> set (?g [Suc k..<pb_size (pm_area m b)]) \<or> y \<in> set (log_events t m bs)"
      using that by (simp only: set_append Un_iff)
    then consider (here) "y \<in> set (?g [Suc k..<pb_size (pm_area m b)])" | (later) "y \<in> set (log_events t m bs)" by blast
    then have "\<exists>b' k'. (b' \<noteq> b \<or> k' \<noteq> k) \<and> y \<in> set (?f b' k')"
    proof cases
      case here
      then obtain k' where "Suc k \<le> k'" "y \<in> set (?f b k')" by auto
      then show ?thesis by (intro exI [of _ b] exI [of _ k']) simp
    next
      case later
      then obtain b' k' where "b' \<in> set bs" "y \<in> set (?f b' k')" by (auto simp: log_events_def)
      then show ?thesis using assms(1) by (intro exI [of _ b'] exI [of _ k']) (auto simp: bl)
    qed
    then show ?thesis by (auto dest: append_events_stores)
  qed
  ultimately show ?thesis using that by blast
qed

subsection \<open>The order in which things become durable\<close>

lemma commit_prefix:
  assumes "prefix ys (checkpoint_events e s)" and "y \<in> set ys" and "stores_to Epoch_Word y"
  obtains zs where "ys = logging_events s @ [Fence 0, Store 0 Epoch_Word (Epoch_Val e)] @ zs"
    and "prefix zs ([Fence 0] @ update_events s @ clearing_events s)"
proof -
  let ?A = "logging_events s @ [Fence 0]"
  let ?B = "Store 0 Epoch_Word (Epoch_Val e) # [Fence 0] @ update_events s @ clearing_events s"
  have "prefix ys (?A @ ?B)" using assms(1) by (simp add: checkpoint_events_def commit_events_def)
  moreover have "\<not> prefix ys ?A"
  proof
    assume "prefix ys ?A"
    then have "y \<in> set ?A" using assms(2) set_mono_prefix by blast
    then show False using assms(3) log_events_stores by (auto simp: logging_events_def)
  qed
  ultimately obtain us where us: "ys = ?A @ us" "prefix us ?B" using prefix_append [of ys ?A ?B] by blast
  then have "us \<noteq> []" using \<open>\<not> prefix ys ?A\<close> by auto
  with us show ?thesis using that by (cases us) auto
qed

lemma log_durable:
  assumes d: "distinct (cp_log s)" and b: "b \<in> set (cp_log s)" "k < pb_size (pm_area (Plog_Management s) b)"
    and ys: "prefix ys (checkpoint_events e s)" and xs: "trace_of L ys xs"
    and L: "Epoch_Word \<in> L" "Entry_Addr b k \<in> L" "Entry_Val b k \<in> L"
    and old: "v0 Epoch_Word \<noteq> Epoch_Val e" and new: "durable (prun xs (pm_start v0)) Epoch_Word = Epoch_Val e"
  shows "durable (prun xs (pm_start v0)) (Entry_Addr b k) = Ptr_Val (fst (block_entry (Plog_Management s) b k)) \<and>
    durable (prun xs (pm_start v0)) (Entry_Val b k) = Line_Val (snd (block_entry (Plog_Management s) b k))"
proof -
  let ?m = "Plog_Management s"
  have "\<exists>y \<in> set ys. stores_to Epoch_Word y"
    using durable_unstored [OF xs L(1), of v0] old new by auto
  then obtain zs where z: "ys = logging_events s @ [Fence 0, Store 0 Epoch_Word (Epoch_Val e)] @ zs"
    "prefix zs ([Fence 0] @ update_events s @ clearing_events s)"
    using commit_prefix [OF ys] by blast
  obtain A B where AB: "logging_events s = A @ append_events 0 b k (block_entry ?m b k) @ B"
    and Bs: "\<forall>y \<in> set B. \<not> stores_to (Entry_Addr b k) y \<and> \<not> stores_to (Entry_Val b k) y"
    using log_events_split [OF d b] unfolding logging_events_def by blast
  let ?C = "Store 0 Epoch_Word (Epoch_Val e) # zs"
  have Cs: "\<not> stores_to (Entry_Addr b k) y \<and> \<not> stores_to (Entry_Val b k) y" if "y \<in> set ?C" for y
    using that set_mono_prefix [OF z(2)] update_events_stores [of y s b k] clearing_events_stores [of y s b k] by auto
  let ?e = "block_entry ?m b k"
  let ?A2 = "A @ [Store 0 (Entry_Addr b k) (Ptr_Val (fst ?e)), Clwb 0 (Entry_Addr b k)]"
  let ?B1 = "[Store 0 (Entry_Val b k) (Line_Val (snd ?e)), Clwb 0 (Entry_Val b k), Store 0 (Block_Size b) (Num_Val (k + 1))] @ B"
  let ?B2 = "[Store 0 (Block_Size b) (Num_Val (k + 1))] @ B"
  have 1: "ys = A @ [Store 0 (Entry_Addr b k) (Ptr_Val (fst ?e)), Clwb 0 (Entry_Addr b k)] @ ?B1 @ [Fence 0] @ ?C"
    and 2: "ys = ?A2 @ [Store 0 (Entry_Val b k) (Line_Val (snd ?e)), Clwb 0 (Entry_Val b k)] @ ?B2 @ [Fence 0] @ ?C"
    by (simp_all add: z(1) AB append_events_def)
  have "stat (Entry_Addr b k) ys Unknown = Durable (Ptr_Val (fst ?e))"
    unfolding 1 by (rule stat_persisted) (use Bs Cs in auto)
  moreover have "stat (Entry_Val b k) ys Unknown = Durable (Line_Val (snd ?e))"
    unfolding 2 by (rule stat_persisted) (use Bs Cs in auto)
  ultimately show ?thesis using durable_stat [OF xs] L(2,3) by blast
qed

lemma replay_events_append: "replay_events off (as @ bs) = replay_events off as @ replay_events off bs"
  by (simp add: replay_events_def)

lemma replay_events_concat: "concat (map (\<lambda>x. replay_events off (f x)) xs) = replay_events off (concat (map f xs))"
  by (induction xs) (simp_all add: replay_events_append, simp add: replay_events_def)

lemma replay_persisted:
  assumes "distinct (map fst es)" and "(a, v) \<in> set es" and "\<forall>y \<in> set (bs @ cs). \<not> stores_to (Nvm_Line (add_addr a off)) y"
  shows "stat (Nvm_Line (add_addr a off)) (as @ replay_events off es @ bs @ [Fence 0] @ cs) st = Durable (Line_Val v)"
proof -
  let ?l = "Nvm_Line (add_addr a off)"
  obtain es1 es2 where es: "es = es1 @ (a, v) # es2" using split_list [OF assms(2)] by blast
  have r: "replay_events off es = replay_events off es1 @ [Store 0 ?l (Line_Val v), Clwb 0 ?l] @ replay_events off es2"
    unfolding es by (simp add: replay_events_append) (simp add: replay_events_def)
  have inj: "add_addr x off = add_addr a off \<Longrightarrow> x = a" for x by (simp add: add_addr_def)
  have "\<not> stores_to ?l y" if y: "y \<in> set (replay_events off es2)" for y
  proof
    assume "stores_to ?l y"
    then obtain x w where x: "(x, w) \<in> set es2" "add_addr a off = add_addr x off"
      using replay_events_stores [OF y] by blast
    then have "x = a" using inj [of x] by simp
    then show False using x(1) assms(1) by (force simp: es)
  qed
  then have "\<forall>y \<in> set ((replay_events off es2 @ bs) @ cs). \<not> stores_to ?l y" using assms(3) by auto
  from stat_persisted [OF this, of "as @ replay_events off es1" "Line_Val v" st] show ?thesis unfolding r by simp
qed

lemma heap_durable:
  assumes wf: "wf_logs (Plog_Management s) (redo_logs s)" and e: "(a, v) \<in> set (all_entries s)"
    and ys: "ys = logging_events s @ commit_events ep @ update_events s @ zs" "prefix zs (clearing_events s)"
    and xs: "trace_of L ys xs" and L: "Nvm_Line (add_addr a (nvm_offset s)) \<in> L"
  shows "durable (prun xs (pm_start v0)) (Nvm_Line (add_addr a (nvm_offset s))) = Line_Val v"
proof -
  let ?m = "Plog_Management s" and ?off = "nvm_offset s"
  let ?l = "Nvm_Line (add_addr a ?off)"
  define es1 where "es1 = plog_contents ?m (cp_log s)"
  define es2 where "es2 = concat (map (\<lambda>ctx. plog_contents ?m (uc_log ctx)) (ctx_array s))"
  have all: "all_entries s = es1 @ es2"
    by (simp add: all_entries_def redo_logs_def logs_contents_def es1_def es2_def comp_def)
  have d: "distinct (map fst (es1 @ es2))" using wf all by (simp add: wf_logs_def all_entries_def)
  have upd: "update_events s = replay_events ?off es1 @ [Fence 0] @ replay_events ?off es2 @ [Fence 0]"
    by (simp add: update_events_def es1_def es2_def replay_events_concat)
  have zs: "\<not> stores_to ?l y" if "y \<in> set zs" for y
    using that set_mono_prefix [OF ys(2)] clearing_events_stores by blast
  have "stat ?l ys Unknown = Durable (Line_Val v)"
  proof (cases "(a, v) \<in> set es1")
    case True
    have "\<not> stores_to ?l y" if y: "y \<in> set (replay_events ?off es2)" for y
    proof
      assume "stores_to ?l y"
      then obtain x w where "(x, w) \<in> set es2" "add_addr a ?off = add_addr x ?off"
        using replay_events_stores [OF y] by blast
      then have "(a, w) \<in> set es2" by (simp add: add_addr_def)
      then show False using d True by force
    qed
    then have "\<forall>y \<in> set ([] @ (replay_events ?off es2 @ [Fence 0] @ zs)). \<not> stores_to ?l y" using zs by auto
    from replay_persisted [OF _ True this, of "logging_events s @ commit_events ep" Unknown] d
    show ?thesis by (simp add: ys(1) upd)
  next
    case False
    then have "(a, v) \<in> set es2" using e all by simp
    moreover have "\<forall>y \<in> set ([] @ zs). \<not> stores_to ?l y" using zs by auto
    ultimately show ?thesis
      using replay_persisted [of es2 a v "[]" zs ?off "logging_events s @ commit_events ep @ replay_events ?off es1 @ [Fence 0]" Unknown] d
      by (simp add: ys(1) upd)
  qed
  then show ?thesis using durable_stat [OF xs L] by blast
qed

subsection \<open>What the events store\<close>

text \<open>
  The stores of \<open>replay_events\<close> leave the NVM heap, as the threads see it, as \<open>replay_redo_log\<close> does, and those of
  \<open>append_events\<close> leave a block as \<open>plog_block_append\<close> does.
\<close>

definition sees_heap :: "pmem \<Rightarrow> (ptr \<Rightarrow> cacheline_t) \<Rightarrow> bool" where
  "sees_heap m h \<longleftrightarrow> (\<forall>p. last (pm_hist m (Nvm_Line p)) = Line_Val (h p))"

definition sees_block :: "pmem \<Rightarrow> block_id \<Rightarrow> plog_block \<Rightarrow> bool" where
  "sees_block m b x \<longleftrightarrow> last (pm_hist m (Block_Size b)) = Num_Val (pb_size x) \<and>
     (\<forall>k < pb_size x. last (pm_hist m (Entry_Addr b k)) = Ptr_Val (pe_addr (pb_entries x k)) \<and>
        last (pm_hist m (Entry_Val b k)) = Line_Val (pe_val (pb_entries x k)))"

lemma replay_events_heap:
  "sees_heap m (nvm s) \<Longrightarrow> sees_heap (prun (replay_events (nvm_offset s) es) m) (nvm (fold replay_entry es s))"
proof (induction es arbitrary: m s)
  case Nil
  then show ?case by (simp add: replay_events_def prun_def)
next
  case (Cons e es)
  let ?s = "replay_entry e s" and ?m = "prun (replay_events (nvm_offset s) [e]) m"
  have "sees_heap ?m (nvm ?s)"
    using Cons.prems by (simp add: sees_heap_def replay_events_def prun_def replay_entry_def Let_def)
  moreover have "nvm_offset ?s = nvm_offset s" by (simp add: replay_entry_def Let_def)
  ultimately have "sees_heap (prun (replay_events (nvm_offset s) es) ?m) (nvm (fold replay_entry es ?s))"
    using Cons.IH [of ?m ?s] by simp
  moreover have "replay_events (nvm_offset s) (e # es) = replay_events (nvm_offset s) [e] @ replay_events (nvm_offset s) es"
    by (simp add: replay_events_def)
  ultimately show ?case by (simp add: prun_append)
qed

lemma append_events_block:
  assumes "sees_block m b x" and "plog_block_append entry x = Inr (True, x')"
  shows "sees_block (prun (append_events t b (pb_size x) entry) m) b x'"
  using assms
  by (auto simp: sees_block_def append_events_def prun_def plog_block_append_def Let_def less_Suc_eq split: if_splits)

end
