(* ===== verification/PersistClaims.thy ===== *)
theory PersistClaims
  imports PersistOrder Demo
begin

section \<open>What a crash finds: the properties\<close>

text \<open>
  The order in which a checkpoint makes its log, the commit and the NVM heap durable, and what is missing in
  it. The concrete run of Demo, whose log has one entry, instantiates the theorems.
\<close>

subsection \<open>The log of the concrete run\<close>

lemma demo_log: "plog_contents (Plog_Management (demo_logged e l)) (cp_log (demo_logged e l)) = [(DRAM_BASE, demo_line)]"
  by (simp add: plog_contents_def contents_def plog_entries_def demo_logged_def)

lemma demo_all_entries: "all_entries (demo_logged e []) = [(DRAM_BASE, demo_line)]"
  unfolding all_entries_def redo_logs_def logs_contents_def
  by (simp add: demo_log demo_ctx_def userthreadctx_new_def) (simp add: plog_contents_def contents_def)

lemma demo_cp_wf_logs: "wf_logs (Plog_Management (demo_logged e [])) (redo_logs (demo_logged e []))"
proof -
  have "wf_logs (Plog_Management (sys_st demo_commit)) (redo_logs (sys_st demo_commit))"
    using sys_run_inv [OF demo_run demo_start_quiescent] cinvD(2) by blast
  then show ?thesis by (simp add: demo_commit_def demo_logged_def redo_logs_def)
qed

text \<open>Only the checkpointing thread runs, and the cache keeps everything but what is fenced.\<close>

lemma trace_alone: "filter (by_thread 0) ys = ys \<Longrightarrow> trace_of L ys ys"
  by (auto simp: trace_of_def filter_id_conv)

lemma events_by_thread:
  "filter (by_thread 0) (log_events 0 m bl) = log_events 0 m bl"
  "filter (by_thread 0) (commit_events e) = commit_events e"
  "filter (by_thread 0) (replay_events off es) = replay_events off es"
  by (auto simp: filter_id_conv log_events_def append_events_def commit_events_def replay_events_def)

lemma logging_by_thread: "filter (by_thread 0) (logging_events s) = logging_events s"
  by (simp add: logging_events_def events_by_thread)

lemma update_by_thread: "filter (by_thread 0) (update_events s) = update_events s"
  by (auto simp: update_events_def filter_id_conv replay_events_def)

subsection \<open>The log before the commit\<close>

text \<open>C14: if a crash finds the epoch word of the commit on NVM, at whatever point of a checkpoint and with whatever evictions and
  events of other threads before it, then it finds there every entry of the log of the checkpointing thread.\<close>

theorem log_durable_before_commit:
  assumes "wf_logs (Plog_Management s) (redo_logs s)" and "prefix ys (checkpoint_events e s)"
    and "trace_of ({Epoch_Word} \<union> (\<Union>b \<in> set (cp_log s). range (Entry_Addr b) \<union> range (Entry_Val b))) ys xs"
    and "v0 Epoch_Word \<noteq> Epoch_Val e" and "durable (prun xs (pm_start v0)) Epoch_Word = Epoch_Val e"
    and "b \<in> set (cp_log s)" and "k < pb_size (pm_area (Plog_Management s) b)"
  shows "durable (prun xs (pm_start v0)) (Entry_Addr b k) = Ptr_Val (pe_addr (pb_entries (pm_area (Plog_Management s) b) k)) \<and>
    durable (prun xs (pm_start v0)) (Entry_Val b k) = Line_Val (pe_val (pb_entries (pm_area (Plog_Management s) b) k))"
proof -
  have "distinct (cp_log s)" using assms(1) by (auto simp: wf_logs_def log_ok_def redo_logs_def)
  from log_durable [OF this assms(6,7,2,3) _ _ _ assms(4,5)] assms(6) show ?thesis
    by (auto simp: block_entry_def)
qed

lemma demo_log_events:
  "logging_events (demo_logged e l) = append_events 0 0 0 (DRAM_BASE, demo_line)"
  by (simp add: logging_events_def log_events_def block_entry_def demo_logged_def)

definition demo_pm :: "loc \<Rightarrow> pval" where "demo_pm = (\<lambda>_. Num_Val 0)"

theorem log_durable_before_commit_witness:
  "durable (prun (append_events 0 0 0 (DRAM_BASE, demo_line) @ commit_events 3 @ [Evict Epoch_Word 2]) (pm_start demo_pm)) (Entry_Val 0 0) =
     Line_Val demo_line"
proof -
  let ?s = "demo_logged demo_logging_epoch []"
  let ?ys = "append_events 0 0 0 (DRAM_BASE, demo_line) @ commit_events 3"
  have p: "prefix ?ys (checkpoint_events 3 ?s)" by (simp add: checkpoint_events_def demo_log_events)
  have t: "trace_of L ?ys (?ys @ [Evict Epoch_Word 2])" for L
    by (auto simp: trace_of_def append_events_def commit_events_def)
  have "durable (prun (?ys @ [Evict Epoch_Word 2]) (pm_start demo_pm)) Epoch_Word = Epoch_Val 3"
    by (simp add: prun_def append_events_def commit_events_def pm_start_def durable_def demo_pm_def)
  from log_durable_before_commit [OF demo_cp_wf_logs p t _ this, of 0 0] show ?thesis
    by (simp add: demo_pm_def demo_logged_def)
qed

subsection \<open>The NVM heap before the logs are cleared\<close>

text \<open>C15: when the checkpointing thread begins to clear the logs, and as long as it does, every logged line is durable in
  the NVM heap.\<close>

theorem heap_durable_before_clear:
  assumes "wf_logs (Plog_Management s) (redo_logs s)" and "prefix zs (clearing_events s)"
    and "trace_of (range Nvm_Line) (logging_events s @ commit_events e @ update_events s @ zs) xs"
    and "(a, v) \<in> set (all_entries s)"
  shows "durable (prun xs (pm_start v0)) (Nvm_Line (add_addr a (nvm_offset s))) = Line_Val v"
  by (rule heap_durable [OF assms(1,4) refl assms(2,3)]) simp

theorem heap_durable_before_clear_witness:
  "let s = demo_logged 3 [] in
   durable (prun (logging_events s @ commit_events 3 @ update_events s) (pm_start demo_pm)) (Nvm_Line (add_addr DRAM_BASE (nvm_offset s))) =
     Line_Val demo_line"
proof -
  let ?s = "demo_logged 3 []"
  let ?ys = "logging_events ?s @ commit_events 3 @ update_events ?s @ []"
  have "trace_of (range Nvm_Line) ?ys ?ys"
    by (rule trace_alone) (simp add: logging_by_thread update_by_thread events_by_thread)
  from heap_durable_before_clear [OF demo_cp_wf_logs _ this, of DRAM_BASE demo_line demo_pm] show ?thesis
    by (simp add: Let_def demo_all_entries)
qed

subsection \<open>What is not durable\<close>

lemma hist_evict: "pm_hist (pstep (Evict l k) m) = pm_hist m"
  by simp

lemma log_events_no_flush:
  "Clwb t (Block_Size b) \<notin> set (log_events r m bl)" "Clwb t Epoch_Word \<notin> set (log_events r m bl)"
  "Clwb t (Nvm_Line p) \<notin> set (log_events r m bl)" "Evict l k \<notin> set (log_events r m bl)"
  by (auto simp: log_events_def append_events_def)

text \<open>The checkpoint up to the first line it replays.\<close>

definition torn_events :: "epoch_t \<Rightarrow> ptr \<times> cacheline_t \<Rightarrow> ('j, 'z) escort_scheme \<Rightarrow> pevent list" where
  "torn_events e entry s = logging_events s @ commit_events e @
     [Store 0 (Nvm_Line (add_addr (fst entry) (nvm_offset s))) (Line_Val (snd entry))]"

lemma torn_prefix:
  assumes "plog_contents (Plog_Management s) (cp_log s) = entry # es"
  shows "prefix (torn_events e entry s) (checkpoint_events e s)"
  by (simp add: torn_events_def checkpoint_events_def update_events_def assms replay_events_def)

lemma torn_trace: "trace_of L (torn_events e entry s) (torn_events e entry s @ map (\<lambda>l. Evict l 2) ls)"
proof -
  have "filter (by_thread 0) (torn_events e entry s) = torn_events e entry s"
    by (simp add: torn_events_def logging_by_thread events_by_thread)
  then show ?thesis by (auto simp: trace_of_def filter_id_conv filter_empty_conv)
qed

lemma torn_unflushed:
  assumes "l \<in> insert Epoch_Word (range Block_Size) \<union> range Nvm_Line" and "l \<notin> set ls"
  shows "unflushed l (torn_events e entry s @ map (\<lambda>l. Evict l 2) ls)"
  using assms by (auto simp: unflushed_def torn_events_def logging_events_def commit_events_def log_events_no_flush)

lemma torn_hist:
  "pm_hist (prun (torn_events e (a, v) s) (pm_start v0)) (Nvm_Line (add_addr a (nvm_offset s))) =
     [v0 (Nvm_Line (add_addr a (nvm_offset s))), Line_Val v]"
  "pm_hist (prun (torn_events e (a, v) s) (pm_start v0)) Epoch_Word = [v0 Epoch_Word, Epoch_Val e]"
proof -
  have "pm_hist (prun (logging_events s) (pm_start v0)) l = [v0 l]" if "l = Epoch_Word \<or> l \<in> range Nvm_Line" for l
  proof -
    have "\<forall>x \<in> set (logging_events s). \<not> stores_to l x"
      using that log_events_stores [of _ 0 "Plog_Management s" "cp_log s"] unfolding logging_events_def by blast
    from hist_unstored [OF this] show ?thesis by (simp add: pm_start_def)
  qed
  then show "pm_hist (prun (torn_events e (a, v) s) (pm_start v0)) (Nvm_Line (add_addr a (nvm_offset s))) =
     [v0 (Nvm_Line (add_addr a (nvm_offset s))), Line_Val v]"
    "pm_hist (prun (torn_events e (a, v) s) (pm_start v0)) Epoch_Word = [v0 Epoch_Word, Epoch_Val e]"
    by (simp_all add: torn_events_def prun_append commit_events_def) (simp_all add: prun_def)
qed

text \<open>C18: nothing writes the sizes of the blocks and the epoch word back before the NVM heap is overwritten: a crash can
  find the first line replayed and the others not, with every block as large as before the checkpoint, and with the
  epoch word of the commit or with the one before the checkpoint. The heap is then neither the old nor the new one, and
  what is durable does not tell this state from one in which nothing was logged.\<close>

theorem commit_not_durable:
  assumes "plog_contents (Plog_Management s) (cp_log s) = (a, v) # es"
  shows "\<exists>ys xs. prefix ys (checkpoint_events e s) \<and> trace_of UNIV ys xs \<and>
    durable (prun xs (pm_start v0)) Epoch_Word = (if commit then Epoch_Val e else v0 Epoch_Word) \<and>
    (\<forall>b. durable (prun xs (pm_start v0)) (Block_Size b) = v0 (Block_Size b)) \<and>
    (\<forall>p. durable (prun xs (pm_start v0)) (Nvm_Line p) =
       (if p = add_addr a (nvm_offset s) then Line_Val v else v0 (Nvm_Line p)))"
proof -
  let ?l = "Nvm_Line (add_addr a (nvm_offset s))" and ?ys = "torn_events e (a, v) s"
  let ?ls = "?l # (if commit then [Epoch_Word] else [])"
  let ?xs = "?ys @ map (\<lambda>l. Evict l 2) ?ls" and ?m = "prun ?ys (pm_start v0)"
  have ok: "pm_ok ?m" by (intro pm_ok_run pm_ok_start)
  have kept: "durable (prun ?xs (pm_start v0)) l = v0 l"
    if "l \<in> insert Epoch_Word (range Block_Size) \<union> range Nvm_Line" "l \<notin> set ?ls" for l
    using durable_unflushed [OF torn_unflushed [OF that]] .
  have run: "prun ?xs (pm_start v0) = (if commit then pstep (Evict Epoch_Word 2) else (\<lambda>m. m)) (pstep (Evict ?l 2) ?m)"
    by (simp add: prun_def)
  have line: "durable (prun ?xs (pm_start v0)) ?l = Line_Val v"
    using durable_evicted [OF ok, of ?l 2] torn_hist(1) [of e a v s v0]
    unfolding run by (cases commit) (simp_all add: durable_other_evict del: pstep.simps)
  have word: "durable (prun ?xs (pm_start v0)) Epoch_Word = Epoch_Val e" if commit
    using durable_evicted [OF pm_ok_step [OF ok], of "Evict ?l 2" Epoch_Word 2] torn_hist(2) [of e a v s v0] that
    unfolding run by (simp add: hist_evict del: pstep.simps)
  show ?thesis
    by (intro exI [of _ ?ys] exI [of _ ?xs] conjI torn_prefix [OF assms] torn_trace)
       (use kept line word in auto)
qed

theorem commit_not_durable_witness:
  "\<exists>ys xs. prefix ys (checkpoint_events 3 (demo_logged demo_logging_epoch [])) \<and> trace_of UNIV ys xs \<and>
     durable (prun xs (pm_start demo_pm)) Epoch_Word = demo_pm Epoch_Word \<and>
     durable (prun xs (pm_start demo_pm)) (Nvm_Line (add_addr DRAM_BASE (nvm_offset (demo_logged demo_logging_epoch [])))) = Line_Val demo_line"
  using commit_not_durable [OF demo_log, of 3 demo_logging_epoch "[]" demo_pm False]
  by - (elim exE conjE, intro exI conjI, assumption, assumption, simp_all)

text \<open>A user thread that has copied a line to its log has fenced nothing: the copy need not be durable at the commit.\<close>

lemma copy_not_durable:
  assumes "t \<noteq> 0" and "b \<notin> set (cp_log s)"
  shows "durable (prun (append_events t b k (a, v) @ logging_events s @ commit_events e) (pm_start v0)) (Entry_Val b k) = v0 (Entry_Val b k)"
proof (rule durable_unflushed)
  have "Clwb r (Entry_Val b k) \<notin> set (logging_events s)" for r
    using assms(2) by (auto simp: logging_events_def log_events_def append_events_def)
  moreover have "Fence t \<notin> set (logging_events s)" by (auto simp: logging_events_def log_events_def append_events_def)
  ultimately show "unflushed (Entry_Val b k) (append_events t b k (a, v) @ logging_events s @ commit_events e)"
    using assms(1) by (auto simp: unflushed_def append_events_def commit_events_def logging_events_def log_events_no_flush)
qed

end
