(* ===== verification/MapPersist.thy ===== *)
theory MapPersist
  imports PersistOrder AllocCheckpoint
begin

section \<open>When the map of objects becomes durable\<close>

text \<open>
  \<^verbatim>\<open>cpallocator_t::checkpointing\<close> (\<^verbatim>\<open>src/src/cpallocator_t.cpp\<close>) as the sequence of the stores, write-backs and fences
  of the helper thread that executes it, in the memory of PersistOrder; thread 0 is this helper thread. The map of objects is an
  array of bytes at an address \<open>base\<close>, and a write-back concerns the cache line of a byte. \<^verbatim>\<open>set_obj_size\<close> stores one byte per 64
  lines of the object, \<^verbatim>\<open>clwb(index)\<close> writes back the line of the first of them.

  Shown: the first line of the bytes of an object is durable before the log that has its record is emptied; the bytes on other
  lines need not ever be.
\<close>

subsection \<open>The events of the pass\<close>

fun set_obj_events :: "nat \<Rightarrow> nat \<Rightarrow> nat \<Rightarrow> pevent list" where
  "set_obj_events t index obj_bytes_sum =
     (if obj_bytes_sum > 0 then
        if obj_bytes_sum \<ge> 64 then
          Store t (Map_Byte index) (Byte_Val 64) # set_obj_events t (index + 1) (obj_bytes_sum - 64)
        else
          Store t (Map_Byte index) (Byte_Val (word_of_nat obj_bytes_sum)) # set_obj_events t (index + 1) 0
      else [])"

declare set_obj_events.simps [simp del]

definition map_line :: "nat \<Rightarrow> nat \<Rightarrow> nat" where
  "map_line base i = (base + i) div CACHE_LINE_SIZE"

text \<open>\<^verbatim>\<open>_mm_clwb(&_bytemap[index])\<close>: all bytes of the map on this line.\<close>

definition bytemap_clwb_events :: "nat \<Rightarrow> nat \<Rightarrow> nat \<Rightarrow> pevent list" where
  "bytemap_clwb_events t base index =
     map (\<lambda>i. Clwb t (Map_Byte i)) (filter (\<lambda>i. map_line base i = map_line base index) [index - 63..<index + 64])"

definition record_index :: "ptr \<times> size_t \<Rightarrow> nat" where
  "record_index r = (case bytemap_get_index (fst r) of Inl _ \<Rightarrow> 0 | Inr i \<Rightarrow> i)"

definition record_events :: "nat \<Rightarrow> ptr \<times> size_t \<Rightarrow> pevent list" where
  "record_events base r =
     set_obj_events 0 (record_index r) (unat (snd r) div CACHE_LINE_SIZE) @ bytemap_clwb_events 0 base (record_index r)"

definition alog_clear_events :: "allocatorlog_t \<Rightarrow> pevent list" where
  "alog_clear_events bl = concat (map (\<lambda>b. [Store 0 (Alog_Size b) (Num_Val 0), Clwb 0 (Alog_Size b)]) (rev bl)) @ [Fence 0]"

definition ctx_records :: "('j, 'z) escort_scheme \<Rightarrow> userthreadctx_t \<Rightarrow> (ptr \<times> size_t) list" where
  "ctx_records s ctx = alog_contents (Allocatorlog_Management s) (uc_allocatorlog ctx (prev_parity s))"

definition ctx_events :: "nat \<Rightarrow> ('j, 'z) escort_scheme \<Rightarrow> userthreadctx_t \<Rightarrow> pevent list" where
  "ctx_events base s ctx = concat (map (record_events base) (ctx_records s ctx)) @ [Fence 0] @
     alog_clear_events (uc_allocatorlog ctx (prev_parity s))"

text \<open>
  A block of the allocator log shares its last cache line with the next one. A write-back by which the helper thread brings such a
  neighbour along is, for the neighbour, an eviction; it is not an event of its own here.
\<close>

definition pass_events :: "nat \<Rightarrow> ('j, 'z) escort_scheme \<Rightarrow> pevent list" where
  "pass_events base s = concat (map (ctx_events base s) (ctx_array s)) @ [Fence 0]"

subsection \<open>The bytes of one record\<close>

definition obj_bytes :: "ptr \<times> size_t \<Rightarrow> nat set" where
  "obj_bytes r = {record_index r..<record_index r + lines_of (snd r)}"

text \<open>What the loop stores: one byte per 64 lines, each once.\<close>

lemma set_obj_events_eq:
  "set_obj_events t k n = map (\<lambda>j. Store t (Map_Byte (k + j)) (Byte_Val (word_of_nat (min 64 (n - 64 * j))))) [0..<(n + 63) div 64]"
proof (induction n arbitrary: k rule: less_induct)
  case (less n)
  consider "n = 0" | "0 < n" "n < 64" | "64 \<le> n" by arith
  then show ?case
  proof cases
    case 2
    then have "(n + 63) div 64 = 1" by simp
    with 2 show ?thesis by (simp add: set_obj_events.simps [of t k n] set_obj_events.simps [of t "Suc k" 0])
  next
    case 3
    have groups: "(n + 63) div 64 = Suc ((n - 64 + 63) div 64)"
      using 3 div_add_self2 [of 64 "n - 64 + 63"] by simp
    show ?thesis
      using 3 less.IH [of "n - 64" "k + 1"]
      by (simp add: set_obj_events.simps [of t k n] groups upt_conv_Cons map_Suc_upt [symmetric] del: upt_Suc)
  qed (simp add: set_obj_events.simps)
qed

lemma record_events_stores:
  "x \<in> set (record_events base r) \<Longrightarrow> stores_to l x \<Longrightarrow> l \<in> Map_Byte ` obj_bytes r"
  by (auto simp: record_events_def set_obj_events_eq bytemap_clwb_events_def obj_bytes_def lines_of_def)

lemma stat_unstored_events:
  "\<forall>x \<in> set xs. \<not> stores_to l x \<and> (\<forall>t. x \<noteq> Fence t) \<and> (\<forall>t. x \<noteq> Clwb t l) \<Longrightarrow> stat l xs st = st"
proof (induction xs arbitrary: st)
  case (Cons x xs)
  then have "stat_step l x st = st" by (cases x; cases st) auto
  with Cons show ?case by (simp add: stat_def)
qed (simp add: stat_def)

text \<open>The bytes that one record gives to the map, and the status that its events give to a byte.\<close>

definition record_byte :: "ptr \<times> size_t \<Rightarrow> nat \<Rightarrow> 8 word" where
  "record_byte r i = word_of_nat (min 64 (unat (snd r) div CACHE_LINE_SIZE - 64 * (i - record_index r)))"

lemma record_size_bytes:
  assumes "record_size r bm = Inr bm'" and "by_size bm = heap_lines"
  shows "by_bytes bm' i = (if i \<in> obj_bytes r then record_byte r i else by_bytes bm i)" and "by_size bm' = heap_lines"
proof -
  define k n where "k = record_index r" and "n = unat (snd r) div CACHE_LINE_SIZE"
  have l: "set_obj_loop k n bm = Inr bm'" and "k + (n + 63) div 64 \<le> heap_lines"
    using assms(1)
    by (auto simp: record_size_def set_obj_size_def Let_def res_simps k_def n_def record_index_def heap_lines_def
        LOG_CACHE_LINE_SIZE_def add.commute [of 63] split: if_splits)
  then have "k + (n + 63) div 64 \<le> by_size bm" using assms(2) by simp
  from set_obj_loop_ok [OF this] l
  show "by_bytes bm' i = (if i \<in> obj_bytes r then record_byte r i else by_bytes bm i)" "by_size bm' = heap_lines"
    using assms(2) by (auto simp: obj_bytes_def record_byte_def lines_of_def k_def n_def)
qed

lemma records_size:
  assumes "rfold record_size rs bm = Inr bm'" and "by_size bm = heap_lines"
  shows "by_size bm' = heap_lines"
  using assms by (induction rs arbitrary: bm) (auto simp: res_simps dest: record_size_bytes(2))

lemma records_bytes_kept:
  assumes "rfold record_size rs bm = Inr bm'" and "by_size bm = heap_lines" and "\<And>r. r \<in> set rs \<Longrightarrow> i \<notin> obj_bytes r"
  shows "by_bytes bm' i = by_bytes bm i"
  using assms
proof (induction rs arbitrary: bm)
  case (Cons r rs)
  then obtain bm1 where bm1: "record_size r bm = Inr bm1" "rfold record_size rs bm1 = Inr bm'" by (auto simp: res_simps)
  note b = record_size_bytes [OF bm1(1) Cons.prems(2)]
  from Cons.IH [OF bm1(2) b(2)] Cons.prems(3) b(1) [of i] show ?case by auto
qed simp

lemma set_obj_events_stat:
  assumes "i \<in> {k..<k + (n + 63) div 64}"
  shows "stat (Map_Byte i) (set_obj_events 0 k n) st = Dirty (Byte_Val (word_of_nat (min 64 (n - 64 * (i - k)))))"
proof -
  define f where "f j = Store 0 (Map_Byte (k + j)) (Byte_Val (word_of_nat (min 64 (n - 64 * j))))" for j
  have j: "i - k < (n + 63) div 64" "k + (i - k) = i" using assms by auto
  have "set_obj_events 0 k n = (map f [0..<i - k] @ [f (i - k)]) @ map f [Suc (i - k)..<(n + 63) div 64]"
    unfolding set_obj_events_eq f_def [symmetric] upto_split [OF j(1)] by simp
  moreover have "stat (Map_Byte i) (map f [Suc (i - k)..<(n + 63) div 64]) st' = st'" for st'
    by (rule stat_unstored_events) (auto simp: f_def)
  ultimately show ?thesis
    using j(2) by (simp add: stat_append) (simp add: stat_def f_def)
qed

lemma clwb_events_stat:
  assumes "map_line base i = map_line base k"
  shows "stat (Map_Byte i) (bytemap_clwb_events 0 base k) (Dirty v) = Pending v"
proof -
  have near: "k < i + 64" "i < k + 64"
    using assms by (auto simp: map_line_def)
  then have "i \<in> set (filter (\<lambda>i. map_line base i = map_line base k) [k - 63..<k + 64])" using assms by auto
  then obtain xs ys where s: "filter (\<lambda>i. map_line base i = map_line base k) [k - 63..<k + 64] = xs @ i # ys"
    by (meson split_list)
  have keep: "stat (Map_Byte i) (map (\<lambda>i. Clwb 0 (Map_Byte i)) zs) st = st" if "st \<in> {Pending v} \<or> i \<notin> set zs" for zs st
    using that by (induction zs) (auto simp: stat_def split: pstat.splits)
  have "i \<notin> set xs" using arg_cong [OF s, of distinct] by simp
  then show ?thesis
    unfolding bytemap_clwb_events_def s map_append stat_append
    by (simp add: keep) (simp add: stat_def keep [unfolded stat_def])
qed

text \<open>A record whose first byte is on the line of byte \<open>i\<close> leaves it pending; a record that does not cover it changes nothing.\<close>

definition flushed_by :: "nat \<Rightarrow> nat \<Rightarrow> ptr \<times> size_t \<Rightarrow> bool" where
  "flushed_by base i r \<longleftrightarrow> map_line base i = map_line base (record_index r)"

lemma record_events_stat:
  assumes "i \<in> obj_bytes r" and "flushed_by base i r"
  shows "stat (Map_Byte i) (record_events base r) st = Pending (Byte_Val (record_byte r i))"
  using assms
  by (simp add: record_events_def stat_append set_obj_events_stat clwb_events_stat flushed_by_def obj_bytes_def lines_of_def record_byte_def)

lemma records_stat:
  assumes "rfold record_size rs bm = Inr bm'" and "by_size bm = heap_lines"
    and "\<And>r. r \<in> set rs \<Longrightarrow> i \<in> obj_bytes r \<Longrightarrow> flushed_by base i r" and "\<exists>r \<in> set rs. i \<in> obj_bytes r"
  shows "stat (Map_Byte i) (concat (map (record_events base) rs)) st \<in> {Pending (Byte_Val (by_bytes bm' i)), Durable (Byte_Val (by_bytes bm' i))}"
  using assms
proof (induction rs arbitrary: bm' rule: rev_induct)
  case (snoc r rs)
  obtain bm1 where bm1: "rfold record_size rs bm = Inr bm1" "record_size r bm1 = Inr bm'"
    using snoc.prems(1) by (auto simp: rfold_append res_simps)
  have "by_size bm1 = heap_lines" by (rule records_size [OF bm1(1) assms(2)])
  note b = record_size_bytes(1) [OF bm1(2) this, of i]
  show ?case
  proof (cases "i \<in> obj_bytes r")
    case True
    with snoc.prems(3) [of r] b show ?thesis by (simp add: stat_append record_events_stat)
  next
    case False
    then have "\<exists>r \<in> set rs. i \<in> obj_bytes r" using snoc.prems(4) by auto
    from snoc.IH [OF bm1(1) snoc.prems(2) _ this] snoc.prems(3)
    have "stat (Map_Byte i) (concat (map (record_events base) rs)) st \<in> {Pending (Byte_Val (by_bytes bm' i)), Durable (Byte_Val (by_bytes bm' i))}"
      using b False by auto
    moreover have "\<forall>x \<in> set (record_events base r). \<not> stores_to (Map_Byte i) x"
      using record_events_stores [of _ base r "Map_Byte i"] False by blast
    ultimately show ?thesis using stat_kept by (simp add: stat_append)
  qed
qed simp

subsection \<open>The order in which the map and the logs become durable\<close>

lemma alog_clear_events_stores:
  "x \<in> set (alog_clear_events bl) \<Longrightarrow> stores_to l x \<Longrightarrow> l \<in> Alog_Size ` set bl"
  by (auto simp: alog_clear_events_def)

lemma ctx_events_stores:
  assumes "x \<in> set (ctx_events base s ctx)" and "stores_to l x"
  shows "l \<in> Map_Byte ` (\<Union>r \<in> set (ctx_records s ctx). obj_bytes r) \<union> Alog_Size ` set (uc_allocatorlog ctx (prev_parity s))"
  using assms by (auto simp: ctx_events_def dest!: alog_clear_events_stores record_events_stores)

text \<open>A sequence that has stored to a location has got past the part that does not.\<close>

lemma prefix_past:
  assumes "prefix ys (A @ B)" and "y \<in> set ys" and "stores_to l y" and "\<forall>x \<in> set A. \<not> stores_to l x"
  obtains zs where "ys = A @ zs" and "prefix zs B"
proof -
  have "\<not> prefix ys A" using assms(2-4) set_mono_prefix by blast
  with assms(1) that show ?thesis using prefix_append [of ys A B] by auto
qed

lemma in_set_after:
  assumes "x \<in> set (drop (Suc t) xs)"
  obtains u where "t < u" and "u < length xs" and "x = xs ! u"
proof -
  obtain j where "j < length xs - Suc t" "x = xs ! (Suc t + j)" using assms by (auto simp: in_set_conv_nth)
  then show ?thesis using that [of "Suc t + j"] by simp
qed

lemma stat_fence: "stat l xs st \<in> {Pending v, Durable v} \<Longrightarrow> stat l (xs @ [Fence 0]) st = Durable v"
  by (auto simp: stat_def)

lemma pass_split:
  "t < length (ctx_array s) \<Longrightarrow> pass_events base s =
     concat (map (ctx_events base s) (take t (ctx_array s))) @
     concat (map (record_events base) (ctx_records s (ctx_array s ! t))) @ [Fence 0] @
     alog_clear_events (uc_allocatorlog (ctx_array s ! t) (prev_parity s)) @
     concat (map (ctx_events base s) (drop (Suc t) (ctx_array s))) @ [Fence 0]"
  unfolding pass_events_def by (subst id_take_nth_drop, assumption) (simp add: ctx_events_def)

lemma ctx_prefix:
  assumes "alloc_ok s" and "t < length (ctx_array s)" and "b \<in> set (uc_allocatorlog (ctx_array s ! t) (prev_parity s))"
    and "prefix ys (pass_events base s)" and "y \<in> set ys" and "stores_to (Alog_Size b) y"
  obtains zs where "ys = concat (map (ctx_events base s) (take t (ctx_array s))) @
      concat (map (record_events base) (ctx_records s (ctx_array s ! t))) @ [Fence 0] @ zs"
    and "prefix zs (alog_clear_events (uc_allocatorlog (ctx_array s ! t) (prev_parity s)) @
      concat (map (ctx_events base s) (drop (Suc t) (ctx_array s))) @ [Fence 0])"
proof -
  let ?c = "ctx_array s ! t"
  let ?A = "concat (map (ctx_events base s) (take t (ctx_array s))) @
      concat (map (record_events base) (ctx_records s ?c)) @ [Fence 0]"
  let ?B = "alog_clear_events (uc_allocatorlog ?c (prev_parity s)) @
      concat (map (ctx_events base s) (drop (Suc t) (ctx_array s))) @ [Fence 0]"
  have "prefix ys (?A @ ?B)" using assms(4) by (simp add: pass_split [OF assms(2)])
  moreover have "\<not> stores_to (Alog_Size b) x" if x: "x \<in> set ?A" for x
  proof
    assume st: "stores_to (Alog_Size b) x"
    have "x \<in> set (concat (map (ctx_events base s) (take t (ctx_array s))))"
      using x st record_events_stores [of x base _ "Alog_Size b"] by auto
    then obtain c where c: "c \<in> set (take t (ctx_array s))" "x \<in> set (ctx_events base s c)" by auto
    then obtain u where u: "u < t" "c = ctx_array s ! u" using assms(2) by (auto simp: in_set_conv_nth)
    have "b \<in> set (uc_allocatorlog c (prev_parity s))" using ctx_events_stores [OF c(2) st] by auto
    then show False using alogs_disjoint [OF assms(1) u(1) assms(2)] assms(3) u(2) by blast
  qed
  ultimately obtain zs where "ys = ?A @ zs" "prefix zs ?B" using prefix_past [OF _ assms(5,6)] by blast
  then show ?thesis using that by simp
qed

lemma prev_records_ctxs: "prev_records s = concat (map (ctx_records s) (ctx_array s))"
  by (simp add: prev_records_def prev_blocks_def alog_contents_def contents_def ctx_records_def [abs_def]
      concat_map_concat [symmetric] comp_def)

text \<open>
  Past the records of context \<open>t\<close> and the fence after them, a byte that one of these records covers is durable, if they are
  all flushed by the write-back of their first byte and no later context stores to it.
\<close>

lemma pass_stat:
  assumes ok: "alloc_ok s" and cp: "cpallocator_checkpointing s = Inr s'" and t: "t < length (ctx_array s)"
    and zs: "prefix zs (alog_clear_events (uc_allocatorlog (ctx_array s ! t) (prev_parity s)) @
      concat (map (ctx_events base s) (drop (Suc t) (ctx_array s))) @ [Fence 0])"
    and r: "r \<in> set (ctx_records s (ctx_array s ! t))" "i \<in> obj_bytes r"
    and here: "\<And>r. r \<in> set (ctx_records s (ctx_array s ! t)) \<Longrightarrow> i \<in> obj_bytes r \<Longrightarrow> flushed_by base i r"
    and later: "\<And>u r. t < u \<Longrightarrow> u < length (ctx_array s) \<Longrightarrow> r \<in> set (ctx_records s (ctx_array s ! u)) \<Longrightarrow> i \<notin> obj_bytes r"
  shows "stat (Map_Byte i) (concat (map (ctx_events base s) (take t (ctx_array s))) @
      concat (map (record_events base) (ctx_records s (ctx_array s ! t))) @ [Fence 0] @ zs) st =
    Durable (Byte_Val (by_bytes (ByteMap_NVM s') i))"
proof -
  let ?c = "ctx_array s ! t" and ?rest = "drop (Suc t) (ctx_array s)"
  define rs1 rs2 where "rs1 = concat (map (ctx_records s) (take t (ctx_array s)))" and "rs2 = concat (map (ctx_records s) ?rest)"
  have split: "prev_records s = rs1 @ ctx_records s ?c @ rs2"
    using prev_records_ctxs [of s] by (subst (asm) id_take_nth_drop [OF t]) (simp add: rs1_def rs2_def)
  have "rfold record_size (prev_records s) (ByteMap_NVM s) = Inr (ByteMap_NVM s')"
    using cpallocator_checkpointing_effect [OF ok] cp by (metis sum.inject(2))
  then obtain bm1 bm2 where bm: "rfold record_size rs1 (ByteMap_NVM s) = Inr bm1"
    "rfold record_size (ctx_records s ?c) bm1 = Inr bm2" "rfold record_size rs2 bm2 = Inr (ByteMap_NVM s')"
    unfolding split by (auto simp: rfold_append res_simps)
  note sz = records_size [OF bm(1) alloc_okD(2) [OF ok]]
  have no: "i \<notin> obj_bytes q" if "q \<in> set rs2" for q
  proof -
    obtain c where "c \<in> set ?rest" "q \<in> set (ctx_records s c)" using \<open>q \<in> set rs2\<close> by (auto simp: rs2_def)
    then show ?thesis by (metis in_set_after later)
  qed
  have v: "by_bytes (ByteMap_NVM s') i = by_bytes bm2 i"
    by (rule records_bytes_kept [OF bm(3) records_size [OF bm(2) sz] no])
  let ?v = "Byte_Val (by_bytes bm2 i)"
  have kept: "\<forall>x \<in> set zs. \<not> stores_to (Map_Byte i) x"
  proof (intro ballI notI)
    fix x assume "x \<in> set zs" and st: "stores_to (Map_Byte i) x"
    then obtain c where c: "c \<in> set ?rest" "x \<in> set (ctx_events base s c)"
      using \<open>x \<in> set zs\<close> set_mono_prefix [OF zs] by (auto dest: alog_clear_events_stores)
    then obtain q where "q \<in> set (ctx_records s c)" "i \<in> obj_bytes q" using ctx_events_stores [OF c(2) st] by blast
    with c(1) no show False unfolding rs2_def by fastforce
  qed
  have "stat (Map_Byte i) (concat (map (record_events base) (ctx_records s ?c))) st \<in> {Pending ?v, Durable ?v}" for st
    by (rule records_stat [OF bm(2) sz here]) (use r in auto)
  then have "stat (Map_Byte i) (concat (map (record_events base) (ctx_records s ?c)) @ [Fence 0]) st = Durable ?v" for st
    by (rule stat_fence)
  then show ?thesis
    using stat_durable_kept [OF kept, of ?v] v by (simp only: stat_append append_assoc [symmetric])
qed

subsection \<open>What is not written back\<close>

lemma bytemap_clwb_line: "Clwb t (Map_Byte i) \<in> set (bytemap_clwb_events u base k) \<Longrightarrow> map_line base i = map_line base k"
  by (auto simp: bytemap_clwb_events_def)

lemma pass_clwb:
  assumes "Clwb t (Map_Byte i) \<in> set (pass_events base s)"
  shows "\<exists>ctx \<in> set (ctx_array s). \<exists>r \<in> set (ctx_records s ctx). flushed_by base i r"
  using assms
  by (auto simp: pass_events_def ctx_events_def record_events_def set_obj_events_eq alog_clear_events_def flushed_by_def
      split: if_splits dest: bytemap_clwb_line)

lemma pass_no_evict: "Evict l k \<notin> set (pass_events base s)"
  by (auto simp: pass_events_def ctx_events_def record_events_def set_obj_events_eq alog_clear_events_def bytemap_clwb_events_def)

lemma pass_by_thread: "filter (by_thread 0) (pass_events base s) = pass_events base s"
  by (auto simp: filter_id_conv pass_events_def ctx_events_def record_events_def set_obj_events_eq alog_clear_events_def
      bytemap_clwb_events_def)

lemma pass_unflushed:
  assumes "\<And>ctx r. ctx \<in> set (ctx_array s) \<Longrightarrow> r \<in> set (ctx_records s ctx) \<Longrightarrow> \<not> flushed_by base i r"
  shows "unflushed (Map_Byte i) (pass_events base s)"
  using assms pass_clwb [of _ i base s] pass_no_evict [of _ _ base s] by (auto simp: unflushed_def)

lemma alog_clear_stat:
  assumes "b \<in> set bl" and "distinct bl" and "\<forall>x \<in> set zs. \<not> stores_to (Alog_Size b) x"
  shows "stat (Alog_Size b) (ys @ alog_clear_events bl @ zs) st = Durable (Num_Val 0)"
proof -
  let ?f = "\<lambda>bl. concat (map (\<lambda>b. [Store 0 (Alog_Size b) (Num_Val 0), Clwb 0 (Alog_Size b)]) bl)"
  obtain us vs where r: "rev bl = us @ b # vs" using assms(1) split_list [of b "rev bl"] by auto
  have "distinct (us @ b # vs)" using assms(2) unfolding r [symmetric] by simp
  then have "b \<notin> set vs" by simp
  then have "\<forall>x \<in> set (?f vs @ zs). \<not> stores_to (Alog_Size b) x" using assms(3) by auto
  from stat_persisted [OF this, of "ys @ ?f us"] show ?thesis unfolding alog_clear_events_def r by simp
qed

lemma pass_logs_empty:
  assumes ok: "alloc_ok s" and t: "t < length (ctx_array s)" and b: "b \<in> set (uc_allocatorlog (ctx_array s ! t) (prev_parity s))"
    and xs: "trace_of L (pass_events base s) xs" and L: "Alog_Size b \<in> L"
  shows "durable (prun xs (pm_start v0)) (Alog_Size b) = Num_Val 0"
proof -
  let ?c = "ctx_array s ! t"
  have d: "distinct (uc_allocatorlog ?c (prev_parity s))"
    using alogs_log_ok [OF ok t, of "prev_parity s"] by (simp add: log_ok_def)
  have "\<not> stores_to (Alog_Size b) x" if x: "x \<in> set (concat (map (ctx_events base s) (drop (Suc t) (ctx_array s))) @ [Fence 0])" for x
  proof
    assume st: "stores_to (Alog_Size b) x"
    then obtain c where c: "c \<in> set (drop (Suc t) (ctx_array s))" "x \<in> set (ctx_events base s c)" using x by auto
    then obtain u where u: "t < u" "u < length (ctx_array s)" "c = ctx_array s ! u" by (metis in_set_after)
    have "b \<in> set (uc_allocatorlog c (prev_parity s))" using ctx_events_stores [OF c(2) st] by auto
    then show False using alogs_disjoint [OF ok u(1,2)] b u(3) by blast
  qed
  then have z: "\<forall>x \<in> set (concat (map (ctx_events base s) (drop (Suc t) (ctx_array s))) @ [Fence 0]). \<not> stores_to (Alog_Size b) x"
    by blast
  have "stat (Alog_Size b) (pass_events base s) Unknown = Durable (Num_Val 0)"
    using alog_clear_stat [OF b d z, of "concat (map (ctx_events base s) (take t (ctx_array s))) @
      concat (map (record_events base) (ctx_records s ?c)) @ [Fence 0]" Unknown]
    by (simp add: pass_split [OF t])
  from durable_stat [OF xs L this] show ?thesis .
qed

end
