(* ===== verification/MapClaims.thy ===== *)
theory MapClaims
  imports MapPersist AllocClaims NvmConfig PersistClaims
begin

section \<open>When the map of objects becomes durable: the properties\<close>

text \<open>
  What a crash during or after the pass of \<^verbatim>\<open>cpallocator_t::checkpointing\<close> finds in the map of objects on NVM, with
  instances on a closed epoch with one record, of an object of 256 KiB at the start of the heap.
\<close>

subsection \<open>Where the map lies\<close>

text \<open>
  The array of the map follows the object \<^verbatim>\<open>bytemap_nvm_t\<close> of 8 bytes, which follows the heap and the two counters: it
  begins 24 bytes into a cache line, so 40 bytes of the map precede the next line, the bytes of 160 KiB from a page on.
\<close>

lemma bytemap_array_address:
  assumes "nvmconfig_new mem start sz file HEAP_SIZE = Inr c" and "mapped start sz"
    and "nvmconfig_malloc 8 c = Inr (p, c1)" and "nvmconfig_malloc n c1 = Inr (q, c2)"
  shows "unat q mod 64 = 24"
proof -
  have q: "q = start + word_of_nat (unat HEAP_SIZE + 88)"
    using assms(1,3,4) by (auto simp: nvmconfig_new_eq [OF assms(2)] nvmconfig_malloc_def Let_def res_simps)
  note m = mapped_bounds [OF assms(2)]
  have "unat q = unat start + (unat HEAP_SIZE + 88)"
    using m(2) unfolding q by (simp add: unat_word_ariths unsigned_of_nat take_bit_nat_eq_self HEAP_SIZE_eq)
  then show ?thesis using m(1) by (auto simp: HEAP_SIZE_eq elim!: dvdE)
qed

lemma page_line:
  assumes "base mod 64 = 24" and "64 dvd k" and "k \<le> i"
  shows "map_line base i = map_line base k \<longleftrightarrow> i < k + 40"
proof -
  obtain q p where qp: "base = 64 * q + 24" "k = 64 * p"
    using assms(1,2) by (metis dvdE mult.commute div_mult_mod_eq)
  obtain d where d: "i = k + d" using assms(3) le_Suc_ex by blast
  have "base + i = 24 + d + (q + p) * 64" and "base + k = 24 + (q + p) * 64" by (simp_all add: qp d)
  moreover have "(24 + d + (q + p) * 64) div 64 = q + p + (24 + d) div 64" by (rule div_mult_self1) simp
  ultimately have "map_line base i = q + p + (24 + d) div 64" and "map_line base k = q + p" by (simp_all add: map_line_def)
  then show ?thesis by (auto simp: d)
qed

subsection \<open>A closed epoch with one record\<close>

definition demo_large :: "ptr \<times> size_t" where "demo_large = (DRAM_BASE, 0x40000)"

definition demo_closed :: "unit escort" where
  "demo_closed = demo_begun\<lparr>GLOBAL_EPOCH := 3,
     ctx_array := [(ctx_array demo_begun ! 0)\<lparr>uc_allocatorlog := (\<lambda>b. if b then [] else [0])\<rparr>],
     Allocatorlog_Management := \<lparr>am_free = [], am_used = [0], am_area = (\<lambda>_. demo_alog_block
       \<lparr>ab_entries := (\<lambda>_. \<lparr>ae_addr = fst demo_large, ae_size = snd demo_large, ae_is_valid = True\<rparr>), ab_size := 1\<rparr>)\<rparr>\<rparr>"

lemma demo_closed_sel:
  "length (ctx_array demo_closed) = 1" "prev_parity demo_closed = False"
  "uc_allocatorlog (ctx_array demo_closed ! 0) False = [0]" "prev_records demo_closed = [demo_large]"
  "ctx_records demo_closed (ctx_array demo_closed ! 0) = [demo_large]"
proof -
  show p: "prev_parity demo_closed = False"
    by (simp add: demo_closed_def prev_parity_def Epoch_def epoch_mask_def epoch_bit_def)
  show "prev_records demo_closed = [demo_large]" "ctx_records demo_closed (ctx_array demo_closed ! 0) = [demo_large]"
    unfolding prev_records_ctxs ctx_records_def p
    by (simp_all add: demo_closed_def alog_contents_def contents_def alog_entries_def)
qed (simp_all add: demo_closed_def)

lemma demo_large_index: "record_index demo_large = 0" "obj_bytes demo_large = {0..<64}"
  using demo_index by (simp_all add: record_index_def demo_large_def obj_bytes_def lines_of_def)

lemma demo_closed_ok: "alloc_ok demo_closed"
proof (rule alloc_okI)
  have "fits (fst demo_large) (snd demo_large)"
    using demo_index by (simp add: fits_def demo_large_def heap_lines_eq lines_of_def)
  then show "fits a sz" if "(a, sz) \<in> set (alog_entries (am_area (Allocatorlog_Management demo_closed) b))" for a sz b
    using that by (simp add: demo_closed_def alog_entries_def) (metis fst_conv snd_conv)
qed (simp_all add: demo_closed_def demo_defs alogs_def alog_pool_ok_def pool_ok_def demo_alog_block_def alog_entries_def ALLOCATOR_LOG_BLOCK_NUM_def)

lemma demo_pass:
  obtains s' where "cpallocator_checkpointing demo_closed = Inr s'" and "by_bytes (ByteMap_NVM s') 39 = 64"
proof -
  obtain s' where s': "cpallocator_checkpointing demo_closed = Inr s'"
    "rfold record_size (prev_records demo_closed) (ByteMap_NVM demo_closed) = Inr (ByteMap_NVM s')"
    using cpallocator_checkpointing_effect [OF demo_closed_ok] by metis
  have "record_size demo_large (ByteMap_NVM demo_closed) = Inr (ByteMap_NVM s')"
    using s'(2) by (simp add: demo_closed_sel res_simps)
  from record_size_bytes(1) [OF this alloc_okD(2) [OF demo_closed_ok], of 39]
  have "by_bytes (ByteMap_NVM s') 39 = record_byte demo_large 39" by (simp add: demo_large_index)
  also have "\<dots> = 64" unfolding record_byte_def demo_large_index by (simp add: demo_large_def)
  finally show ?thesis using that s'(1) by blast
qed

definition demo_sizes :: "loc \<Rightarrow> pval" where
  "demo_sizes l = (case l of Alog_Size _ \<Rightarrow> Num_Val 1 | _ \<Rightarrow> Byte_Val 0)"

subsection \<open>What is durable\<close>

text \<open>C16: if a crash finds a block of the allocator log of a context emptied, at whatever point of the pass, with whatever
  evictions, and whatever other threads have stored, write-backs and fences included, provided that they leave the map alone and store no
  size 0 to a block of the allocator log (threads that append store positive sizes), then it finds in the map each byte of a
  record of the context as the pass leaves it, provided that in every record of the context that covers it the byte is on the line of
  the first one, and that no later context records it too.\<close>

theorem sizes_durable_before_clear:
  assumes "alloc_ok s" and "cpallocator_checkpointing s = Inr s'"
    and "prefix ys (pass_events base s)" and "trace_of (range Map_Byte) ys xs"
    and "\<And>u c. Store u (Alog_Size c) (Num_Val 0) \<in> set xs \<Longrightarrow> u = 0"
    and "t < length (ctx_array s)" and "b \<in> set (uc_allocatorlog (ctx_array s ! t) (prev_parity s))"
    and "v0 (Alog_Size b) \<noteq> Num_Val 0" and "durable (prun xs (pm_start v0)) (Alog_Size b) = Num_Val 0"
    and "r \<in> set (ctx_records s (ctx_array s ! t))" and "i \<in> obj_bytes r"
    and "\<forall>r \<in> set (ctx_records s (ctx_array s ! t)). i \<in> obj_bytes r \<longrightarrow> flushed_by base i r"
    and "\<forall>u \<in> {t<..<length (ctx_array s)}. \<forall>r \<in> set (ctx_records s (ctx_array s ! u)). i \<notin> obj_bytes r"
  shows "durable (prun xs (pm_start v0)) (Map_Byte i) = Byte_Val (by_bytes (ByteMap_NVM s') i)"
proof -
  obtain u where "Store u (Alog_Size b) (Num_Val 0) \<in> set xs"
    using durable_stored [of xs v0 "Alog_Size b"] assms(8,9) by auto
  then have "Store 0 (Alog_Size b) (Num_Val 0) \<in> set (filter (by_thread 0) xs)" using assms(5) by fastforce
  then have y: "Store 0 (Alog_Size b) (Num_Val 0) \<in> set ys" using assms(4) by (simp only: trace_of_def)
  obtain zs where ys: "ys = concat (map (ctx_events base s) (take t (ctx_array s))) @
      concat (map (record_events base) (ctx_records s (ctx_array s ! t))) @ [Fence 0] @ zs"
    and zs: "prefix zs (alog_clear_events (uc_allocatorlog (ctx_array s ! t) (prev_parity s)) @
      concat (map (ctx_events base s) (drop (Suc t) (ctx_array s))) @ [Fence 0])"
    using ctx_prefix [OF assms(1,6,7,3) y] by auto
  have "stat (Map_Byte i) ys Unknown = Durable (Byte_Val (by_bytes (ByteMap_NVM s') i))"
    unfolding ys by (rule pass_stat [OF assms(1,2,6) zs assms(10,11)]) (use assms(12,13) in auto)
  from durable_stat [OF assms(4) _ this] show ?thesis by simp
qed

text \<open>The instance: at the end of the pass, while a thread in an operation appends to a block of its own.\<close>

theorem sizes_durable_before_clear_witness:
  "durable (prun (pass_events 24 demo_closed @ [Store 1 (Alog_Size 1) (Num_Val 1)]) (pm_start demo_sizes)) (Map_Byte 39) = Byte_Val 64"
proof -
  let ?ys = "pass_events 24 demo_closed" and ?x = "Store 1 (Alog_Size 1) (Num_Val 1)"
  have alone: "trace_of L ?ys ?ys" for L by (rule trace_alone [OF pass_by_thread])
  have tr: "trace_of (range Map_Byte) ?ys (?ys @ [?x])" using alone [of "range Map_Byte"] by (auto simp: trace_of_def)
  have zero: "u = 0" if "Store u (Alog_Size c) (Num_Val 0) \<in> set (?ys @ [?x])" for u c
    using that alone [of UNIV] by (auto simp: trace_of_def)
  have b: "0 < length (ctx_array demo_closed)" "0 \<in> set (uc_allocatorlog (ctx_array demo_closed ! 0) (prev_parity demo_closed))"
    by (simp_all add: demo_closed_sel)
  have "durable (prun ?ys (pm_start demo_sizes)) (Alog_Size 0) = Num_Val 0"
    by (rule pass_logs_empty [OF demo_closed_ok b alone, of "range Alog_Size"]) simp
  then have log: "durable (prun (?ys @ [?x]) (pm_start demo_sizes)) (Alog_Size 0) = Num_Val 0"
    by (simp add: prun_append) (simp add: prun_def durable_def)
  obtain s' where s': "cpallocator_checkpointing demo_closed = Inr s'" "by_bytes (ByteMap_NVM s') 39 = 64"
    using demo_pass by blast
  from sizes_durable_before_clear [OF demo_closed_ok s'(1) prefix_order.refl tr zero b _ log, where r = demo_large and i = 39]
  show ?thesis by (simp add: demo_closed_sel demo_large_index demo_sizes_def flushed_by_def map_line_def s'(2))
qed

text \<open>The whole pass of a closed epoch with one record, nothing evicted.\<close>

lemma one_record_ctx:
  assumes "prev_records s = [r]"
  obtains t where "t < length (ctx_array s)" and "ctx_records s (ctx_array s ! t) = [r]"
    and "\<And>u. u < length (ctx_array s) \<Longrightarrow> u \<noteq> t \<Longrightarrow> ctx_records s (ctx_array s ! u) = []"
proof -
  have "concat xss = [r] \<Longrightarrow> \<exists>t < length xss. xss ! t = [r] \<and> (\<forall>u < length xss. u \<noteq> t \<longrightarrow> xss ! u = [])" for xss
  proof (induction xss)
    case (Cons xs xss)
    show ?case
    proof (cases xs)
      case Nil
      with Cons obtain t where "t < length xss" "xss ! t = [r]" "\<forall>u < length xss. u \<noteq> t \<longrightarrow> xss ! u = []" by auto
      with Nil show ?thesis by (intro exI [of _ "Suc t"]) (auto simp: nth_Cons split: nat.splits)
    next
      case (Cons a as)
      with Cons.prems show ?thesis by (intro exI [of _ 0]) (auto simp: nth_Cons split: nat.splits)
    qed
  qed simp
  from this [of "map (ctx_records s) (ctx_array s)"] assms that show ?thesis
    by (auto simp: prev_records_ctxs)
qed

text \<open>C17: after the whole pass over a closed epoch with one record, if nothing is evicted, the logs are durably empty, and
  of the bytes of the object only those on the line of the first byte are durable: a crash finds the old contents of the map
  beyond the line, although the last record of the object's size is gone.\<close>

theorem large_object_lost:
  assumes "alloc_ok s" and "cpallocator_checkpointing s = Inr s'" and "prev_records s = [r]"
  shows "(\<forall>b \<in> set (prev_blocks s). durable (prun (pass_events base s) (pm_start v0)) (Alog_Size b) = Num_Val 0) \<and>
    (\<forall>i \<in> obj_bytes r. durable (prun (pass_events base s) (pm_start v0)) (Map_Byte i) =
       (if map_line base i = map_line base (record_index r) then Byte_Val (by_bytes (ByteMap_NVM s') i) else v0 (Map_Byte i)))"
proof -
  obtain t where t: "t < length (ctx_array s)" "ctx_records s (ctx_array s ! t) = [r]"
    and other: "\<And>u. u < length (ctx_array s) \<Longrightarrow> u \<noteq> t \<Longrightarrow> ctx_records s (ctx_array s ! u) = []"
    using one_record_ctx [OF assms(3)] by metis
  have tr: "trace_of UNIV (pass_events base s) (pass_events base s)"
    by (rule trace_alone [OF pass_by_thread])
  have "durable (prun (pass_events base s) (pm_start v0)) (Alog_Size b) = Num_Val 0" if b: "b \<in> set (prev_blocks s)" for b
  proof -
    obtain ctx where "ctx \<in> set (ctx_array s)" and in_log: "b \<in> set (uc_allocatorlog ctx (prev_parity s))"
      using b by (auto simp: prev_blocks_def)
    then obtain u where "u < length (ctx_array s)" "ctx = ctx_array s ! u" by (auto simp: in_set_conv_nth)
    with in_log show ?thesis using pass_logs_empty [OF assms(1) _ _ tr, of u b] by simp
  qed
  moreover have "durable (prun (pass_events base s) (pm_start v0)) (Map_Byte i) = Byte_Val (by_bytes (ByteMap_NVM s') i)"
    if i: "i \<in> obj_bytes r" "flushed_by base i r" for i
  proof -
    have "stat (Map_Byte i) (pass_events base s) Unknown = Durable (Byte_Val (by_bytes (ByteMap_NVM s') i))"
      unfolding pass_split [OF t(1)]
      by (rule pass_stat [OF assms(1,2) t(1) prefix_order.refl]) (use t(2) i other in auto)
    from durable_stat [OF tr _ this] show ?thesis by simp
  qed
  moreover have "durable (prun (pass_events base s) (pm_start v0)) (Map_Byte i) = v0 (Map_Byte i)" if "\<not> flushed_by base i r" for i
  proof (rule durable_unflushed [OF pass_unflushed])
    fix ctx q assume "ctx \<in> set (ctx_array s)" "q \<in> set (ctx_records s ctx)"
    then have "q \<in> set (prev_records s)" by (auto simp: prev_records_ctxs)
    then show "\<not> flushed_by base i q" using that assms(3) by simp
  qed
  ultimately show ?thesis by (auto simp: flushed_by_def)
qed

text \<open>Where the map lies, an object of 256 KiB at a page has its last 24 bytes of the map on another line.\<close>

theorem large_object_lost_witness:
  "durable (prun (pass_events 24 demo_closed) (pm_start demo_sizes)) (Alog_Size 0) = Num_Val 0 \<and>
   durable (prun (pass_events 24 demo_closed) (pm_start demo_sizes)) (Map_Byte 39) = Byte_Val 64 \<and>
   durable (prun (pass_events 24 demo_closed) (pm_start demo_sizes)) (Map_Byte 40) = Byte_Val 0"
proof -
  obtain s' where s': "cpallocator_checkpointing demo_closed = Inr s'" "by_bytes (ByteMap_NVM s') 39 = 64"
    using demo_pass by blast
  have "prev_blocks demo_closed = [0]" using demo_closed_sel by (simp add: prev_blocks_def demo_closed_def)
  with s'(2) show ?thesis
    using large_object_lost [OF demo_closed_ok s'(1) demo_closed_sel(4), of 24 demo_sizes]
    by (simp add: demo_large_index map_line_def demo_sizes_def)
qed

end
