(* ===== verification/StartClaims.thy ===== *)
theory StartClaims
  imports UserThreadCtx AllocCheckpoint Demo
begin

section \<open>A start that is interrupted, and the root table\<close>

text \<open>
  The constructor of \<^verbatim>\<open>nvmconfig_t\<close> writes the word that \<^verbatim>\<open>check_dirty\<close> tests, before \<^verbatim>\<open>escort_init\<close> has written anything
  else to the file; \<^verbatim>\<open>escort_is_recovery\<close>, which a program calls to choose the mode of \<^verbatim>\<open>escort_init\<close>, calls the constructor. What this
  means for a process that stops in between, and what \<^verbatim>\<open>init_roottable\<close> leaves out.
\<close>

subsection \<open>The root pointer in recovery mode\<close>

lemma init_checkpointing_thread_root: "init_checkpointing_thread n s = Inr s' \<Longrightarrow> RootTable s' = RootTable s"
  by (auto simp: init_checkpointing_thread_def cpmaster_new_def Let_def res_simps split: if_splits)

lemma copy_page_config: "NVM_config (copy_page i s) = NVM_config s"
proof -
  have "NVM_config (fold (\<lambda>j s. s\<lparr>dram := f j s\<rparr>) js s) = NVM_config s" for f js
    by (induction js arbitrary: s) simp_all
  then show ?thesis by (simp add: copy_page_def Let_def)
qed

lemma copy_heap_config: "NVM_config (copy_heap bt s) = NVM_config s"
proof -
  have "NVM_config (fold (\<lambda>i s. if bt_mapped bt i then copy_page i s else s) is s) = NVM_config s" for "is"
    by (induction "is" arbitrary: s) (simp_all add: copy_page_config)
  then show ?thesis by (simp add: copy_heap_def)
qed

lemma init_bitmap_root:
  assumes "init_bitmap bt s = Inr u" and "nc_bytemap_pointer_addr (NVM_config s) \<noteq> nc_root_pointer_addr (NVM_config s)"
  shows "get_roottable (NVM_config u) = get_roottable (NVM_config s)"
  using assms
  by (auto simp: init_bitmap_eq Let_def res_simps nvmconfig_malloc_def set_bytemap_pointer_def set_cell_def get_roottable_def
      split: if_splits)

lemma recovery_root:
  assumes run: "escort_init al bt n True s = Inr s'" and "nc_bytemap_pointer_addr (NVM_config s) \<noteq> nc_root_pointer_addr (NVM_config s)"
  shows "RootTable s' = get_roottable (NVM_config s)"
proof -
  have np: "get_phase (Epoch (GLOBAL_EPOCH x)) = Inr NVM_Heap_Update" for x :: "('a, 'b) library_scheme"
    by (rule get_phase_Epoch)
  from run obtain u v where u: "init_bitmap bt s = Inr u"
    and m: "apply_metadata al (copy_heap bt (init_manager bt u)) = Inr v" and r: "RootTable s' = get_roottable (NVM_config v)"
    unfolding escort_init_def Let_def by (auto simp: rbind_eq_Inr np dest!: init_checkpointing_thread_root)
  have "NVM_config v = NVM_config u"
    using apply_metadata_frame [OF m] by (simp add: copy_heap_config init_manager_def)
  then show ?thesis using r init_bitmap_root [OF u assms(2)] by simp
qed

subsection \<open>An interrupted first start\<close>

definition reopened_config :: "nvmconfig_t" where
  "reopened_config = (case nvmconfig_new blank_config 0x1000 0x300000000 (nc_cells demo_config) HEAP_SIZE of
     Inr c \<Rightarrow> c | Inl _ \<Rightarrow> blank_config)"

lemma reopened_config_eq: "nvmconfig_new blank_config 0x1000 0x300000000 (nc_cells demo_config) HEAP_SIZE = Inr reopened_config"
  by (simp add: reopened_config_def nvmconfig_new_eq [OF demo_mapped])

lemma reopened_config_sel:
  "nc_dram_space reopened_config = DRAM_BASE" "nc_tmp_space reopened_config = 0x1050 + HEAP_SIZE"
  "nc_start_address reopened_config = 0x1000" "nc_nvm_size reopened_config = 0x300000000"
  "nc_cells reopened_config (nc_g_epoch_pointer_addr reopened_config) = 0"
  by (simp_all add: reopened_config_def demo_config_def nvmconfig_new_eq [OF demo_mapped])

definition demo_interrupted :: "unit library" where
  "demo_interrupted = (reboot demo_start)\<lparr>GLOBAL_EPOCH := 0, NVM_config := reopened_config\<rparr>"

lemma demo_interrupted_starts: "\<exists>l'. escort_init demo_al demo_boot 1 True demo_interrupted = Inr l'"
proof (rule escort_init_recovery_total)
  show "get_phase (GLOBAL_EPOCH demo_interrupted) = Inr NVM_Heap_Update"
    using get_phase_Epoch [of 0] by (simp add: demo_interrupted_def Epoch_take_bit)
  show "fresh_library demo_interrupted"
    using reboot_fresh(2) [of demo_start] by (simp add: demo_interrupted_def fresh_library_def no_maps_def)
qed (simp_all add: demo_interrupted_def reopened_config_sel bytemap_room_def HEAP_SIZE_eq)

text \<open>C22: if a process has opened a new file (as \<^verbatim>\<open>escort_is_recovery\<close> does) and stops before it has initialised the library, the next
  one finds the file dirty; in recovery mode \<open>escort_init\<close> then takes the epoch 0 and a null pointer to the root table from it, and
  \<open>begin_op\<close> fails its assertion as long as the epoch is 0.\<close>

theorem interrupted_first_start:
  assumes "nvmconfig_new mem start sz file HEAP_SIZE = Inr c" and "mapped start sz" and "\<forall>a. file a = 0"
    and "nvmconfig_new mem' start sz (nc_cells c) HEAP_SIZE = Inr c'"
    and "NVM_config l = c'" and "GLOBAL_EPOCH l = nc_cells c' (nc_g_epoch_pointer_addr c')" and "escort_init al bt n True l = Inr l'"
    and "GLOBAL_EPOCH s = GLOBAL_EPOCH l'" and "t < length (ctx_array s)"
  shows "is_dirty c' \<and> RootTable l' = 0 \<and> GLOBAL_EPOCH l' = 0 \<and> begin_op t s = Inl AssertFailed"
proof -
  have c: "nc_cells c = (\<lambda>_. 0)(start := DRAM_BASE, start + 8 := start + 64)"
    using assms(1,3) by (auto simp: nvmconfig_new_eq [OF assms(2)] fun_eq_iff)
  have c': "nc_cells c' = nc_cells c" "nc_is_dirty c' = (nc_cells c start \<noteq> 0)" "nc_dram_space c' = DRAM_BASE"
    "nc_g_epoch_pointer_addr c' = start + 16" "nc_bytemap_pointer_addr c' = start + 24" "nc_root_pointer_addr c' = start + 32"
    using assms(4) by (auto simp: nvmconfig_new_eq [OF assms(2)] c)
  have "RootTable l' = 0"
    using recovery_root [OF assms(7)] by (simp add: assms(5) c' get_roottable_def c)
  moreover have e: "GLOBAL_EPOCH l' = 0"
    using escort_init_recovery(2) [OF assms(7)] by (simp add: assms(5,6) c' c)
  moreover have "begin_op t s = Inl AssertFailed"
    using assms(8,9) e by (simp add: begin_op_def get_ctx_def rassert_def)
  moreover have "is_dirty c'" by (simp add: is_dirty_def c' c DRAM_BASE_def)
  ultimately show ?thesis by blast
qed

theorem interrupted_first_start_witness:
  "is_dirty reopened_config \<and> (\<exists>l'. escort_init demo_al demo_boot 1 True demo_interrupted = Inr l' \<and> RootTable l' = 0 \<and>
     begin_op 0 (demo_begun\<lparr>GLOBAL_EPOCH := 0\<rparr>) = Inl AssertFailed)"
proof -
  obtain l' where l': "escort_init demo_al demo_boot 1 True demo_interrupted = Inr l'" using demo_interrupted_starts by blast
  have base: "nc_dram_space (NVM_config demo_interrupted) = DRAM_BASE"
    by (simp add: demo_interrupted_def reopened_config_sel)
  have g: "GLOBAL_EPOCH l' = 0" using escort_init_recovery(2) [OF l' base] by (simp add: demo_interrupted_def)
  from interrupted_first_start [OF demo_config_eq demo_mapped _ reopened_config_eq _ _ l', of "demo_begun\<lparr>GLOBAL_EPOCH := 0\<rparr>" 0] l' g
  show ?thesis by (auto simp: demo_interrupted_def reopened_config_sel demo_defs)
qed

subsection \<open>The root table is not recorded\<close>

text \<open>
  The first start takes the root table from the memory allocator directly, so that no log has it and the map of objects
  on NVM does not know it: a recovery that gave the recorded objects back to the allocator would leave the memory of the
  root table free.
\<close>

lemma root_table_unrecorded:
  assumes "escort_init al bt n False l = Inr l'"
  shows "al_malloc al (64 * 512) (heap_alloc l) = (RootTable l', heap_alloc l') \<and> ctx_array l' = [] \<and>
    by_bytes (ByteMap_NVM l') = bt_nvm_bytes bt \<and> am_used (Allocatorlog_Management l') = []"
  using assms
  by (auto simp: escort_init_def init_bitmap_eq init_roottable_def init_manager_def init_checkpointing_thread_def cpmaster_new_def
      allocatorlog_management_new_eq bytemap_nvm_new_def nvmconfig_malloc_def Let_def res_simps split_beta split: if_splits)

end
