(* ===== verification/HelperParts.thy ===== *)
theory HelperParts
  imports CheckpointSeq AllocCheckpoint
begin

section \<open>What the threads of a checkpoint touch\<close>

text \<open>
  During a checkpoint three threads run at once: the checkpointing thread, the thread of \<^verbatim>\<open>cpallocator_t\<close> and the thread of
  \<^verbatim>\<open>deallocator_t\<close>. Each works on a part of the state of its own: the redo logs and the heaps, the allocator logs and the byte maps, the
  delayed deallocations. Actions on different parts can change places.
\<close>

subsection \<open>Actions on parts of a state\<close>

locale state_parts =
  fixes same :: "'p \<Rightarrow> 's \<Rightarrow> 's \<Rightarrow> bool"
  assumes same_refl: "same p s s"
    and same_sym: "same p s t \<Longrightarrow> same p t s"
    and same_trans: "same p s t \<Longrightarrow> same p t u \<Longrightarrow> same p s u"
    and same_all: "(\<And>p. same p s t) \<Longrightarrow> s = t"
begin

text \<open>An action on a part leaves the other parts as they are, and what it does to its part depends on this part only.\<close>

definition acts_on :: "'p \<Rightarrow> ('s \<Rightarrow> 's res) \<Rightarrow> bool" where
  "acts_on p f \<longleftrightarrow> (\<forall>s u. f s = Inr u \<longrightarrow> (\<forall>q. q \<noteq> p \<longrightarrow> same q s u) \<and>
     (\<forall>t. same p s t \<longrightarrow> (\<exists>v. f t = Inr v \<and> same p u v)))"

lemma acts_onI:
  assumes "\<And>s u q. f s = Inr u \<Longrightarrow> q \<noteq> p \<Longrightarrow> same q s u"
    and "\<And>s u t. f s = Inr u \<Longrightarrow> same p s t \<Longrightarrow> \<exists>v. f t = Inr v \<and> same p u v"
  shows "acts_on p f"
  using assms unfolding acts_on_def by blast

lemma acts_on_frame: "acts_on p f \<Longrightarrow> f s = Inr u \<Longrightarrow> q \<noteq> p \<Longrightarrow> same q s u"
  unfolding acts_on_def by blast

lemma acts_on_local: "acts_on p f \<Longrightarrow> f s = Inr u \<Longrightarrow> same p s t \<Longrightarrow> \<exists>v. f t = Inr v \<and> same p u v"
  unfolding acts_on_def by blast

lemma acts_on_swap:
  assumes "acts_on p f" and "acts_on q g" and "p \<noteq> q" and f: "f s = Inr u" and g: "g u = Inr v"
  shows "\<exists>w. g s = Inr w \<and> f w = Inr v"
proof -
  have su: "same r s u" if "r \<noteq> p" for r using acts_on_frame [OF assms(1) f that] .
  have uv: "same r u v" if "r \<noteq> q" for r using acts_on_frame [OF assms(2) g that] .
  obtain w where w: "g s = Inr w" "same q v w"
    using acts_on_local [OF assms(2) g same_sym [OF su]] assms(3) by blast
  have sw: "same r s w" if "r \<noteq> q" for r using acts_on_frame [OF assms(2) w(1) that] .
  obtain x where x: "f w = Inr x" "same p u x"
    using acts_on_local [OF assms(1) f sw] assms(3) by blast
  have wx: "same r w x" if "r \<noteq> p" for r using acts_on_frame [OF assms(1) x(1) that] .
  have "same r v x" for r
  proof (cases "r = p")
    case True
    then show ?thesis using x(2) uv [of p] assms(3) by (blast intro: same_sym same_trans)
  next
    case False
    show ?thesis
    proof (cases "r = q")
      case True
      then show ?thesis using w(2) wx [OF False] by (blast intro: same_trans)
    next
      case rq: False
      then show ?thesis using su [OF False] uv [OF rq] sw [OF rq] wx [OF False] by (blast intro: same_sym same_trans)
    qed
  qed
  with w(1) x(1) show ?thesis using same_all by blast
qed

lemma acts_on_frame_list:
  assumes "\<And>x. x \<in> set xs \<Longrightarrow> acts_on p (act x)" and "rfold act xs s = Inr u" and "q \<noteq> p"
  shows "same q s u"
  using assms(2)
  by (rule rfold_invariant [where I = "same q s"]) (use assms(1,3) in \<open>auto intro: same_refl same_trans acts_on_frame\<close>)

lemma acts_on_swap_list:
  assumes "\<And>x. x \<in> set xs \<Longrightarrow> acts_on p (act x)" and "acts_on q g" and "p \<noteq> q"
    and "rfold act xs s = Inr u" and "g u = Inr v"
  shows "\<exists>w. g s = Inr w \<and> rfold act xs w = Inr v"
  using assms(1,4)
proof (induction xs arbitrary: s)
  case Nil
  then show ?case using assms(5) by simp
next
  case (Cons x xs)
  obtain t where t: "act x s = Inr t" "rfold act xs t = Inr u" using Cons.prems(2) by (auto simp: res_simps)
  obtain w1 where w1: "g t = Inr w1" "rfold act xs w1 = Inr v"
    using Cons.IH [OF _ t(2)] Cons.prems(1) by auto
  obtain w where "g s = Inr w" "act x w = Inr w1"
    using acts_on_swap [OF Cons.prems(1) assms(2,3) t(1) w1(1)] by auto
  with w1(2) show ?case by auto
qed

end

subsection \<open>The parts\<close>

datatype part = Redo_Part | Object_Part | Free_Part

definition redo_ctx :: "userthreadctx_t \<Rightarrow> epoch_t \<times> (bool \<Rightarrow> addrlist_t) \<times> plog_t" where
  "redo_ctx ctx = (uc_epoch ctx, uc_addrlist ctx, uc_log ctx)"

fun same :: "part \<Rightarrow> 'j escort \<Rightarrow> 'j escort \<Rightarrow> bool" where
  "same Redo_Part s t \<longleftrightarrow> GLOBAL_EPOCH s = GLOBAL_EPOCH t \<and> BitMap s = BitMap t \<and> Plog_Management s = Plog_Management t \<and>
     cp_log s = cp_log t \<and> dram s = dram t \<and> nvm s = nvm t \<and> nvm_offset s = nvm_offset t \<and>
     map redo_ctx (ctx_array s) = map redo_ctx (ctx_array t)"
| "same Object_Part s t \<longleftrightarrow> ByteMap s = ByteMap t \<and> ByteMap_NVM s = ByteMap_NVM t \<and>
     Allocatorlog_Management s = Allocatorlog_Management t \<and>
     map uc_allocatorlog (ctx_array s) = map uc_allocatorlog (ctx_array t)"
| "same Free_Part s t \<longleftrightarrow> heap_alloc s = heap_alloc t \<and> map uc_delay_dealloc (ctx_array s) = map uc_delay_dealloc (ctx_array t)"

interpretation parts: state_parts same
proof (unfold_locales, goal_cases)
  case (1 p s)
  then show ?case by (cases p) simp_all
next
  case (2 p s t)
  then show ?case by (cases p) simp_all
next
  case (3 p s t u)
  then show ?case by (cases p) simp_all
next
  case (4 s t)
  have m: "map f xs = map f ys \<Longrightarrow> i < length xs \<Longrightarrow> f (xs ! i) = f (ys ! i)" for f :: "userthreadctx_t \<Rightarrow> 'b" and xs ys i
    by (metis length_map nth_map)
  note s = 4 [of Redo_Part] 4 [of Object_Part] 4 [of Free_Part]
  have l: "length (ctx_array s) = length (ctx_array t)" using s(1) by (simp add: map_equality_iff)
  have "ctx_array s = ctx_array t"
  proof (rule nth_equalityI [OF l])
    fix i assume i: "i < length (ctx_array s)"
    have "redo_ctx (ctx_array s ! i) = redo_ctx (ctx_array t ! i)" by (rule m [OF _ i]) (use s(1) in simp)
    moreover have "uc_allocatorlog (ctx_array s ! i) = uc_allocatorlog (ctx_array t ! i)" by (rule m [OF _ i]) (use s(2) in simp)
    moreover have "uc_delay_dealloc (ctx_array s ! i) = uc_delay_dealloc (ctx_array t ! i)" by (rule m [OF _ i]) (use s(3) in simp)
    ultimately show "ctx_array s ! i = ctx_array t ! i" by (simp add: redo_ctx_def userthreadctx_t.equality)
  qed
  then show ?case using s by (simp add: escort.equality)
qed

lemma same_ctx_nth:
  assumes "same p s t" and "i < length (ctx_array s)"
  shows "i < length (ctx_array t)"
    and "p = Redo_Part \<Longrightarrow> redo_ctx (ctx_array s ! i) = redo_ctx (ctx_array t ! i)"
    and "p = Object_Part \<Longrightarrow> uc_allocatorlog (ctx_array s ! i) = uc_allocatorlog (ctx_array t ! i)"
    and "p = Free_Part \<Longrightarrow> uc_delay_dealloc (ctx_array s ! i) = uc_delay_dealloc (ctx_array t ! i)"
  using assms by (cases p; simp add: map_equality_iff; fail)+

lemma same_length: "same p s t \<Longrightarrow> length (ctx_array s) = length (ctx_array t)"
  by (cases p) (simp_all add: map_equality_iff)

end
