(* ===== verification/HelperActions.thy ===== *)
theory HelperActions
  imports HelperParts
begin

section \<open>The actions of a checkpoint\<close>

text \<open>
  The loops of the three threads as lists of actions: one record of an allocator log, one delayed deallocation, one line of the
  log loop, one replayed entry, the clearing of one log. Each list, performed in order, does what the function of the
  sequential model does.
\<close>

datatype action =
    Check_Entry bool block_id nat | Record_Entry block_id nat | Clear_Alog bool nat
  | Free_Delayed ptr | Clear_Delayed bool nat
  | Log_Line bool ptr nat | Clear_List bool nat | Enter epoch_t epoch_phase
  | Replay "ptr \<times> cacheline_t" | Clear_Cp_Log | Clear_Ctx_Log nat

fun part_of :: "action \<Rightarrow> part" where
  "part_of (Check_Entry p b i) = Object_Part"
| "part_of (Record_Entry b i) = Object_Part"
| "part_of (Clear_Alog p t) = Object_Part"
| "part_of (Free_Delayed a) = Free_Part"
| "part_of (Clear_Delayed p t) = Free_Part"
| "part_of _ = Redo_Part"

definition clear_alog :: "bool \<Rightarrow> nat \<Rightarrow> 'j escort \<Rightarrow> 'j escort res" where
  "clear_alog prev t s = rbind (get_ctx t s) (\<lambda>ctx.
     let (bl, m) = alog_clear (uc_allocatorlog ctx prev, Allocatorlog_Management s) in
     Inr (put_ctx t (ctx\<lparr>uc_allocatorlog := (uc_allocatorlog ctx)(prev := bl)\<rparr>) (s\<lparr>Allocatorlog_Management := m\<rparr>)))"

definition clear_delayed :: "bool \<Rightarrow> nat \<Rightarrow> 'j escort \<Rightarrow> 'j escort res" where
  "clear_delayed prev t s = rbind (get_ctx t s) (\<lambda>ctx.
     Inr (put_ctx t (ctx\<lparr>uc_delay_dealloc := (uc_delay_dealloc ctx)(prev := [])\<rparr>) s))"

fun act :: "'j allocator \<Rightarrow> action \<Rightarrow> 'j escort \<Rightarrow> 'j escort res" where
  "act al (Check_Entry p b i) s = check_valid_entry p b i s"
| "act al (Record_Entry b i) s = record_sizes_entry b i s"
| "act al (Clear_Alog p t) s = clear_alog p t s"
| "act al (Free_Delayed a) s = Inr (s\<lparr>heap_alloc := al_free al a (heap_alloc s)\<rparr>)"
| "act al (Clear_Delayed p t) s = clear_delayed p t s"
| "act al (Log_Line p a i) s = rbind (bitmap_get_index a) (\<lambda>base. log_line p (base + i) (a + word_of_nat (CACHE_LINE_SIZE * i)) s)"
| "act al (Clear_List p t) s = clear_list p t s"
| "act al (Enter e ph) s = rbind (enter_phase e ph s) (\<lambda>(e', s). Inr s)"
| "act al (Replay e) s = Inr (replay_entry e s)"
| "act al Clear_Cp_Log s = Inr (clear_cp_log s)"
| "act al (Clear_Ctx_Log t) s = rbind (get_ctx t s) (\<lambda>_. Inr (clear_ctx_log t s))"

lemma act_fun: "act al x = (\<lambda>s. act al x s)" by simp

subsection \<open>Every action acts on its part\<close>

lemma map_upd_other: "t < length xs \<Longrightarrow> f x = f (xs ! t) \<Longrightarrow> map f (xs[t := x]) = map f xs"
  by (simp add: map_update) (metis length_map list_update_id nth_map)

lemma map_upd_same: "map f xs = map f ys \<Longrightarrow> f x = f y \<Longrightarrow> map f (xs[t := x]) = map f (ys[t := y])"
  by (simp add: map_update)

lemma act_frame:
  assumes "act al x s = Inr u" and "q \<noteq> part_of x"
  shows "same q s u"
proof (cases x)
  case (Clear_Ctx_Log t)
  then show ?thesis using assms
    by (cases q) (auto simp: res_simps clear_ctx_log_def Let_def split_beta map_upd_other put_ctx_def)
qed (use assms in \<open>cases q; auto simp: res_simps check_valid_entry_def record_sizes_entry_def clear_alog_def clear_delayed_def
    clear_list_def enter_phase_def log_line_def replay_entry_def clear_cp_log_def Let_def split_beta map_upd_other
    redo_ctx_def put_ctx_def split: if_splits\<close>)+


lemma act_local:
  assumes "act al x s = Inr u" and "same (part_of x) s t"
  shows "\<exists>v. act al x t = Inr v \<and> same (part_of x) u v"
proof -
  note len = same_length [OF assms(2)]
  note ctx = same_ctx_nth [OF assms(2)]
  show ?thesis
  proof (cases x)
    case (Check_Entry p b i)
    then show ?thesis using assms
      by (auto simp: check_valid_entry_def Let_def rbind_def split: sum.splits if_splits)
  next
    case (Record_Entry b i)
    then show ?thesis using assms by (auto simp: record_sizes_entry_def Let_def rbind_def split: sum.splits)
  next
    case (Clear_Alog p i)
    then show ?thesis using assms len ctx(1,3) [of i]
      by (auto simp: clear_alog_def get_ctx_def put_ctx_def Let_def split_beta split: if_splits intro!: map_upd_same)
  next
    case (Clear_Delayed p i)
    then show ?thesis using assms len ctx(1,4) [of i]
      by (auto simp: clear_delayed_def get_ctx_def put_ctx_def split: if_splits intro!: map_upd_same)
  next
    case (Log_Line p a i)
    then show ?thesis using assms by (auto simp: log_line_def rbind_def split_beta split: if_splits sum.splits)
  next
    case (Clear_List p i)
    then show ?thesis using assms len ctx(1,2) [of i]
      by (auto simp: clear_list_def get_ctx_def put_ctx_def redo_ctx_def split: if_splits intro!: map_upd_same)
  next
    case (Enter e ph)
    then show ?thesis using assms by (auto simp: enter_phase_def rbind_def split: sum.splits)
  next
    case (Clear_Ctx_Log i)
    then show ?thesis using assms len ctx(1,2) [of i]
      by (auto simp: clear_ctx_log_def get_ctx_def put_ctx_def redo_ctx_def Let_def split_beta split: if_splits intro!: map_upd_same)
  qed (use assms in \<open>auto simp: replay_entry_def clear_cp_log_def Let_def split_beta\<close>)
qed

lemma act_acts_on: "parts.acts_on (part_of x) (act al x)"
  by (rule parts.acts_onI) (use act_frame act_local in blast)+


subsection \<open>The loops as lists of actions\<close>

definition check_actions :: "'j escort \<Rightarrow> action list" where
  "check_actions s = map (\<lambda>q. Check_Entry (prev_parity s) (fst q) (snd q)) (prev_positions s)"

definition record_ctx :: "'j escort \<Rightarrow> nat \<Rightarrow> action list" where
  "record_ctx s t = map (\<lambda>q. Record_Entry (fst q) (snd q)) (log_positions s (uc_allocatorlog (ctx_array s ! t) (prev_parity s))) @
     [Clear_Alog (prev_parity s) t]"

definition record_actions :: "'j escort \<Rightarrow> action list" where
  "record_actions s = concat (map (record_ctx s) [0..<length (ctx_array s)])"

definition free_ctx :: "'j escort \<Rightarrow> nat \<Rightarrow> action list" where
  "free_ctx s t = map Free_Delayed (uc_delay_dealloc (ctx_array s ! t) (prev_parity s)) @ [Clear_Delayed (prev_parity s) t]"

definition free_actions :: "'j escort \<Rightarrow> action list" where
  "free_actions s = concat (map (free_ctx s) [0..<length (ctx_array s)])"

definition region_actions :: "bool \<Rightarrow> ptr \<times> nat \<Rightarrow> action list" where
  "region_actions p r = map (Log_Line p (fst r)) [0..<snd r]"

definition log_ctx_actions :: "'j escort \<Rightarrow> nat \<Rightarrow> action list" where
  "log_ctx_actions s t = concat (map (region_actions (prev_parity s)) (uc_addrlist (ctx_array s ! t) (prev_parity s))) @
     [Clear_List (prev_parity s) t]"

definition log_actions :: "'j escort \<Rightarrow> action list" where
  "log_actions s = concat (map (log_ctx_actions s) [0..<length (ctx_array s)])"

definition update_actions :: "'j escort \<Rightarrow> action list" where
  "update_actions s = map Replay (all_entries s) @ Clear_Cp_Log # map Clear_Ctx_Log [0..<length (ctx_array s)]"

text \<open>A loop over the contexts whose rounds are lists of actions is a list of actions, if the round of a context leaves
  the lists of the contexts after it as they were.\<close>

lemma ctx_loop_actions:
  assumes "rfold F [k..<n] u = Inr v" and "J k u" and "k \<le> n"
    and "\<And>t u v. t < n \<Longrightarrow> J t u \<Longrightarrow> F t u = Inr v \<Longrightarrow> rfold (act al) (A t) u = Inr v \<and> J (Suc t) v"
  shows "rfold (act al) (concat (map A [k..<n])) u = Inr v"
  using assms(1-3)
proof (induction "n - k" arbitrary: k u)
  case 0
  then show ?case by simp
next
  case (Suc m)
  then have up: "[k..<n] = k # [Suc k..<n]" by (simp add: upt_conv_Cons)
  obtain w where w: "F k u = Inr w" "rfold F [Suc k..<n] w = Inr v" using Suc.prems(1) by (auto simp: up res_simps)
  have "rfold (act al) (A k) u = Inr w \<and> J (Suc k) w" using assms(4) [OF _ Suc.prems(2) w(1)] Suc.hyps(2) by simp
  moreover have "Suc k \<le> n" "m = n - Suc k" using Suc.hyps(2) by simp_all
  ultimately show ?case using Suc.hyps(1) [of "Suc k" w] w(2) by (simp add: up rfold_append)
qed

lemma check_valid_actions: "check_valid s = rfold (act al) (check_actions s) s"
proof -
  have "check_valid_at (prev_parity s) = (\<lambda>q. act al (Check_Entry (prev_parity s) (fst q) (snd q)))"
    by (intro ext) (simp add: check_valid_at_def)
  then show ?thesis by (simp add: check_valid_positions check_actions_def rfold_map)
qed

subsection \<open>\<^verbatim>\<open>dealloc\<close>\<close>

lemma free_list_actions:
  "rfold (act al) (map Free_Delayed as) s =
     Inr (fold (\<lambda>addr s. s\<lparr>heap_alloc := al_free al addr (heap_alloc s)\<rparr>) as s)"
  by (induction as arbitrary: s) simp_all

lemma free_list_frame:
  "let v = fold (\<lambda>addr s. s\<lparr>heap_alloc := al_free al addr (heap_alloc s)\<rparr>) as s in
   ctx_array v = ctx_array s \<and> GLOBAL_EPOCH v = GLOBAL_EPOCH s"
  by (induction as arbitrary: s) (simp_all add: Let_def)

lemma dealloc_actions:
  fixes s :: "'j escort"
  assumes "dealloc al s = Inr v"
  shows "rfold (act al) (free_actions s) s = Inr v"
  unfolding free_actions_def
proof (rule ctx_loop_actions [where J = "\<lambda>k u. GLOBAL_EPOCH u = GLOBAL_EPOCH s \<and> length (ctx_array u) = length (ctx_array s) \<and>
      (\<forall>t. k \<le> t \<longrightarrow> t < length (ctx_array s) \<longrightarrow> uc_delay_dealloc (ctx_array u ! t) = uc_delay_dealloc (ctx_array s ! t))"])
  show "rfold (dealloc_ctx al (prev_parity s)) [0..<length (ctx_array s)] s = Inr v"
    using assms by (simp add: dealloc_def)
next
  fix t and u v :: "'j escort"
  assume t: "t < length (ctx_array s)" and J: "GLOBAL_EPOCH u = GLOBAL_EPOCH s \<and> length (ctx_array u) = length (ctx_array s) \<and>
      (\<forall>i. t \<le> i \<longrightarrow> i < length (ctx_array s) \<longrightarrow> uc_delay_dealloc (ctx_array u ! i) = uc_delay_dealloc (ctx_array s ! i))"
    and F: "dealloc_ctx al (prev_parity s) t u = Inr v"
  let ?as = "uc_delay_dealloc (ctx_array s ! t) (prev_parity s)"
  let ?w = "fold (\<lambda>addr s. s\<lparr>heap_alloc := al_free al addr (heap_alloc s)\<rparr>) ?as u"
  have w: "ctx_array ?w = ctx_array u" "GLOBAL_EPOCH ?w = GLOBAL_EPOCH u"
    using free_list_frame [of al ?as u] by (simp_all add: Let_def)
  have v: "v = put_ctx t ((ctx_array u ! t)\<lparr>uc_delay_dealloc := (uc_delay_dealloc (ctx_array u ! t))(prev_parity s := [])\<rparr>) ?w"
    using F J t by (auto simp: dealloc_ctx_def res_simps Let_def)
  have "rfold (act al) (free_ctx s t) u = Inr v"
    using t J by (simp add: free_ctx_def rfold_append free_list_actions clear_delayed_def get_ctx_def w v)
  then show "rfold (act al) (free_ctx s t) u = Inr v \<and> GLOBAL_EPOCH v = GLOBAL_EPOCH s \<and> length (ctx_array v) = length (ctx_array s) \<and>
      (\<forall>i. Suc t \<le> i \<longrightarrow> i < length (ctx_array s) \<longrightarrow> uc_delay_dealloc (ctx_array v ! i) = uc_delay_dealloc (ctx_array s ! i))"
    using J by (simp add: v w)
qed simp_all


subsection \<open>\<^verbatim>\<open>checkpointing\<close> of the allocator logs\<close>

lemma record_sizes_entry_frame:
  "record_sizes_entry b i s = Inr u \<Longrightarrow> Allocatorlog_Management u = Allocatorlog_Management s \<and> ctx_array u = ctx_array s \<and>
     GLOBAL_EPOCH u = GLOBAL_EPOCH s"
  by (auto simp: record_sizes_entry_def Let_def res_simps)

lemma record_list_actions:
  "rfold record_sizes_block bl u = rfold (act al) (map (\<lambda>q. Record_Entry (fst q) (snd q)) (log_positions s bl)) u"
  if "Allocatorlog_Management u = Allocatorlog_Management s"
proof -
  let ?f = "\<lambda>q. record_sizes_entry (fst q) (snd q)" and ?I = "\<lambda>u. Allocatorlog_Management u = Allocatorlog_Management s"
  have I: "?I y" if "rfold ?f qs x = Inr y" "?I x" for qs x y
    using that by (rule rfold_invariant) (auto dest: record_sizes_entry_frame)
  have "rfold record_sizes_block bl u = rfold (\<lambda>b. rfold ?f (block_positions s b)) bl u"
  proof (rule rfold_cong_inv [where I = ?I], goal_cases)
    case (2 b x)
    then show ?case by (simp add: record_sizes_block_def block_positions_def rfold_map)
  next
    case (3 b x y)
    then show ?case using I by blast
  qed (rule that)
  moreover have "?f = (\<lambda>q. act al (Record_Entry (fst q) (snd q)))" by (intro ext) simp
  ultimately show ?thesis by (simp only: log_positions_def rfold_concat rfold_map)
qed

lemma record_list_frame:
  assumes "rfold (act al) (map (\<lambda>q. Record_Entry (fst q) (snd q)) qs) u = Inr v"
  shows "Allocatorlog_Management v = Allocatorlog_Management u \<and> ctx_array v = ctx_array u \<and> GLOBAL_EPOCH v = GLOBAL_EPOCH u"
  using assms by (induction qs arbitrary: u) (auto simp: res_simps dest!: record_sizes_entry_frame)

lemma alog_clear_other: "b \<notin> set bl \<Longrightarrow> am_area (snd (alog_clear (bl, m))) b = am_area m b"
proof (induction "(bl, m)" arbitrary: bl m rule: alog_clear.induct)
  case (1 bl m)
  show ?case
  proof (cases "bl = []")
    case False
    let ?m = "alog_management_push (last bl) (alog_put (last bl) (alog_block_clear (am_area m (last bl))) m)"
    have "b \<notin> set (butlast bl)" using 1(2) by (auto dest: in_set_butlastD)
    then have "am_area (snd (alog_clear (butlast bl, ?m))) b = am_area ?m b" using 1(1) [OF False refl refl] by simp
    moreover have "last bl \<noteq> b" using False 1(2) by auto
    then have "am_area ?m b = am_area m b" by (simp add: alog_management_push_def alog_put_def)
    ultimately show ?thesis using False by (simp add: alog_clear.simps [of bl m] Let_def)
  qed (simp add: alog_clear.simps)
qed

text \<open>The logs of the contexts still to come are not touched by the clearing of a log.\<close>

definition later_logs :: "'j escort \<Rightarrow> nat \<Rightarrow> 'j escort \<Rightarrow> bool" where
  "later_logs s k u \<longleftrightarrow> length (ctx_array u) = length (ctx_array s) \<and>
     (\<forall>t. k \<le> t \<longrightarrow> t < length (ctx_array s) \<longrightarrow>
       uc_allocatorlog (ctx_array u ! t) (prev_parity s) = uc_allocatorlog (ctx_array s ! t) (prev_parity s) \<and>
       (\<forall>b \<in> set (uc_allocatorlog (ctx_array s ! t) (prev_parity s)).
          am_area (Allocatorlog_Management u) b = am_area (Allocatorlog_Management s) b))"

lemma record_pass_actions:
  fixes s :: "'j escort"
  assumes ok: "alloc_ok s" and run: "cpallocator_checkpointing s = Inr v"
  shows "rfold (act al) (record_actions s) s = Inr v"
  unfolding record_actions_def
proof (rule ctx_loop_actions [where J = "later_logs s"])
  let ?p = "prev_parity s"
  let ?F = "\<lambda>t s. rbind (get_ctx t s) (\<lambda>ctx. rbind (rfold record_sizes_block (uc_allocatorlog ctx ?p) s) (\<lambda>s.
     let (bl, m) = alog_clear (uc_allocatorlog ctx ?p, Allocatorlog_Management s) in
     Inr (put_ctx t (ctx\<lparr>uc_allocatorlog := (uc_allocatorlog ctx)(?p := bl)\<rparr>) (s\<lparr>Allocatorlog_Management := m\<rparr>))))"
  show "rfold ?F [0..<length (ctx_array s)] s = Inr v"
    using run by (simp add: cpallocator_checkpointing_def Let_def)
  fix t and u v :: "'j escort"
  assume t: "t < length (ctx_array s)" and J: "later_logs s t u" and F: "?F t u = Inr v"
  let ?bl = "uc_allocatorlog (ctx_array s ! t) ?p"
  have bl: "uc_allocatorlog (ctx_array u ! t) ?p = ?bl" and len: "length (ctx_array u) = length (ctx_array s)"
    and area: "\<And>b. b \<in> set ?bl \<Longrightarrow> am_area (Allocatorlog_Management u) b = am_area (Allocatorlog_Management s) b"
    using J t by (auto simp: later_logs_def)
  obtain w where w: "rfold record_sizes_block ?bl u = Inr w" and cw: "clear_alog ?p t w = Inr v"
  proof -
    obtain w where w: "rfold record_sizes_block ?bl u = Inr w"
      and v: "(let (bl, m) = alog_clear (?bl, Allocatorlog_Management w) in
         Inr (put_ctx t ((ctx_array u ! t)\<lparr>uc_allocatorlog := (uc_allocatorlog (ctx_array u ! t))(?p := bl)\<rparr>)
           (w\<lparr>Allocatorlog_Management := m\<rparr>))) = (Inr v :: 'j escort res)"
      using F t len bl by (auto simp: res_simps)
    have "ctx_array w = ctx_array u"
      using record_list_frame [of al _ u w] w record_list_actions [OF refl, of ?bl u al] by simp
    then have "clear_alog ?p t w = Inr v" using v t len bl by (simp add: clear_alog_def get_ctx_def)
    with w show ?thesis by (rule that)
  qed
  have "log_positions u ?bl = log_positions s ?bl"
    using area by (simp add: log_positions_def block_positions_def cong: map_cong)
  then have list: "rfold (act al) (map (\<lambda>q. Record_Entry (fst q) (snd q)) (log_positions s ?bl)) u = Inr w"
    using w record_list_actions [OF refl, of ?bl u al] by simp
  have "rfold (act al) (record_ctx s t) u = Inr v"
    by (simp add: record_ctx_def rfold_append list cw)
  moreover have "later_logs s (Suc t) v"
  proof -
    note f = record_list_frame [OF list]
    obtain bl' m where c: "alog_clear (?bl, Allocatorlog_Management u) = (bl', m)" by (cases "alog_clear (?bl, Allocatorlog_Management u)")
    have v: "ctx_array v = (ctx_array u)[t := (ctx_array u ! t)\<lparr>uc_allocatorlog := (uc_allocatorlog (ctx_array u ! t))(?p := bl')\<rparr>]"
      "Allocatorlog_Management v = m"
      using cw f t len bl c by (auto simp: clear_alog_def get_ctx_def)
    have "am_area m b = am_area (Allocatorlog_Management s) b"
      if t': "Suc t \<le> t'" "t' < length (ctx_array s)" and b: "b \<in> set (uc_allocatorlog (ctx_array s ! t') ?p)" for t' b
    proof -
      have "b \<notin> set ?bl" using alogs_disjoint [OF ok _ t'(2), of t ?p] t'(1) b by auto
      then have "am_area m b = am_area (Allocatorlog_Management u) b"
        using alog_clear_other [of b ?bl "Allocatorlog_Management u"] c by simp
      moreover have "t \<le> t'" using t'(1) by simp
      ultimately show ?thesis using J t'(2) b unfolding later_logs_def by metis
    qed
    then show ?thesis using J by (simp add: later_logs_def v)
  qed
  ultimately show "rfold (act al) (record_ctx s t) u = Inr v \<and> later_logs s (Suc t) v" ..
qed (simp_all add: later_logs_def)


subsection \<open>The log loop\<close>

lemma log_lines_actions:
  assumes "log_lines p m (base + i) (a + word_of_nat (64 * i)) u = Inr v" and "bitmap_get_index a = Inr base"
  shows "rfold (act al) (map (Log_Line p a) [i..<i + m]) u = Inr v \<and> ctx_array v = ctx_array u"
  using assms(1)
proof (induction m arbitrary: i u)
  case 0
  then show ?case by simp
next
  case (Suc m)
  obtain w where l: "log_line p (base + i) (a + word_of_nat (64 * i)) u = Inr w"
    and rest: "log_lines p m (base + i + 1) (add_addr (a + word_of_nat (64 * i)) (word_of_nat 64)) w = Inr v"
    using Suc.prems by (auto simp: res_simps)
  have "log_lines p m (base + Suc i) (a + word_of_nat (64 * Suc i)) w = Inr v"
    using rest by (simp add: add_addr_def algebra_simps)
  note ih = Suc.IH [OF this]
  have up: "[i..<i + Suc m] = i # [Suc i..<Suc i + m]" by (simp add: upt_conv_Cons del: upt_Suc)
  have "act al (Log_Line p a i) u = Inr w" using l assms(2) by simp
  with ih log_line_epoch [OF l] show ?case unfolding up by (simp del: upt_Suc)
qed

lemma log_regions_actions:
  assumes "rfold (log_region p) rs u = Inr v"
  shows "rfold (act al) (concat (map (region_actions p) rs)) u = Inr v \<and> ctx_array v = ctx_array u"
  using assms
proof (induction rs arbitrary: u)
  case Nil
  then show ?case by simp
next
  case (Cons r rs)
  obtain w where w: "log_region p r u = Inr w" "rfold (log_region p) rs w = Inr v"
    using Cons.prems by (auto simp: res_simps)
  obtain base where b: "bitmap_get_index (fst r) = Inr base" "log_lines p (snd r) base (fst r) u = Inr w"
    using w(1) by (auto simp: log_region_def res_simps split_beta)
  have "rfold (act al) (map (Log_Line p (fst r)) [0..<0 + snd r]) u = Inr w \<and> ctx_array w = ctx_array u"
    by (rule log_lines_actions [OF _ b(1)]) (use b(2) in simp)
  with Cons.IH [OF w(2)] show ?case by (simp add: region_actions_def rfold_append)
qed

lemma log_loop_actions:
  fixes s :: "'j escort"
  assumes "log_persistence_unit s = Inr v"
  shows "rfold (act al) (log_actions s) s = Inr v"
  unfolding log_actions_def
proof (rule ctx_loop_actions [where J = "\<lambda>k u. length (ctx_array u) = length (ctx_array s) \<and>
    (\<forall>t. k \<le> t \<longrightarrow> t < length (ctx_array s) \<longrightarrow> uc_addrlist (ctx_array u ! t) (prev_parity s) = uc_addrlist (ctx_array s ! t) (prev_parity s))"])
  let ?p = "prev_parity s"
  show "rfold (log_ctx ?p) [0..<length (ctx_array s)] s = Inr v" using assms by (simp add: log_persistence_unit_def)
  fix t and u v :: "'j escort"
  assume t: "t < length (ctx_array s)" and J: "length (ctx_array u) = length (ctx_array s) \<and>
      (\<forall>i. t \<le> i \<longrightarrow> i < length (ctx_array s) \<longrightarrow> uc_addrlist (ctx_array u ! i) ?p = uc_addrlist (ctx_array s ! i) ?p)"
    and F: "log_ctx ?p t u = Inr v"
  obtain w where w: "rfold (log_region ?p) (uc_addrlist (ctx_array s ! t) ?p) u = Inr w" "clear_list ?p t w = Inr v"
    using F J t by (auto simp: log_ctx_def res_simps)
  note r = log_regions_actions [OF w(1), of al]
  have "rfold (act al) (log_ctx_actions s t) u = Inr v"
    using r w(2) by (simp add: log_ctx_actions_def rfold_append)
  moreover have "length (ctx_array v) = length (ctx_array s) \<and>
      (\<forall>i. Suc t \<le> i \<longrightarrow> i < length (ctx_array s) \<longrightarrow> uc_addrlist (ctx_array v ! i) ?p = uc_addrlist (ctx_array s ! i) ?p)"
    using w(2) r J by (auto simp: clear_list_def res_simps)
  ultimately show "rfold (act al) (log_ctx_actions s t) u = Inr v \<and> length (ctx_array v) = length (ctx_array s) \<and>
      (\<forall>i. Suc t \<le> i \<longrightarrow> i < length (ctx_array s) \<longrightarrow> uc_addrlist (ctx_array v ! i) ?p = uc_addrlist (ctx_array s ! i) ?p)" ..
qed simp_all

subsection \<open>The update loop\<close>

lemma replay_actions: "rfold (act al) (map Replay es) s = Inr (fold replay_entry es s)"
  by (induction es arbitrary: s) simp_all

lemma clear_ctx_actions:
  "\<forall>t \<in> set ts. t < length (ctx_array s) \<Longrightarrow> rfold (act al) (map Clear_Ctx_Log ts) s = Inr (fold clear_ctx_log ts s)"
proof (induction ts arbitrary: s)
  case Nil
  then show ?case by simp
next
  case (Cons t ts)
  have "length (ctx_array (clear_ctx_log t s)) = length (ctx_array s)" by (simp add: clear_ctx_log_def Let_def split_beta)
  with Cons show ?case by (simp add: get_ctx_def)
qed

lemma update_loop_actions:
  fixes s :: "'j escort"
  shows "rfold (act al) (update_actions s) s = Inr (nvm_heap_update_unit s)"
proof -
  let ?u = "clear_cp_log (fold replay_entry (all_entries s) s)"
  have "ctx_array (fold replay_entry es u) = ctx_array u" for es and u :: "'j escort"
    by (induction es arbitrary: u) (simp_all add: replay_entry_def Let_def)
  then have len: "length (ctx_array ?u) = length (ctx_array s)" by (simp add: clear_cp_log_def split_beta Let_def)
  have "nvm_heap_update_unit s = fold clear_ctx_log [0..<length (ctx_array s)] ?u"
    using len by (simp add: nvm_heap_update_unit_eq clear_redo_logs_def replay_logs_entries all_entries_def clear_cp_log_def split_beta Let_def)
  moreover have "rfold (act al) (map Clear_Ctx_Log [0..<length (ctx_array s)]) ?u = Inr (fold clear_ctx_log [0..<length (ctx_array s)] ?u)"
    by (rule clear_ctx_actions) (simp add: len)
  ultimately show ?thesis by (simp add: update_actions_def rfold_append replay_actions)
qed

text \<open>The parts on which these lists act, and on which they depend.\<close>

lemma parts_of_actions:
  "x \<in> set (check_actions s) \<Longrightarrow> part_of x = Object_Part"
  "x \<in> set (record_actions s) \<Longrightarrow> part_of x = Object_Part"
  "x \<in> set (free_actions s) \<Longrightarrow> part_of x = Free_Part"
  "x \<in> set (log_actions s) \<Longrightarrow> part_of x = Redo_Part"
  "x \<in> set (update_actions s) \<Longrightarrow> part_of x = Redo_Part"
  by (auto simp: check_actions_def record_actions_def record_ctx_def free_actions_def free_ctx_def log_actions_def
      log_ctx_actions_def region_actions_def update_actions_def)


lemma prev_parity_same: "same Redo_Part s t \<Longrightarrow> prev_parity s = prev_parity t"
  by (simp add: prev_parity_def)

lemma log_positions_same:
  assumes "same Object_Part s t"
  shows "log_positions s = log_positions t"
proof -
  have "block_positions s = block_positions t" using assms by (auto simp: block_positions_def)
  then show ?thesis by (intro ext) (simp add: log_positions_def)
qed

lemma concat_upto_same: "(\<And>i. i < n \<Longrightarrow> f i = g i) \<Longrightarrow> n = m \<Longrightarrow> concat (map f [0..<n]) = concat (map g [0..<m])"
  by (intro arg_cong [where f = concat] map_cong) auto

lemma check_actions_same:
  fixes s t :: "'j escort"
  assumes "same Object_Part s t" and "prev_parity s = prev_parity t"
  shows "check_actions s = check_actions t"
proof -
  have "prev_positions u = concat (map (\<lambda>l. log_positions u (l (prev_parity u))) (map uc_allocatorlog (ctx_array u)))"
    for u :: "'j escort"
    unfolding prev_positions_def map_map comp_def ..
  moreover have "map uc_allocatorlog (ctx_array s) = map uc_allocatorlog (ctx_array t)" using assms(1) by simp
  ultimately have "prev_positions s = prev_positions t" using assms(2) log_positions_same [OF assms(1)] by (simp only:)
  then show ?thesis using assms(2) by (simp add: check_actions_def)
qed

lemma record_actions_same:
  assumes "same Object_Part s t" and "prev_parity s = prev_parity t"
  shows "record_actions s = record_actions t"
proof -
  have "record_ctx s i = record_ctx t i" if "i < length (ctx_array s)" for i
    using same_ctx_nth(3) [OF assms(1) that] log_positions_same [OF assms(1)] assms(2) by (simp add: record_ctx_def)
  then show ?thesis unfolding record_actions_def by (intro concat_upto_same same_length [OF assms(1)])
qed

lemma free_actions_same:
  assumes "same Free_Part s t" and "prev_parity s = prev_parity t"
  shows "free_actions s = free_actions t"
proof -
  have "free_ctx s i = free_ctx t i" if "i < length (ctx_array s)" for i
    using same_ctx_nth(4) [OF assms(1) that] assms(2) by (simp add: free_ctx_def)
  then show ?thesis unfolding free_actions_def by (intro concat_upto_same same_length [OF assms(1)])
qed

lemma log_actions_same:
  assumes "same Redo_Part s t"
  shows "log_actions s = log_actions t"
proof -
  have "log_ctx_actions s i = log_ctx_actions t i" if "i < length (ctx_array s)" for i
    using same_ctx_nth(2) [OF assms that] prev_parity_same [OF assms] by (simp add: log_ctx_actions_def redo_ctx_def)
  then show ?thesis unfolding log_actions_def by (intro concat_upto_same same_length [OF assms])
qed

lemma update_actions_same:
  fixes s t :: "'j escort"
  assumes "same Redo_Part s t"
  shows "update_actions s = update_actions t"
proof -
  have "map uc_log (ctx_array s) = map (snd \<circ> snd) (map redo_ctx (ctx_array s))" for s :: "'j escort"
    by (simp add: redo_ctx_def)
  then have "map uc_log (ctx_array s) = map uc_log (ctx_array t)" using assms by (simp only: same.simps)
  then have "all_entries s = all_entries t" using assms by (simp add: all_entries_def redo_logs_def)
  then show ?thesis using same_length [OF assms] by (simp add: update_actions_def)
qed

end
