(* ===== verification/HelperThreads.thy ===== *)
theory HelperThreads
  imports HelperActions
begin

section \<open>The helper threads of a checkpoint\<close>

text \<open>
  \<^verbatim>\<open>cpallocator_t\<close>, \<^verbatim>\<open>deallocator_t\<close> (\<^verbatim>\<open>src/src/cpallocator_t.hpp\<close>, \<^verbatim>\<open>src/src/deallocator_t.hpp\<close>) and the members of
  \<^verbatim>\<open>cpmaster_t\<close> that start and join their threads. The theory Checkpointing runs a pass to its end when it is started;
  here it runs on a thread of its own, action by action, until the checkpointing thread joins it. Shown: whatever the order in
  which the actions of the three threads come, a checkpoint does not get stuck, starts and joins threads only as
  \<^verbatim>\<open>std::thread\<close> allows, and ends in the state of the sequential model.
\<close>

subsection \<open>Threads\<close>

datatype job = Check_Valid | Checkpoint_Alogs | Dealloc

text \<open>
  A \<^verbatim>\<open>std::thread\<close>: without a thread; with one that has not read the state yet; with one that has still to
  perform these actions.
\<close>

datatype thread = No_Thread | Started job | Running "action list"

fun job_actions :: "job \<Rightarrow> 'j escort \<Rightarrow> action list" where
  "job_actions Check_Valid s = check_actions s"
| "job_actions Checkpoint_Alogs s = record_actions s"
| "job_actions Dealloc s = free_actions s"

text \<open>The assignment of a new thread; \<^verbatim>\<open>join\<close>, where \<open>None\<close> says that it has to wait.\<close>

definition thread_run :: "job \<Rightarrow> thread \<Rightarrow> thread res" where
  "thread_run j th = (if th = No_Thread then Inr (Started j) else Inl Terminated)"

definition thread_join :: "thread \<Rightarrow> thread res option" where
  "thread_join th = (case th of No_Thread \<Rightarrow> Some (Inl Terminated) | Started j \<Rightarrow> None
     | Running as \<Rightarrow> if as = [] then Some (Inr No_Thread) else None)"

definition thread_step :: "'j allocator \<Rightarrow> thread \<times> 'j escort \<Rightarrow> (thread \<times> 'j escort) res option" where
  "thread_step al = (\<lambda>(th, s). case th of No_Thread \<Rightarrow> None
     | Started j \<Rightarrow> Some (Inr (Running (job_actions j s), s))
     | Running as \<Rightarrow> (case as of [] \<Rightarrow> None | a # as \<Rightarrow> Some (rbind (act al a s) (\<lambda>s. Inr (Running as, s)))))"

text \<open>What the checkpointing thread does from the phase \<open>Log_Persistence\<close> on.\<close>

datatype cmd = Do action | Run_Dealloc | Join_Dealloc | Run_Check_Valid | Run_Checkpointing | Join_Cpallocator | Log_Loop | Update_Loop

definition log_persistence_cmds :: "cmd list" where
  "log_persistence_cmds = [Run_Check_Valid, Log_Loop, Join_Cpallocator]"

definition nvm_heap_update_cmds :: "cmd list" where
  "nvm_heap_update_cmds = [Run_Checkpointing, Update_Loop, Join_Cpallocator]"

definition round_cmds :: "epoch_t \<Rightarrow> cmd list" where
  "round_cmds epoch = Run_Dealloc # log_persistence_cmds @ Do (Enter epoch NVM_Heap_Update) # nvm_heap_update_cmds @ [Join_Dealloc]"

record 'j cfg =
  cf_cmds :: "cmd list"
  cf_deallocator :: thread
  cf_cpallocator :: thread
  cf_st :: "'j escort"

definition run_deallocator :: "'j cfg \<Rightarrow> 'j cfg res" where
  "run_deallocator c = rbind (thread_run Dealloc (cf_deallocator c)) (\<lambda>th. Inr (c\<lparr>cf_deallocator := th\<rparr>))"

definition join_deallocator :: "'j cfg \<Rightarrow> 'j cfg res option" where
  "join_deallocator c = map_option (\<lambda>r. rbind r (\<lambda>th. Inr (c\<lparr>cf_deallocator := th\<rparr>))) (thread_join (cf_deallocator c))"

definition run_check_valid_cpallocator :: "'j cfg \<Rightarrow> 'j cfg res" where
  "run_check_valid_cpallocator c = rbind (thread_run Check_Valid (cf_cpallocator c)) (\<lambda>th. Inr (c\<lparr>cf_cpallocator := th\<rparr>))"

definition run_checkpointing_cpallocator :: "'j cfg \<Rightarrow> 'j cfg res" where
  "run_checkpointing_cpallocator c = rbind (thread_run Checkpoint_Alogs (cf_cpallocator c)) (\<lambda>th. Inr (c\<lparr>cf_cpallocator := th\<rparr>))"

definition join_cpallocator :: "'j cfg \<Rightarrow> 'j cfg res option" where
  "join_cpallocator c = map_option (\<lambda>r. rbind r (\<lambda>th. Inr (c\<lparr>cf_cpallocator := th\<rparr>))) (thread_join (cf_cpallocator c))"

fun cmd_step :: "'j allocator \<Rightarrow> cmd \<Rightarrow> 'j cfg \<Rightarrow> 'j cfg res option" where
  "cmd_step al (Do a) c = Some (rbind (act al a (cf_st c)) (\<lambda>s. Inr (c\<lparr>cf_st := s\<rparr>)))"
| "cmd_step al Run_Dealloc c = Some (run_deallocator c)"
| "cmd_step al Join_Dealloc c = join_deallocator c"
| "cmd_step al Run_Check_Valid c = Some (run_check_valid_cpallocator c)"
| "cmd_step al Run_Checkpointing c = Some (run_checkpointing_cpallocator c)"
| "cmd_step al Join_Cpallocator c = join_cpallocator c"
| "cmd_step al Log_Loop c = Some (Inr (c\<lparr>cf_cmds := map Do (log_actions (cf_st c)) @ cf_cmds c\<rparr>))"
| "cmd_step al Update_Loop c = Some (Inr (c\<lparr>cf_cmds := map Do (update_actions (cf_st c)) @ cf_cmds c\<rparr>))"

text \<open>One step of one of the three threads. A failure of one thread is the end of the process.\<close>

inductive cstep :: "'j allocator \<Rightarrow> 'j cfg \<Rightarrow> 'j cfg res \<Rightarrow> bool" for al where
  step_master: "cf_cmds c = x # xs \<Longrightarrow> cmd_step al x (c\<lparr>cf_cmds := xs\<rparr>) = Some r \<Longrightarrow> cstep al c r"
| step_deallocator: "thread_step al (cf_deallocator c, cf_st c) = Some r \<Longrightarrow>
    cstep al c (rbind r (\<lambda>(th, s). Inr (c\<lparr>cf_deallocator := th, cf_st := s\<rparr>)))"
| step_cpallocator: "thread_step al (cf_cpallocator c, cf_st c) = Some r \<Longrightarrow>
    cstep al c (rbind r (\<lambda>(th, s). Inr (c\<lparr>cf_cpallocator := th, cf_st := s\<rparr>)))"

inductive csteps :: "'j allocator \<Rightarrow> nat \<Rightarrow> 'j cfg \<Rightarrow> 'j cfg res \<Rightarrow> bool" for al where
  csteps_0: "csteps al 0 c (Inr c)"
| csteps_Suc: "cstep al c (Inr d) \<Longrightarrow> csteps al n d r \<Longrightarrow> csteps al (Suc n) c r"
| csteps_fail: "cstep al c (Inl e) \<Longrightarrow> csteps al (Suc 0) c (Inl e)"

inductive_cases csteps_elim: "csteps al n c r"


subsection \<open>Completing a checkpoint in the order of the sequential model\<close>

text \<open>
  First what is left of the deallocator's pass, then what is left of the allocator logs' pass, then the commands, each pass
  at once when it is started. The number counts the steps.
\<close>

fun finish_thread :: "'j allocator \<Rightarrow> thread \<Rightarrow> 'j escort \<Rightarrow> ('j escort \<times> nat) res" where
  "finish_thread al No_Thread s = Inr (s, 0)"
| "finish_thread al (Started j) s = rbind (rfold (act al) (job_actions j s) s) (\<lambda>u. Inr (u, Suc (length (job_actions j s))))"
| "finish_thread al (Running as) s = rbind (rfold (act al) as s) (\<lambda>u. Inr (u, length as))"

fun finish_cmd :: "'j allocator \<Rightarrow> cmd \<Rightarrow> 'j escort \<Rightarrow> ('j escort \<times> nat) res" where
  "finish_cmd al (Do a) s = rbind (act al a s) (\<lambda>u. Inr (u, 0))"
| "finish_cmd al Run_Dealloc s = finish_thread al (Started Dealloc) s"
| "finish_cmd al Run_Check_Valid s = finish_thread al (Started Check_Valid) s"
| "finish_cmd al Run_Checkpointing s = finish_thread al (Started Checkpoint_Alogs) s"
| "finish_cmd al Log_Loop s = finish_thread al (Running (log_actions s)) s"
| "finish_cmd al Update_Loop s = finish_thread al (Running (update_actions s)) s"
| "finish_cmd al Join_Dealloc s = Inr (s, 0)"
| "finish_cmd al Join_Cpallocator s = Inr (s, 0)"

inductive finish_cmds :: "'j allocator \<Rightarrow> cmd list \<Rightarrow> 'j escort \<Rightarrow> 'j escort \<Rightarrow> nat \<Rightarrow> bool" for al where
  finish_Nil: "finish_cmds al [] s s 0"
| finish_Cons: "finish_cmd al x s = Inr (u, n) \<Longrightarrow> finish_cmds al xs u v m \<Longrightarrow> finish_cmds al (x # xs) s v (Suc (n + m))"

inductive_simps finish_cmds_simps: "finish_cmds al [] s v n" "finish_cmds al (x # xs) s v n"

definition completes :: "'j allocator \<Rightarrow> 'j cfg \<Rightarrow> 'j escort \<Rightarrow> nat \<Rightarrow> bool" where
  "completes al c v n \<longleftrightarrow> (\<exists>s1 n1 s2 n2 n3. finish_thread al (cf_deallocator c) (cf_st c) = Inr (s1, n1) \<and>
     finish_thread al (cf_cpallocator c) s1 = Inr (s2, n2) \<and> finish_cmds al (cf_cmds c) s2 v n3 \<and> n = n1 + n2 + n3)"

text \<open>What each thread may do, and in which order threads are started and joined.\<close>

fun job_part :: "job \<Rightarrow> part" where
  "job_part Dealloc = Free_Part"
| "job_part _ = Object_Part"

fun thread_in :: "part \<Rightarrow> thread \<Rightarrow> bool" where
  "thread_in q No_Thread \<longleftrightarrow> True"
| "thread_in q (Started j) \<longleftrightarrow> job_part j = q"
| "thread_in q (Running as) \<longleftrightarrow> (\<forall>a \<in> set as. part_of a = q)"

definition keeps_parity :: "bool \<Rightarrow> action \<Rightarrow> bool" where
  "keeps_parity p a \<longleftrightarrow> (\<forall>e ph. a = Enter e ph \<longrightarrow> epoch_bit (Epoch e - 1) = p)"

fun usable :: "bool \<Rightarrow> bool \<Rightarrow> bool \<Rightarrow> cmd list \<Rightarrow> bool" where
  "usable p d c [] \<longleftrightarrow> \<not> d \<and> \<not> c"
| "usable p d c (Do a # xs) \<longleftrightarrow> part_of a = Redo_Part \<and> keeps_parity p a \<and> usable p d c xs"
| "usable p d c (Run_Dealloc # xs) \<longleftrightarrow> \<not> d \<and> \<not> c \<and> usable p True c xs"
| "usable p d c (Join_Dealloc # xs) \<longleftrightarrow> d \<and> usable p False c xs"
| "usable p d c (Run_Check_Valid # xs) \<longleftrightarrow> \<not> c \<and> usable p d True xs"
| "usable p d c (Run_Checkpointing # xs) \<longleftrightarrow> \<not> c \<and> usable p d True xs"
| "usable p d c (Join_Cpallocator # xs) \<longleftrightarrow> c \<and> usable p d False xs"
| "usable p d c (Log_Loop # xs) \<longleftrightarrow> usable p d c xs"
| "usable p d c (Update_Loop # xs) \<longleftrightarrow> usable p d c xs"

definition good :: "bool \<Rightarrow> 'j cfg \<Rightarrow> bool" where
  "good p c \<longleftrightarrow> thread_in Free_Part (cf_deallocator c) \<and> thread_in Object_Part (cf_cpallocator c) \<and>
     usable p (cf_deallocator c \<noteq> No_Thread) (cf_cpallocator c \<noteq> No_Thread) (cf_cmds c) \<and> prev_parity (cf_st c) = p"

lemma usable_actions:
  "\<forall>a \<in> set as. part_of a = Redo_Part \<and> keeps_parity p a \<Longrightarrow> usable p d c (map Do as @ xs) \<longleftrightarrow> usable p d c xs"
  by (induction as) simp_all

lemma loop_keeps_parity:
  "a \<in> set (log_actions s) \<Longrightarrow> keeps_parity p a" "a \<in> set (update_actions s) \<Longrightarrow> keeps_parity p a"
  by (auto simp: keeps_parity_def log_actions_def log_ctx_actions_def region_actions_def update_actions_def)

lemma act_parity:
  assumes "act al a s = Inr u" and "keeps_parity p a" and "prev_parity s = p"
  shows "prev_parity u = p"
proof (cases "part_of a = Redo_Part")
  case False
  then have "same Redo_Part s u" by (intro act_frame [OF assms(1)]) simp
  then show ?thesis using assms(3) prev_parity_same by blast
next
  case True
  show ?thesis
  proof (cases a)
    case (Enter e ph)
    then have "\<exists>e'. set_phase e ph = Inr e' \<and> GLOBAL_EPOCH u = e'"
      using assms(1) by (auto simp: enter_phase_def res_simps)
    then show ?thesis using Enter assms(2) by (auto simp: prev_parity_def keeps_parity_def dest: set_phase_bits(1))
  qed (use True assms(1,3) in \<open>auto simp: prev_parity_def log_line_def clear_list_def replay_entry_def clear_cp_log_def
      clear_ctx_log_def Let_def split_beta res_simps split: if_splits\<close>)
qed

lemma job_actions_in: "x \<in> set (job_actions j s) \<Longrightarrow> part_of x = job_part j"
  by (cases j) (auto dest: parts_of_actions)

lemma job_actions_same: "same (job_part j) s t \<Longrightarrow> prev_parity s = prev_parity t \<Longrightarrow> job_actions j s = job_actions j t"
  by (cases j) (auto intro!: check_actions_same record_actions_same free_actions_same simp del: same.simps)

lemma finish_thread_actions:
  assumes "finish_thread al th s = Inr (u, n)" and "thread_in q th"
  obtains as where "rfold (act al) as s = Inr u" and "\<forall>a \<in> set as. part_of a = q"
proof (cases th)
  case No_Thread
  then show ?thesis using assms(1) that [of "[]"] by simp
next
  case (Started j)
  then show ?thesis using assms that [of "job_actions j s"] job_actions_in by (auto simp: res_simps)
next
  case (Running as)
  then show ?thesis using assms that [of as] by (auto simp: res_simps)
qed

lemma finish_thread_frame:
  assumes "finish_thread al th s = Inr (u, n)" and "thread_in q th" and "r \<noteq> q"
  shows "same r s u"
proof -
  obtain as where "rfold (act al) as s = Inr u" and "\<forall>a \<in> set as. part_of a = q"
    using finish_thread_actions [OF assms(1,2)] .
  then show ?thesis using parts.acts_on_frame_list [of as q "act al" s u r] act_acts_on assms(3) by metis
qed

lemma actions_swap:
  assumes "rfold (act al) as s = Inr u" and "\<forall>x \<in> set as. part_of x = q" and "act al a u = Inr v" and "part_of a \<noteq> q"
  shows "\<exists>w. act al a s = Inr w \<and> rfold (act al) as w = Inr v"
proof -
  have on: "parts.acts_on q (act al x)" if "x \<in> set as" for x
    using act_acts_on [of x al] assms(2) that by simp
  show ?thesis by (rule parts.acts_on_swap_list [OF on act_acts_on _ assms(1,3)]) (use assms(4) in auto)
qed

text \<open>An action of one thread can come before what is left of the pass of another.\<close>

lemma finish_thread_swap:
  assumes fin: "finish_thread al th s = Inr (u, n)" and th: "thread_in q th" and a: "act al a u = Inr v" "part_of a \<noteq> q"
    and par: "keeps_parity p a" "prev_parity s = p"
  shows "\<exists>w. act al a s = Inr w \<and> finish_thread al th w = Inr (v, n)"
proof (cases th)
  case No_Thread
  then show ?thesis using fin a by simp
next
  case (Started j)
  let ?as = "job_actions j s"
  have r: "rfold (act al) ?as s = Inr u" "n = Suc (length ?as)" "job_part j = q"
    using fin th Started by (auto simp: res_simps)
  then obtain w where w: "act al a s = Inr w" "rfold (act al) ?as w = Inr v"
    using actions_swap [OF r(1) _ a] job_actions_in by blast
  have "same (job_part j) s w" by (rule act_frame [OF w(1)]) (use r(3) a(2) in auto)
  then have "job_actions j w = ?as" using job_actions_same act_parity [OF w(1) par] par(2) by metis
  then show ?thesis using w r(2) Started by simp
next
  case (Running as)
  then have r: "rfold (act al) as s = Inr u" "n = length as" "\<forall>x \<in> set as. part_of x = q"
    using fin th by (auto simp: res_simps)
  with actions_swap [OF r(1,3) a] Running show ?thesis by auto
qed


subsection \<open>Every step\<close>

lemma deallocator_step:
  assumes "good p c" and "completes al c v n" and "thread_step al (cf_deallocator c, cf_st c) = Some r"
  shows "\<exists>th s m. r = Inr (th, s) \<and> n = Suc m \<and> good p (c\<lparr>cf_deallocator := th, cf_st := s\<rparr>) \<and>
    completes al (c\<lparr>cf_deallocator := th, cf_st := s\<rparr>) v m"
proof (cases "cf_deallocator c")
  case No_Thread
  then show ?thesis using assms(3) by (simp add: thread_step_def)
next
  case (Started j)
  then show ?thesis using assms
    by (auto simp: thread_step_def completes_def good_def res_simps job_actions_in)
next
  case (Running as)
  then obtain a as' where a: "as = a # as'" using assms(3) by (cases as) (auto simp: thread_step_def)
  obtain u where u: "act al a (cf_st c) = Inr u" using assms(2) Running a by (auto simp: completes_def res_simps)
  have "keeps_parity p a" using assms(1) Running a by (cases a) (auto simp: good_def keeps_parity_def)
  then have "prev_parity u = p" using act_parity [OF u] assms(1) by (simp add: good_def)
  then show ?thesis using assms Running a u
    by (auto simp: thread_step_def completes_def good_def res_simps)
qed

lemma cpallocator_step:
  assumes g: "good p c" and fin: "completes al c v n" and st: "thread_step al (cf_cpallocator c, cf_st c) = Some r"
  shows "\<exists>th s m. r = Inr (th, s) \<and> n = Suc m \<and> good p (c\<lparr>cf_cpallocator := th, cf_st := s\<rparr>) \<and>
    completes al (c\<lparr>cf_cpallocator := th, cf_st := s\<rparr>) v m"
proof -
  obtain s1 n1 s2 n2 n3 where f: "finish_thread al (cf_deallocator c) (cf_st c) = Inr (s1, n1)"
    "finish_thread al (cf_cpallocator c) s1 = Inr (s2, n2)" "finish_cmds al (cf_cmds c) s2 v n3" "n = n1 + n2 + n3"
    using fin unfolding completes_def by blast
  have d: "thread_in Free_Part (cf_deallocator c)" and par: "prev_parity (cf_st c) = p" using g by (simp_all add: good_def)
  have same1: "same q (cf_st c) s1" if "q \<noteq> Free_Part" for q by (rule finish_thread_frame [OF f(1) d that])
  show ?thesis
  proof (cases "cf_cpallocator c")
    case No_Thread
    then show ?thesis using st by (simp add: thread_step_def)
  next
    case (Started j)
    have "job_part j = Object_Part" using g Started by (simp add: good_def)
    then have "job_actions j (cf_st c) = job_actions j s1"
      using job_actions_same [of j "cf_st c" s1] same1 [of Object_Part] prev_parity_same [OF same1 [of Redo_Part]] by simp
    then have "completes al (c\<lparr>cf_cpallocator := Running (job_actions j (cf_st c))\<rparr>) v (n - 1) \<and> 0 < n"
      using f Started by (auto simp: completes_def res_simps)
    then show ?thesis using st Started g job_actions_in [of _ j "cf_st c"]
      by (auto simp: thread_step_def good_def intro!: exI [of _ "n - 1"])
  next
    case (Running as)
    then obtain a as' where a: "as = a # as'" using st by (cases as) (auto simp: thread_step_def)
    obtain t where t: "act al a s1 = Inr t" "rfold (act al) as' t = Inr s2" and n2: "n2 = Suc (length as')"
      using f(2) Running a by (auto simp: res_simps)
    have pa: "part_of a = Object_Part" using g Running a by (simp add: good_def)
    then have k: "keeps_parity p a" by (cases a) (auto simp: keeps_parity_def)
    obtain w where w: "act al a (cf_st c) = Inr w" "finish_thread al (cf_deallocator c) w = Inr (t, n1)"
      using finish_thread_swap [OF f(1) d t(1) _ k par] pa by auto
    have "completes al (c\<lparr>cf_cpallocator := Running as', cf_st := w\<rparr>) v (n - 1) \<and> 0 < n"
      using w(2) t(2) f(3,4) n2 by (auto simp: completes_def)
    then show ?thesis using st Running a w(1) g act_parity [OF w(1) k par]
      by (auto simp: thread_step_def good_def intro!: exI [of _ "n - 1"])
  qed
qed

lemma master_do_step:
  assumes g: "good p c" and fin: "completes al c v n" and c: "cf_cmds c = Do a # xs"
  shows "\<exists>s m. act al a (cf_st c) = Inr s \<and> n = Suc m \<and> good p (c\<lparr>cf_cmds := xs, cf_st := s\<rparr>) \<and>
    completes al (c\<lparr>cf_cmds := xs, cf_st := s\<rparr>) v m"
proof -
  obtain s1 n1 s2 n2 n3 where f: "finish_thread al (cf_deallocator c) (cf_st c) = Inr (s1, n1)"
    "finish_thread al (cf_cpallocator c) s1 = Inr (s2, n2)" "finish_cmds al (cf_cmds c) s2 v n3" "n = n1 + n2 + n3"
    using fin unfolding completes_def by blast
  obtain s3 m where a: "act al a s2 = Inr s3" "finish_cmds al xs s3 v m" "n3 = Suc m"
    using f(3) c by (auto simp: finish_cmds_simps res_simps)
  have th: "thread_in Free_Part (cf_deallocator c)" "thread_in Object_Part (cf_cpallocator c)"
    and k: "part_of a = Redo_Part" "keeps_parity p a" and par: "prev_parity (cf_st c) = p"
    using g c by (simp_all add: good_def)
  have "same Redo_Part (cf_st c) s1" using finish_thread_frame [OF f(1) th(1), of Redo_Part] by simp
  then have par1: "prev_parity s1 = p" using prev_parity_same par by blast
  obtain w1 where w1: "act al a s1 = Inr w1" "finish_thread al (cf_cpallocator c) w1 = Inr (s3, n2)"
    using finish_thread_swap [OF f(2) th(2) a(1) _ k(2) par1] k(1) by auto
  obtain w where w: "act al a (cf_st c) = Inr w" "finish_thread al (cf_deallocator c) w = Inr (w1, n1)"
    using finish_thread_swap [OF f(1) th(1) w1(1) _ k(2) par] k(1) by auto
  have "completes al (c\<lparr>cf_cmds := xs, cf_st := w\<rparr>) v (n - 1) \<and> 0 < n"
    using w(2) w1(2) a(2,3) f(4) by (auto simp: completes_def)
  then show ?thesis using w(1) g c act_parity [OF w(1) k(2) par]
    by (auto simp: good_def intro!: exI [of _ "n - 1"])
qed


lemma finish_cmds_actions:
  "rfold (act al) as s = Inr u \<Longrightarrow> finish_cmds al xs u v m \<Longrightarrow> finish_cmds al (map Do as @ xs) s v (length as + m)"
  by (induction as arbitrary: s) (auto simp: finish_cmds_simps res_simps)

lemma loop_step:
  assumes g: "good p c" and fin: "completes al c v n" and c: "cf_cmds c = x # xs"
    and x: "x = Log_Loop \<and> f = log_actions \<or> x = Update_Loop \<and> f = update_actions"
  shows "\<exists>m. n = Suc m \<and> good p (c\<lparr>cf_cmds := map Do (f (cf_st c)) @ xs\<rparr>) \<and>
    completes al (c\<lparr>cf_cmds := map Do (f (cf_st c)) @ xs\<rparr>) v m"
proof -
  obtain s1 n1 s2 n2 n3 where fi: "finish_thread al (cf_deallocator c) (cf_st c) = Inr (s1, n1)"
    "finish_thread al (cf_cpallocator c) s1 = Inr (s2, n2)" "finish_cmds al (cf_cmds c) s2 v n3" "n = n1 + n2 + n3"
    using fin unfolding completes_def by blast
  obtain s3 m where a: "rfold (act al) (f s2) s2 = Inr s3" "finish_cmds al xs s3 v m" "n3 = Suc (length (f s2) + m)"
    using fi(3) c x by (auto simp: finish_cmds_simps res_simps)
  have th: "thread_in Free_Part (cf_deallocator c)" "thread_in Object_Part (cf_cpallocator c)" using g by (simp_all add: good_def)
  have "same Redo_Part (cf_st c) s1" "same Redo_Part s1 s2"
    using finish_thread_frame [OF fi(1) th(1), of Redo_Part] finish_thread_frame [OF fi(2) th(2), of Redo_Part] by simp_all
  then have "same Redo_Part (cf_st c) s2" using parts.same_trans by blast
  then have eq: "f (cf_st c) = f s2" using x log_actions_same update_actions_same by blast
  have in_part: "\<forall>a \<in> set (f (cf_st c)). part_of a = Redo_Part \<and> keeps_parity p a"
    using x parts_of_actions(4,5) loop_keeps_parity by blast
  have "completes al (c\<lparr>cf_cmds := map Do (f (cf_st c)) @ xs\<rparr>) v (n - 1) \<and> 0 < n"
    using fi finish_cmds_actions [OF a(1,2)] a(3) by (auto simp: completes_def eq intro!: exI)
  then show ?thesis using g c x usable_actions [OF in_part]
    by (auto simp: good_def intro!: exI [of _ "n - 1"])
qed

lemma master_step:
  assumes g: "good p c" and fin: "completes al c v n" and c: "cf_cmds c = x # xs"
    and st: "cmd_step al x (c\<lparr>cf_cmds := xs\<rparr>) = Some r"
  shows "\<exists>d m. r = Inr d \<and> n = Suc m \<and> good p d \<and> completes al d v m"
proof (cases x)
  case (Do a)
  then show ?thesis using master_do_step [OF g fin, of a xs] c st by auto
next
  case Log_Loop
  then show ?thesis using loop_step [OF g fin c, of log_actions] st by auto
next
  case Update_Loop
  then show ?thesis using loop_step [OF g fin c, of update_actions] st by auto
next
  case Run_Dealloc
  then show ?thesis using g fin c st
    by (auto simp: good_def completes_def run_deallocator_def thread_run_def finish_cmds_simps res_simps)
next
  case Run_Check_Valid
  then show ?thesis using g fin c st
    by (auto simp: good_def completes_def run_check_valid_cpallocator_def thread_run_def finish_cmds_simps res_simps)
next
  case Run_Checkpointing
  then show ?thesis using g fin c st
    by (auto simp: good_def completes_def run_checkpointing_cpallocator_def thread_run_def finish_cmds_simps res_simps)
next
  case Join_Dealloc
  then have "cf_deallocator c = Running []" using g c st
    by (auto simp: good_def join_deallocator_def thread_join_def split: thread.splits if_splits)
  then show ?thesis using Join_Dealloc g fin c st
    by (auto simp: good_def completes_def join_deallocator_def thread_join_def finish_cmds_simps)
next
  case Join_Cpallocator
  then have "cf_cpallocator c = Running []" using g c st
    by (auto simp: good_def join_cpallocator_def thread_join_def split: thread.splits if_splits)
  then show ?thesis using Join_Cpallocator g fin c st
    by (auto simp: good_def completes_def join_cpallocator_def thread_join_def finish_cmds_simps)
qed

lemma cstep_completes:
  assumes "cstep al c r" and "good p c" and "completes al c v n"
  shows "\<exists>d m. r = Inr d \<and> n = Suc m \<and> good p d \<and> completes al d v m"
  using assms(1)
proof cases
  case (step_master x xs)
  then show ?thesis using master_step assms(2,3) by blast
next
  case (step_deallocator r')
  then show ?thesis using deallocator_step [OF assms(2,3)] by auto
next
  case (step_cpallocator r')
  then show ?thesis using cpallocator_step [OF assms(2,3)] by auto
qed

lemma csteps_completes:
  assumes "csteps al k c r" and "good p c" and "completes al c v n"
  shows "\<exists>d. r = Inr d \<and> k \<le> n \<and> good p d \<and> completes al d v (n - k)"
  using assms
proof (induction arbitrary: n rule: csteps.induct)
  case (csteps_0 c)
  then show ?case by simp
next
  case (csteps_Suc c d k r)
  obtain m where m: "n = Suc m" "good p d" "completes al d v m"
    using cstep_completes [OF csteps_Suc.hyps(1) csteps_Suc.prems] by auto
  from csteps_Suc.IH [OF m(2,3)] m(1) show ?case by auto
next
  case (csteps_fail c e)
  from cstep_completes [OF csteps_fail.hyps csteps_fail.prems] show ?case by auto
qed

text \<open>As long as something is left, some thread can take a step.\<close>

lemma thread_busy: "thread_step al (th, s) = None \<Longrightarrow> th = No_Thread \<or> th = Running []"
  by (auto simp: thread_step_def split: thread.splits list.splits)

lemma cstep_progress:
  assumes g: "good p c" and fin: "completes al c v n"
  shows "(\<exists>r. cstep al c r) \<or> n = 0 \<and> c = \<lparr>cf_cmds = [], cf_deallocator = No_Thread, cf_cpallocator = No_Thread, cf_st = v\<rparr>"
proof (cases "thread_step al (cf_deallocator c, cf_st c) = None \<and> thread_step al (cf_cpallocator c, cf_st c) = None")
  case False
  then obtain r where "thread_step al (cf_deallocator c, cf_st c) = Some r \<or> thread_step al (cf_cpallocator c, cf_st c) = Some r"
    by auto
  then show ?thesis using cstep.intros(2,3) by blast
next
  case idle: True
  then have th: "cf_deallocator c = No_Thread \<or> cf_deallocator c = Running []" "cf_cpallocator c = No_Thread \<or> cf_cpallocator c = Running []"
    using thread_busy by blast+
  show ?thesis
  proof (cases "cf_cmds c")
    case Nil
    then have "cf_deallocator c = No_Thread" "cf_cpallocator c = No_Thread" using g by (simp_all add: good_def)
    then show ?thesis using fin Nil by (auto simp: completes_def finish_cmds_simps intro!: cfg.equality)
  next
    case (Cons x xs)
    have "\<exists>r. cmd_step al x (c\<lparr>cf_cmds := xs\<rparr>) = Some r"
      using th by (cases x) (auto simp: join_deallocator_def join_cpallocator_def thread_join_def)
    then show ?thesis using cstep.intros(1) [OF Cons] by blast
  qed
qed

subsection \<open>A round\<close>

lemma alloc_ok_same:
  fixes s t :: "'j escort"
  assumes "same Object_Part s t" and "alloc_ok s"
  shows "alloc_ok t"
proof -
  have "alogs u = concat (map (\<lambda>l. [l False, l True]) (map uc_allocatorlog (ctx_array u)))" for u :: "'j escort"
    by (simp add: alogs_def comp_def)
  moreover have "map uc_allocatorlog (ctx_array s) = map uc_allocatorlog (ctx_array t)" using assms(1) by simp
  ultimately have "alogs s = alogs t" by (simp only:)
  then show ?thesis using assms by (simp add: alloc_ok_def)
qed


definition round_start :: "epoch_t \<Rightarrow> 'j escort \<Rightarrow> 'j cfg" where
  "round_start e s = \<lparr>cf_cmds = round_cmds e, cf_deallocator = No_Thread, cf_cpallocator = No_Thread, cf_st = s\<rparr>"

definition round_end :: "'j escort \<Rightarrow> 'j cfg" where
  "round_end s = \<lparr>cf_cmds = [], cf_deallocator = No_Thread, cf_cpallocator = No_Thread, cf_st = s\<rparr>"

lemma round_good: "Epoch e = Epoch (GLOBAL_EPOCH s) \<Longrightarrow> good (prev_parity s) (round_start e s)"
  by (simp add: good_def round_start_def round_cmds_def log_persistence_cmds_def nvm_heap_update_cmds_def
      keeps_parity_def prev_parity_def)

lemma actions_alloc_ok:
  assumes "rfold (act al) as s = Inr u" and "\<forall>a \<in> set as. part_of a \<noteq> Object_Part" and "alloc_ok s"
  shows "alloc_ok u"
  using assms(1)
proof (rule rfold_invariant [where I = alloc_ok])
  fix a t w assume a: "a \<in> set as" "alloc_ok t" "act al a t = Inr w"
  have "same Object_Part t w" by (rule act_frame [OF a(3)]) (use a(1) assms(2) in auto)
  then show "alloc_ok w" using alloc_ok_same a(2) by blast
qed (rule assms(3))

lemma round_completes:
  assumes ok: "alloc_ok s" and d: "dealloc al s = Inr s1" and l: "log_persistence True s1 = Inr s2"
    and e: "enter_phase e NVM_Heap_Update s2 = Inr (e', s3)" and u: "nvm_heap_update True s3 = Inr s4"
  shows "\<exists>n. completes al (round_start e s) s4 n"
proof -
  note free = dealloc_actions [OF d]
  obtain t1 where t1: "check_valid s1 = Inr t1" "log_persistence_unit t1 = Inr s2"
    using l by (auto simp: log_persistence_def res_simps)
  obtain t3 where t3: "cpallocator_checkpointing s3 = Inr t3" "s4 = nvm_heap_update_unit t3"
    using u by (auto simp: nvm_heap_update_def res_simps)
  note log = log_loop_actions [OF t1(2), of al]
  have "alloc_ok s1" using dealloc_alloc_ok [OF d ok] .
  then have ok1: "alloc_ok t1" using check_valid_effect [of s1] t1(1) by auto
  have "alloc_ok s2" by (rule actions_alloc_ok [OF log _ ok1]) (auto dest: parts_of_actions)
  moreover have "same Object_Part s2 s3" using e by (auto simp: enter_phase_def res_simps)
  ultimately have "alloc_ok s3" using alloc_ok_same by blast
  note rec = record_pass_actions [OF this t3(1), of al]
  have check: "rfold (act al) (check_actions s1) s1 = Inr t1" using check_valid_actions [of s1 al] t1(1) by simp
  show ?thesis
    unfolding completes_def round_start_def round_cmds_def log_persistence_cmds_def nvm_heap_update_cmds_def
    by (simp add: finish_cmds_simps free check log e rec t3(2) update_loop_actions split_beta)
qed

text \<open>However the three threads are scheduled.\<close>

lemma round_scheduled:
  assumes "alloc_ok s" and "dealloc al s = Inr s1" and "log_persistence True s1 = Inr s2"
    and "enter_phase e NVM_Heap_Update s2 = Inr (e', s3)" and "nvm_heap_update True s3 = Inr s4"
    and "Epoch e = Epoch (GLOBAL_EPOCH s)"
  obtains n where "\<And>k r. csteps al k (round_start e s) r \<Longrightarrow> k \<le> n \<and>
    (\<exists>c. r = Inr c \<and> (if k = n then c = round_end s4 else \<exists>r'. cstep al c r'))"
proof -
  obtain n where n: "completes al (round_start e s) s4 n" using round_completes [OF assms(1-5)] by blast
  show ?thesis
  proof (rule that [of n])
    fix k r assume "csteps al k (round_start e s) r"
    then obtain c where c: "r = Inr c" "k \<le> n" "good (prev_parity s) c" "completes al c s4 (n - k)"
      using csteps_completes [OF _ round_good [OF assms(6)] n] by blast
    have "k = n \<Longrightarrow> \<nexists>r. cstep al c r" using cstep_completes [OF _ c(3,4)] by fastforce
    with cstep_progress [OF c(3,4)] c(1,2)
    show "k \<le> n \<and> (\<exists>c. r = Inr c \<and> (if k = n then c = round_end s4 else \<exists>r'. cstep al c r'))"
      by (auto simp: round_end_def)
  qed
qed

end
