(* ===== verification/HelperSteps.thy ===== *)
theory HelperSteps
  imports HelperThreads
begin

section \<open>Helper threads beside user threads\<close>

text \<open>
  In \<open>sys_step\<close> a pass of a helper thread is one step. Here the passes run on threads of their own, one action at a time
  (\<open>thread_step\<close>), and the actions come between the operations of user threads and the small steps of the checkpointing thread, in
  any order. The checkpointing thread starts and joins the helpers where \<^verbatim>\<open>checkpointing\<close> (\<^verbatim>\<open>src/src/checkpointing.cpp\<close>) does:
  both start in the phase \<open>Log_Persistence\<close>; the thread of \<^verbatim>\<open>cpallocator_t\<close> is joined before the commit, starts anew after it, and both are joined
  before the right to execute is released, so that no context is added and no epoch closed while one of them runs.

  Shown: every such step is simulated by the line machine as before; and what user threads do meanwhile does
  not disturb the helpers, since they record under the parity of the current epoch.
\<close>

subsection \<open>The steps\<close>

record 'j hsys =
  hs_sys :: "'j sys"
  hs_deallocator :: thread
  hs_cpallocator :: thread

abbreviation hs_st :: "'j hsys \<Rightarrow> 'j escort" where
  "hs_st c \<equiv> sys_st (hs_sys c)"

definition put_st :: "'j escort \<Rightarrow> 'j hsys \<Rightarrow> 'j hsys" where
  "put_st s c = c\<lparr>hs_sys := (hs_sys c)\<lparr>sys_st := s\<rparr>\<rparr>"

text \<open>
  What a step of the checkpointing thread from one place to another does to the deallocator's thread and to that of \<^verbatim>\<open>cpallocator_t\<close>;
  \<open>None\<close>: it has to wait.
\<close>

fun handover :: "cp_pc \<Rightarrow> cp_pc \<Rightarrow> thread \<times> thread \<Rightarrow> (thread \<times> thread) res option" where
  "handover Cp_Idle (Cp_Wait _) (d, a) = (if d = No_Thread \<and> a = No_Thread then Some (Inr (d, a)) else None)"
| "handover (Cp_Wait _) (Cp_NextCtx _) (d, a) =
     Some (rbind (thread_run Dealloc d) (\<lambda>d. rbind (thread_run Check_Valid a) (\<lambda>a. Inr (d, a))))"
| "handover (Cp_NextCtx _) (Cp_Update _ _) (d, a) =
     map_option (\<lambda>r. rbind r (\<lambda>a. rbind (thread_run Checkpoint_Alogs a) (\<lambda>a. Inr (d, a)))) (thread_join a)"
| "handover _ _ th = Some (Inr th)"

inductive hstep :: "'j allocator \<Rightarrow> 'j hsys \<Rightarrow> cacheline_t event \<Rightarrow> 'j hsys res \<Rightarrow> bool" for al where
  h_init: "sys_pc (hs_sys c) = Cp_Idle \<Longrightarrow> hs_deallocator c = No_Thread \<Longrightarrow> hs_cpallocator c = No_Thread \<Longrightarrow>
    hstep al c Tau (Inr (put_st ((hs_st c)\<lparr>ctx_array := ctx_array (hs_st c) @ [userthreadctx_new]\<rparr>) c))"
| h_user: "user_step (hs_sys c) ev d \<Longrightarrow> hstep al c ev (Inr (c\<lparr>hs_sys := d\<rparr>))"
| h_malloc: "malloc_with_create_log al t sz (hs_st c) = Inr (p, s) \<Longrightarrow> fits p sz \<Longrightarrow> hstep al c Tau (Inr (put_st s c))"
| h_free: "free_with_create_log al t p sz (hs_st c) = Inr s \<Longrightarrow> fits p sz \<Longrightarrow> hstep al c Tau (Inr (put_st s c))"
| h_checkpointing: "cp_step (hs_sys c) ev d \<Longrightarrow>
    handover (sys_pc (hs_sys c)) (sys_pc d) (hs_deallocator c, hs_cpallocator c) = Some r \<Longrightarrow>
    hstep al c ev (rbind r (\<lambda>(x, y). Inr \<lparr>hs_sys = d, hs_deallocator = x, hs_cpallocator = y\<rparr>))"
| h_join_cpallocator: "sys_pc (hs_sys c) = Cp_Idle \<Longrightarrow> hs_cpallocator c \<noteq> No_Thread \<Longrightarrow>
    thread_join (hs_cpallocator c) = Some r \<Longrightarrow> hstep al c Tau (rbind r (\<lambda>th. Inr (c\<lparr>hs_cpallocator := th\<rparr>)))"
| h_join_deallocator: "sys_pc (hs_sys c) = Cp_Idle \<Longrightarrow> hs_cpallocator c = No_Thread \<Longrightarrow> hs_deallocator c \<noteq> No_Thread \<Longrightarrow>
    thread_join (hs_deallocator c) = Some r \<Longrightarrow> hstep al c Tau (rbind r (\<lambda>th. Inr (c\<lparr>hs_deallocator := th\<rparr>)))"
| h_deallocator: "thread_step al (hs_deallocator c, hs_st c) = Some r \<Longrightarrow>
    hstep al c Tau (rbind r (\<lambda>(th, s). Inr (put_st s (c\<lparr>hs_deallocator := th\<rparr>))))"
| h_cpallocator: "thread_step al (hs_cpallocator c, hs_st c) = Some r \<Longrightarrow>
    hstep al c Tau (rbind r (\<lambda>(th, s). Inr (put_st s (c\<lparr>hs_cpallocator := th\<rparr>))))"

inductive hrun :: "'j allocator \<Rightarrow> 'j hsys \<Rightarrow> cacheline_t event list \<Rightarrow> 'j hsys \<Rightarrow> bool"
  for al :: "'j allocator" and c0 :: "'j hsys" where
  hrun_start: "hrun al c0 [] c0"
| hrun_step: "hrun al c0 evs c \<Longrightarrow> hstep al c ev (Inr d) \<Longrightarrow> hrun al c0 (ev # evs) d"

text \<open>The checkpointing thread starts.\<close>

definition hs_init :: "'j escort \<Rightarrow> 'j hsys" where
  "hs_init s = \<lparr>hs_sys = sys_init s, hs_deallocator = No_Thread, hs_cpallocator = No_Thread\<rparr>"

lemma put_st_sel [simp]:
  "hs_st (put_st s c) = s" "sys_pc (hs_sys (put_st s c)) = sys_pc (hs_sys c)" "sys_epoch (hs_sys (put_st s c)) = sys_epoch (hs_sys c)"
  "hs_deallocator (put_st s c) = hs_deallocator c" "hs_cpallocator (put_st s c) = hs_cpallocator c"
  "hs_sys (put_st s c) = (hs_sys c)\<lparr>sys_st := s\<rparr>"
  by (simp_all add: put_st_def)

subsection \<open>Crash consistency\<close>

lemma same_heap_part: "same Redo_Part s t \<Longrightarrow> same_heap s t"
proof -
  have "redo_ctx = ctx_core" by (simp add: fun_eq_iff redo_ctx_def ctx_core_def)
  then show "same Redo_Part s t \<Longrightarrow> same_heap s t" by (simp add: same_heap_def)
qed

text \<open>What the threads of the helpers may hold at any time.\<close>

definition helpers_apart :: "'j hsys \<Rightarrow> bool" where
  "helpers_apart c \<longleftrightarrow> thread_in Free_Part (hs_deallocator c) \<and> thread_in Object_Part (hs_cpallocator c)"

lemma thread_step_in:
  assumes "thread_step al (th, s) = Some (Inr (th', s'))" and "thread_in q th"
  shows "thread_in q th' \<and> (\<forall>p. p \<noteq> q \<longrightarrow> same p s s')"
proof (cases th)
  case (Started j)
  then show ?thesis using assms job_actions_in [of _ j s] by (auto simp: thread_step_def parts.same_refl simp del: same.simps)
next
  case (Running as)
  then show ?thesis using assms act_frame by (fastforce simp: thread_step_def res_simps simp del: same.simps split: list.splits)
qed (use assms in \<open>simp add: thread_step_def\<close>)

lemma thread_join_in: "thread_join th = Some (Inr th') \<Longrightarrow> th' = No_Thread"
  by (auto simp: thread_join_def split: thread.splits if_splits)

lemma handover_in:
  "handover pc pc' (d, a) = Some (Inr (d', a')) \<Longrightarrow> thread_in Free_Part d \<Longrightarrow> thread_in Object_Part a \<Longrightarrow>
     thread_in Free_Part d' \<and> thread_in Object_Part a'"
  by (induction pc pc' "(d, a)" rule: handover.induct)
     (auto simp: res_simps thread_run_def split: if_splits dest!: thread_join_in)

lemma Inr_eq_rbind: "Inr d = rbind r f \<longleftrightarrow> (\<exists>x. r = Inr x \<and> f x = Inr d)"
  by (metis rbind_eq_Inr)

lemma hstep_apart:
  assumes "hstep al c ev (Inr d)" and "helpers_apart c"
  shows "helpers_apart d"
  using assms
  by (cases rule: hstep.cases)
     (auto simp: helpers_apart_def Inr_eq_rbind dest: handover_in thread_step_in thread_join_in)

lemma hstep_simulates:
  assumes "hstep al c ev (Inr d)" and "helpers_apart c" and "cinv (hs_sys c)" and "lm_inv (abs_sys (hs_sys c)) sp"
  shows "simulates (hs_sys c) ev (hs_sys d)"
proof -
  have stutter: "simulates (hs_sys c) Tau ((hs_sys c)\<lparr>sys_st := s\<rparr>)" if "same Redo_Part (hs_st c) s" for s
    by (rule same_heap_simulates [OF assms(3) same_heap_part [OF that]])
  have refl: "simulates (hs_sys c) Tau (hs_sys c)"
    using stutter [OF parts.same_refl] by simp
  from assms(1) show ?thesis
  proof cases
    case h_init
    then show ?thesis using sys_step_simulates [OF user_init assms(3,4)] by simp
  next
    case (h_user d')
    then show ?thesis using user_step_simulates assms(3,4) by auto
  next
    case (h_malloc t sz p s)
    then show ?thesis using sys_step_simulates [OF user_malloc assms(3,4)] by auto
  next
    case (h_free t p sz s)
    then show ?thesis using sys_step_simulates [OF user_free assms(3,4)] by auto
  next
    case (h_checkpointing d' r)
    then show ?thesis using cp_step_simulates [OF _ assms(3,4)] by (auto simp: Inr_eq_rbind)
  next
    case (h_deallocator r)
    then show ?thesis using thread_step_in [of al "hs_deallocator c" "hs_st c"] assms(2) stutter
      by (fastforce simp: Inr_eq_rbind helpers_apart_def simp del: same.simps)
  next
    case (h_cpallocator r)
    then show ?thesis using thread_step_in [of al "hs_cpallocator c" "hs_st c"] assms(2) stutter
      by (fastforce simp: Inr_eq_rbind helpers_apart_def simp del: same.simps)
  qed (use refl in \<open>auto simp: Inr_eq_rbind\<close>)
qed

lemma hrun_inv:
  assumes "hrun al (hs_init s) evs c" and "quiescent s"
  shows "cinv (hs_sys c) \<and> lm_inv (abs_sys (hs_sys c)) (spec_run evs (heap_image (dram s))) \<and> helpers_apart c"
  using assms
proof (induction rule: hrun.induct)
  case hrun_start
  then show ?case using quiescent_cinv [of s] by (simp add: spec_run_def hs_init_def helpers_apart_def)
next
  case (hrun_step evs c ev d)
  then have "simulates (hs_sys c) ev (hs_sys d)" using hstep_simulates by blast
  then show ?case using hrun_step hstep_apart lm_step_inv by (fastforce simp: simulates_def spec_run_def)
qed

end
