(* ===== verification/HelperRecords.thy ===== *)
theory HelperRecords
  imports HelperSteps AllocCheckpoint
begin

section \<open>What the helper threads achieve beside user threads\<close>

subsection \<open>What user threads leave to the helpers\<close>

text \<open>
  A step of another thread leaves the logs of the closed epoch and the map of objects on NVM as they are
  (\<open>objects_kept\<close>), and the delayed deallocations of the closed epoch too.
\<close>

definition objects_kept :: "'j escort \<Rightarrow> 'j escort \<Rightarrow> bool" where
  "objects_kept s s' \<longleftrightarrow> length (ctx_array s') = length (ctx_array s) \<and> prev_parity s' = prev_parity s \<and>
     ByteMap_NVM s' = ByteMap_NVM s \<and>
     (\<forall>t < length (ctx_array s). uc_allocatorlog (ctx_array s' ! t) (prev_parity s) = uc_allocatorlog (ctx_array s ! t) (prev_parity s)) \<and>
     (\<forall>b \<in> set (prev_blocks s). alog_entries (am_area (Allocatorlog_Management s') b) = alog_entries (am_area (Allocatorlog_Management s) b))"

definition undisturbed :: "'j escort \<Rightarrow> 'j escort \<Rightarrow> bool" where
  "undisturbed s s' \<longleftrightarrow> objects_kept s s' \<and>
     (\<forall>t < length (ctx_array s). uc_delay_dealloc (ctx_array s' ! t) (prev_parity s) = uc_delay_dealloc (ctx_array s ! t) (prev_parity s))"

lemma prev_blocks_nth: "prev_blocks s = concat (map (\<lambda>t. uc_allocatorlog (ctx_array s ! t) (prev_parity s)) [0..<length (ctx_array s)])"
  unfolding prev_blocks_def by (rule arg_cong [of _ _ concat], rule nth_equalityI) simp_all

lemma in_prev_blocks:
  "b \<in> set (prev_blocks s) \<longleftrightarrow> (\<exists>t < length (ctx_array s). b \<in> set (uc_allocatorlog (ctx_array s ! t) (prev_parity s)))"
  unfolding prev_blocks_nth by auto

lemma undisturbed_refl [simp]: "undisturbed s s"
  by (simp add: undisturbed_def objects_kept_def)

lemma objects_kept_blocks: "objects_kept s s' \<Longrightarrow> prev_blocks s' = prev_blocks s"
  unfolding prev_blocks_nth objects_kept_def by (auto intro!: arg_cong [of _ _ concat])

lemma undisturbed_trans: "undisturbed s u \<Longrightarrow> undisturbed u v \<Longrightarrow> undisturbed s v"
  using objects_kept_blocks [of s u] unfolding undisturbed_def objects_kept_def by auto

lemma objects_kept_same:
  assumes o: "same Object_Part s s'" and "prev_parity s' = prev_parity s"
  shows "objects_kept s s'"
proof -
  have "uc_allocatorlog (ctx_array s' ! t) = uc_allocatorlog (ctx_array s ! t)" if "t < length (ctx_array s)" for t
    using same_ctx_nth(3) [OF o that] by simp
  then show ?thesis using assms by (simp add: objects_kept_def same_length [OF o])
qed

lemma undisturbed_same:
  assumes "same Object_Part s s'" and f: "same Free_Part s s'" and "prev_parity s' = prev_parity s"
  shows "undisturbed s s'"
proof -
  have "uc_delay_dealloc (ctx_array s' ! t) = uc_delay_dealloc (ctx_array s ! t)" if "t < length (ctx_array s)" for t
    using same_ctx_nth(4) [OF f that] by simp
  then show ?thesis using assms objects_kept_same by (auto simp: undisturbed_def simp del: same.simps)
qed

text \<open>Recording under the other parity.\<close>

lemma other_log:
  assumes ok: "alloc_ok s" and t: "t < length (ctx_array s)" and c: "c \<noteq> prev_parity s" and b: "b \<in> set (prev_blocks s)"
  shows "b \<notin> set (uc_allocatorlog (ctx_array s ! t) c)"
proof -
  let ?old = "uc_allocatorlog (ctx_array s ! t) c"
  obtain rest where r: "mset (concat (alogs s)) = mset (?old @ rest)"
    "\<And>bl m. mset (concat (alogs (put_alog t c bl m s))) = mset (bl @ rest)"
    using alogs_split [OF t] by blast
  let ?u = "put_alog t c [] (Allocatorlog_Management s) s"
  have "uc_allocatorlog (ctx_array ?u ! t') (prev_parity s) = uc_allocatorlog (ctx_array s ! t') (prev_parity s)"
    if "t' < length (ctx_array s)" for t'
    using that c by (auto simp: put_alog_ctx)
  then have "prev_blocks ?u = prev_blocks s"
    by (auto simp: prev_blocks_nth prev_parity_def intro!: arg_cong [of _ _ concat])
  moreover have "set (prev_blocks ?u) \<subseteq> set (concat (alogs ?u))"
    using half_of_logs [of uc_allocatorlog "prev_parity ?u" "ctx_array ?u"] unfolding prev_blocks_def alogs_def by blast
  ultimately have "b \<in> set rest" using b mset_eq_setD [OF r(2) [of "[]" "Allocatorlog_Management s"]] by auto
  moreover have "distinct (?old @ rest)" using alloc_okD(4) [OF ok] mset_eq_imp_distinct_iff [OF r(1)] by simp
  ultimately show ?thesis by auto
qed

lemma record_alloc_op_undisturbed:
  assumes ok: "alloc_ok s" and f: "fits a sz" and run: "record_alloc_op t e a sz s = Inr s'" and e: "epoch_bit e \<noteq> prev_parity s"
  shows "undisturbed s s'"
proof -
  obtain k where k: "bytemap_get_index a = Inr k" using fitsE [OF f] by blast
  from run k show ?thesis
  proof (cases rule: record_alloc_op_cases)
    case second
    then show ?thesis by (simp add: undisturbed_def objects_kept_def prev_parity_def)
  next
    case (first bl m)
    have "alog_entries (am_area m b) = alog_entries (am_area (Allocatorlog_Management s) b)" if b: "b \<in> set (prev_blocks s)" for b
    proof -
      note x = alog_append_ok(8) [OF alloc_okD(3) [OF ok] alogs_log_ok [OF ok first(2)] first(3), of "[b]"]
      have "b \<in> set (am_used (Allocatorlog_Management s))" using prev_blocks_ok [OF ok] b by (auto simp: log_ok_def)
      with x other_log [OF ok first(2) e b] show ?thesis by (simp add: alog_contents_def contents_def)
    qed
    moreover have "uc_delay_dealloc (ctx_array s' ! t') = uc_delay_dealloc (ctx_array s ! t')" if "t' < length (ctx_array s)" for t'
      using that by (cases "t' = t") (simp_all add: first(4) put_alog_def)
    ultimately show ?thesis using e by (simp add: first(4) undisturbed_def objects_kept_def prev_parity_def put_alog_ctx)
  qed
qed

lemma release_or_delay_undisturbed:
  "release_or_delay al t e a s = Inr s' \<Longrightarrow> epoch_bit e \<noteq> prev_parity s \<Longrightarrow> undisturbed s s'"
  by (auto simp: release_or_delay_def res_simps undisturbed_def objects_kept_def prev_parity_def nth_list_update split: if_splits)

lemma begin_op_undisturbed': "begin_op t s = Inr s' \<Longrightarrow> undisturbed s s'"
  by (auto simp: begin_op_def res_simps Let_def undisturbed_def objects_kept_def prev_parity_def nth_list_update)

lemma end_op_undisturbed: "end_op t s = Inr s' \<Longrightarrow> undisturbed s s'"
  by (auto simp: end_op_def res_simps undisturbed_def objects_kept_def prev_parity_def nth_list_update)

text \<open>After the wait of a checkpoint every operation runs in the current epoch.\<close>

lemma epoch_bit_other: "Epoch e = Epoch (GLOBAL_EPOCH s) \<Longrightarrow> epoch_bit e \<noteq> prev_parity s"
  using prev_parity_cur [of s] epoch_bit_Epoch [of e] epoch_bit_Epoch [of "GLOBAL_EPOCH s"] by (simp add: cur_parity_def)

lemma op_epoch:
  assumes "(if uc_epoch (ctx_array s ! t) = 0 then begin_op t s else Inr s) = Inr u" and "t < length (ctx_array s)" and "\<not> old_op t s"
  shows "epoch_bit (uc_epoch (ctx_array u ! t)) \<noteq> prev_parity u" and "undisturbed s u"
proof -
  have "Epoch (uc_epoch (ctx_array u ! t)) = Epoch (GLOBAL_EPOCH u)"
    using assms by (auto simp: begin_op_def res_simps Let_def old_op_def in_op_def split: if_splits)
  then show "epoch_bit (uc_epoch (ctx_array u ! t)) \<noteq> prev_parity u" by (rule epoch_bit_other)
  show "undisturbed s u" using assms(1) begin_op_undisturbed' by (auto split: if_splits)
qed

lemma malloc_undisturbed:
  assumes run: "malloc_with_create_log al t sz s = Inr (p, s')" and ok: "alloc_ok s" and f: "fits p sz" and old: "\<not> old_op t s"
  shows "undisturbed s s'"
  using run
proof (cases rule: malloc_stepsE)
  case (1 u v)
  note e = op_epoch [OF 1(2,1) old]
  let ?u = "u\<lparr>heap_alloc := snd (al_malloc al sz (heap_alloc u))\<rparr>"
  have "alloc_ok ?u" using 1(2) ok begin_op_alloc_ok [of t s u] by (auto split: if_splits)
  moreover have "undisturbed u ?u" "prev_parity ?u = prev_parity u"
    by (simp_all add: undisturbed_def objects_kept_def prev_parity_def)
  ultimately have "undisturbed u v"
    using record_alloc_op_undisturbed [OF _ f 1(3)] e(1) undisturbed_trans by metis
  moreover have "undisturbed v s'" using 1(4) end_op_undisturbed by (auto split: if_splits)
  ultimately show ?thesis using e(2) undisturbed_trans by blast
qed

lemma free_undisturbed:
  assumes run: "free_with_create_log al t a sz s = Inr s'" and ok: "alloc_ok s" and f: "fits a sz" and old: "\<not> old_op t s"
  shows "undisturbed s s'"
  using run
proof (cases rule: free_stepsE)
  case (1 u w v)
  note e = op_epoch [OF 1(2,1) old]
  have "alloc_ok u" using 1(2) ok begin_op_alloc_ok [of t s u] by (auto split: if_splits)
  note uw = record_alloc_op_undisturbed [OF this f 1(3) e(1)]
  have "undisturbed w v"
    by (rule release_or_delay_undisturbed [OF 1(4)]) (use e(1) uw in \<open>simp add: undisturbed_def objects_kept_def\<close>)
  moreover have "undisturbed v s'" using 1(5) end_op_undisturbed by (auto split: if_splits)
  ultimately show ?thesis using e(2) uw undisturbed_trans by blast
qed

end
