(* ===== verification/HelperWork.thy ===== *)
theory HelperWork
  imports HelperRecords
begin

text \<open>The steps that leave the parts of the helpers alone.\<close>

definition redo_only :: "'j escort \<Rightarrow> 'j escort \<Rightarrow> bool" where
  "redo_only s s' \<longleftrightarrow> same Object_Part s s' \<and> same Free_Part s s'"

lemma redo_only_refl [simp]: "redo_only s s"
  by (simp add: redo_only_def)

lemma redo_only_trans: "redo_only s u \<Longrightarrow> redo_only u v \<Longrightarrow> redo_only s v"
  by (simp add: redo_only_def)

lemma redo_only_upd [simp]:
  "redo_only s (s'\<lparr>BitMap := x1\<rparr>) = redo_only s s'" "redo_only s (s'\<lparr>Plog_Management := x2\<rparr>) = redo_only s s'"
  "redo_only s (s'\<lparr>dram := x3\<rparr>) = redo_only s s'" "redo_only s (s'\<lparr>nvm := x4\<rparr>) = redo_only s s'"
  "redo_only s (s'\<lparr>cp_log := x5\<rparr>) = redo_only s s'" "redo_only s (s'\<lparr>GLOBAL_EPOCH := x6\<rparr>) = redo_only s s'"
  by (simp_all add: redo_only_def)

lemma redo_only_put_ctx:
  assumes "t < length (ctx_array s')"
    and "uc_allocatorlog c = uc_allocatorlog (ctx_array s' ! t)" and "uc_delay_dealloc c = uc_delay_dealloc (ctx_array s' ! t)"
  shows "redo_only s (put_ctx t c s') = redo_only s s'"
  using assms by (simp add: redo_only_def map_upd_other)

lemma begin_op_redo: "begin_op t s = Inr s' \<Longrightarrow> redo_only s s' \<and> GLOBAL_EPOCH s' = GLOBAL_EPOCH s"
  by (auto simp: begin_op_def Let_def res_simps redo_only_put_ctx)

lemma end_op_redo: "end_op t s = Inr s' \<Longrightarrow> redo_only s s' \<and> GLOBAL_EPOCH s' = GLOBAL_EPOCH s"
  by (auto simp: end_op_def Let_def res_simps redo_only_put_ctx)

lemma mark_line_redo: "mark_line t b i a s = Inr (new, s') \<Longrightarrow> redo_only s s' \<and> GLOBAL_EPOCH s' = GLOBAL_EPOCH s"
  by (auto simp: mark_line_def push_user_log_def res_simps redo_only_put_ctx split: if_splits)

lemma mark_loop_redo: "mark_loop t b n i a app s = Inr (app', s') \<Longrightarrow> redo_only s s' \<and> GLOBAL_EPOCH s' = GLOBAL_EPOCH s"
  by (induction n arbitrary: i a app s) (auto simp: res_simps dest!: mark_line_redo intro: redo_only_trans)

lemma pwrite_redo: "pwrite t a val s = Inr s' \<Longrightarrow> redo_only s s' \<and> GLOBAL_EPOCH s' = GLOBAL_EPOCH s"
  by (auto simp: pwrite_def mark_def res_simps Let_def redo_only_put_ctx split: if_splits dest!: mark_loop_redo)

lemma clear_redo_logs_redo: "redo_only s (clear_redo_logs s) \<and> GLOBAL_EPOCH (clear_redo_logs s) = GLOBAL_EPOCH s"
proof -
  have "redo_only u (fold clear_ctx_log ts u) \<and> GLOBAL_EPOCH (fold clear_ctx_log ts u) = GLOBAL_EPOCH u"
    if "\<forall>t \<in> set ts. t < length (ctx_array u)" for ts and u :: "'a escort"
    using that
  proof (induction ts arbitrary: u)
    case (Cons t ts)
    have "redo_only u (clear_ctx_log t u) \<and> GLOBAL_EPOCH (clear_ctx_log t u) = GLOBAL_EPOCH u \<and>
        length (ctx_array (clear_ctx_log t u)) = length (ctx_array u)"
      using Cons.prems by (simp add: clear_ctx_log_def Let_def split_beta redo_only_put_ctx)
    then show ?case using Cons.IH [of "clear_ctx_log t u"] Cons.prems redo_only_trans by fastforce
  qed simp
  from this [of "[0..<length (ctx_array s)]" "clear_cp_log s"] show ?thesis
    unfolding clear_redo_logs_def
    by (auto simp: clear_cp_log_def Let_def split_beta intro: redo_only_trans [of s "clear_cp_log s"])
qed

lemma user_step_redo:
  "user_step c ev d \<Longrightarrow> redo_only (sys_st c) (sys_st d) \<and> GLOBAL_EPOCH (sys_st d) = GLOBAL_EPOCH (sys_st c) \<and> sys_pc d = sys_pc c"
  by (induction rule: user_step.induct)
     (auto dest: begin_op_redo end_op_redo pwrite_redo)

lemma cp_step_redo: "cp_step c ev d \<Longrightarrow> redo_only (sys_st c) (sys_st d)"
  by (induction rule: cp_step.induct)
     (auto simp: enter_phase_def log_line_def clear_list_def replay_entry_def Let_def res_simps redo_only_put_ctx
       clear_redo_logs_redo split: if_splits)

lemma cp_step_parity:
  assumes "cp_step c ev d" and "ev \<noteq> Boundary" and "Epoch (sys_epoch c) = Epoch (GLOBAL_EPOCH (sys_st c))"
  shows "prev_parity (sys_st d) = prev_parity (sys_st c)"
  using assms
  by (induction rule: cp_step.induct)
     (auto simp: prev_parity_def enter_phase_def log_line_def clear_list_def replay_entry_def Let_def res_simps
       clear_redo_logs_redo split: if_splits dest: set_phase_bits(1))

lemma redo_only_alloc_ok: "redo_only s s' \<Longrightarrow> alloc_ok s \<Longrightarrow> alloc_ok s'"
  unfolding redo_only_def using alloc_ok_same by blast

lemma redo_only_undisturbed: "redo_only s s' \<Longrightarrow> prev_parity s' = prev_parity s \<Longrightarrow> undisturbed s s'"
  unfolding redo_only_def using undisturbed_same by blast

lemma add_ctx_alloc_ok: "alloc_ok s \<Longrightarrow> alloc_ok (s\<lparr>ctx_array := ctx_array s @ [userthreadctx_new]\<rparr>)"
  by (simp add: alloc_ok_def alogs_def userthreadctx_new_def Let_def)

subsection \<open>The actions of a helper thread\<close>

text \<open>
  What a thread of \<^verbatim>\<open>cpallocator_t\<close> has still to do refers to records of the closed epoch; a log is cleared after its
  records have been visited. \<open>records_of\<close>: the records it will write to the map of objects.
\<close>

fun blocks_of :: "action \<Rightarrow> block_id set" where
  "blocks_of (Check_Entry p b i) = {b}"
| "blocks_of (Record_Entry b i) = {b}"
| "blocks_of _ = {}"

fun rest_ok :: "'j escort \<Rightarrow> action list \<Rightarrow> bool" where
  "rest_ok s [] \<longleftrightarrow> True"
| "rest_ok s (Check_Entry p b i # as) \<longleftrightarrow> p = prev_parity s \<and> b \<in> set (prev_blocks s) \<and>
     i < ab_size (am_area (Allocatorlog_Management s) b) \<and> rest_ok s as"
| "rest_ok s (Record_Entry b i # as) \<longleftrightarrow> b \<in> set (prev_blocks s) \<and>
     i < ab_size (am_area (Allocatorlog_Management s) b) \<and> rest_ok s as"
| "rest_ok s (Clear_Alog p t # as) \<longleftrightarrow> p = prev_parity s \<and> t < length (ctx_array s) \<and>
     (\<forall>a \<in> set as. blocks_of a \<inter> set (uc_allocatorlog (ctx_array s ! t) p) = {}) \<and> rest_ok s as"
| "rest_ok s (_ # as) \<longleftrightarrow> False"

fun records_of :: "'j escort \<Rightarrow> action list \<Rightarrow> (ptr \<times> size_t) list" where
  "records_of s [] = []"
| "records_of s (Record_Entry b i # as) = (ae_addr (rec_at s (b, i)), ae_size (rec_at s (b, i))) # records_of s as"
| "records_of s (_ # as) = records_of s as"

text \<open>They stay good while logs only lose blocks that are not referred to.\<close>

lemma rest_ok_mono:
  assumes "rest_ok s as" and "prev_parity s' = prev_parity s" and "length (ctx_array s') = length (ctx_array s)"
    and "\<And>t. t < length (ctx_array s) \<Longrightarrow>
      set (uc_allocatorlog (ctx_array s' ! t) (prev_parity s)) \<subseteq> set (uc_allocatorlog (ctx_array s ! t) (prev_parity s))"
    and "\<And>a b. a \<in> set as \<Longrightarrow> b \<in> blocks_of a \<Longrightarrow> b \<in> set (prev_blocks s) \<Longrightarrow> b \<in> set (prev_blocks s') \<and>
      alog_entries (am_area (Allocatorlog_Management s') b) = alog_entries (am_area (Allocatorlog_Management s) b)"
  shows "rest_ok s' as \<and> records_of s' as = records_of s as"
proof -
  have size: "ab_size (am_area (Allocatorlog_Management s') b) = ab_size (am_area (Allocatorlog_Management s) b)"
    and rec: "\<And>i. i < ab_size (am_area (Allocatorlog_Management s) b) \<Longrightarrow>
      ae_addr (rec_at s' (b, i)) = ae_addr (rec_at s (b, i)) \<and> ae_size (rec_at s' (b, i)) = ae_size (rec_at s (b, i))"
    if e: "alog_entries (am_area (Allocatorlog_Management s') b) = alog_entries (am_area (Allocatorlog_Management s) b)" for b
  proof -
    show size: "ab_size (am_area (Allocatorlog_Management s') b) = ab_size (am_area (Allocatorlog_Management s) b)"
      using arg_cong [OF e, of length] by (simp add: alog_entries_def)
    show "ae_addr (rec_at s' (b, i)) = ae_addr (rec_at s (b, i)) \<and> ae_size (rec_at s' (b, i)) = ae_size (rec_at s (b, i))"
      if "i < ab_size (am_area (Allocatorlog_Management s) b)" for i
      using arg_cong [OF e, of "\<lambda>xs. xs ! i"] that by (simp add: alog_entries_def rec_at_def size)
  qed
  from assms(1,5) show ?thesis
  proof (induction as)
    case (Cons a as)
    have ih: "rest_ok s' as \<and> records_of s' as = records_of s as" if "rest_ok s as"
      using Cons.IH [OF that] Cons.prems(2) by (metis list.set_intros(2))
    show ?case
    proof (cases a)
      case (Check_Entry p b i)
      then show ?thesis using Cons.prems(1) Cons.prems(2) [of a b] ih size [of b] assms(2) by simp
    next
      case (Record_Entry b i)
      then show ?thesis using Cons.prems(1) Cons.prems(2) [of a b] ih size [of b] rec [of b i] by simp
    next
      case (Clear_Alog p t)
      then show ?thesis using Cons.prems(1) ih assms(2,3) assms(4) [of t] by auto
    qed (use Cons.prems(1) in simp_all)
  qed simp
qed

lemma rest_ok_kept:
  "objects_kept s s' \<Longrightarrow> rest_ok s as \<Longrightarrow> rest_ok s' as \<and> records_of s' as = records_of s as"
  using objects_kept_blocks [of s s'] by (intro rest_ok_mono) (simp_all add: objects_kept_def)

text \<open>One action.\<close>

lemma rest_fits:
  assumes "alloc_ok s" and "b \<in> set (prev_blocks s)" and "i < ab_size (am_area (Allocatorlog_Management s) b)"
  shows "fits (ae_addr (rec_at s (b, i))) (ae_size (rec_at s (b, i)))"
proof -
  have "b \<in> set (am_used (Allocatorlog_Management s))" using prev_blocks_ok [OF assms(1)] assms(2) by (auto simp: log_ok_def)
  then show ?thesis
    by (rule alloc_okD(6) [OF assms(1)]) (use assms(3) in \<open>auto simp: alog_entries_def rec_at_def\<close>)
qed

lemma rfold_single: "rfold f [x] s = f x s"
  by (simp add: rbind_def split: sum.split)

definition helper_acts :: "'j escort \<Rightarrow> action \<Rightarrow> action list \<Rightarrow> 'j escort \<Rightarrow> bool" where
  "helper_acts s a as s' \<longleftrightarrow> alloc_ok s' \<and> rest_ok s' as \<and>
     rfold record_size (records_of s' as) (ByteMap_NVM s') = rfold record_size (records_of s (a # as)) (ByteMap_NVM s) \<and>
     (\<forall>t < length (ctx_array s). uc_allocatorlog (ctx_array s' ! t) (prev_parity s) =
        (if a = Clear_Alog (prev_parity s) t then [] else uc_allocatorlog (ctx_array s ! t) (prev_parity s)))"

lemma check_entry_acts:
  assumes ok: "alloc_ok s" and rest: "rest_ok s (Check_Entry p b i # as)"
  shows "\<exists>s'. act al (Check_Entry p b i) s = Inr s' \<and> helper_acts s (Check_Entry p b i) as s'"
proof -
  have r: "p = prev_parity s" "b \<in> set (prev_blocks s)" "i < ab_size (am_area (Allocatorlog_Management s) b)" "rest_ok s as"
    using rest by simp_all
  have "\<exists>k < by_size (ByteMap s p). bytemap_get_index (ae_addr (rec_at s (b, i))) = Inr k"
    using rest_fits [OF ok r(2,3)] alloc_okD(1) [OF ok] by (auto elim: fitsE)
  then obtain s' where s': "check_valid_at p (b, i) s = Inr s'" "visited p [(b, i)] s s'"
    using visit_list [of "[(b, i)]" s p] by (auto simp: rfold_single simp del: rfold.simps)
  obtain B M where eq: "s' = s\<lparr>ByteMap := B, Allocatorlog_Management := M\<rparr>" using s'(2) unfolding visited_def by blast
  have "rest_ok s' as \<and> records_of s' as = records_of s as"
  proof (rule rest_ok_mono [OF r(4)])
    fix a c assume "a \<in> set as" and "c \<in> set (prev_blocks s)"
    moreover have "same_shape s s'" using s'(2) by (simp add: visited_def)
    then have "alog_entries (am_area (Allocatorlog_Management s') c) = alog_entries (am_area (Allocatorlog_Management s) c)"
      by (rule alog_entries_shape)
    ultimately show "c \<in> set (prev_blocks s') \<and>
        alog_entries (am_area (Allocatorlog_Management s') c) = alog_entries (am_area (Allocatorlog_Management s) c)"
      by (simp add: eq prev_blocks_def prev_parity_def)
  qed (simp_all add: eq prev_parity_def)
  then have "helper_acts s (Check_Entry p b i) as s'"
    using visited_alloc_ok [OF s'(2) ok] by (simp add: helper_acts_def eq)
  moreover have "act al (Check_Entry p b i) s = Inr s'" using s'(1) by (simp add: check_valid_at_def)
  ultimately show ?thesis by blast
qed

lemma record_entry_acts:
  assumes ok: "alloc_ok s" and rest: "rest_ok s (Record_Entry b i # as)"
  shows "\<exists>s'. act al (Record_Entry b i) s = Inr s' \<and> helper_acts s (Record_Entry b i) as s'"
proof -
  have r: "b \<in> set (prev_blocks s)" "i < ab_size (am_area (Allocatorlog_Management s) b)" "rest_ok s as"
    using rest by simp_all
  let ?r = "(ae_addr (rec_at s (b, i)), ae_size (rec_at s (b, i)))"
  obtain bm where bm: "record_size ?r (ByteMap_NVM s) = Inr bm" "by_size bm = heap_lines"
    using record_size_total [of "[?r]" "ByteMap_NVM s"] rest_fits [OF ok r(1,2)] alloc_okD(2) [OF ok]
    by (auto simp: rfold_single simp del: rfold.simps)
  let ?s = "s\<lparr>ByteMap_NVM := bm\<rparr>"
  have "alogs ?s = alogs s" by (simp add: alogs_def)
  then have ok': "alloc_ok ?s" using alloc_okD [OF ok] bm(2) by (intro alloc_okI) simp_all
  have "rest_ok ?s as \<and> records_of ?s as = records_of s as"
    by (rule rest_ok_mono [OF r(3)]) (simp_all add: prev_parity_def prev_blocks_def)
  then have "helper_acts s (Record_Entry b i) as ?s" using ok' bm(1) by (simp add: helper_acts_def)
  moreover have "act al (Record_Entry b i) s = Inr ?s"
    using bm(1) by (auto simp: record_size_def record_sizes_entry_def Let_def rec_at_def res_simps)
  ultimately show ?thesis by blast
qed

lemma clear_alog_acts:
  assumes ok: "alloc_ok s" and rest: "rest_ok s (Clear_Alog p t # as)"
  shows "\<exists>s'. act al (Clear_Alog p t) s = Inr s' \<and> helper_acts s (Clear_Alog p t) as s'"
proof -
  have r: "p = prev_parity s" "t < length (ctx_array s)" "rest_ok s as"
    and apart: "\<And>a. a \<in> set as \<Longrightarrow> blocks_of a \<inter> set (uc_allocatorlog (ctx_array s ! t) p) = {}"
    using rest by auto
  obtain bl m where m: "alog_clear (uc_allocatorlog (ctx_array s ! t) p, Allocatorlog_Management s) = (bl, m)"
    by (cases "alog_clear (uc_allocatorlog (ctx_array s ! t) p, Allocatorlog_Management s)")
  note c = put_alog_clear_ok [OF ok r(2) m]
  let ?s = "put_alog t p [] m s"
  have run: "act al (Clear_Alog p t) s = Inr ?s"
    using r(2) m c(1) by (simp add: clear_alog_def get_ctx_def put_alog_def)
  have log: "uc_allocatorlog (ctx_array ?s ! t') p = (if t' = t then [] else uc_allocatorlog (ctx_array s ! t') p)"
    if "t' < length (ctx_array s)" for t'
    using that by (simp add: put_alog_ctx)
  have par: "prev_parity ?s = prev_parity s" by (simp add: prev_parity_def)
  have "rest_ok ?s as \<and> records_of ?s as = records_of s as"
  proof (rule rest_ok_mono [OF r(3) par])
    fix a b assume a: "a \<in> set as" "b \<in> blocks_of a" and b: "b \<in> set (prev_blocks s)"
    have n: "b \<notin> set (uc_allocatorlog (ctx_array s ! t) p)" using apart [OF a(1)] a(2) by blast
    obtain t' where t': "t' < length (ctx_array s)" "b \<in> set (uc_allocatorlog (ctx_array s ! t') p)"
      using b unfolding in_prev_blocks r(1) [symmetric] by blast
    with n have "t' \<noteq> t" by blast
    then have "b \<in> set (uc_allocatorlog (ctx_array ?s ! t') (prev_parity ?s))"
      using log [OF t'(1)] t'(2) unfolding par r(1) [symmetric] by simp
    then have "b \<in> set (prev_blocks ?s)" using t'(1) unfolding in_prev_blocks by auto
    moreover have "alog_entries (am_area m b) = alog_entries (am_area (Allocatorlog_Management s) b)"
      using c(3) [of "[b]"] n by (simp add: alog_contents_def contents_def)
    ultimately show "b \<in> set (prev_blocks ?s) \<and>
        alog_entries (am_area (Allocatorlog_Management ?s) b) = alog_entries (am_area (Allocatorlog_Management s) b)" by simp
  qed (use log r(1) in auto)
  then have "helper_acts s (Clear_Alog p t) as ?s"
    using c(1,2) log r(1) by (auto simp: helper_acts_def)
  with run show ?thesis by blast
qed

lemma helper_action:
  assumes "alloc_ok s" and "rest_ok s (a # as)"
  shows "\<exists>s'. act al a s = Inr s' \<and> helper_acts s a as s'"
proof (cases a)
  case (Check_Entry p b i)
  show ?thesis using check_entry_acts [OF assms(1) assms(2) [unfolded Check_Entry]] unfolding Check_Entry .
next
  case (Record_Entry b i)
  show ?thesis using record_entry_acts [OF assms(1) assms(2) [unfolded Record_Entry]] unfolding Record_Entry .
next
  case (Clear_Alog p t)
  show ?thesis using clear_alog_acts [OF assms(1) assms(2) [unfolded Clear_Alog]] unfolding Clear_Alog .
qed (use assms in simp_all)

end
