(* ===== verification/HelperInv.thy ===== *)
theory HelperInv
  imports HelperWork
begin

subsection \<open>The passes as they start\<close>

lemma records_of_append: "records_of s (xs @ ys) = records_of s xs @ records_of s ys"
  by (induction s xs rule: records_of.induct) simp_all

lemma check_actions_rest:
  "rest_ok s (check_actions s)" "records_of s (check_actions s) = []"
proof -
  have pos: "fst q \<in> set (prev_blocks s) \<and> snd q < ab_size (am_area (Allocatorlog_Management s) (fst q))"
    if "q \<in> set (prev_positions s)" for q
    using that unfolding prev_positions_blocks log_positions_def block_positions_def by auto
  have "rest_ok s (map (\<lambda>q. Check_Entry (prev_parity s) (fst q) (snd q)) qs)" if "set qs \<subseteq> set (prev_positions s)" for qs
    using that pos by (induction qs) simp_all
  then show "rest_ok s (check_actions s)" by (simp add: check_actions_def)
  have "records_of s (map (\<lambda>q. Check_Entry (prev_parity s) (fst q) (snd q)) qs) = []" for qs
    by (induction qs) simp_all
  then show "records_of s (check_actions s) = []" by (simp add: check_actions_def)
qed

lemma record_list_rest:
  "(\<forall>q \<in> set qs. fst q \<in> set (prev_blocks s) \<and> snd q < ab_size (am_area (Allocatorlog_Management s) (fst q))) \<Longrightarrow> rest_ok s as \<Longrightarrow>
    rest_ok s (map (\<lambda>q. Record_Entry (fst q) (snd q)) qs @ as)"
  by (induction qs) simp_all

lemma record_ctxs_rest:
  assumes ok: "alloc_ok s" and "k \<le> length (ctx_array s)"
  shows "rest_ok s (concat (map (record_ctx s) [k..<length (ctx_array s)]))"
  using assms(2)
proof (induction k rule: inc_induct)
  case base
  then show ?case by simp
next
  case (step t)
  let ?n = "length (ctx_array s)" and ?p = "prev_parity s"
  let ?rest = "concat (map (record_ctx s) [Suc t..<?n])"
  have blocks: "blocks_of a \<inter> set (uc_allocatorlog (ctx_array s ! t) ?p) = {}" if a: "a \<in> set ?rest" for a
  proof -
    obtain t' where t': "t < t'" "t' < ?n" "a \<in> set (record_ctx s t')" using a by (auto simp: Suc_le_eq)
    then have "blocks_of a \<subseteq> set (uc_allocatorlog (ctx_array s ! t') ?p)"
      by (auto simp: record_ctx_def log_positions_def block_positions_def)
    then show ?thesis using alogs_disjoint [OF ok t'(1,2), of ?p] by blast
  qed
  have "fst q \<in> set (prev_blocks s) \<and> snd q < ab_size (am_area (Allocatorlog_Management s) (fst q))"
    if "q \<in> set (log_positions s (uc_allocatorlog (ctx_array s ! t) ?p))" for q
    using that step.hyps by (auto simp: in_prev_blocks log_positions_def block_positions_def)
  then have "rest_ok s (map (\<lambda>q. Record_Entry (fst q) (snd q)) (log_positions s (uc_allocatorlog (ctx_array s ! t) ?p)) @
      Clear_Alog ?p t # ?rest)"
    using step.hyps step.IH blocks by (intro record_list_rest) simp_all
  then have "rest_ok s (record_ctx s t @ ?rest)" unfolding record_ctx_def [of s t] by simp
  then show ?case using step.hyps by (simp add: upt_conv_Cons)
qed

lemma record_ctx_records:
  "records_of s (record_ctx s t) = alog_contents (Allocatorlog_Management s) (uc_allocatorlog (ctx_array s ! t) (prev_parity s))"
proof -
  have l: "records_of s (map (\<lambda>q. Record_Entry (fst q) (snd q)) qs) = map (\<lambda>q. (ae_addr (rec_at s q), ae_size (rec_at s q))) qs" for qs
    by (induction qs) simp_all
  have "records_of s (record_ctx s t) = map (\<lambda>q. (ae_addr (rec_at s q), ae_size (rec_at s q)))
      (log_positions s (uc_allocatorlog (ctx_array s ! t) (prev_parity s)))"
    by (simp add: record_ctx_def records_of_append l)
  then show ?thesis
    by (simp add: log_positions_def block_positions_def alog_contents_def contents_def alog_entries_def rec_at_def
        map_concat comp_def)
qed

lemma record_actions_rest:
  assumes "alloc_ok s"
  shows "rest_ok s (record_actions s)" and "records_of s (record_actions s) = prev_records s"
    and "\<And>t. t < length (ctx_array s) \<Longrightarrow> Clear_Alog (prev_parity s) t \<in> set (record_actions s)"
proof -
  show "rest_ok s (record_actions s)" using record_ctxs_rest [OF assms, of 0] by (simp add: record_actions_def)
  have "records_of s (concat (map (record_ctx s) ts)) =
      alog_contents (Allocatorlog_Management s) (concat (map (\<lambda>t. uc_allocatorlog (ctx_array s ! t) (prev_parity s)) ts))" for ts
    by (induction ts) (simp_all add: records_of_append record_ctx_records alog_contents_def contents_def)
  then show "records_of s (record_actions s) = prev_records s"
    by (simp add: record_actions_def prev_records_def prev_blocks_nth)
qed (auto simp: record_actions_def record_ctx_def)

text \<open>What the deallocator has still to do, and what it has done.\<close>

definition frees_ok :: "'j escort \<Rightarrow> action list \<Rightarrow> bool" where
  "frees_ok s as \<longleftrightarrow>
     (\<forall>x \<in> set as. (\<exists>q. x = Free_Delayed q) \<or> (\<exists>t < length (ctx_array s). x = Clear_Delayed (prev_parity s) t)) \<and>
     (\<forall>t < length (ctx_array s). uc_delay_dealloc (ctx_array s ! t) (prev_parity s) = [] \<or> Clear_Delayed (prev_parity s) t \<in> set as)"

lemma free_actions_ok: "frees_ok s (free_actions s)"
  by (auto simp: frees_ok_def free_actions_def free_ctx_def)

lemma frees_ok_undisturbed: "undisturbed s s' \<Longrightarrow> frees_ok s as \<Longrightarrow> frees_ok s' as"
  by (auto simp: frees_ok_def undisturbed_def objects_kept_def)

lemma frees_ok_same:
  assumes f: "same Free_Part s s'" and "prev_parity s' = prev_parity s" and "frees_ok s as"
  shows "frees_ok s' as"
proof -
  have "uc_delay_dealloc (ctx_array s' ! t) = uc_delay_dealloc (ctx_array s ! t)" if "t < length (ctx_array s)" for t
    using same_ctx_nth(4) [OF f that] by simp
  then show ?thesis using assms(2,3) same_length [OF f] by (auto simp: frees_ok_def)
qed

lemma frees_action:
  assumes "frees_ok s (a # as)"
  shows "\<exists>s'. act al a s = Inr s' \<and> frees_ok s' as \<and> same Object_Part s s' \<and> same Redo_Part s s'"
proof -
  have "(\<exists>q. a = Free_Delayed q) \<or> (\<exists>t < length (ctx_array s). a = Clear_Delayed (prev_parity s) t)"
    using assms by (simp add: frees_ok_def)
  then show ?thesis
  proof (elim disjE exE conjE)
    fix q assume "a = Free_Delayed q"
    then show ?thesis using assms by (auto simp: frees_ok_def prev_parity_def)
  next
    fix t assume t: "t < length (ctx_array s)" and a: "a = Clear_Delayed (prev_parity s) t"
    let ?s = "put_ctx t ((ctx_array s ! t)\<lparr>uc_delay_dealloc := (uc_delay_dealloc (ctx_array s ! t))(prev_parity s := [])\<rparr>) s"
    have run: "act al a s = Inr ?s" using t by (simp add: a clear_delayed_def get_ctx_def)
    have "same Object_Part s ?s" "same Redo_Part s ?s"
      using act_frame [OF run, of Object_Part] act_frame [OF run, of Redo_Part] by (simp_all add: a)
    moreover have "frees_ok ?s as"
      using assms t by (auto simp: frees_ok_def a prev_parity_def nth_list_update)
    ultimately show ?thesis using run by blast
  qed
qed

subsection \<open>The invariant\<close>

definition helpers_ok :: "'j hsys \<Rightarrow> bool" where
  "helpers_ok c \<longleftrightarrow> (let s = hs_st c; pc = sys_pc (hs_sys c) in alloc_ok s \<and>
     (\<forall>k. pc = Cp_Wait k \<longrightarrow> hs_deallocator c = No_Thread \<and> hs_cpallocator c = No_Thread) \<and>
     (logging pc \<longrightarrow> hs_deallocator c \<noteq> No_Thread \<and> hs_cpallocator c \<noteq> No_Thread) \<and>
     (\<forall>as. hs_cpallocator c = Running as \<longrightarrow> rest_ok s as) \<and>
     (\<forall>as. hs_deallocator c = Running as \<longrightarrow> frees_ok s as))"

text \<open>
  The map of objects will be \<open>F\<close> when the thread of \<^verbatim>\<open>cpallocator_t\<close> that was started after the commit has
  ended; a log of the closed epoch is empty or will be cleared; the deallocator has left nothing behind when it is joined.
\<close>

definition achieving :: "bytemap_t \<Rightarrow> 'j hsys \<Rightarrow> bool" where
  "achieving F c \<longleftrightarrow> (let s = hs_st c; p = prev_parity s; pc = sys_pc (hs_sys c) in
     (pc = Cp_Idle \<or> updating pc) \<and>
     (case hs_cpallocator c of
        Started j \<Rightarrow> j = Checkpoint_Alogs \<and> rfold record_size (prev_records s) (ByteMap_NVM s) = Inr F
      | Running as \<Rightarrow> rfold record_size (records_of s as) (ByteMap_NVM s) = Inr F \<and>
          (\<forall>t < length (ctx_array s). uc_allocatorlog (ctx_array s ! t) p = [] \<or> Clear_Alog p t \<in> set as)
      | No_Thread \<Rightarrow> ByteMap_NVM s = F \<and> prev_blocks s = []) \<and>
     (hs_deallocator c = No_Thread \<longrightarrow> delayed p s = []))"

lemma objects_kept_records: "objects_kept s s' \<Longrightarrow> prev_records s' = prev_records s"
  using objects_kept_blocks [of s s']
  by (auto simp: prev_records_def alog_contents_def contents_def objects_kept_def intro!: arg_cong [of _ _ concat])

lemma delayed_nth: "delayed p s = concat (map (\<lambda>t. uc_delay_dealloc (ctx_array s ! t) p) [0..<length (ctx_array s)])"
  unfolding delayed_def by (rule arg_cong [of _ _ concat], rule nth_equalityI) simp_all

lemma undisturbed_delayed: "undisturbed s s' \<Longrightarrow> delayed (prev_parity s') s' = delayed (prev_parity s) s"
  unfolding delayed_nth undisturbed_def objects_kept_def by (auto intro!: arg_cong [of _ _ concat])

lemma achieving_kept:
  assumes kept: "objects_kept (hs_st c) (hs_st d)" and "hs_cpallocator d = hs_cpallocator c"
    and "sys_pc (hs_sys d) = Cp_Idle \<or> updating (sys_pc (hs_sys d))"
    and rest: "\<And>as. hs_cpallocator c = Running as \<Longrightarrow> rest_ok (hs_st c) as" and "achieving F c"
    and "hs_deallocator d = No_Thread \<Longrightarrow> delayed (prev_parity (hs_st d)) (hs_st d) = []"
  shows "achieving F d"
proof -
  have u: "length (ctx_array (hs_st d)) = length (ctx_array (hs_st c))" "prev_parity (hs_st d) = prev_parity (hs_st c)"
    "ByteMap_NVM (hs_st d) = ByteMap_NVM (hs_st c)"
    "t < length (ctx_array (hs_st c)) \<Longrightarrow> uc_allocatorlog (ctx_array (hs_st d) ! t) (prev_parity (hs_st c)) =
       uc_allocatorlog (ctx_array (hs_st c) ! t) (prev_parity (hs_st c))" for t
    using kept by (simp_all add: objects_kept_def)
  have r: "records_of (hs_st d) as = records_of (hs_st c) as" if "hs_cpallocator c = Running as" for as
    using rest_ok_kept [OF kept rest [OF that]] by blast
  show ?thesis
    using assms(3,5,6) objects_kept_records [OF kept] objects_kept_blocks [OF kept] u(4)
    by (auto simp: achieving_def Let_def assms(2) u(1-3) r split: thread.splits)
qed

end
