(* ===== verification/HelperGood.thy ===== *)
theory HelperGood
  imports HelperInv
begin

subsection \<open>Every step keeps the invariant\<close>

text \<open>A step after which nothing has changed for the helpers.\<close>

lemma no_old_op: "lm_inv (abs_sys c) sp \<Longrightarrow> \<forall>k. sys_pc c \<noteq> Cp_Wait k \<Longrightarrow> \<not> old_op t (sys_st c)"
  by (auto simp: lm_inv_def abs_stage_def split: cp_pc.splits)

definition step_good :: "'j hsys \<Rightarrow> cacheline_t event \<Rightarrow> 'j hsys \<Rightarrow> bool" where
  "step_good c ev d \<longleftrightarrow> helpers_ok d \<and> (\<forall>F. achieving F c \<longrightarrow> ev \<noteq> Boundary \<longrightarrow> achieving F d)"

lemma quiet_good:
  assumes ok: "helpers_ok c" and alloc: "alloc_ok (hs_st d)"
    and th: "hs_deallocator d = hs_deallocator c" "hs_cpallocator d = hs_cpallocator c"
    and u: "\<forall>k. sys_pc (hs_sys c) \<noteq> Cp_Wait k \<Longrightarrow> undisturbed (hs_st c) (hs_st d)"
    and wait: "\<And>k. sys_pc (hs_sys d) = Cp_Wait k \<Longrightarrow> \<exists>k. sys_pc (hs_sys c) = Cp_Wait k"
    and log: "logging (sys_pc (hs_sys d)) \<Longrightarrow> logging (sys_pc (hs_sys c))"
    and idle: "sys_pc (hs_sys c) = Cp_Idle \<or> updating (sys_pc (hs_sys c)) \<Longrightarrow>
      sys_pc (hs_sys d) = Cp_Idle \<or> updating (sys_pc (hs_sys d))"
  shows "step_good c ev d"
proof (cases "\<exists>k. sys_pc (hs_sys c) = Cp_Wait k")
  case True
  then have "hs_deallocator c = No_Thread" "hs_cpallocator c = No_Thread" using ok by (auto simp: helpers_ok_def Let_def)
  moreover have "\<not> logging (sys_pc (hs_sys d))" using True log by (auto simp: logging_def)
  ultimately show ?thesis
    using alloc True by (auto simp: step_good_def helpers_ok_def Let_def th achieving_def updating_def)
next
  case False
  then have und: "undisturbed (hs_st c) (hs_st d)" and nw: "\<And>k. sys_pc (hs_sys d) \<noteq> Cp_Wait k" using u wait by blast+
  note kept = und [unfolded undisturbed_def, THEN conjunct1]
  have "helpers_ok d"
    using ok alloc nw log rest_ok_kept [OF kept] frees_ok_undisturbed [OF und] by (auto simp: helpers_ok_def Let_def th)
  moreover have "achieving F d" if a: "achieving F c" for F
  proof (rule achieving_kept [OF kept th(2) _ _ a])
    show "sys_pc (hs_sys d) = Cp_Idle \<or> updating (sys_pc (hs_sys d))" using a idle by (simp add: achieving_def Let_def)
    show "rest_ok (hs_st c) as" if "hs_cpallocator c = Running as" for as using ok that by (simp add: helpers_ok_def Let_def)
    show "delayed (prev_parity (hs_st d)) (hs_st d) = []" if "hs_deallocator d = No_Thread"
      using a that undisturbed_delayed [OF und] by (simp add: achieving_def Let_def th)
  qed
  ultimately show ?thesis by (simp add: step_good_def)
qed

lemma put_st_good:
  assumes "helpers_ok c" and "alloc_ok s" and "\<forall>k. sys_pc (hs_sys c) \<noteq> Cp_Wait k \<Longrightarrow> undisturbed (hs_st c) s"
  shows "step_good c ev (put_st s c)"
  by (rule quiet_good [OF assms(1)]) (use assms(2,3) in simp_all)

lemma init_good:
  assumes ok: "helpers_ok c" and "sys_pc (hs_sys c) = Cp_Idle" and "hs_deallocator c = No_Thread" and "hs_cpallocator c = No_Thread"
  shows "step_good c Tau (put_st ((hs_st c)\<lparr>ctx_array := ctx_array (hs_st c) @ [userthreadctx_new]\<rparr>) c)"
proof -
  let ?s = "(hs_st c)\<lparr>ctx_array := ctx_array (hs_st c) @ [userthreadctx_new]\<rparr>"
  have "prev_blocks ?s = prev_blocks (hs_st c)" "delayed p ?s = delayed p (hs_st c)" "prev_parity ?s = prev_parity (hs_st c)" for p
    by (simp_all add: prev_blocks_def delayed_def prev_parity_def userthreadctx_new_def)
  then show ?thesis
    using assms add_ctx_alloc_ok [of "hs_st c"]
    by (auto simp: step_good_def helpers_ok_def achieving_def Let_def logging_def)
qed

lemma checkpointing_good:
  assumes step: "cp_step (hs_sys c) ev d" and ok: "helpers_ok c" and inv: "cinv (hs_sys c)"
    and h: "handover (sys_pc (hs_sys c)) (sys_pc d) (hs_deallocator c, hs_cpallocator c) = Some r"
  shows "\<exists>x y. r = Inr (x, y) \<and> step_good c ev \<lparr>hs_sys = d, hs_deallocator = x, hs_cpallocator = y\<rparr>"
proof -
  have redo: "redo_only (hs_st c) (sys_st d)" by (rule cp_step_redo [OF step])
  have alloc: "alloc_ok (sys_st d)" using redo_only_alloc_ok [OF redo] ok by (simp add: helpers_ok_def Let_def)
  have und: "undisturbed (hs_st c) (sys_st d)" if "ev \<noteq> Boundary"
    using redo_only_undisturbed [OF redo] cp_step_parity [OF step that] cinvD(6) [OF inv] by (simp add: epochs_ok_def Let_def)
  have quiet: "step_good c ev \<lparr>hs_sys = d, hs_deallocator = hs_deallocator c, hs_cpallocator = hs_cpallocator c\<rparr>"
    if "ev = Tau" and "\<And>k. sys_pc d = Cp_Wait k \<Longrightarrow> \<exists>k. sys_pc (hs_sys c) = Cp_Wait k"
      and "logging (sys_pc d) \<Longrightarrow> logging (sys_pc (hs_sys c))"
      and "sys_pc (hs_sys c) = Cp_Idle \<or> updating (sys_pc (hs_sys c)) \<Longrightarrow> sys_pc d = Cp_Idle \<or> updating (sys_pc d)"
    by (rule quiet_good [OF ok]) (use alloc und that in simp_all)
  from step show ?thesis
  proof cases
    case (seal_step e s)
    then show ?thesis using h alloc
      by (auto simp: step_good_def helpers_ok_def Let_def logging_def split: if_splits)
  next
    case (waited_step e s)
    then have "hs_deallocator c = No_Thread" "hs_cpallocator c = No_Thread" using ok by (auto simp: helpers_ok_def Let_def)
    then show ?thesis using h alloc waited_step
      by (auto simp: step_good_def helpers_ok_def achieving_def Let_def thread_run_def logging_def updating_def)
  next
    case (commit_step e s)
    then have "hs_deallocator c \<noteq> No_Thread" "hs_cpallocator c \<noteq> No_Thread"
      "\<And>as. hs_deallocator c = Running as \<Longrightarrow> frees_ok (hs_st c) as"
      using ok by (auto simp: helpers_ok_def Let_def logging_def)
    moreover have "undisturbed (hs_st c) (sys_st d)" using und commit_step by simp
    ultimately show ?thesis using h alloc commit_step frees_ok_undisturbed [of "hs_st c" "sys_st d"]
      by (auto simp: step_good_def helpers_ok_def achieving_def Let_def thread_run_def thread_join_def logging_def updating_def
          split: thread.splits if_splits)
  qed (use h quiet in \<open>auto simp: logging_def updating_def\<close>)
qed

lemma join_good:
  assumes ok: "helpers_ok c" and pc: "sys_pc (hs_sys c) = Cp_Idle"
  shows "hs_cpallocator c \<noteq> No_Thread \<Longrightarrow> thread_join (hs_cpallocator c) = Some r \<Longrightarrow>
      \<exists>th. r = Inr th \<and> step_good c Tau (c\<lparr>hs_cpallocator := th\<rparr>)"
    and "hs_deallocator c \<noteq> No_Thread \<Longrightarrow> thread_join (hs_deallocator c) = Some r \<Longrightarrow>
      \<exists>th. r = Inr th \<and> step_good c Tau (c\<lparr>hs_deallocator := th\<rparr>)"
proof -
  assume "hs_cpallocator c \<noteq> No_Thread" and "thread_join (hs_cpallocator c) = Some r"
  then have j: "r = Inr No_Thread" "hs_cpallocator c = Running []" by (auto simp: thread_join_def split: thread.splits if_splits)
  have "prev_blocks (hs_st c) = []"
    if "\<forall>t < length (ctx_array (hs_st c)). uc_allocatorlog (ctx_array (hs_st c) ! t) (prev_parity (hs_st c)) = []"
    using that by (simp add: prev_blocks_nth)
  then show "\<exists>th. r = Inr th \<and> step_good c Tau (c\<lparr>hs_cpallocator := th\<rparr>)"
    using ok pc j by (auto simp: step_good_def helpers_ok_def achieving_def Let_def logging_def)
next
  assume "hs_deallocator c \<noteq> No_Thread" and "thread_join (hs_deallocator c) = Some r"
  then have j: "r = Inr No_Thread" "hs_deallocator c = Running []" by (auto simp: thread_join_def split: thread.splits if_splits)
  then have "frees_ok (hs_st c) []" using ok by (simp add: helpers_ok_def Let_def)
  then have "delayed (prev_parity (hs_st c)) (hs_st c) = []" by (simp add: delayed_nth frees_ok_def)
  then show "\<exists>th. r = Inr th \<and> step_good c Tau (c\<lparr>hs_deallocator := th\<rparr>)"
    using ok pc j by (auto simp: step_good_def helpers_ok_def achieving_def Let_def logging_def)
qed

lemma deallocator_good:
  assumes ok: "helpers_ok c" and ap: "helpers_apart c" and st: "thread_step al (hs_deallocator c, hs_st c) = Some r"
  shows "\<exists>th s. r = Inr (th, s) \<and> step_good c Tau (put_st s (c\<lparr>hs_deallocator := th\<rparr>))"
proof (cases "hs_deallocator c")
  case No_Thread
  then show ?thesis using st by (simp add: thread_step_def)
next
  case (Started j)
  then have j: "j = Dealloc" using ap by (cases j) (auto simp: helpers_apart_def)
  let ?d = "put_st (hs_st c) (c\<lparr>hs_deallocator := Running (free_actions (hs_st c))\<rparr>)"
  have "step_good c Tau ?d"
    using ok Started free_actions_ok by (auto simp: step_good_def helpers_ok_def achieving_def Let_def)
  then show ?thesis using st Started j by (auto simp: thread_step_def)
next
  case (Running as)
  then obtain a as' where a: "as = a # as'" using st by (cases as) (auto simp: thread_step_def)
  have "frees_ok (hs_st c) (a # as')" using ok Running a by (simp add: helpers_ok_def Let_def)
  then obtain s where s: "act al a (hs_st c) = Inr s" "frees_ok s as'" "same Object_Part (hs_st c) s" "same Redo_Part (hs_st c) s"
    using frees_action by blast
  have kept: "objects_kept (hs_st c) s" by (rule objects_kept_same [OF s(3)]) (use prev_parity_same [OF s(4)] in simp)
  let ?d = "put_st s (c\<lparr>hs_deallocator := Running as'\<rparr>)"
  have "helpers_ok ?d"
    using ok s(2) alloc_ok_same [OF s(3)] rest_ok_kept [OF kept] Running by (auto simp: helpers_ok_def Let_def)
  moreover have "achieving F ?d" if "achieving F c" for F
    by (rule achieving_kept [OF _ _ _ _ that])
       (use kept ok that in \<open>auto simp: helpers_ok_def achieving_def Let_def\<close>)
  ultimately have "step_good c Tau ?d" by (simp add: step_good_def)
  then show ?thesis using st Running a s(1) by (auto simp add: thread_step_def)
qed

lemma cpallocator_good:
  assumes ok: "helpers_ok c" and ap: "helpers_apart c" and st: "thread_step al (hs_cpallocator c, hs_st c) = Some r"
  shows "\<exists>th s. r = Inr (th, s) \<and> step_good c Tau (put_st s (c\<lparr>hs_cpallocator := th\<rparr>))"
proof (cases "hs_cpallocator c")
  case No_Thread
  then show ?thesis using st by (simp add: thread_step_def)
next
  case (Started j)
  have alloc: "alloc_ok (hs_st c)" using ok by (simp add: helpers_ok_def Let_def)
  have "step_good c Tau (put_st (hs_st c) (c\<lparr>hs_cpallocator := Running (job_actions j (hs_st c))\<rparr>))"
  proof (cases j)
    case Dealloc
    then show ?thesis using ap Started by (simp add: helpers_apart_def)
  next
    case Check_Valid
    then show ?thesis using ok Started check_actions_rest
      by (auto simp: step_good_def helpers_ok_def achieving_def Let_def)
  next
    case Checkpoint_Alogs
    then show ?thesis using ok Started record_actions_rest [OF alloc]
      by (auto simp: step_good_def helpers_ok_def achieving_def Let_def)
  qed
  then show ?thesis using st Started by (auto simp: thread_step_def)
next
  case (Running as)
  then obtain a as' where a: "as = a # as'" using st by (cases as) (auto simp: thread_step_def)
  have "alloc_ok (hs_st c)" "rest_ok (hs_st c) (a # as')" using ok Running a by (simp_all add: helpers_ok_def Let_def)
  then obtain s where s: "act al a (hs_st c) = Inr s" and g: "helper_acts (hs_st c) a as' s"
    using helper_action by blast
  have "part_of a = Object_Part" using ap Running a by (simp add: helpers_apart_def)
  then have f: "same Free_Part (hs_st c) s" "same Redo_Part (hs_st c) s"
    using act_frame [OF s, of Free_Part] act_frame [OF s, of Redo_Part] by simp_all
  have par: "prev_parity s = prev_parity (hs_st c)" and len: "length (ctx_array s) = length (ctx_array (hs_st c))"
    using prev_parity_same [OF f(2)] same_length [OF f(2)] by simp_all
  let ?d = "put_st s (c\<lparr>hs_cpallocator := Running as'\<rparr>)"
  have "helpers_ok ?d"
    using ok g frees_ok_same [OF f(1) par] by (auto simp: helpers_ok_def Let_def helper_acts_def Running)
  moreover have "achieving F ?d" if A: "achieving F c" for F
  proof -
    have "delayed (prev_parity s) s = delayed (prev_parity s) (hs_st c)"
      unfolding delayed_nth len using same_ctx_nth(4) [OF f(1)] by (auto intro!: arg_cong [of _ _ concat])
    then show ?thesis using A g Running a par len by (auto simp: achieving_def Let_def helper_acts_def)
  qed
  ultimately have "step_good c Tau ?d" by (simp add: step_good_def)
  then show ?thesis using st Running a s by (auto simp add: thread_step_def)
qed

lemma hstep_good:
  assumes "hstep al c ev r" and inv: "cinv (hs_sys c)" and lm: "lm_inv (abs_sys (hs_sys c)) sp"
    and ap: "helpers_apart c" and ok: "helpers_ok c"
  shows "\<exists>d. r = Inr d \<and> step_good c ev d"
proof -
  have alloc: "alloc_ok (hs_st c)" using ok by (simp add: helpers_ok_def Let_def)
  note old = no_old_op [OF lm]
  from assms(1) show ?thesis
  proof cases
    case h_init
    then show ?thesis using init_good [OF ok] by simp
  next
    case (h_user d)
    have u: "redo_only (hs_st c) (sys_st d)" "GLOBAL_EPOCH (sys_st d) = GLOBAL_EPOCH (hs_st c)" "sys_pc d = sys_pc (hs_sys c)"
      using user_step_redo [OF h_user(2)] by simp_all
    have "step_good c ev (c\<lparr>hs_sys := d\<rparr>)"
      by (rule quiet_good [OF ok])
         (use redo_only_alloc_ok [OF u(1) alloc] redo_only_undisturbed [OF u(1)] u(2,3) in \<open>simp_all add: prev_parity_def\<close>)
    then show ?thesis using h_user by simp
  next
    case (h_malloc t sz p s)
    have "step_good c Tau (put_st s c)"
      by (rule put_st_good [OF ok malloc_alloc_ok [OF h_malloc(3) alloc h_malloc(4)]])
         (rule malloc_undisturbed [OF h_malloc(3) alloc h_malloc(4) old])
    then show ?thesis using h_malloc by simp
  next
    case (h_free t p sz s)
    have "step_good c Tau (put_st s c)"
      by (rule put_st_good [OF ok free_alloc_ok [OF h_free(3) alloc h_free(4)]])
         (rule free_undisturbed [OF h_free(3) alloc h_free(4) old])
    then show ?thesis using h_free by simp
  next
    case (h_checkpointing d r')
    then show ?thesis using checkpointing_good [OF _ ok inv] by fastforce
  next
    case (h_join_cpallocator r')
    then show ?thesis using join_good(1) [OF ok] by fastforce
  next
    case (h_join_deallocator r')
    then show ?thesis using join_good(2) [OF ok] by fastforce
  next
    case (h_deallocator r')
    then show ?thesis using deallocator_good [OF ok ap] by fastforce
  next
    case (h_cpallocator r')
    then show ?thesis using cpallocator_good [OF ok ap] by fastforce
  qed
qed

lemma hrun_good:
  assumes "hrun al c0 evs c" and "cinv (hs_sys c0)" and "lm_inv (abs_sys (hs_sys c0)) sp" and "helpers_apart c0" and "helpers_ok c0"
  shows "cinv (hs_sys c) \<and> lm_inv (abs_sys (hs_sys c)) (foldr spec_step evs sp) \<and> helpers_apart c \<and> helpers_ok c \<and>
    (\<forall>F. achieving F c0 \<longrightarrow> Boundary \<notin> set evs \<longrightarrow> achieving F c)"
  using assms
proof (induction rule: hrun.induct)
  case (hrun_step evs c ev d)
  have "simulates (hs_sys c) ev (hs_sys d)" by (rule hstep_simulates) (use hrun_step in auto)
  moreover have "step_good c ev d" using hstep_good [OF hrun_step.hyps(2)] hrun_step by auto
  ultimately show ?case using hrun_step hstep_apart lm_step_inv by (fastforce simp: simulates_def step_good_def)
qed auto

lemma hs_init_ok: "quiescent s \<Longrightarrow> alloc_ok s \<Longrightarrow> helpers_apart (hs_init s) \<and> helpers_ok (hs_init s)"
  by (simp add: hs_init_def sys_init_def helpers_apart_def helpers_ok_def logging_def)

text \<open>The commit starts the thread that records the objects of the closed epoch.\<close>

lemma commit_achieving:
  assumes "hstep al c Commit (Inr d)" and ok: "helpers_ok c" and d: "helpers_ok d"
  shows "\<exists>F. achieving F d \<and> rfold record_size (prev_records (hs_st d)) (ByteMap_NVM (hs_st d)) = Inr F"
proof -
  have alloc: "alloc_ok (hs_st d)" using d by (simp add: helpers_ok_def Let_def)
  have "fits (fst r) (snd r)" if r: "r \<in> set (prev_records (hs_st d))" for r
  proof -
    obtain b where "b \<in> set (prev_blocks (hs_st d))" "r \<in> set (alog_entries (am_area (Allocatorlog_Management (hs_st d)) b))"
      using r by (auto simp: prev_records_def alog_contents_def contents_def)
    then show ?thesis using alloc_okD(6) [OF alloc, of b "fst r" "snd r"] prev_blocks_ok [OF alloc] by (auto simp: log_ok_def)
  qed
  then obtain F where F: "rfold record_size (prev_records (hs_st d)) (ByteMap_NVM (hs_st d)) = Inr F"
    using record_size_total [of "prev_records (hs_st d)" "ByteMap_NVM (hs_st d)"] alloc_okD(2) [OF alloc] by blast
  from assms(1) have "\<exists>k. sys_pc (hs_sys c) = Cp_NextCtx k \<and> sys_pc (hs_sys d) = Cp_Update 0 [] \<and>
      hs_deallocator d = hs_deallocator c \<and> hs_cpallocator d = Started Checkpoint_Alogs"
  proof cases
    case (h_user d')
    from this(2) show ?thesis by cases
  next
    case (h_checkpointing d' r)
    from this(2) show ?thesis
      by cases (use h_checkpointing in \<open>auto simp: Inr_eq_rbind res_simps thread_run_def thread_join_def
        split: thread.splits if_splits\<close>)
  qed
  then have "achieving F d" using ok F by (auto simp: achieving_def helpers_ok_def Let_def logging_def updating_def)
  with F show ?thesis by blast
qed

end
