(* ===== verification/HelperFrees.thy ===== *)
theory HelperFrees
  imports HelperGood "HOL-Library.Sublist"
begin

section \<open>The deallocations of the closed epoch\<close>

text \<open>
  That the list of delayed deallocations is empty in the end does not say that they have been performed. To see them, the
  memory allocator is taken to record its calls: \<open>recording al\<close> behaves as \<open>al\<close> and keeps the addresses it was asked to free, in the
  order of the calls, whichever thread made them.

  Shown: from the moment at which the deallocator of a checkpoint starts, every address that the closed epoch has delayed is freed, in the
  order of the lists, before the deallocator is joined.
\<close>

definition recording :: "'j allocator \<Rightarrow> ('j \<times> ptr list) allocator" where
  "recording al = \<lparr>al_malloc = (\<lambda>sz (j, l). let (p, j') = al_malloc al sz j in (p, (j', l))),
     al_free = (\<lambda>p (j, l). (al_free al p j, l @ [p]))\<rparr>"

definition freed :: "('j \<times> ptr list) escort \<Rightarrow> ptr list" where
  "freed s = snd (heap_alloc s)"

lemma recording_sel [simp]:
  "snd (snd (al_malloc (recording al) sz j)) = snd j" "snd (al_free (recording al) p j) = snd j @ [p]"
  by (simp_all add: recording_def split_beta Let_def)

subsection \<open>What the deallocator has still to free\<close>

fun frees_of :: "action list \<Rightarrow> ptr list" where
  "frees_of [] = []"
| "frees_of (Free_Delayed q # as) = q # frees_of as"
| "frees_of (_ # as) = frees_of as"

fun pending_frees :: "thread \<Rightarrow> 'j escort \<Rightarrow> ptr list" where
  "pending_frees No_Thread s = []"
| "pending_frees (Started j) s = delayed (prev_parity s) s"
| "pending_frees (Running as) s = frees_of as"

lemma frees_of_append: "frees_of (xs @ ys) = frees_of xs @ frees_of ys"
  by (induction xs rule: frees_of.induct) simp_all

lemma frees_of_actions: "frees_of (free_actions s) = delayed (prev_parity s) s"
proof -
  have "frees_of (map Free_Delayed qs) = qs" for qs by (induction qs) simp_all
  then have "frees_of (free_ctx s t) = uc_delay_dealloc (ctx_array s ! t) (prev_parity s)" for t
    by (simp add: free_ctx_def frees_of_append)
  then have "frees_of (concat (map (free_ctx s) ts)) = concat (map (\<lambda>t. uc_delay_dealloc (ctx_array s ! t) (prev_parity s)) ts)" for ts
    by (induction ts) (simp_all add: frees_of_append)
  then show ?thesis by (simp add: free_actions_def delayed_nth)
qed

lemma pending_frees_undisturbed: "undisturbed s s' \<Longrightarrow> pending_frees th s' = pending_frees th s"
  by (cases th) (simp_all add: undisturbed_delayed)

text \<open>\<open>old\<close> had been freed before, and \<open>L\<close> will have been freed when the deallocator has ended.\<close>

definition freeing :: "ptr list \<Rightarrow> ptr list \<Rightarrow> ('j \<times> ptr list) hsys \<Rightarrow> bool" where
  "freeing old L c \<longleftrightarrow> (\<forall>k. sys_pc (hs_sys c) \<noteq> Cp_Wait k) \<and>
     (\<exists>fs. freed (hs_st c) = old @ fs \<and> subseq L (fs @ pending_frees (hs_deallocator c) (hs_st c)))"

lemma freeing_kept:
  assumes "freeing old L c" and "freed (hs_st d) = freed (hs_st c)"
    and "pending_frees (hs_deallocator d) (hs_st d) = pending_frees (hs_deallocator c) (hs_st c)"
    and "\<forall>k. sys_pc (hs_sys d) \<noteq> Cp_Wait k"
  shows "freeing old L d"
  using assms by (simp add: freeing_def)

text \<open>A call of \<^verbatim>\<open>free\<close> by a user thread comes in between.\<close>

lemma freeing_more:
  assumes "freeing old L c" and "freed (hs_st d) = freed (hs_st c) @ [q]"
    and "pending_frees (hs_deallocator d) (hs_st d) = pending_frees (hs_deallocator c) (hs_st c)"
    and "\<forall>k. sys_pc (hs_sys d) \<noteq> Cp_Wait k"
  shows "freeing old L d"
proof -
  obtain fs where fs: "freed (hs_st c) = old @ fs" "subseq L (fs @ pending_frees (hs_deallocator c) (hs_st c))"
    using assms(1) by (auto simp: freeing_def)
  have "subseq (fs @ pending_frees (hs_deallocator c) (hs_st c)) ((fs @ [q]) @ pending_frees (hs_deallocator c) (hs_st c))"
    by (simp add: subseq_append' list_emb_Cons)
  with fs assms show ?thesis unfolding freeing_def by (auto intro: subseq_order.trans)
qed

subsection \<open>Every step\<close>

lemma record_alloc_op_heap: "record_alloc_op t e a sz s = Inr s' \<Longrightarrow> heap_alloc s' = heap_alloc s"
  by (auto simp: record_alloc_op_def Let_def res_simps split: if_splits)

lemma op_heap: "begin_op t s = Inr s' \<Longrightarrow> heap_alloc s' = heap_alloc s" "end_op t s = Inr s' \<Longrightarrow> heap_alloc s' = heap_alloc s"
  by (auto simp: begin_op_def end_op_def Let_def res_simps)

lemma malloc_freed: "malloc_with_create_log (recording al) t sz s = Inr (p, s') \<Longrightarrow> freed s' = freed s"
  by (auto simp: malloc_with_create_log_def freed_def res_simps Let_def split_beta split: if_splits
      dest!: record_alloc_op_heap op_heap)

lemma free_freed: "free_with_create_log (recording al) t a sz s = Inr s' \<Longrightarrow> freed s' = freed s \<or> freed s' = freed s @ [a]"
  by (auto simp: free_with_create_log_def freed_def res_simps Let_def split: if_splits
      dest!: record_alloc_op_heap op_heap)

lemma redo_only_freed: "redo_only s s' \<Longrightarrow> freed s' = freed s"
  by (simp add: redo_only_def freed_def)

lemma handover_deallocator:
  assumes "handover pc pc' (d, a) = Some (Inr (d', a'))" and "\<forall>k. pc \<noteq> Cp_Wait k"
  shows "d' = d"
  using assms
  by (induction pc pc' "(d, a)" rule: handover.induct) (auto simp: res_simps split: if_splits)

lemma hstep_freeing:
  assumes step: "hstep (recording al) c ev (Inr d)" and inv: "cinv (hs_sys c)" and lm: "lm_inv (abs_sys (hs_sys c)) sp"
    and ap: "helpers_apart c" and ok: "helpers_ok c" and ev: "ev \<noteq> Boundary" and fr: "freeing old L c"
  shows "freeing old L d"
proof -
  have alloc: "alloc_ok (hs_st c)" using ok by (simp add: helpers_ok_def Let_def)
  have pc: "\<forall>k. sys_pc (hs_sys c) \<noteq> Cp_Wait k" using fr by (simp add: freeing_def)
  note old = no_old_op [OF lm pc]
  from step show ?thesis
  proof cases
    case h_init
    then show ?thesis by (intro freeing_kept [OF fr]) (simp_all add: freed_def)
  next
    case (h_user d')
    have u: "redo_only (hs_st c) (sys_st d')" "GLOBAL_EPOCH (sys_st d') = GLOBAL_EPOCH (hs_st c)" "sys_pc d' = sys_pc (hs_sys c)"
      using user_step_redo [OF h_user(2)] by simp_all
    have "undisturbed (hs_st c) (sys_st d')" using redo_only_undisturbed [OF u(1)] u(2) by (simp add: prev_parity_def)
    then show ?thesis
      using h_user(1) u(1,3) pc by (intro freeing_kept [OF fr]) (simp_all add: redo_only_freed pending_frees_undisturbed)
  next
    case (h_malloc t sz p s)
    then show ?thesis
      using malloc_undisturbed [OF h_malloc(3) alloc h_malloc(4) old] malloc_freed [OF h_malloc(3)] pc
      by (intro freeing_kept [OF fr]) (simp_all add: pending_frees_undisturbed)
  next
    case (h_free t p sz s)
    have "undisturbed (hs_st c) s" by (rule free_undisturbed [OF h_free(3) alloc h_free(4) old])
    then have p: "pending_frees (hs_deallocator d) (hs_st d) = pending_frees (hs_deallocator c) (hs_st c)"
      using h_free(2) by (simp add: pending_frees_undisturbed)
    from free_freed [OF h_free(3)] show ?thesis
      using freeing_kept [OF fr _ p] freeing_more [OF fr _ p] h_free(2) pc by auto
  next
    case (h_checkpointing d' r)
    obtain x y where xy: "r = Inr (x, y)" "d = \<lparr>hs_sys = d', hs_deallocator = x, hs_cpallocator = y\<rparr>"
      using h_checkpointing(1) by (auto simp: Inr_eq_rbind)
    have x: "x = hs_deallocator c" using handover_deallocator [OF h_checkpointing(3) [unfolded xy(1)] pc] .
    have redo: "redo_only (hs_st c) (sys_st d')" by (rule cp_step_redo [OF h_checkpointing(2)])
    have "undisturbed (hs_st c) (sys_st d')"
      using redo_only_undisturbed [OF redo] cp_step_parity [OF h_checkpointing(2) ev] cinvD(6) [OF inv] by (simp add: epochs_ok_def Let_def)
    moreover have "\<forall>k. sys_pc d' \<noteq> Cp_Wait k" using h_checkpointing(2) ev pc by (cases rule: cp_step.cases) simp_all
    ultimately show ?thesis
      using redo_only_freed [OF redo] by (intro freeing_kept [OF fr]) (simp_all add: xy(2) x pending_frees_undisturbed)
  next
    case (h_join_cpallocator r)
    then show ?thesis using pc by (intro freeing_kept [OF fr]) (auto simp: Inr_eq_rbind)
  next
    case (h_join_deallocator r)
    then show ?thesis using pc
      by (intro freeing_kept [OF fr]) (auto simp: Inr_eq_rbind thread_join_def split: thread.splits if_splits)
  next
    case (h_deallocator r)
    obtain th s where r: "thread_step (recording al) (hs_deallocator c, hs_st c) = Some (Inr (th, s))"
      "d = put_st s (c\<lparr>hs_deallocator := th\<rparr>)"
      using h_deallocator by (auto simp: Inr_eq_rbind)
    show ?thesis
    proof (cases "hs_deallocator c")
      case No_Thread
      with r(1) show ?thesis by (simp add: thread_step_def)
    next
      case (Started j)
      then have "j = Dealloc" using ap by (cases j) (auto simp: helpers_apart_def)
      then show ?thesis using r Started pc
        by (intro freeing_kept [OF fr]) (auto simp: thread_step_def frees_of_actions)
    next
      case (Running as)
      then obtain a as' where a: "as = a # as'" using r(1) by (cases as) (auto simp: thread_step_def)
      then have s: "act (recording al) a (hs_st c) = Inr s" "th = Running as'" using r(1) Running by (auto simp: thread_step_def res_simps)
      have "frees_ok (hs_st c) (a # as')" using ok Running a by (simp add: helpers_ok_def Let_def)
      then consider q where "a = Free_Delayed q" | p t where "a = Clear_Delayed p t" by (auto simp: frees_ok_def)
      then show ?thesis
      proof cases
        case 1
        then have "freed s = freed (hs_st c) @ [q]" using s(1) by (auto simp: freed_def)
        then show ?thesis using fr 1 Running a s(2) r(2) by (auto simp: freeing_def)
      next
        case 2
        then have "freed s = freed (hs_st c)" using s(1) by (auto simp: freed_def clear_delayed_def res_simps)
        then show ?thesis using 2 Running a s(2) r(2) pc by (intro freeing_kept [OF fr]) simp_all
      qed
    qed
  next
    case (h_cpallocator r)
    obtain th s where r: "thread_step (recording al) (hs_cpallocator c, hs_st c) = Some (Inr (th, s))"
      "d = put_st s (c\<lparr>hs_cpallocator := th\<rparr>)"
      using h_cpallocator by (auto simp: Inr_eq_rbind)
    have "thread_in Object_Part (hs_cpallocator c)" using ap by (simp add: helpers_apart_def)
    from thread_step_in [OF r(1) this] have f: "same Free_Part (hs_st c) s" "same Redo_Part (hs_st c) s" by blast+
    have "delayed (prev_parity s) s = delayed (prev_parity (hs_st c)) (hs_st c)"
      unfolding delayed_nth using same_ctx_nth(4) [OF f(1)] same_length [OF f(2)] prev_parity_same [OF f(2)]
      by (auto intro!: arg_cong [of _ _ concat])
    then have "pending_frees x s = pending_frees x (hs_st c)" for x by (cases x) simp_all
    then show ?thesis using f(1) r(2) pc by (intro freeing_kept [OF fr]) (simp_all add: freed_def)
  qed
qed

lemma hrun_freeing:
  assumes "hrun (recording al) c0 evs c" and "cinv (hs_sys c0)" and "lm_inv (abs_sys (hs_sys c0)) sp" and "helpers_apart c0"
    and "helpers_ok c0" and "freeing old L c0" and "Boundary \<notin> set evs"
  shows "freeing old L c"
  using assms
proof (induction rule: hrun.induct)
  case (hrun_step evs c ev d)
  note g = hrun_good [OF hrun_step.hyps(1) hrun_step.prems(1-4)]
  show ?case using hstep_freeing [OF hrun_step.hyps(2)] g hrun_step by auto
qed

text \<open>The deallocator starts where the wait of a checkpoint is over.\<close>

lemma dealloc_starts:
  assumes "hstep (recording al) c ev (Inr d)" and "hs_deallocator c = No_Thread" and "hs_deallocator d = Started Dealloc"
  shows "freeing (freed (hs_st d)) (delayed (prev_parity (hs_st d)) (hs_st d)) d"
proof -
  from assms(1) have "\<forall>k. sys_pc (hs_sys d) \<noteq> Cp_Wait k"
  proof cases
    case (h_checkpointing d' r)
    then obtain x y where h: "handover (sys_pc (hs_sys c)) (sys_pc d') (hs_deallocator c, hs_cpallocator c) = Some (Inr (x, y))"
      "d = \<lparr>hs_sys = d', hs_deallocator = x, hs_cpallocator = y\<rparr>" by (auto simp: Inr_eq_rbind)
    from h_checkpointing(2) show ?thesis
      by cases (use h assms(2,3) in \<open>auto split: if_splits\<close>)
  qed (use assms(2,3) in \<open>auto simp: Inr_eq_rbind thread_step_def thread_join_def\<close>)
  then show ?thesis using assms(3) by (simp add: freeing_def)
qed

end
