(* ===== verification/HelperDemo.thy ===== *)
theory HelperDemo
  imports HelperFrees Demo
begin

section \<open>Concrete runs with helper threads\<close>

text \<open>
  Three runs that instantiate the theorems on all runs of \<open>hstep\<close>: the run of the theory Demo, to which the helper threads are
  added; a run in which the operation begins before the epoch is closed and writes after it; and a checkpoint of an epoch that has left one
  record in an allocator log and one delayed deallocation.
\<close>

subsection \<open>The run of the theory Demo\<close>

definition demo_hs :: "'j sys \<Rightarrow> thread \<Rightarrow> thread \<Rightarrow> 'j hsys" where
  "demo_hs c d a = \<lparr>hs_sys = c, hs_deallocator = d, hs_cpallocator = a\<rparr>"

lemma demo_hs_user: "user_step c ev d \<Longrightarrow> hstep al (demo_hs c x y) ev (Inr (demo_hs d x y))"
  using h_user [of "demo_hs c x y" ev d al] by (simp add: demo_hs_def)

lemma demo_hs_cp:
  "cp_step c ev d \<Longrightarrow> handover (sys_pc c) (sys_pc d) (x, y) = Some (Inr (x', y')) \<Longrightarrow>
    hstep al (demo_hs c x y) ev (Inr (demo_hs d x' y'))"
  using h_checkpointing [of "demo_hs c x y" ev d "Inr (x', y')" al] by (simp add: demo_hs_def)

lemma demo_hs_cpallocator:
  "thread_step al (y, s) = Some (Inr (y', s')) \<Longrightarrow>
    hstep al (demo_hs (demo_sys pc e s) x y) Tau (Inr (demo_hs (demo_sys pc e s') x y'))"
  using h_cpallocator [of al "demo_hs (demo_sys pc e s) x y" "Inr (y', s')"] by (simp add: demo_hs_def put_st_def)

lemma demo_hs_deallocator:
  "thread_step al (x, s) = Some (Inr (x', s')) \<Longrightarrow>
    hstep al (demo_hs (demo_sys pc e s) x y) Tau (Inr (demo_hs (demo_sys pc e s') x' y))"
  using h_deallocator [of al "demo_hs (demo_sys pc e s) x y" "Inr (x', s')"] by (simp add: demo_hs_def put_st_def)

lemma demo_hs_begun:
  "hrun demo_al (hs_init demo_start) [Tau, Tau] (demo_hs (demo_sys Cp_Idle 2 demo_begun) No_Thread No_Thread)"
proof -
  let ?c = "\<lambda>s. demo_hs (demo_sys Cp_Idle 2 s) No_Thread No_Thread"
  have "hs_init demo_start = ?c demo_start" by (simp add: hs_init_def demo_init demo_hs_def)
  moreover have "hstep demo_al (?c demo_start) Tau (Inr (?c (demo_start\<lparr>ctx_array := [userthreadctx_new]\<rparr>)))"
    using h_init [of "?c demo_start" demo_al] by (simp add: demo_hs_def put_st_def) (simp add: demo_start_def)
  ultimately show ?thesis
    using demo_user_steps(1) [THEN demo_hs_user] by (auto intro!: hrun.intros)
qed

lemma demo_hs_start:
  "hrun demo_al (hs_init demo_start) [Tau, demo_event, Tau, Tau] (demo_hs (demo_sys Cp_Idle 2 (demo_ended 2)) No_Thread No_Thread)"
  by (rule hrun_step [OF hrun_step [OF demo_hs_begun demo_hs_user [OF demo_user_steps(2)]] demo_hs_user [OF demo_user_steps(3)]])

lemma demo_check_actions: "job_actions Check_Valid (demo_ended e) = []"
  by (simp add: check_actions_def prev_positions_def log_positions_def demo_ctx_def userthreadctx_new_def)

lemma demo_hs_seal: "hstep demo_al (demo_hs (demo_sys Cp_Idle 2 (demo_ended 2)) No_Thread No_Thread) Boundary
    (Inr (demo_hs (demo_sys (Cp_Wait 0) demo_sealed_epoch (demo_ended demo_sealed_epoch)) No_Thread No_Thread))"
  by (rule demo_hs_cp [OF demo_seal]) simp

lemma demo_hs_logged:
  "hrun demo_al (demo_hs (demo_sys (Cp_Wait 0) demo_sealed_epoch (demo_ended demo_sealed_epoch)) No_Thread No_Thread)
     [Tau, Tau, Tau, Tau, Tau, Tau, Tau]
     (demo_hs (demo_sys (Cp_NextCtx 1) demo_logging_epoch (demo_logged demo_logging_epoch [])) (Started Dealloc) (Running []))"
proof -
  let ?s = "demo_ended demo_logging_epoch"
  have 1: "hstep demo_al (demo_hs (demo_sys (Cp_Wait 1) demo_sealed_epoch (demo_ended demo_sealed_epoch)) No_Thread No_Thread) Tau
      (Inr (demo_hs (demo_sys (Cp_NextCtx 0) demo_logging_epoch ?s) (Started Dealloc) (Started Check_Valid)))"
    by (rule demo_hs_cp [OF demo_logging_steps(2)]) (simp add: thread_run_def)
  have 2: "hstep demo_al (demo_hs (demo_sys (Cp_NextCtx 0) demo_logging_epoch ?s) (Started Dealloc) (Started Check_Valid)) Tau
      (Inr (demo_hs (demo_sys (Cp_NextCtx 0) demo_logging_epoch ?s) (Started Dealloc) (Running [])))"
    by (rule demo_hs_cpallocator) (simp add: thread_step_def demo_check_actions del: job_actions.simps)
  note wait = demo_hs_cp [OF demo_logging_steps(1), of No_Thread No_Thread No_Thread No_Thread demo_al, simplified]
  have quiet: "cp_step (demo_sys pc e s) Tau (demo_sys pc' e' s') \<Longrightarrow> logging pc \<Longrightarrow> logging pc' \<Longrightarrow>
      hstep demo_al (demo_hs (demo_sys pc e s) x y) Tau (Inr (demo_hs (demo_sys pc' e' s') x y))" for pc e s pc' e' s' x y
    by (rule demo_hs_cp) (auto simp: logging_def split: cp_pc.splits)
  note log = demo_logging_steps(3) [THEN quiet] demo_line_steps [THEN quiet]
  show ?thesis
    by (rule hrun_step [OF hrun_step [OF hrun_step [OF hrun_step [OF hrun_step [OF hrun_step [OF hrun_step
          [OF hrun_start wait [folded One_nat_def]] 1] 2] log(1)] log(2)] log(3)] log(4)])
      (simp_all add: logging_def)
qed

lemma hrun_trans: "hrun al c1 es2 c2 \<Longrightarrow> hrun al c0 es1 c1 \<Longrightarrow> hrun al c0 (es2 @ es1) c2"
  by (induction rule: hrun.induct) (auto intro: hrun_step)

definition demo_hs_commit :: "unit hsys" where
  "demo_hs_commit = demo_hs demo_commit (Started Dealloc) (Started Checkpoint_Alogs)"

lemma demo_hs_commits:
  "hstep demo_al (demo_hs (demo_sys (Cp_NextCtx 1) demo_logging_epoch (demo_logged demo_logging_epoch [])) (Started Dealloc) (Running []))
     Commit (Inr demo_hs_commit)"
  unfolding demo_hs_commit_def demo_commit_def
  by (rule demo_hs_cp [OF demo_commits]) (simp add: thread_run_def thread_join_def)

lemmas demo_hs_run = hrun_trans [OF demo_hs_logged hrun_step [OF demo_hs_start demo_hs_seal]]

subsection \<open>An operation that writes after its epoch has been closed\<close>

abbreviation demo_late :: "unit escort \<Rightarrow> unit escort" where
  "demo_late s \<equiv> s\<lparr>GLOBAL_EPOCH := demo_sealed_epoch\<rparr>"

definition demo_late_event :: "cacheline_t event" where
  "demo_late_event = Write True {0} (heap_image (dram demo_written))"

lemma demo_late_seal: "hstep demo_al (demo_hs (demo_sys Cp_Idle 2 demo_begun) No_Thread No_Thread) Boundary
    (Inr (demo_hs (demo_sys (Cp_Wait 0) demo_sealed_epoch (demo_late demo_begun)) No_Thread No_Thread))"
proof -
  have "enter_phase 3 Multi_Epoch_Existence demo_begun = Inr (demo_sealed_epoch, demo_late demo_begun)"
    by (simp add: enter_phase_def set_phase_def Let_def epoch_mask_def mask_multiple_epoch_existence_def demo_sealed_epoch_def)
  then show ?thesis using seal_step [of "demo_sys Cp_Idle 2 demo_begun"] by (intro demo_hs_cp) simp_all
qed

lemma demo_late_write: "pwrite 0 DRAM_BASE [7] (demo_late demo_begun) = Inr (demo_late demo_written)"
  by (simp add: pwrite_def mark_def num_bits_def get_ctx_def index_0 align_0 LOG_CACHE_LINE_SIZE_def
      mark_line_def bitmap_is_set_def bitmap_set_def epoch_bit_def heap_lines_eq addrlist_append_def
      put_ctx_def demo_store demo_defs fun_eq_iff)

lemma demo_late_client: "old_op 0 (demo_late demo_begun)" "client_ok 0 DRAM_BASE [7] (demo_late demo_begun)"
  by (simp_all add: old_op_def in_op_def client_ok_def covered_def num_bits_def LOG_CACHE_LINE_SIZE_def DRAM_BASE_def
      flagged_def demo_defs)

lemma demo_late_end: "end_op 0 (demo_late demo_written) = Inr (demo_ended demo_sealed_epoch)"
  by (simp add: end_op_def get_ctx_def put_ctx_def demo_defs)

lemma demo_late_ended:
  "hrun demo_al (demo_hs (demo_sys (Cp_Wait 0) demo_sealed_epoch (demo_late demo_begun)) No_Thread No_Thread) [Tau, demo_late_event]
     (demo_hs (demo_sys (Cp_Wait 0) demo_sealed_epoch (demo_ended demo_sealed_epoch)) No_Thread No_Thread)"
proof -
  let ?c = "demo_sys (Cp_Wait 0) demo_sealed_epoch (demo_late demo_begun)"
  let ?d = "demo_sys (Cp_Wait 0) demo_sealed_epoch (demo_late demo_written)"
  have 1: "user_step ?c demo_late_event ?d"
    using write_step [of 0 DRAM_BASE "[7]" ?c "demo_late demo_written"] demo_late_write demo_late_client
    by (simp add: demo_late_event_def demo_lines)
  have 2: "user_step ?d Tau (demo_sys (Cp_Wait 0) demo_sealed_epoch (demo_ended demo_sealed_epoch))"
    using end_step [of 0 ?d] demo_late_end by simp
  show ?thesis
    by (rule hrun_step [OF hrun_step [OF hrun_start demo_hs_user [OF 1]] demo_hs_user [OF 2]])
qed

lemmas demo_late_logged = hrun_trans [OF demo_hs_logged demo_late_ended]

subsection \<open>An epoch with a record and a delayed deallocation\<close>

text \<open>
  The epoch 2 has recorded an object of one line at the start of the heap and delayed its deallocation. The allocator records
  what it is asked to free.
\<close>

definition free_al :: "(unit \<times> ptr list) allocator" where
  "free_al = recording demo_al"

definition free_record :: alog_entry where
  "free_record = \<lparr>ae_addr = DRAM_BASE, ae_size = 64, ae_is_valid = True\<rparr>"

definition free_logs :: allocatorlog_management where
  "free_logs = \<lparr>am_free = [], am_used = [0], am_area = (\<lambda>_. \<lparr>ab_entries = (\<lambda>_. free_record), ab_size = 1,
     ab_max_size = ALLOCATOR_LOG_BLOCK_NUM, ab_epoch = 2\<rparr>)\<rparr>"

definition free_maps :: "8 word \<Rightarrow> bool \<Rightarrow> bytemap_t" where
  "free_maps v = (\<lambda>_. \<lparr>by_bytes = (\<lambda>_. 0), by_size = heap_lines\<rparr>)(False := \<lparr>by_bytes = (\<lambda>_. 0)(0 := v), by_size = heap_lines\<rparr>)"

definition free_ctx_of :: "allocatorlog_t \<Rightarrow> ptr list \<Rightarrow> userthreadctx_t" where
  "free_ctx_of a d = userthreadctx_new\<lparr>uc_allocatorlog := (\<lambda>_. [])(False := a), uc_delay_dealloc := (\<lambda>_. [])(False := d)\<rparr>"

text \<open>
  The epoch word, the byte of the object in the maps in DRAM and on NVM, the allocator log of the context with the state of
  the blocks, the list of delayed deallocations, and the addresses freed.
\<close>

definition free_state :: "epoch_t \<Rightarrow> 8 word \<Rightarrow> 8 word \<Rightarrow> allocatorlog_t \<times> allocatorlog_management \<Rightarrow> ptr list \<Rightarrow> ptr list \<Rightarrow>
  (unit \<times> ptr list) escort" where
  "free_state e v w l d f = \<lparr>GLOBAL_EPOCH = e, BitMap = (\<lambda>_. \<lparr>bm_bits = (\<lambda>_. False), bm_size = heap_lines\<rparr>),
     ByteMap = free_maps v, ByteMap_NVM = \<lparr>by_bytes = (\<lambda>_. 0)(0 := w), by_size = heap_lines\<rparr>,
     Plog_Management = \<lparr>pm_free = [0], pm_used = [], pm_area = (\<lambda>_. demo_block)\<rparr>,
     Allocatorlog_Management = snd l, ctx_array = [free_ctx_of (fst l) d], cp_log = [],
     dram = (\<lambda>_. blank_line), nvm = (\<lambda>_. blank_line), nvm_offset = 0x1040 - DRAM_BASE, heap_alloc = ((), f)\<rparr>"

abbreviation free_start :: "(unit \<times> ptr list) escort" where
  "free_start \<equiv> free_state 2 1 0 ([0], free_logs) [DRAM_BASE] []"

lemma free_state_sel [simp]:
  "GLOBAL_EPOCH (free_state e v w l d f) = e" "ctx_array (free_state e v w l d f) = [free_ctx_of (fst l) d]"
  "ByteMap (free_state e v w l d f) = free_maps v" "Allocatorlog_Management (free_state e v w l d f) = snd l"
  "ByteMap_NVM (free_state e v w l d f) = \<lparr>by_bytes = (\<lambda>_. 0)(0 := w), by_size = heap_lines\<rparr>"
  "heap_alloc (free_state e v w l d f) = ((), f)" "cp_log (free_state e v w l d f) = []"
  "Plog_Management (free_state e v w l d f) = \<lparr>pm_free = [0], pm_used = [], pm_area = (\<lambda>_. demo_block)\<rparr>"
  "(free_state e v w l d f)\<lparr>GLOBAL_EPOCH := e'\<rparr> = free_state e' v w l d f"
  "(free_state e v w l d f)\<lparr>heap_alloc := ((), f')\<rparr> = free_state e v w l d f'"
  by (simp_all add: free_state_def)

lemma free_ctx_sel [simp]:
  "uc_epoch (free_ctx_of a d) = 0" "uc_log (free_ctx_of a d) = []" "uc_addrlist (free_ctx_of a d) = (\<lambda>_. [])"
  "uc_allocatorlog (free_ctx_of a d) = (\<lambda>_. [])(False := a)" "uc_delay_dealloc (free_ctx_of a d) = (\<lambda>_. [])(False := d)"
  by (simp_all add: free_ctx_of_def userthreadctx_new_def fun_eq_iff)

lemma free_start_quiescent: "quiescent free_start"
proof -
  have "get_phase 2 = Inr NVM_Heap_Update" using get_phase_Epoch [of 2] by simp
  then show ?thesis
    by (auto simp: quiescent_def bitmap_is_clear_iff plog_pool_ok_def pool_ok_def demo_block_def plog_entries_def)
       (auto simp: free_state_def bitmap_is_clear_iff heap_image_def fun_eq_iff)
qed

lemma free_index: "bytemap_get_index DRAM_BASE = Inr 0"
  using bytemap_get_index_heap [of 0 0] by (simp add: line_ptr_0 heap_lines_eq)

lemma free_start_alloc_ok: "alloc_ok free_start"
proof (rule alloc_okI)
  have "fits DRAM_BASE 64" by (simp add: fits_def free_index heap_lines_eq lines_of_def)
  then show "fits a sz" if "(a, sz) \<in> set (alog_entries (am_area (Allocatorlog_Management free_start) b))" for a sz b
    using that by (simp add: free_logs_def alog_entries_def free_record_def)
qed (simp_all add: alogs_def alog_pool_ok_def pool_ok_def free_logs_def free_maps_def alog_entries_def ALLOCATOR_LOG_BLOCK_NUM_def)

text \<open>The steps of the checkpointing thread.\<close>

abbreviation free_cp :: "cp_pc \<Rightarrow> epoch_t \<Rightarrow> (unit \<times> ptr list) escort \<Rightarrow> thread \<Rightarrow> thread \<Rightarrow> (unit \<times> ptr list) hsys" where
  "free_cp pc e s \<equiv> demo_hs (demo_sys pc e s)"

lemma free_enter:
  "enter_phase 3 Multi_Epoch_Existence s = Inr (demo_sealed_epoch, s\<lparr>GLOBAL_EPOCH := demo_sealed_epoch\<rparr>)"
  "enter_phase demo_sealed_epoch Log_Persistence s = Inr (demo_logging_epoch, s\<lparr>GLOBAL_EPOCH := demo_logging_epoch\<rparr>)"
  "enter_phase demo_logging_epoch NVM_Heap_Update s = Inr (3, s\<lparr>GLOBAL_EPOCH := 3\<rparr>)"
  by (simp_all add: enter_phase_def set_phase_def Let_def epoch_mask_def mask_multiple_epoch_existence_def
      mask_log_persistence_def mask_nvm_heap_update_def demo_sealed_epoch_def demo_logging_epoch_def)

lemma free_sealed:
  "hstep free_al (hs_init free_start) Boundary (Inr (free_cp (Cp_Wait 0) demo_sealed_epoch
     (free_state demo_sealed_epoch 1 0 ([0], free_logs) [DRAM_BASE] []) No_Thread No_Thread))"
proof -
  have "hs_init free_start = free_cp Cp_Idle 2 free_start No_Thread No_Thread"
    by (simp add: hs_init_def sys_init_def demo_hs_def demo_sys_def)
  then show ?thesis using seal_step [of "demo_sys Cp_Idle 2 free_start"] by (auto intro!: demo_hs_cp simp: free_enter)
qed

lemma free_waited:
  "hstep al (free_cp (Cp_Wait 0) demo_sealed_epoch (free_state demo_sealed_epoch v w l d f) No_Thread No_Thread) Tau
     (Inr (free_cp (Cp_Wait 1) demo_sealed_epoch (free_state demo_sealed_epoch v w l d f) No_Thread No_Thread))"
  "hstep al (free_cp (Cp_Wait 1) demo_sealed_epoch (free_state demo_sealed_epoch v w l d f) No_Thread No_Thread) Tau
     (Inr (free_cp (Cp_NextCtx 0) demo_logging_epoch (free_state demo_logging_epoch v w l d f) (Started Dealloc) (Started Check_Valid)))"
  using wait_step [of "demo_sys (Cp_Wait 0) demo_sealed_epoch (free_state demo_sealed_epoch v w l d f)" 0]
    waited_step [of "demo_sys (Cp_Wait 1) demo_sealed_epoch (free_state demo_sealed_epoch v w l d f)"]
  by (auto intro!: demo_hs_cp simp: free_enter left_previous_epoch_def thread_run_def)

lemma free_logged:
  "hstep al (free_cp (Cp_NextCtx 0) demo_logging_epoch (free_state demo_logging_epoch v w l d f) x y) Tau
     (Inr (free_cp (Cp_Log 0 [] 0) demo_logging_epoch (free_state demo_logging_epoch v w l d f) x y))"
  "hstep al (free_cp (Cp_Log 0 [] 0) demo_logging_epoch (free_state demo_logging_epoch v w l d f) x y) Tau
     (Inr (free_cp (Cp_NextCtx 1) demo_logging_epoch (free_state demo_logging_epoch v w l d f) x y))"
proof -
  have "clear_list False 0 (free_state demo_logging_epoch v w l d f) = Inr (free_state demo_logging_epoch v w l d f)"
    by (simp add: clear_list_def get_ctx_def put_ctx_def addrlist_clear_def fun_upd_idem free_state_def free_ctx_of_def
        userthreadctx_new_def)
  then show "hstep al (free_cp (Cp_NextCtx 0) demo_logging_epoch (free_state demo_logging_epoch v w l d f) x y) Tau
     (Inr (free_cp (Cp_Log 0 [] 0) demo_logging_epoch (free_state demo_logging_epoch v w l d f) x y))"
    and "hstep al (free_cp (Cp_Log 0 [] 0) demo_logging_epoch (free_state demo_logging_epoch v w l d f) x y) Tau
     (Inr (free_cp (Cp_NextCtx 1) demo_logging_epoch (free_state demo_logging_epoch v w l d f) x y))"
    using list_step [of "demo_sys (Cp_NextCtx 0) demo_logging_epoch (free_state demo_logging_epoch v w l d f)" 0]
      list_done_step [of "demo_sys (Cp_Log 0 [] 0) demo_logging_epoch (free_state demo_logging_epoch v w l d f)" 0 0]
    by (auto intro!: demo_hs_cp simp: demo_prev_parity)
qed

lemma free_committed:
  "hstep al (free_cp (Cp_NextCtx 1) demo_logging_epoch (free_state demo_logging_epoch v w l d f) x (Running [])) Commit
     (Inr (free_cp (Cp_Update 0 []) 3 (free_state 3 v w l d f) x (Started Checkpoint_Alogs)))"
  using commit_step [of "demo_sys (Cp_NextCtx 1) demo_logging_epoch (free_state demo_logging_epoch v w l d f)"]
  by (auto intro!: demo_hs_cp simp: free_enter thread_run_def thread_join_def)

lemma free_updated:
  "hrun al (free_cp (Cp_Update 0 []) 3 (free_state 3 v w l d f) x y) [Tau, Tau, Tau] (free_cp Cp_Idle 3 (free_state 3 v w l d f) x y)"
proof -
  let ?s = "free_state 3 v w l d f"
  have logs: "redo_logs ?s = [[], []]" by (simp add: redo_logs_def)
  have clr: "clear_redo_logs ?s = ?s"
    by (simp add: clear_redo_logs_def clear_cp_log_def clear_ctx_log_def plog_clear.simps free_state_def put_ctx_def
        free_ctx_of_def userthreadctx_new_def)
  have "hstep al (free_cp (Cp_Update 0 []) 3 ?s x y) Tau (Inr (free_cp (Cp_Update 1 []) 3 ?s x y))"
    "hstep al (free_cp (Cp_Update 1 []) 3 ?s x y) Tau (Inr (free_cp (Cp_Update 2 []) 3 ?s x y))"
    "hstep al (free_cp (Cp_Update 2 []) 3 ?s x y) Tau (Inr (free_cp Cp_Idle 3 ?s x y))"
    using next_log_step [of "demo_sys (Cp_Update 0 []) 3 ?s" 0] next_log_step [of "demo_sys (Cp_Update 1 []) 3 ?s" 1]
      finish_step [of "demo_sys (Cp_Update 2 []) 3 ?s"]
    by (auto intro!: demo_hs_cp simp: logs clr plog_contents_def contents_def numeral_2_eq_2)
  then show ?thesis by (blast intro: hrun.intros)
qed

text \<open>The steps of the helper threads, and the joins.\<close>

lemma free_checked:
  "hrun al (free_cp pc demo_logging_epoch (free_state demo_logging_epoch 1 w ([0], free_logs) d f) x (Started Check_Valid)) [Tau, Tau]
     (free_cp pc demo_logging_epoch (free_state demo_logging_epoch 0 w ([0], free_logs) d f) x (Running []))"
proof -
  let ?s = "\<lambda>v. free_state demo_logging_epoch v w ([0], free_logs) d f"
  have pos: "check_actions (?s 1) = [Check_Entry False 0 0]"
    by (simp add: check_actions_def prev_positions_def log_positions_def block_positions_def demo_prev_parity free_logs_def)
  have chk: "check_valid_entry False 0 0 (?s 1) = Inr (?s 0)"
    by (simp add: check_valid_entry_def free_logs_def free_record_def free_index bytemap_is_set_def bytemap_get_byte_def
        bytemap_clear_def bytemap_write_def free_maps_def heap_lines_eq Let_def free_state_def)
  have 1: "hstep al (free_cp pc demo_logging_epoch (?s 1) x (Started Check_Valid)) Tau
      (Inr (free_cp pc demo_logging_epoch (?s 1) x (Running [Check_Entry False 0 0])))"
    by (rule demo_hs_cpallocator) (simp add: thread_step_def pos)
  have 2: "hstep al (free_cp pc demo_logging_epoch (?s 1) x (Running [Check_Entry False 0 0])) Tau
      (Inr (free_cp pc demo_logging_epoch (?s 0) x (Running [])))"
    by (rule demo_hs_cpallocator) (simp add: thread_step_def chk)
  show ?thesis by (rule hrun_step [OF hrun_step [OF hrun_start 1] 2])
qed

definition free_cleared :: "allocatorlog_t \<times> allocatorlog_management" where
  "free_cleared = alog_clear ([0], free_logs)"

lemma free_cleared_log: "fst free_cleared = []"
  by (simp add: free_cleared_def alog_clear.simps Let_def)

lemma free_recorded:
  "hrun al (free_cp pc 3 (free_state 3 v 0 ([0], free_logs) d f) x (Started Checkpoint_Alogs)) [Tau, Tau, Tau]
     (free_cp pc 3 (free_state 3 v 1 free_cleared d f) x (Running []))"
proof -
  let ?s = "\<lambda>w. free_state 3 v w ([0], free_logs) d f"
  have pos: "record_actions (?s 0) = [Record_Entry 0 0, Clear_Alog False 0]"
    by (simp add: record_actions_def record_ctx_def log_positions_def block_positions_def demo_prev_parity free_logs_def)
  have rec: "record_sizes_entry 0 0 (?s 0) = Inr (?s 1)"
    by (simp add: record_sizes_entry_def free_logs_def free_record_def free_index set_obj_size_def set_obj_loop.simps
        bytemap_write_def heap_lines_eq HEAP_SIZE_eq LOG_CACHE_LINE_SIZE_def rassert_def Let_def free_state_def)
  have clr: "clear_alog False 0 (?s 1) = Inr (free_state 3 v 1 free_cleared d f)"
    by (simp add: clear_alog_def get_ctx_def split_beta Let_def free_cleared_def [symmetric])
       (simp add: put_ctx_def free_state_def free_ctx_of_def fun_upd_def userthreadctx_new_def)
  have 1: "hstep al (free_cp pc 3 (?s 0) x (Started Checkpoint_Alogs)) Tau
      (Inr (free_cp pc 3 (?s 0) x (Running [Record_Entry 0 0, Clear_Alog False 0])))"
    by (rule demo_hs_cpallocator) (simp add: thread_step_def pos)
  have 2: "hstep al (free_cp pc 3 (?s 0) x (Running [Record_Entry 0 0, Clear_Alog False 0])) Tau
      (Inr (free_cp pc 3 (?s 1) x (Running [Clear_Alog False 0])))"
    by (rule demo_hs_cpallocator) (simp add: thread_step_def rec)
  have 3: "hstep al (free_cp pc 3 (?s 1) x (Running [Clear_Alog False 0])) Tau
      (Inr (free_cp pc 3 (free_state 3 v 1 free_cleared d f) x (Running [])))"
    by (rule demo_hs_cpallocator) (simp add: thread_step_def clr)
  show ?thesis by (rule hrun_step [OF hrun_step [OF hrun_step [OF hrun_start 1] 2] 3])
qed

lemma free_deallocated:
  "hrun free_al (free_cp pc 3 (free_state 3 v w l [q] f) (Started Dealloc) y) [Tau, Tau, Tau]
     (free_cp pc 3 (free_state 3 v w l [] (f @ [q])) (Running []) y)"
proof -
  have pos: "free_actions (free_state 3 v w l [q] f) = [Free_Delayed q, Clear_Delayed False 0]"
    by (simp add: free_actions_def free_ctx_def demo_prev_parity)
  have free: "al_free free_al q ((), f) = ((), f @ [q])" by (simp add: free_al_def recording_def demo_al_def)
  have clr: "clear_delayed False 0 (free_state 3 v w l [q] g) = Inr (free_state 3 v w l [] g)" for g
    by (auto simp: clear_delayed_def get_ctx_def put_ctx_def free_state_def free_ctx_of_def userthreadctx_new_def fun_eq_iff)
  have 1: "hstep free_al (free_cp pc 3 (free_state 3 v w l [q] f) (Started Dealloc) y) Tau
      (Inr (free_cp pc 3 (free_state 3 v w l [q] f) (Running [Free_Delayed q, Clear_Delayed False 0]) y))"
    by (rule demo_hs_deallocator) (simp add: thread_step_def pos)
  have 2: "hstep free_al (free_cp pc 3 (free_state 3 v w l [q] f) (Running [Free_Delayed q, Clear_Delayed False 0]) y) Tau
      (Inr (free_cp pc 3 (free_state 3 v w l [q] (f @ [q])) (Running [Clear_Delayed False 0]) y))"
    by (rule demo_hs_deallocator) (simp add: thread_step_def free)
  have 3: "hstep free_al (free_cp pc 3 (free_state 3 v w l [q] (f @ [q])) (Running [Clear_Delayed False 0]) y) Tau
      (Inr (free_cp pc 3 (free_state 3 v w l [] (f @ [q])) (Running []) y))"
    by (rule demo_hs_deallocator) (simp add: thread_step_def clr)
  show ?thesis by (rule hrun_step [OF hrun_step [OF hrun_step [OF hrun_start 1] 2] 3])
qed

lemma free_joined:
  "hrun al (free_cp Cp_Idle 3 s (Running []) (Running [])) [Tau, Tau] (free_cp Cp_Idle 3 s No_Thread No_Thread)"
proof -
  have 1: "hstep al (free_cp Cp_Idle 3 s (Running []) (Running [])) Tau (Inr (free_cp Cp_Idle 3 s (Running []) No_Thread))"
    using h_join_cpallocator [of "free_cp Cp_Idle 3 s (Running []) (Running [])" "Inr No_Thread" al]
    by (simp add: demo_hs_def thread_join_def)
  have 2: "hstep al (free_cp Cp_Idle 3 s (Running []) No_Thread) Tau (Inr (free_cp Cp_Idle 3 s No_Thread No_Thread))"
    using h_join_deallocator [of "free_cp Cp_Idle 3 s (Running []) No_Thread" "Inr No_Thread" al]
    by (simp add: demo_hs_def thread_join_def)
  show ?thesis by (rule hrun_step [OF hrun_step [OF hrun_start 1] 2])
qed

text \<open>The run in three parts: up to the end of the wait, up to the commit, and from the commit on.\<close>

abbreviation free_started :: "(unit \<times> ptr list) hsys" where
  "free_started \<equiv> free_cp (Cp_NextCtx 0) demo_logging_epoch (free_state demo_logging_epoch 1 0 ([0], free_logs) [DRAM_BASE] [])
     (Started Dealloc) (Started Check_Valid)"

abbreviation free_commit :: "(unit \<times> ptr list) hsys" where
  "free_commit \<equiv> free_cp (Cp_Update 0 []) 3 (free_state 3 0 0 ([0], free_logs) [DRAM_BASE] []) (Started Dealloc) (Started Checkpoint_Alogs)"

abbreviation free_end :: "(unit \<times> ptr list) hsys" where
  "free_end \<equiv> free_cp Cp_Idle 3 (free_state 3 0 1 free_cleared [] [DRAM_BASE]) No_Thread No_Thread"

lemmas free_run_wait = hrun_step [OF hrun_step [OF hrun_start free_sealed] free_waited(1)]

lemmas free_run_logging = hrun_step [OF hrun_step [OF free_checked free_logged(1)] free_logged(2)]

lemma free_run_update: "hrun free_al free_commit ([Tau, Tau] @ [Tau, Tau, Tau] @ [Tau, Tau, Tau] @ [Tau, Tau, Tau]) free_end"
  using hrun_trans [OF free_joined hrun_trans [OF free_deallocated [where f = "[]", unfolded append_Nil]
    hrun_trans [OF free_updated free_recorded]]] .

end
