(* ===== verification/HelperClaims.thy ===== *)
theory HelperClaims
  imports HelperDemo
begin

section \<open>Checkpoints with helper threads and user threads at once\<close>

text \<open>The theorems on all runs of \<open>hstep\<close>, instantiated on the runs of the theory HelperDemo.\<close>

text \<open>C1: with the passes of the helper threads running action by action beside the user threads, the library still refines the
  specification: in every reachable state recovery by the method yields the durable heap, the DRAM heap is the live heap, and
  between two checkpoints the NVM heap is the durable heap.\<close>

theorem threads_refinement:
  assumes "quiescent s" and "hrun al (hs_init s) evs c"
  shows "nvm_image (recover_by_method (hs_st c)) = sp_durable (spec_run evs (heap_image (dram s))) \<and>
    heap_image (dram (hs_st c)) = sp_live (spec_run evs (heap_image (dram s))) \<and>
    (\<not> updating (sys_pc (hs_sys c)) \<longrightarrow> nvm_image (hs_st c) = sp_durable (spec_run evs (heap_image (dram s))))"
  using hrun_inv [OF assms(2,1)] recovered_durable [of "hs_sys c"]
  by (auto simp: lm_inv_def logging_inv_def abs_stage_def updating_def nvm_image_def split: cp_pc.splits)

theorem threads_refinement_witness: "nvm_image (recover_by_method (hs_st demo_hs_commit)) 0 = demo_line"
  using threads_refinement [OF demo_start_quiescent hrun_step [OF demo_hs_run demo_hs_commits]]
  by (simp add: demo_event_def spec_run_def spec_init_def override_on_def heap_image_def line_ptr_0 demo_written_def heap_lines_eq)

text \<open>C2: after the commit of an epoch, whatever happens until the next commit, recovery yields the whole DRAM heap as it was when
  the epoch was closed, with those writes applied that the operations of the closed epoch did after that; writes of the
  current epoch and the helper threads may come at any place and leave no trace. Without such late writes it is exactly the heap at the close.\<close>

theorem threads_snapshot:
  assumes "quiescent s" and "hrun al (hs_init s) es1 c1" and "hstep al c1 Boundary (Inr c2)"
    and "hrun al c2 es2 c3" and "Boundary \<notin> set es2"
    and "hstep al c3 Commit (Inr c4)" and "hrun al c4 es3 c5" and "Commit \<notin> set es3"
  shows "nvm_image (recover_by_method (hs_st c5)) = closed_writes es2 (heap_image (dram (hs_st c1))) \<and>
    ((\<forall>I d. Write True I d \<notin> set es2) \<longrightarrow> nvm_image (recover_by_method (hs_st c5)) = heap_image (dram (hs_st c1)))"
proof -
  have "hrun al (hs_init s) (es3 @ Commit # es2 @ Boundary # es1) c5"
    using hrun_trans [OF assms(7) hrun_step [OF hrun_trans [OF assms(4) hrun_step [OF assms(2,3)]] assms(6)]] by simp
  note run = hrun_inv [OF this assms(1)]
  let ?sp = "spec_run (Boundary # es1) (heap_image (dram s))"
  have "sp_sealed ?sp = sp_live (spec_run es1 (heap_image (dram s)))" by (simp add: spec_run_def)
  also have "\<dots> = heap_image (dram (hs_st c1))" using hrun_inv [OF assms(2,1)] by (simp add: lm_inv_def)
  finally have sealed: "sp_sealed ?sp = heap_image (dram (hs_st c1))" .
  then have "nvm_image (recover_by_method (hs_st c5)) = closed_writes es2 (heap_image (dram (hs_st c1)))"
    using recovered_durable [OF conjunct1 [OF run] conjunct1 [OF conjunct2 [OF run]]] sealed_writes [OF assms(5), of ?sp]
      durable_kept [OF assms(8)] by (simp add: spec_run_def)
  then show ?thesis by (simp add: closed_writes_none)
qed

text \<open>In one run the operation ends before its epoch is closed, in the other it writes after that.\<close>

theorem threads_snapshot_witness:
  "nvm_image (recover_by_method (hs_st demo_hs_commit)) = heap_image (dram (demo_ended 2)) \<and>
   nvm_image (recover_by_method (hs_st demo_hs_commit)) =
     override_on (heap_image (dram demo_begun)) (heap_image (dram demo_written)) {0}"
proof -
  have "demo_late_event \<noteq> Boundary" by (simp add: demo_late_event_def)
  then have "Boundary \<notin> set ([Tau, Tau, Tau, Tau, Tau, Tau, Tau] @ [Tau, demo_late_event])" by auto
  from threads_snapshot [OF demo_start_quiescent demo_hs_begun demo_late_seal demo_late_logged this demo_hs_commits hrun_start]
    threads_snapshot [OF demo_start_quiescent demo_hs_start demo_hs_seal demo_hs_logged _ demo_hs_commits hrun_start]
  show ?thesis by (simp add: demo_hs_def demo_late_event_def)
qed

text \<open>C9: no helper thread ever fails, and no thread is started twice or joined without having been started, whatever the user
  threads do meanwhile; the invariant of the allocator logs holds in every reachable state.\<close>

theorem helpers_never_fail:
  assumes "quiescent s" and "alloc_ok s" and "hrun al (hs_init s) evs c" and "hstep al c ev r"
  shows "\<exists>d. r = Inr d \<and> alloc_ok (hs_st d)"
proof -
  have i: "cinv (hs_sys (hs_init s))" "lm_inv (abs_sys (hs_sys (hs_init s))) (spec_init (heap_image (dram s)))"
    using quiescent_cinv [OF assms(1)] by (simp_all add: hs_init_def)
  have "cinv (hs_sys c) \<and> lm_inv (abs_sys (hs_sys c)) (spec_run evs (heap_image (dram s))) \<and> helpers_apart c \<and> helpers_ok c"
    using hrun_good [OF assms(3) i] hs_init_ok [OF assms(1,2)] by (simp add: spec_run_def)
  then obtain d where "r = Inr d" "helpers_ok d" using hstep_good [OF assms(4)] unfolding step_good_def by blast
  then show ?thesis by (simp add: helpers_ok_def Let_def)
qed

lemma demo_start_alloc_ok: "alloc_ok demo_start"
  by (rule alloc_okI) (simp_all add: demo_start_def alogs_def alog_pool_ok_def pool_ok_def)

theorem helpers_never_fail_witness: "alloc_ok (hs_st demo_hs_commit)"
  using helpers_never_fail [OF demo_start_quiescent demo_start_alloc_ok demo_hs_run demo_hs_commits] by simp

text \<open>C8: what a checkpoint does for the objects of the closed epoch, whatever user threads do meanwhile: when both of its helper threads
  have been joined, the map of objects on NVM is the one at the commit with the size of every record of the closed epoch
  written to it, in the order of the logs, and these logs are empty; every address whose deallocation the closed epoch had delayed when the
  deallocator started has since been passed to the memory allocator's \<^verbatim>\<open>free\<close>, in the order of the lists, and none is left.\<close>

theorem closed_epoch_recorded:
  assumes "quiescent s" and "alloc_ok s" and "hrun (recording al) (hs_init s) es0 c0"
    and "hstep (recording al) c0 Tau (Inr c1)" and "hs_deallocator c0 = No_Thread" and "hs_deallocator c1 = Started Dealloc"
    and "hrun (recording al) c1 es1 c2" and "hstep (recording al) c2 Commit (Inr c3)" and "hrun (recording al) c3 es2 c4"
    and "Boundary \<notin> set (es2 @ es1)" and "hs_deallocator c4 = No_Thread" and "hs_cpallocator c4 = No_Thread"
  shows "rfold record_size (prev_records (hs_st c3)) (ByteMap_NVM (hs_st c3)) = Inr (ByteMap_NVM (hs_st c4)) \<and>
    prev_blocks (hs_st c4) = [] \<and> delayed (prev_parity (hs_st c4)) (hs_st c4) = [] \<and>
    (\<exists>fs. freed (hs_st c4) = freed (hs_st c1) @ fs \<and> subseq (delayed (prev_parity (hs_st c1)) (hs_st c1)) fs)"
proof -
  have i: "cinv (hs_sys (hs_init s))" "lm_inv (abs_sys (hs_sys (hs_init s))) (spec_init (heap_image (dram s)))"
    using quiescent_cinv [OF assms(1)] by (simp_all add: hs_init_def)
  note init = hs_init_ok [OF assms(1,2)]
  have g: "cinv (hs_sys c) \<and> (\<exists>sp. lm_inv (abs_sys (hs_sys c)) sp) \<and> helpers_apart c \<and> helpers_ok c"
    if "hrun (recording al) (hs_init s) evs c" for evs c using hrun_good [OF that i] init by blast
  note r1 = hrun_step [OF assms(3,4)] and r2 = hrun_trans [OF assms(7) hrun_step [OF assms(3,4)]]
  note g1 = g [OF r1] and g2 = g [OF r2] and g3 = g [OF hrun_step [OF r2 assms(8)]]
  obtain F where F: "achieving F c3" "rfold record_size (prev_records (hs_st c3)) (ByteMap_NVM (hs_st c3)) = Inr F"
    using commit_achieving [OF assms(8)] g2 g3 by blast
  have "achieving F c4" using hrun_good [OF assms(9)] g3 F(1) assms(10) by auto
  moreover have "hrun (recording al) c1 (es2 @ Commit # es1) c4" using hrun_trans [OF assms(9) hrun_step [OF assms(7,8)]] .
  then have "freeing (freed (hs_st c1)) (delayed (prev_parity (hs_st c1)) (hs_st c1)) c4"
    using hrun_freeing [OF _ _ _ _ _ dealloc_starts [OF assms(4-6)]] g1 assms(10) by auto
  ultimately show ?thesis using F(2) by (simp add: achieving_def freeing_def Let_def assms(11,12))
qed

text \<open>The epoch has a record of one line and has delayed the deallocation of the same object.\<close>

theorem closed_epoch_recorded_witness:
  "rfold record_size [(DRAM_BASE, 64)] (ByteMap_NVM (hs_st free_commit)) = Inr (ByteMap_NVM (hs_st free_end)) \<and>
   (\<exists>fs. freed (hs_st free_end) = fs \<and> subseq [DRAM_BASE] fs)"
proof -
  have p: "prev_parity (free_state demo_logging_epoch 1 0 ([0], free_logs) [DRAM_BASE] []) = False"
    "prev_parity (free_state 3 0 0 ([0], free_logs) [DRAM_BASE] []) = False" by (simp_all add: demo_prev_parity)
  have b: "prev_blocks (free_state 3 0 0 ([0], free_logs) [DRAM_BASE] []) = [0]" by (simp add: prev_blocks_def p)
  have d: "delayed False (free_state demo_logging_epoch 1 0 ([0], free_logs) [DRAM_BASE] []) = [DRAM_BASE]"
    "freed (free_state demo_logging_epoch 1 0 ([0], free_logs) [DRAM_BASE] []) = []"
    "prev_records (free_state 3 0 0 ([0], free_logs) [DRAM_BASE] []) = [(DRAM_BASE, 64)]"
    by (simp_all add: delayed_def freed_def prev_records_def b alog_contents_def contents_def alog_entries_def)
       (simp add: free_logs_def free_record_def)
  from closed_epoch_recorded [OF free_start_quiescent free_start_alloc_ok free_run_wait [unfolded free_al_def]
      free_waited(2) _ _ free_run_logging free_committed free_run_update [unfolded free_al_def]]
  show ?thesis by (simp add: demo_hs_def p d)
qed

end
