(* ===== verification/WellTyped.thy ===== *)
theory WellTyped
  imports HelperClaims MarkTotal
begin

section \<open>Well-typed calls do not go wrong\<close>

text \<open>
  \<open>well_typed\<close>: every array of the state has the size it was made with, every epoch word names a phase, every redo
  log, allocator log and list of regions refers to blocks of its pool and to lines of the heap. Every reachable state is of this shape;
  in such a state a call with arguments of the right shape (\<open>typed_call\<close>) fails neither by an access outside of an array or through a null
  pointer nor by an assertion, as long as the pool it takes blocks from has room, and leads to such a state again.
\<close>

definition well_typed :: "'j escort \<Rightarrow> bool" where
  "well_typed s \<longleftrightarrow> (\<forall>b. bm_size (BitMap s b) = heap_lines) \<and> alloc_ok s \<and>
     wf_logs (Plog_Management s) (redo_logs s) \<and> (\<forall>ctx \<in> set (ctx_array s). \<forall>b. regions_ok (uc_addrlist ctx b)) \<and>
     GLOBAL_EPOCH s \<noteq> 0 \<and> (\<exists>ph. get_phase (GLOBAL_EPOCH s) = Inr ph) \<and>
     (\<forall>ctx \<in> set (ctx_array s). \<exists>ph. get_phase (uc_epoch ctx) = Inr ph)"

text \<open>The calls of a thread (\<^verbatim>\<open>begin_op\<close>, \<^verbatim>\<open>end_op\<close>, \<^verbatim>\<open>pwrite\<close>, \<^verbatim>\<open>malloc\<close>, \<^verbatim>\<open>free\<close>).\<close>

datatype user_call = Begin_Op | End_Op | Pwrite ptr "byte list" | Malloc size_t | Free ptr size_t

fun perform :: "'j allocator \<Rightarrow> nat \<Rightarrow> user_call \<Rightarrow> 'j escort \<Rightarrow> 'j escort res" where
  "perform al t Begin_Op s = begin_op t s"
| "perform al t End_Op s = end_op t s"
| "perform al t (Pwrite a val) s = pwrite t a val s"
| "perform al t (Malloc sz) s = rbind (malloc_with_create_log al t sz s) (\<lambda>(p, s). Inr s)"
| "perform al t (Free a sz) s = free_with_create_log al t a sz s"

text \<open>
  What the caller and the memory allocator have to see to: a registered thread, in an operation where one is needed; regions
  and objects inside the heap. \<open>has_room\<close>: the blocks that the call may need.
\<close>

fun typed_call :: "'j allocator \<Rightarrow> nat \<Rightarrow> user_call \<Rightarrow> 'j escort \<Rightarrow> bool" where
  "typed_call al t Begin_Op s \<longleftrightarrow> t < length (ctx_array s)"
| "typed_call al t End_Op s \<longleftrightarrow> in_op t s"
| "typed_call al t (Pwrite a val) s \<longleftrightarrow> in_op t s \<and> client_ok t a val s \<and>
     (case bitmap_get_index a of Inl _ \<Rightarrow> False | Inr i \<Rightarrow> i + num_bits (word_of_nat (length val)) \<le> heap_lines)"
| "typed_call al t (Malloc sz) s \<longleftrightarrow> t < length (ctx_array s) \<and> fits (fst (al_malloc al sz (heap_alloc s))) sz"
| "typed_call al t (Free a sz) s \<longleftrightarrow> t < length (ctx_array s) \<and> fits a sz"

fun has_room :: "nat \<Rightarrow> user_call \<Rightarrow> 'j escort \<Rightarrow> bool" where
  "has_room t (Pwrite a val) s \<longleftrightarrow>
     num_bits (word_of_nat (length val)) \<le> plog_room (Plog_Management s) (uc_log (ctx_array s ! t))"
| "has_room t (Malloc sz) s \<longleftrightarrow> am_free (Allocatorlog_Management s) \<noteq> []"
| "has_room t (Free a sz) s \<longleftrightarrow> am_free (Allocatorlog_Management s) \<noteq> []"
| "has_room t _ s \<longleftrightarrow> True"

subsection \<open>The epochs of operations\<close>

lemma mark_epochs: "mark t a sz s = Inr s' \<Longrightarrow> map uc_epoch (ctx_array s') = map uc_epoch (ctx_array s)"
proof -
  have line: "map uc_epoch (ctx_array u') = map uc_epoch (ctx_array u)" if "mark_line t b i a u = Inr (new, u')" for b i a new and u u' :: "('a, 'b) escort_scheme"
    using that by (auto simp: mark_line_def push_user_log_def res_simps map_upd_other split: if_splits)
  have loop: "map uc_epoch (ctx_array u') = map uc_epoch (ctx_array u)" if "mark_loop t b n i a app u = Inr (app', u')" for b n i a app app' and u u' :: "('a, 'b) escort_scheme"
    using that by (induction n arbitrary: i a app u) (auto simp: res_simps dest!: line)
  assume "mark t a sz s = Inr s'"
  then show ?thesis by (auto simp: mark_def res_simps Let_def map_upd_other split: if_splits dest!: loop)
qed

definition phases_ok :: "'j escort \<Rightarrow> bool" where
  "phases_ok s \<longleftrightarrow> (\<forall>e \<in> set (map uc_epoch (ctx_array s)). \<exists>ph. get_phase e = Inr ph)"

lemma get_phase_0: "get_phase 0 = Inr NVM_Heap_Update"
  using get_phase_Epoch [of 0] by (simp add: Epoch_take_bit)

lemma phases_ok_upd:
  "phases_ok s \<Longrightarrow> get_phase e = Inr ph \<Longrightarrow> map uc_epoch (ctx_array s') = (map uc_epoch (ctx_array s))[t := e] \<Longrightarrow> phases_ok s'"
  unfolding phases_ok_def using set_update_subset_insert [of "map uc_epoch (ctx_array s)" t e] by auto

lemma same_heap_epochs: "same_heap s s' \<Longrightarrow> map uc_epoch (ctx_array s') = map uc_epoch (ctx_array s)"
proof -
  have "map uc_epoch xs = map fst (map ctx_core xs)" for xs by (simp add: ctx_core_def comp_def)
  then show "same_heap s s' \<Longrightarrow> map uc_epoch (ctx_array s') = map uc_epoch (ctx_array s)"
    by (simp add: same_heap_def del: map_map)
qed

lemma user_step_phases:
  assumes "user_step c ev d" and ph: "get_phase (GLOBAL_EPOCH (sys_st c)) = Inr ph" and "phases_ok (sys_st c)"
  shows "phases_ok (sys_st d)"
  using assms(1)
proof cases
  case (begin_step t s)
  then have "map uc_epoch (ctx_array s) = (map uc_epoch (ctx_array (sys_st c)))[t := GLOBAL_EPOCH (sys_st c)]"
    by (auto simp: begin_op_def res_simps Let_def map_update)
  then show ?thesis using phases_ok_upd [OF assms(3) ph] begin_step by simp
next
  case (end_step t s)
  then have "map uc_epoch (ctx_array s) = (map uc_epoch (ctx_array (sys_st c)))[t := 0]"
    by (auto simp: end_op_def res_simps map_update)
  then show ?thesis using phases_ok_upd [OF assms(3) get_phase_0] end_step by simp
next
  case (write_step t a val s)
  then have "map uc_epoch (ctx_array s) = map uc_epoch (ctx_array (sys_st c))"
    by (auto simp: pwrite_def res_simps dest: mark_epochs)
  then show ?thesis using assms(3) write_step by (simp add: phases_ok_def)
qed

lemma clear_redo_logs_epochs:
  fixes s :: "'j escort"
  shows "map uc_epoch (ctx_array (clear_redo_logs s)) = map uc_epoch (ctx_array s)"
proof -
  have "map uc_epoch (ctx_array (fold clear_ctx_log ts u)) = map uc_epoch (ctx_array u)" for ts and u :: "'j escort"
  proof (induction ts arbitrary: u)
    case (Cons t ts)
    have "map uc_epoch (ctx_array (clear_ctx_log t u)) = map uc_epoch (ctx_array u)"
      by (cases "t < length (ctx_array u)")
        (simp_all add: clear_ctx_log_def Let_def split_beta map_upd_other list_update_beyond put_ctx_def)
    then show ?case using Cons by simp
  qed simp
  moreover have "ctx_array (clear_cp_log s) = ctx_array s" by (simp add: clear_cp_log_def Let_def split_beta)
  ultimately show ?thesis unfolding clear_redo_logs_def by metis
qed

lemma cp_step_epochs: "cp_step c ev d \<Longrightarrow> map uc_epoch (ctx_array (sys_st d)) = map uc_epoch (ctx_array (sys_st c))"
  by (induction rule: cp_step.induct)
     (auto simp: enter_phase_def log_line_def clear_list_def replay_entry_def Let_def res_simps map_upd_other
       clear_redo_logs_epochs simp del: map_eq_conv split: if_splits)

lemma hstep_phases:
  assumes "hstep al c ev (Inr d)" and ph: "get_phase (GLOBAL_EPOCH (hs_st c)) = Inr ph" and ok: "phases_ok (hs_st c)" and ap: "helpers_apart c"
  shows "phases_ok (hs_st d)"
proof -
  have kept: "phases_ok s" if "map uc_epoch (ctx_array s) = map uc_epoch (ctx_array (hs_st c))" for s :: "'a escort"
    using ok unfolding phases_ok_def that .
  have redo: "phases_ok s" if "same Redo_Part (hs_st c) s" for s
    by (rule kept [OF same_heap_epochs [OF same_heap_part [OF that]]])
  from assms(1) show ?thesis
  proof cases
    case h_init
    then show ?thesis using ok get_phase_0 by (simp add: phases_ok_def userthreadctx_new_def)
  next
    case (h_user d')
    then show ?thesis using user_step_phases [OF _ ph ok] by simp
  next
    case (h_malloc t sz p s)
    then show ?thesis using kept [OF same_heap_epochs [OF malloc_same_heap]] by simp
  next
    case (h_free t p sz s)
    then show ?thesis using kept [OF same_heap_epochs [OF free_same_heap]] by simp
  next
    case (h_checkpointing d' r)
    then show ?thesis using kept [OF cp_step_epochs] by (auto simp: Inr_eq_rbind)
  next
    case (h_deallocator r)
    then show ?thesis using thread_step_in [of al "hs_deallocator c" "hs_st c" _ _ Free_Part] ap redo
      by (fastforce simp: Inr_eq_rbind helpers_apart_def simp del: same.simps)
  next
    case (h_cpallocator r)
    then show ?thesis using thread_step_in [of al "hs_cpallocator c" "hs_st c" _ _ Object_Part] ap redo
      by (fastforce simp: Inr_eq_rbind helpers_apart_def simp del: same.simps)
  qed (use ok in \<open>auto simp: Inr_eq_rbind\<close>)
qed

text \<open>Every reachable state is well typed.\<close>

lemma cinv_well_typed:
  assumes inv: "cinv c" and ok: "alloc_ok (sys_st c)" and ph: "phases_ok (sys_st c)"
  shows "well_typed (sys_st c)"
proof -
  have e: "2 \<le> unat (Epoch (GLOBAL_EPOCH (sys_st c)))" "\<exists>p. get_phase (GLOBAL_EPOCH (sys_st c)) = Inr p"
    using cinvD(6) [OF inv] by (simp_all add: epochs_ok_def Let_def)
  then have "GLOBAL_EPOCH (sys_st c) \<noteq> 0" by auto
  moreover have "regions_ok (uc_addrlist ctx b)" if "ctx \<in> set (ctx_array (sys_st c))" for ctx b
    using that cinvD(3) [OF inv] by (auto simp: in_set_conv_nth)
  ultimately show ?thesis
    using e(2) cinvD(1,2) [OF inv] ok ph by (auto simp: well_typed_def phases_ok_def)
qed

lemma hrun_typed:
  assumes "hrun al (hs_init s) evs c" and "quiescent s" and "alloc_ok s"
  shows "well_typed (hs_st c) \<and> phases_ok (hs_st c) \<and> cinv (hs_sys c) \<and> (\<exists>sp. lm_inv (abs_sys (hs_sys c)) sp) \<and>
    helpers_apart c \<and> helpers_ok c"
proof -
  have i: "cinv (hs_sys (hs_init s))" "lm_inv (abs_sys (hs_sys (hs_init s))) (spec_init (heap_image (dram s)))"
    using quiescent_cinv [OF assms(2)] by (simp_all add: hs_init_def)
  have inv: "cinv (hs_sys c) \<and> lm_inv (abs_sys (hs_sys c)) (spec_run evs (heap_image (dram s))) \<and> helpers_apart c \<and> helpers_ok c"
    if "hrun al (hs_init s) evs c" for evs c
    using hrun_good [OF that i] hs_init_ok [OF assms(2,3)] by (simp add: spec_run_def)
  have "phases_ok (hs_st c)"
    using assms(1)
  proof (induction rule: hrun.induct)
    case hrun_start
    have "uc_epoch ctx = 0" if "ctx \<in> set (ctx_array s)" for ctx using assms(2) that by (simp add: quiescent_def)
    then show ?case using get_phase_0 by (simp add: phases_ok_def hs_init_def sys_init_def)
  next
    case (hrun_step evs c ev d)
    obtain ph where "get_phase (GLOBAL_EPOCH (hs_st c)) = Inr ph"
      using cinvD(6) inv [OF hrun_step.hyps(1)] by (auto simp: epochs_ok_def Let_def)
    then show ?case using hstep_phases [OF hrun_step.hyps(2)] hrun_step.IH inv [OF hrun_step.hyps(1)] by blast
  qed
  moreover have "alloc_ok (hs_st c)" using inv [OF assms(1)] by (simp add: helpers_ok_def Let_def)
  ultimately show ?thesis using cinv_well_typed inv [OF assms(1)] by blast
qed

subsection \<open>Progress\<close>

lemma begin_op_typed: "well_typed s \<Longrightarrow> t < length (ctx_array s) \<Longrightarrow> \<exists>u. begin_op t s = Inr u"
  by (simp add: well_typed_def begin_op_def get_ctx_def Let_def)

lemma pwrite_typed:
  assumes wt: "well_typed s" and "typed_call al t (Pwrite a val) s" and room: "has_room t (Pwrite a val) s"
  shows "\<exists>u. pwrite t a val s = Inr u"
proof -
  have op: "t < length (ctx_array s)" "uc_epoch (ctx_array s ! t) \<noteq> 0" using assms(2) by (simp_all add: in_op_def)
  obtain i where i: "bitmap_get_index a = Inr i" "i + num_bits (word_of_nat (length val)) \<le> heap_lines"
    using assms(2) by (auto split: sum.splits)
  have "uc_log (ctx_array s ! t) \<in> set (redo_logs s)" using op(1) by (simp add: redo_logs_def)
  then have "log_ok (pm_used (Plog_Management s)) (uc_log (ctx_array s ! t))"
    using wt split_list [of "uc_log (ctx_array s ! t)" "redo_logs s"] by (auto simp: well_typed_def wf_logs_def log_ok_def)
  then have "may_mark (num_bits (word_of_nat (length val)) + 0) t s"
    using wt op room by (simp add: may_mark_def well_typed_def wf_logs_def)
  from mark_total [OF this i] show ?thesis by (auto simp: pwrite_def)
qed

text \<open>The part between \<^verbatim>\<open>begin_op\<close> and \<^verbatim>\<open>end_op\<close> of \<^verbatim>\<open>malloc\<close> and \<^verbatim>\<open>free\<close>.\<close>

lemma own_op_start:
  assumes wt: "well_typed s" and t: "t < length (ctx_array s)"
  obtains u where "(if uc_epoch (ctx_array s ! t) = 0 then begin_op t s else Inr s) = Inr u" and "alloc_ok u"
    and "length (ctx_array u) = length (ctx_array s)" and "uc_epoch (ctx_array u ! t) \<noteq> 0"
    and "\<exists>ph. get_phase (uc_epoch (ctx_array u ! t)) = Inr ph" and "heap_alloc u = heap_alloc s"
    and "Allocatorlog_Management u = Allocatorlog_Management s"
proof (cases "uc_epoch (ctx_array s ! t) = 0")
  case True
  obtain u where u: "begin_op t s = Inr u" using begin_op_typed [OF wt t] by blast
  then have "u = put_ctx t ((ctx_array s ! t)\<lparr>uc_epoch := GLOBAL_EPOCH s\<rparr>) s" by (auto simp: begin_op_def res_simps Let_def)
  then show ?thesis
    using that [of u] u True wt t begin_op_alloc_ok [OF u] by (auto simp: well_typed_def)
next
  case False
  then show ?thesis using that [of s] wt t by (auto simp: well_typed_def)
qed

lemma record_alloc_op_epoch:
  assumes "record_alloc_op t e a sz u = Inr w" and "t < length (ctx_array u)" and "uc_epoch (ctx_array u ! t) \<noteq> 0"
  shows "t < length (ctx_array w) \<and> uc_epoch (ctx_array w ! t) \<noteq> 0"
  using record_alloc_op_same_heap [OF assms(1)] assms(2,3) by (simp add: same_heap_length same_heap_ctx(1))

lemma malloc_typed:
  assumes wt: "well_typed s" and ty: "typed_call al t (Malloc sz) s" and room: "has_room t (Malloc sz) s"
  shows "\<exists>u. malloc_with_create_log al t sz s = Inr (fst (al_malloc al sz (heap_alloc s)), u)"
proof -
  have t: "t < length (ctx_array s)" and f: "fits (fst (al_malloc al sz (heap_alloc s))) sz" using ty by simp_all
  obtain u where u: "(if uc_epoch (ctx_array s ! t) = 0 then begin_op t s else Inr s) = Inr u" "alloc_ok u"
    "length (ctx_array u) = length (ctx_array s)" "uc_epoch (ctx_array u ! t) \<noteq> 0" "heap_alloc u = heap_alloc s"
    "Allocatorlog_Management u = Allocatorlog_Management s"
    using own_op_start [OF wt t] by metis
  let ?p = "fst (al_malloc al sz (heap_alloc s))" and ?u = "u\<lparr>heap_alloc := snd (al_malloc al sz (heap_alloc s))\<rparr>"
  obtain v where v: "record_alloc_op t (uc_epoch (ctx_array u ! t)) ?p sz ?u = Inr v"
    using record_alloc_op_total [of ?u ?p sz t "uc_epoch (ctx_array u ! t)"] u f t room by auto
  have "t < length (ctx_array v) \<and> uc_epoch (ctx_array v ! t) \<noteq> 0"
    by (rule record_alloc_op_epoch [OF v]) (use u t in simp_all)
  then show ?thesis
    using t u(1,3,5) v by (auto simp: malloc_with_create_log_def get_ctx_def Let_def split_beta end_op_def)
qed

lemma free_typed:
  assumes wt: "well_typed s" and ty: "typed_call al t (Free a sz) s" and room: "has_room t (Free a sz) s"
  shows "\<exists>u. free_with_create_log al t a sz s = Inr u"
proof -
  have t: "t < length (ctx_array s)" and f: "fits a sz" using ty by simp_all
  obtain u where u: "(if uc_epoch (ctx_array s ! t) = 0 then begin_op t s else Inr s) = Inr u" "alloc_ok u"
    "length (ctx_array u) = length (ctx_array s)" "uc_epoch (ctx_array u ! t) \<noteq> 0"
    "\<exists>ph. get_phase (uc_epoch (ctx_array u ! t)) = Inr ph" "Allocatorlog_Management u = Allocatorlog_Management s"
    using own_op_start [OF wt t] by metis
  obtain w where w: "record_alloc_op t (uc_epoch (ctx_array u ! t)) a sz u = Inr w"
    using record_alloc_op_total [of u a sz t "uc_epoch (ctx_array u ! t)"] u f t room by auto
  have tw: "t < length (ctx_array w)" "uc_epoch (ctx_array w ! t) \<noteq> 0"
    using record_alloc_op_epoch [OF w] u t by simp_all
  have "\<exists>v. release_or_delay al t (uc_epoch (ctx_array u ! t)) a w = Inr v"
    using u(5) tw(1) by (auto simp: release_or_delay_def get_ctx_def)
  then obtain v where v: "release_or_delay al t (uc_epoch (ctx_array u ! t)) a w = Inr v" ..
  have "t < length (ctx_array v) \<and> uc_epoch (ctx_array v ! t) \<noteq> 0"
    using release_or_delay_same_heap [OF v] tw by (simp add: same_heap_length same_heap_ctx(1))
  then show ?thesis
    using t u(1,3) w v by (auto simp: free_with_create_log_unfold get_ctx_def end_op_def)
qed

lemma call_progress:
  assumes "well_typed s" and "typed_call al t x s" and "has_room t x s"
  shows "\<exists>u. perform al t x s = Inr u"
  using assms
proof (cases x)
  case End_Op
  then show ?thesis using assms(2) by (simp add: end_op_def in_op_def get_ctx_def)
next
  case (Pwrite a val)
  show ?thesis using pwrite_typed [of s al t a val] assms unfolding Pwrite by simp
next
  case (Malloc sz)
  show ?thesis using malloc_typed [of s al t sz] assms unfolding Malloc by auto
next
  case (Free a sz)
  show ?thesis using free_typed [of s al t a sz] assms unfolding Free by simp
qed (use begin_op_typed in simp_all)

text \<open>A call that returns is a step.\<close>

lemma call_step:
  assumes "typed_call al t x (hs_st c)" and run: "perform al t x (hs_st c) = Inr u"
  shows "\<exists>ev. hstep al c ev (Inr (put_st u c))"
proof (cases x)
  case Begin_Op
  then show ?thesis using h_user [OF begin_step [of t "hs_sys c" u], of al] run by (auto simp: put_st_def)
next
  case End_Op
  then show ?thesis using h_user [OF end_step [of t "hs_sys c" u], of al] run by (auto simp: put_st_def)
next
  case (Pwrite a val)
  then show ?thesis using h_user [OF write_step [of t a val "hs_sys c" u], of al] run assms(1) by (auto simp: put_st_def)
next
  case (Malloc sz)
  then obtain p where p: "malloc_with_create_log al t sz (hs_st c) = Inr (p, u)" using run by (auto simp: res_simps)
  have "p = fst (al_malloc al sz (heap_alloc (hs_st c)))"
    using p by (auto simp: malloc_with_create_log_def begin_op_def Let_def split_beta res_simps split: if_splits)
  then show ?thesis using h_malloc [OF p] assms(1) Malloc by auto
next
  case (Free a sz)
  then show ?thesis using h_free run assms(1) by fastforce
qed

text \<open>C25: every reachable state is well typed, and in it a call with well-typed arguments returns if the pool it takes
  blocks from has room, in a state that is well typed again.\<close>

theorem typed_calls_return:
  assumes "quiescent s" and "alloc_ok s" and "hrun al (hs_init s) evs c"
    and "typed_call al t x (hs_st c)" and "has_room t x (hs_st c)"
  shows "well_typed (hs_st c) \<and> (\<exists>u. perform al t x (hs_st c) = Inr u \<and> well_typed u)"
proof -
  have wt: "well_typed (hs_st c)" using hrun_typed [OF assms(3,1,2)] by blast
  then obtain u where u: "perform al t x (hs_st c) = Inr u" using call_progress assms(4,5) by blast
  obtain ev where "hstep al c ev (Inr (put_st u c))" using call_step [OF assms(4) u] by blast
  from hrun_typed [OF hrun_step [OF assms(3) this] assms(1,2)] wt u show ?thesis by auto
qed

lemma demo_call_typed: "typed_call demo_al 0 (Pwrite DRAM_BASE [7]) demo_begun" "has_room 0 (Pwrite DRAM_BASE [7]) demo_begun"
  using demo_client_ok
  by (simp_all add: in_op_def index_0 num_bits_def LOG_CACHE_LINE_SIZE_def heap_lines_eq plog_room_def LOG_BLOCK_NUM_def demo_defs)

theorem typed_calls_return_witness: "\<exists>u. perform demo_al 0 (Pwrite DRAM_BASE [7]) demo_begun = Inr u \<and> well_typed u"
  using typed_calls_return [OF demo_start_quiescent demo_start_alloc_ok demo_hs_begun, of 0 "Pwrite DRAM_BASE [7]"] demo_call_typed
  by (simp add: demo_hs_def)

end
