(* ===== verification/AlogDebug.thy ===== *)
theory AlogDebug
  imports AllocatorlogT
begin

section \<open>The allocator log in a build with \<^verbatim>\<open>DEBUG\<close>\<close>

text \<open>
  \<^verbatim>\<open>src/src/allocatorlog_t.hpp\<close> and \<^verbatim>\<open>src/src/allocatorlog_t.cpp\<close> with \<^verbatim>\<open>DEBUG\<close>: every block remembers the log
  and the thread that have taken it, and assertions compare them on every operation. Shown: as long as one thread
  appends to a log, no assertion fires, and this build computes what the other does. Also \<^verbatim>\<open>flush\<close> of a block, which nothing
  calls.
\<close>

subsection \<open>Owners\<close>

text \<open>A log is named by a number, the address of the object; \<open>None\<close> is \<^verbatim>\<open>NULL\<close>.\<close>

record alog_owners =
  owner_alloc :: "block_id \<Rightarrow> nat option"
  owner_thread :: "block_id \<Rightarrow> nat"

type_synonym alog_debug = "allocatorlog_management \<times> alog_owners"

definition set_owner :: "nat option \<Rightarrow> nat \<Rightarrow> block_id \<Rightarrow> alog_owners \<Rightarrow> alog_owners" where
  "set_owner l thr b d = d\<lparr>owner_alloc := (owner_alloc d)(b := l), owner_thread := (owner_thread d)(b := thr)\<rparr>"

definition verify_owner :: "nat \<Rightarrow> nat \<Rightarrow> block_id \<Rightarrow> alog_owners \<Rightarrow> unit res" where
  "verify_owner l thr b d =
     rbind (rassert (owner_alloc d b = Some l)) (\<lambda>_. rassert (owner_thread d b = thr))"

definition clear_owner :: "block_id \<Rightarrow> alog_owners \<Rightarrow> alog_owners" where
  "clear_owner b d = d\<lparr>owner_alloc := (owner_alloc d)(b := None)\<rparr>"

text \<open>The constructor of a block sets the owner as well.\<close>

definition debug_management_new :: "nat \<Rightarrow> (block_id \<Rightarrow> alog_block) \<Rightarrow> alog_owners \<Rightarrow> alog_debug res" where
  "debug_management_new num_blocks log_area d =
     rfold (\<lambda>i (m, d).
       let d = clear_owner i d;
           m = m\<lparr>am_area := (am_area m)(i := alog_block_new (am_area m i))\<rparr>; d = clear_owner i d;
           m = m\<lparr>am_free := am_free m @ [i]\<rparr>
       in rbind (rassert (owner_alloc d i = None)) (\<lambda>_. Inr (m, d)))
       [0..<num_blocks] (\<lparr>am_free = [], am_used = [], am_area = log_area\<rparr>, d)"

definition debug_pop :: "alog_debug \<Rightarrow> (block_id \<times> alog_debug) res" where
  "debug_pop = (\<lambda>(m, d). rbind (alog_management_pop m) (\<lambda>(b, m).
     rbind (rassert (owner_alloc d b = None)) (\<lambda>_. Inr (b, m, d))))"

definition debug_push :: "block_id \<Rightarrow> alog_debug \<Rightarrow> alog_debug" where
  "debug_push b = (\<lambda>(m, d). (alog_management_push b m, clear_owner b d))"

definition debug_acquire :: "nat \<Rightarrow> nat \<Rightarrow> epoch_t \<Rightarrow> allocatorlog_t \<times> alog_debug \<Rightarrow> (allocatorlog_t \<times> alog_debug) res" where
  "debug_acquire l thr epoch = (\<lambda>(block_list, md). rbind (debug_pop md) (\<lambda>(b, m, d).
     rbind (rassert (owner_alloc d b = None)) (\<lambda>_.
     Inr (block_list @ [b], alog_put b (alog_block_set_epoch epoch (am_area m b)) m, set_owner (Some l) thr b d))))"

definition debug_append ::
  "nat \<Rightarrow> nat \<Rightarrow> epoch_t \<Rightarrow> ptr \<times> size_t \<Rightarrow> allocatorlog_t \<times> alog_debug \<Rightarrow> (allocatorlog_t \<times> alog_debug) res" where
  "debug_append l thr epoch entry = (\<lambda>(block_list, md).
     rbind (if block_list = [] then debug_acquire l thr epoch (block_list, md) else Inr (block_list, md)) (\<lambda>(block_list, m, d).
     let tail = last block_list in
     rbind (verify_owner l thr tail d) (\<lambda>_.
     rbind (alog_block_append entry (am_area m tail)) (\<lambda>(is_succ, x).
     let m = alog_put tail x m in
     if \<not> is_succ then
       rbind (debug_acquire l thr epoch (block_list, m, d)) (\<lambda>(block_list, m, d).
       let tail_new = last block_list in
       rbind (alog_block_append entry (am_area m tail_new)) (\<lambda>(_, x).
       Inr (block_list, alog_put tail_new x m, d)))
     else Inr (block_list, m, d)))))"

function debug_clear :: "allocatorlog_t \<times> alog_debug \<Rightarrow> allocatorlog_t \<times> alog_debug" where
  "debug_clear (block_list, m, d) =
     (if block_list = [] then (block_list, m, d)
      else
        let tail = last block_list;
            m = alog_put tail (alog_block_clear (am_area m tail)) m;
            (m, d) = debug_push tail (m, d)
        in debug_clear (butlast block_list, m, d))"
  by pat_completeness auto
termination
  by (relation "measure (\<lambda>(bl, _). length bl)") auto

declare debug_clear.simps [simp del]

subsection \<open>Operations on the logs of a process\<close>

text \<open>Log \<open>l\<close> belongs to the context of thread \<open>thr l\<close>; any thread may clear it.\<close>

datatype alog_op = Append_Op nat epoch_t "ptr \<times> size_t" | Clear_Op nat

fun alog_do :: "alog_op \<Rightarrow> (nat \<Rightarrow> allocatorlog_t) \<times> allocatorlog_management \<Rightarrow> ((nat \<Rightarrow> allocatorlog_t) \<times> allocatorlog_management) res" where
  "alog_do (Append_Op l epoch e) (ls, m) = rbind (alog_append epoch e (ls l, m)) (\<lambda>(bl, m). Inr (ls(l := bl), m))"
| "alog_do (Clear_Op l) (ls, m) = (let (bl, m) = alog_clear (ls l, m) in Inr (ls(l := bl), m))"

fun debug_do :: "(nat \<Rightarrow> nat) \<Rightarrow> alog_op \<Rightarrow> (nat \<Rightarrow> allocatorlog_t) \<times> alog_debug \<Rightarrow> ((nat \<Rightarrow> allocatorlog_t) \<times> alog_debug) res" where
  "debug_do thr (Append_Op l epoch e) (ls, md) = rbind (debug_append l (thr l) epoch e (ls l, md)) (\<lambda>(bl, md). Inr (ls(l := bl), md))"
| "debug_do thr (Clear_Op l) (ls, md) = (let (bl, md) = debug_clear (ls l, md) in Inr (ls(l := bl), md))"

text \<open>The owners are right: none on a free block, the log and its thread on a block of a log.\<close>

definition owners_ok :: "(nat \<Rightarrow> nat) \<Rightarrow> (nat \<Rightarrow> allocatorlog_t) \<times> alog_debug \<Rightarrow> bool" where
  "owners_ok thr = (\<lambda>(ls, m, d). distinct (am_free m) \<and> (\<forall>b \<in> set (am_free m). owner_alloc d b = None) \<and>
     (\<forall>l. distinct (ls l) \<and> (\<forall>b \<in> set (ls l). owner_alloc d b = Some l \<and> owner_thread d b = thr l)))"

text \<open>A result of the one build is a result of the other, with the same outcome and a state that is right.\<close>

definition agrees :: "('a \<Rightarrow> bool) \<Rightarrow> ('a \<Rightarrow> 'b) \<Rightarrow> 'a res \<Rightarrow> 'b res \<Rightarrow> bool" where
  "agrees P f r r' \<longleftrightarrow> (case r of Inl e \<Rightarrow> r' = Inl e | Inr x \<Rightarrow> r' = Inr (f x) \<and> P x)"

lemma agrees_simps [simp]:
  "agrees P f (Inl e) r' \<longleftrightarrow> r' = Inl e" "agrees P f (Inr x) r' \<longleftrightarrow> r' = Inr (f x) \<and> P x"
  by (simp_all add: agrees_def)

lemma agrees_bind:
  assumes "agrees P f r r'" and "\<And>x. P x \<Longrightarrow> agrees Q g (h x) (h' (f x))"
  shows "agrees Q g (rbind r h) (rbind r' h')"
  using assms by (cases r) auto

lemma debug_acquire_agrees:
  assumes "owners_ok thr (ls, m, d)"
  shows "agrees (\<lambda>(bl, m, d). owners_ok thr (ls(l := bl), m, d) \<and> bl \<noteq> []) (\<lambda>(bl, m, d). (bl, m))
    (debug_acquire l (thr l) epoch (ls l, m, d)) (alog_acquire epoch (ls l, m))"
proof (cases "am_free m = []")
  case True
  then show ?thesis by (simp add: debug_acquire_def debug_pop_def alog_acquire_def alog_management_pop_def rassert_def)
next
  case False
  let ?b = "last (am_free m)"
  have b: "owner_alloc d ?b = None" "?b \<in> set (am_free m)" using assms False by (auto simp: owners_ok_def)
  have free: "distinct (butlast (am_free m))" "?b \<notin> set (butlast (am_free m))"
    using assms False by (auto simp: owners_ok_def distinct_butlast distinct_butlast_last dest: in_set_butlastD)
  have "?b \<notin> set (ls i)" for i using assms b by (auto simp: owners_ok_def)
  then show ?thesis using assms False b free
    by (auto simp: debug_acquire_def debug_pop_def alog_acquire_def alog_management_pop_def rassert_def Let_def
        owners_ok_def set_owner_def alog_put_def dest: in_set_butlastD)
qed


lemma owners_ok_put [simp]: "owners_ok thr (ls, alog_put b x m, d) = owners_ok thr (ls, m, d)"
  by (simp add: owners_ok_def alog_put_def)

lemma debug_append_agrees:
  assumes ok: "owners_ok thr (ls, m, d)"
  shows "agrees (\<lambda>(bl, m, d). owners_ok thr (ls(l := bl), m, d)) (\<lambda>(bl, m, d). (bl, m))
    (debug_append l (thr l) epoch entry (ls l, m, d)) (alog_append epoch entry (ls l, m))"
proof -
  have first: "agrees (\<lambda>(bl, m, d). owners_ok thr (ls(l := bl), m, d) \<and> bl \<noteq> []) (\<lambda>(bl, m, d). (bl, m))
      (if ls l = [] then debug_acquire l (thr l) epoch (ls l, m, d) else Inr (ls l, m, d))
      (if ls l = [] then alog_acquire epoch (ls l, m) else Inr (ls l, m))"
    using debug_acquire_agrees [OF ok, of l epoch] ok by (cases "ls l = []") simp_all
  show ?thesis
    unfolding debug_append_def alog_append_def prod.case
  proof (rule agrees_bind [OF first])
    fix x assume x: "case x of (bl, m, d) \<Rightarrow> owners_ok thr (ls(l := bl), m, d) \<and> bl \<noteq> []"
    obtain bl m d where xs: "x = (bl, m, d)" by (cases x)
    then have o: "owners_ok thr (ls(l := bl), m, d)" and bl: "bl \<noteq> []" using x by simp_all
    then have v: "verify_owner l (thr l) (last bl) d = Inr ()"
      by (auto simp: verify_owner_def owners_ok_def rassert_def)
    show "agrees (\<lambda>(bl, m, d). owners_ok thr (ls(l := bl), m, d)) (\<lambda>(bl, m, d). (bl, m))
      ((\<lambda>(block_list, m, d). let tail = last block_list in rbind (verify_owner l (thr l) tail d) (\<lambda>_.
         rbind (alog_block_append entry (am_area m tail)) (\<lambda>(is_succ, x). let m = alog_put tail x m in
         if \<not> is_succ then rbind (debug_acquire l (thr l) epoch (block_list, m, d)) (\<lambda>(block_list, m, d).
           let tail_new = last block_list in
           rbind (alog_block_append entry (am_area m tail_new)) (\<lambda>(_, x). Inr (block_list, alog_put tail_new x m, d)))
         else Inr (block_list, m, d)))) x)
      ((\<lambda>(block_list, m). let tail = last block_list in
         rbind (alog_block_append entry (am_area m tail)) (\<lambda>(is_succ, x). let m = alog_put tail x m in
         if \<not> is_succ then rbind (alog_acquire epoch (block_list, m)) (\<lambda>(block_list, m).
           let tail_new = last block_list in
           rbind (alog_block_append entry (am_area m tail_new)) (\<lambda>(_, x). Inr (block_list, alog_put tail_new x m)))
         else Inr (block_list, m))) (case x of (bl, m, d) \<Rightarrow> (bl, m)))"
    proof (cases "alog_block_append entry (am_area m (last bl))")
      case (Inl e)
      then show ?thesis by (simp add: xs v)
    next
      case (Inr r)
      obtain succ y where r: "r = (succ, y)" by (cases r)
      have "agrees (\<lambda>(bl', m, d). owners_ok thr (ls(l := bl'), m, d) \<and> bl' \<noteq> []) (\<lambda>(bl, m, d). (bl, m))
          (debug_acquire l (thr l) epoch (bl, alog_put (last bl) y m, d)) (alog_acquire epoch (bl, alog_put (last bl) y m))"
        using debug_acquire_agrees [of thr "ls(l := bl)" "alog_put (last bl) y m" d l epoch] o by simp
      then have "agrees (\<lambda>(bl, m, d). owners_ok thr (ls(l := bl), m, d)) (\<lambda>(bl, m, d). (bl, m))
          (rbind (debug_acquire l (thr l) epoch (bl, alog_put (last bl) y m, d)) (\<lambda>(block_list, m, d).
             rbind (alog_block_append entry (am_area m (last block_list))) (\<lambda>(_, x). Inr (block_list, alog_put (last block_list) x m, d))))
          (rbind (alog_acquire epoch (bl, alog_put (last bl) y m)) (\<lambda>(block_list, m).
             rbind (alog_block_append entry (am_area m (last block_list))) (\<lambda>(_, x). Inr (block_list, alog_put (last block_list) x m))))"
        by (rule agrees_bind) (auto simp: rbind_def split: sum.splits)
      then show ?thesis using Inr r o by (cases succ) (simp_all add: xs v Let_def)
    qed
  qed
qed

lemma debug_clear_agrees:
  assumes "owners_ok thr (ls, m, d)"
  shows "case debug_clear (ls l, m, d) of (bl, m', d') \<Rightarrow> alog_clear (ls l, m) = (bl, m') \<and> owners_ok thr (ls(l := bl), m', d')"
  using assms
proof (induction "length (ls l)" arbitrary: ls m d)
  case 0
  then have nil: "ls l = []" by simp
  then have eq: "ls(l := []) = ls" by (metis fun_upd_triv)
  have clear: "debug_clear ([], m, d) = ([], m, d)" "alog_clear ([], m) = ([], m)"
    by (simp_all add: debug_clear.simps [of "[]"] alog_clear.simps [of "[]"])
  show ?case unfolding nil clear prod.case eq using 0 by simp
next
  case (Suc n)
  then have ne: "ls l \<noteq> []" by auto
  let ?b = "last (ls l)" and ?ls = "ls(l := butlast (ls l))"
  let ?m = "alog_management_push ?b (alog_put ?b (alog_block_clear (am_area m ?b)) m)"
  have b: "owner_alloc d ?b = Some l" "distinct (ls l)" using Suc.prems ne by (auto simp: owners_ok_def)
  have "?b \<notin> set (am_free m)" using Suc.prems b(1) by (auto simp: owners_ok_def)
  moreover have own: "owner_alloc d c = Some i" if "c \<in> set (ls i)" for c i using Suc.prems that by (auto simp: owners_ok_def)
  have "?b \<notin> set (ls i)" if "i \<noteq> l" for i using own [of ?b i] b(1) that by fastforce
  moreover have "?b \<notin> set (butlast (ls l))" using b(2) ne by (simp add: distinct_butlast_last)
  ultimately have ok: "owners_ok thr (?ls, ?m, clear_owner ?b d)"
    using Suc.prems by (auto simp: owners_ok_def alog_management_push_def alog_put_def clear_owner_def distinct_butlast
        dest: in_set_butlastD)
  have "n = length (?ls l)" using Suc.hyps(2) by simp
  from Suc.hyps(1) [OF this ok] show ?case
    using ne by (simp add: debug_clear.simps [of "ls l"] alog_clear.simps [of "ls l"] Let_def debug_push_def)
qed

lemma debug_do_agrees:
  assumes "owners_ok thr (ls, m, d)"
  shows "agrees (owners_ok thr) (\<lambda>(ls, m, d). (ls, m)) (debug_do thr x (ls, m, d)) (alog_do x (ls, m))"
proof (cases x)
  case (Append_Op l epoch e)
  show ?thesis
    unfolding Append_Op debug_do.simps alog_do.simps
    by (rule agrees_bind [OF debug_append_agrees [OF assms]]) auto
next
  case (Clear_Op l)
  then show ?thesis using debug_clear_agrees [OF assms, of l] by (auto simp: split: prod.splits)
qed

lemma debug_run_agrees:
  "owners_ok thr (ls, m, d) \<Longrightarrow>
   agrees (owners_ok thr) (\<lambda>(ls, m, d). (ls, m)) (rfold (debug_do thr) xs (ls, m, d)) (rfold alog_do xs (ls, m))"
proof (induction xs arbitrary: ls m d)
  case Nil
  then show ?case by simp
next
  case (Cons x xs)
  show ?case
    unfolding rfold.simps
    by (rule agrees_bind [OF debug_do_agrees [OF Cons.prems]]) (auto intro: Cons.IH)
qed


subsection \<open>A whole process\<close>

lemma debug_new_agrees:
  "\<exists>d'. debug_management_new n area d = Inr (allocatorlog_management_new n area, d') \<and> (\<forall>b < n. owner_alloc d' b = None)"
proof (induction n)
  case 0
  then show ?case by (simp add: debug_management_new_def allocatorlog_management_new_def)
next
  case (Suc n)
  then obtain d' where d: "debug_management_new n area d = Inr (allocatorlog_management_new n area, d')" "\<forall>b < n. owner_alloc d' b = None"
    by blast
  have "debug_management_new (Suc n) area d = Inr (allocatorlog_management_new (Suc n) area, clear_owner n (clear_owner n d'))"
    using d(1) by (simp add: debug_management_new_def allocatorlog_management_new_def rfold_append Let_def clear_owner_def)
  moreover have "\<forall>b < Suc n. owner_alloc (clear_owner n (clear_owner n d')) b = None"
    using d(2) by (simp add: clear_owner_def less_Suc_eq)
  ultimately show ?case by blast
qed

definition debug_start :: "nat \<Rightarrow> (block_id \<Rightarrow> alog_block) \<Rightarrow> alog_owners \<Rightarrow> ((nat \<Rightarrow> allocatorlog_t) \<times> alog_debug) res" where
  "debug_start n area d = rbind (debug_management_new n area d) (\<lambda>md. Inr (\<lambda>_. [], md))"

text \<open>C26: the assertions on the owners of the blocks of the allocator logs never fire, and the build with \<^verbatim>\<open>DEBUG\<close> agrees with the
  other: from the constructor on, every sequence of appends to logs, each by the thread of the log, and of clears, by any thread, has
  the same outcome and leaves the same logs and the same pool.\<close>

theorem debug_agrees:
  "(case rbind (debug_start n area d) (rfold (debug_do thr) ops) of Inl e \<Rightarrow> Inl e | Inr (ls, m, d) \<Rightarrow> Inr (ls, m)) =
   rfold alog_do ops (\<lambda>_. [], allocatorlog_management_new n area)"
proof -
  let ?m = "allocatorlog_management_new n area"
  obtain d' where d: "debug_management_new n area d = Inr (?m, d')" "\<forall>b < n. owner_alloc d' b = None"
    using debug_new_agrees by blast
  have "am_free ?m = [0..<n]" by (simp add: allocatorlog_management_new_eq)
  then have "owners_ok thr (\<lambda>_. [], ?m, d')" using d(2) by (simp add: owners_ok_def)
  from debug_run_agrees [OF this, of ops] show ?thesis
    by (auto simp: debug_start_def d(1) agrees_def split: sum.splits)
qed

text \<open>A second thread that appends to a log is noticed.\<close>

lemma debug_other_thread:
  assumes "debug_append l thr epoch e ([], m, d) = Inr (bl, m', d')" and "thr' \<noteq> thr"
    and "bl = [b]" and "owner_thread d' b = thr"
  shows "debug_append l thr' epoch' e' (bl, m', d') = Inl AssertFailed"
  using assms(2-4) by (auto simp: debug_append_def verify_owner_def rassert_def rbind_def)

subsection \<open>\<^verbatim>\<open>flush\<close>\<close>

text \<open>
  The lines that \<^verbatim>\<open>flush\<close> writes back: the line of the size, and, for every second record (\<^verbatim>\<open>CACHE_LINE_SIZE / sizeof(entry_t)\<close>
  is 2), the line in which the record begins. A record takes 24 bytes, the block begins at the byte \<open>base\<close>.
\<close>

definition ALOG_ENTRY_SIZE :: nat where "ALOG_ENTRY_SIZE = 24"

definition alog_line :: "nat \<Rightarrow> nat" where "alog_line a = a div CACHE_LINE_SIZE"

definition alog_block_flush :: "nat \<Rightarrow> alog_block \<Rightarrow> nat list res" where
  "alog_block_flush base b =
     (let size_line = alog_line (base + ALLOCATOR_LOG_BLOCK_NUM * ALOG_ENTRY_SIZE) in
      if CACHE_LINE_SIZE \<ge> ALOG_ENTRY_SIZE then
        let clwb_window = CACHE_LINE_SIZE div ALOG_ENTRY_SIZE in
        Inr (size_line # map (\<lambda>i. alog_line (base + i * ALOG_ENTRY_SIZE)) (filter (\<lambda>i. i mod clwb_window = 0) [0..<ab_size b]))
      else Inl QuickExit)"

text \<open>With four records the fourth, which lies on the second line, is not written back.\<close>

lemma flush_misses_record:
  assumes "ab_size b = 4"
  shows "alog_block_flush 0 b = Inr [24576, 0, 0]" and "alog_line (3 * ALOG_ENTRY_SIZE) = 1"
proof -
  have "[0..<4] = [0, 1, 2, 3 :: nat]" by (simp add: upt_conv_Cons)
  then show "alog_block_flush 0 b = Inr [24576, 0, 0]"
    using assms by (simp add: alog_block_flush_def ALOG_ENTRY_SIZE_def alog_line_def ALLOCATOR_LOG_BLOCK_NUM_def Let_def)
qed (simp add: alog_line_def ALOG_ENTRY_SIZE_def)

end
