(* ===== verification/NvmFiles.thy ===== *)
theory NvmFiles
  imports Recovery
begin

section \<open>The three files\<close>

text \<open>
  The constructor of \<^verbatim>\<open>nvmconfig_t\<close> (\<^verbatim>\<open>src/src/nvm/config.cpp\<close>) opens and maps three files: the heap, the redo logs and the
  allocator logs. The operating system is the parameter \<open>os\<close>: the file descriptor that \<^verbatim>\<open>open\<close> returns, the size of the
  file, the address that \<^verbatim>\<open>mmap\<close> returns, the contents of the memory. \<^verbatim>\<open>init_manager\<close> (\<^verbatim>\<open>src/src/init.cpp\<close>) then
  places the blocks of both pools in the log areas; here the constructors of the pools know how large these areas are, and
  a block that extends past the end of its area is the outcome \<open>OutOfBounds\<close>.
\<close>

record os =
  os_open :: "string \<Rightarrow> int"
  os_file_size :: "string \<Rightarrow> size_t"
  os_mmap :: "size_t \<Rightarrow> int \<Rightarrow> ptr"
  os_memory :: "ptr \<Rightarrow> 64 word"

definition MAP_FAILED :: ptr where "MAP_FAILED = - 1"

text \<open>The members that the constructor sets besides those of \<open>nvmconfig_t\<close>.\<close>

record nvm_files =
  nf_nvm_fd :: int
  nf_redolog_fd :: int
  nf_allocatorlog_fd :: int
  nf_redolog_area_size :: size_t
  nf_allocatorlog_area_size :: size_t
  nf_redolog_address :: ptr
  nf_allocatorlog_address :: ptr

definition open_nvmfile :: "os \<Rightarrow> string \<Rightarrow> nvm_files \<Rightarrow> (ptr \<times> size_t \<times> nvm_files) res" where
  "open_nvmfile os path f =
     (let fd = os_open os path; f = f\<lparr>nf_nvm_fd := fd\<rparr> in
      rbind (rassert (fd \<ge> 0)) (\<lambda>_.
      let nvm_size = os_file_size os path; start_address = os_mmap os nvm_size fd in
      if start_address = MAP_FAILED then Inl QuickExit else Inr (start_address, nvm_size, f)))"

definition create_redolog_area :: "os \<Rightarrow> string \<Rightarrow> nvm_files \<Rightarrow> nvm_files res" where
  "create_redolog_area os path f =
     (let fd = os_open os path; f = f\<lparr>nf_redolog_fd := fd\<rparr> in
      rbind (rassert (fd \<ge> 0)) (\<lambda>_.
      let sz = os_file_size os path; p = os_mmap os sz fd; f = f\<lparr>nf_redolog_area_size := sz, nf_redolog_address := p\<rparr> in
      if p = MAP_FAILED then Inl QuickExit else Inr f))"

definition create_allocatorlog_area :: "os \<Rightarrow> string \<Rightarrow> nvm_files \<Rightarrow> nvm_files res" where
  "create_allocatorlog_area os path f =
     (let fd = os_open os path; f = f\<lparr>nf_allocatorlog_fd := fd\<rparr> in
      rbind (rassert (fd \<ge> 0)) (\<lambda>_.
      let sz = os_file_size os path; p = os_mmap os sz fd; f = f\<lparr>nf_allocatorlog_area_size := sz, nf_allocatorlog_address := p\<rparr> in
      if p = MAP_FAILED then Inl QuickExit else Inr f))"

definition nvmconfig_open :: "os \<Rightarrow> string \<Rightarrow> size_t \<Rightarrow> nvmconfig_t \<times> nvm_files \<Rightarrow> (nvmconfig_t \<times> nvm_files) res" where
  "nvmconfig_open os nvm_path heap_size = (\<lambda>(mem, f).
     rbind (open_nvmfile os nvm_path f) (\<lambda>(start_address, nvm_size, f).
     rbind (nvmconfig_new mem start_address nvm_size (os_memory os) heap_size) (\<lambda>c.
     rbind (create_redolog_area os (nvm_path @ ''_redolog'') f) (\<lambda>f.
     rbind (create_allocatorlog_area os (nvm_path @ ''_allocatorlog'') f) (\<lambda>f.
     Inr (c, f))))))"

text \<open>If the constructor returns, the three files are open and mapped, and the areas have the sizes of the files.\<close>

lemma nvmconfig_open_files:
  assumes "nvmconfig_open os path hs (mem, f) = Inr (c, f')"
  shows "nf_nvm_fd f' = os_open os path \<and> nf_redolog_fd f' = os_open os (path @ ''_redolog'') \<and>
    nf_allocatorlog_fd f' = os_open os (path @ ''_allocatorlog'') \<and>
    nf_nvm_fd f' \<ge> 0 \<and> nf_redolog_fd f' \<ge> 0 \<and> nf_allocatorlog_fd f' \<ge> 0 \<and>
    nf_redolog_area_size f' = os_file_size os (path @ ''_redolog'') \<and>
    nf_allocatorlog_area_size f' = os_file_size os (path @ ''_allocatorlog'') \<and>
    nf_redolog_address f' \<noteq> MAP_FAILED \<and> nf_allocatorlog_address f' \<noteq> MAP_FAILED"
  using assms
  by (auto simp: nvmconfig_open_def open_nvmfile_def create_redolog_area_def create_allocatorlog_area_def Let_def
      res_simps split: if_splits)

text \<open>A file that \<^verbatim>\<open>open\<close> has just created is empty, and mapping no bytes fails: the files have to be made before.\<close>

lemma empty_file_exits:
  assumes "os_open os path \<ge> 0" and "os_file_size os path = 0" and "\<And>fd. os_mmap os 0 fd = MAP_FAILED"
  shows "nvmconfig_open os path hs (mem, f) = Inl QuickExit"
  using assms by (simp add: nvmconfig_open_def open_nvmfile_def Let_def)

text \<open>
  What is mapped, as a list of regions: the constructor maps three, the destructor, which \<^verbatim>\<open>escort_finalize\<close> calls, unmaps
  the file of the heap and leaves the log areas.
\<close>

definition mapped_regions :: "nvmconfig_t \<times> nvm_files \<Rightarrow> (ptr \<times> size_t) list" where
  "mapped_regions = (\<lambda>(c, f). [(nc_start_address c, nc_nvm_size c), (nf_redolog_address f, nf_redolog_area_size f),
     (nf_allocatorlog_address f, nf_allocatorlog_area_size f)])"

definition nvmconfig_delete :: "nvmconfig_t \<Rightarrow> (ptr \<times> size_t) list \<Rightarrow> (ptr \<times> size_t) list" where
  "nvmconfig_delete c regions = filter (\<lambda>r. r \<noteq> (nc_start_address c, nc_nvm_size c)) regions"

lemma log_areas_stay_mapped:
  assumes "distinct (map fst (mapped_regions (c, f)))"
  shows "nvmconfig_delete c (mapped_regions (c, f)) =
    [(nf_redolog_address f, nf_redolog_area_size f), (nf_allocatorlog_address f, nf_allocatorlog_area_size f)]"
  using assms by (auto simp: nvmconfig_delete_def mapped_regions_def)

subsection \<open>The blocks in the log areas\<close>

text \<open>
  \<^verbatim>\<open>sizeof\<close> a block: of the redo log, \<^verbatim>\<open>LOG_BLOCK_NUM\<close> entries of two cache lines each and two words, aligned to a cache line; of
  the allocator log, \<^verbatim>\<open>ALLOCATOR_LOG_BLOCK_NUM\<close> records of 24 bytes and three words. The constructor of a block writes the
  words behind the entries.
\<close>

definition plog_block_bytes :: nat where "plog_block_bytes = LOG_BLOCK_NUM * 128 + 64"

definition alog_block_bytes :: nat where "alog_block_bytes = ALLOCATOR_LOG_BLOCK_NUM * 24 + 24"

definition plog_management_at :: "nat \<Rightarrow> nat \<Rightarrow> (block_id \<Rightarrow> plog_block) \<Rightarrow> plog_management res" where
  "plog_management_at area_size num_blocks log_area =
     rfold (\<lambda>i m. if i * plog_block_bytes + plog_block_bytes \<le> area_size
         then Inr (m\<lparr>pm_area := (pm_area m)(i := plog_block_new (pm_area m i)), pm_free := pm_free m @ [i]\<rparr>)
         else Inl OutOfBounds)
       [0..<num_blocks] \<lparr>pm_free = [], pm_used = [], pm_area = log_area\<rparr>"

definition allocatorlog_management_at :: "nat \<Rightarrow> nat \<Rightarrow> (block_id \<Rightarrow> alog_block) \<Rightarrow> allocatorlog_management res" where
  "allocatorlog_management_at area_size num_blocks log_area =
     rfold (\<lambda>i m. if i * alog_block_bytes + alog_block_bytes \<le> area_size
         then Inr (m\<lparr>am_area := (am_area m)(i := alog_block_new (am_area m i)), am_free := am_free m @ [i]\<rparr>)
         else Inl OutOfBounds)
       [0..<num_blocks] \<lparr>am_free = [], am_used = [], am_area = log_area\<rparr>"

definition init_manager_at :: "nvm_files \<Rightarrow> boot \<Rightarrow> ('j, 'z) library_scheme \<Rightarrow> ('j, 'z) library_scheme res" where
  "init_manager_at f bt s =
     rbind (plog_management_at (unat (nf_redolog_area_size f)) 1024 (bt_plog_area bt)) (\<lambda>pm.
     rbind (allocatorlog_management_at (unat (nf_allocatorlog_area_size f)) (8192 * 4) (bt_alog_area bt)) (\<lambda>am.
     Inr (s\<lparr>Plog_Management := pm, Allocatorlog_Management := am\<rparr>)))"

text \<open>A loop over the first \<open>n\<close> numbers that stops at the first of them beyond a bound.\<close>

lemma rfold_bounded:
  "rfold (\<lambda>i m. if i * k + k \<le> sz then Inr (g i m) else Inl e) [0..<n] m =
     (if n * k \<le> sz then Inr (fold g [0..<n] m) else Inl e)"
proof (induction n)
  case 0
  then show ?case by simp
next
  case (Suc n)
  have "n * k \<le> sz" if "n * k + k \<le> sz" using that by simp
  with Suc show ?case by (simp add: rfold_append add.commute)
qed

lemma plog_management_at_eq:
  "plog_management_at sz n area = (if n * plog_block_bytes \<le> sz then Inr (plog_management_new n area) else Inl OutOfBounds)"
  by (simp add: plog_management_at_def plog_management_new_def rfold_bounded)

lemma allocatorlog_management_at_eq:
  "allocatorlog_management_at sz n area =
     (if n * alog_block_bytes \<le> sz then Inr (allocatorlog_management_new n area) else Inl OutOfBounds)"
  by (simp add: allocatorlog_management_at_def allocatorlog_management_new_def rfold_bounded)

text \<open>\<^verbatim>\<open>tools/mknvmfile\<close> makes the two log files 8 GiB large.\<close>

definition mknvmfile_log_size :: size_t where "mknvmfile_log_size = 8 * 2 ^ 30"

text \<open>C33: the pools fit into the log areas exactly if the file of the redo logs has at least 4295032832 bytes and the file of the
  allocator logs at least 51540393984, that is more than 48 GiB; nothing tests this. The files that \<^verbatim>\<open>tools/mknvmfile\<close>
  makes have 8 GiB each: with them \<^verbatim>\<open>init_manager\<close> writes beyond the mapping of the allocator logs.\<close>

theorem log_areas_bounds:
  "init_manager_at f bt s =
     (if 4295032832 \<le> unat (nf_redolog_area_size f) \<and> 51540393984 \<le> unat (nf_allocatorlog_area_size f)
      then Inr (init_manager bt s) else Inl OutOfBounds) \<and>
   init_manager_at (f\<lparr>nf_redolog_area_size := mknvmfile_log_size, nf_allocatorlog_area_size := mknvmfile_log_size\<rparr>) bt s = Inl OutOfBounds"
proof -
  have p: "1024 * plog_block_bytes = 4295032832" by (simp add: plog_block_bytes_def LOG_BLOCK_NUM_def)
  have a: "8192 * 4 * alog_block_bytes = 51540393984" by (simp add: alog_block_bytes_def ALLOCATOR_LOG_BLOCK_NUM_def)
  have eq: "init_manager_at f bt s =
     (if 4295032832 \<le> unat (nf_redolog_area_size f) \<and> 51540393984 \<le> unat (nf_allocatorlog_area_size f)
      then Inr (init_manager bt s) else Inl OutOfBounds)" for f
    unfolding init_manager_at_def plog_management_at_eq allocatorlog_management_at_eq p a init_manager_def by simp
  have "unat mknvmfile_log_size = 8589934592" by (simp add: mknvmfile_log_size_def)
  then show ?thesis by (simp add: eq)
qed

end
