(* ===== verification/Spec2Isabelle.thy ===== *)
theory Spec2Isabelle
  imports CheckpointLive EpochProtocol MarkClaims ApiClaims ExecuteRight CowRace OldClaims PersistClaims MapClaims StartClaims WellTyped AlogDebug NvmFiles
begin

text \<open>
  Escort keeps a heap in DRAM and a copy of it in a file on non-volatile memory (NVM), and guarantees that a crash
  leaves a consistent heap behind. User threads (\<^verbatim>\<open>src/src/Escort.cpp\<close>, \<^verbatim>\<open>src/src/userthreadctx_t.cpp\<close>) run operations
  on the DRAM heap and call \<^verbatim>\<open>mark\<close> before they write. One checkpointing thread (\<^verbatim>\<open>src/src/checkpointing.cpp\<close>)
  closes an epoch, waits for its operations, logs the lines they have modified, commits by a change
  of the phase in the epoch word, and replays the logs into the NVM heap. A thread that is about to overwrite a line that has still
  to be logged copies it to its own log first. The development models the whole of the library, proves the
  consistency of this method against an abstract specification, and says where the code falls short.

  \<^bold>\<open>The layers.\<close> The state of the library is the record \<open>escort\<close> of EscortState: the members of \<^verbatim>\<open>GlobalVariable\<close>
  and the contexts of the user threads, by position. Operations are functions on this state into \<open>res\<close>, the sum of an
  outcome that is not a return (an assertion, \<^verbatim>\<open>std::quick_exit\<close>, an access out of bounds or through \<^verbatim>\<open>nullptr\<close>, a division by zero,
  a wait that never ends) and a result. Machine words keep their width. The assertions are part of the model, although \<^verbatim>\<open>src/Makefile\<close>
  compiles \<^verbatim>\<open>libescort.so\<close> with \<^verbatim>\<open>-DNDEBUG\<close>: they have no side effects, so that what is proved of an operation that returns holds of that
  build too, while after an outcome \<open>AssertFailed\<close> that build goes on although the condition does not hold.

  \<^item> Prelude: outcomes, loops (\<open>rfold\<close>), named collections. GlobalEscort: the epoch word and its phases, constants,
    addresses of cache lines (\<^verbatim>\<open>globalEscort\<close>).
  \<^item> CachelineT, AddrlistT, BitmapT, BytemapT: the containers of these names. HeapBytes: the DRAM heap as bytes.
  \<^item> BlockPool: the interface of a pool of blocks and of a log made of such blocks, as locales; PlogT and AllocatorlogT interpret
    them on the redo log and on the allocator log (\<^verbatim>\<open>plog_t\<close>, \<^verbatim>\<open>allocatorlog_t\<close>).
  \<^item> UserThreadCtx: \<^verbatim>\<open>begin_op\<close>, \<^verbatim>\<open>end_op\<close>, \<^verbatim>\<open>mark\<close>, \<^verbatim>\<open>pwrite\<close>, \<^verbatim>\<open>malloc\<close>, \<^verbatim>\<open>free\<close>. CpAllocatorT: the helper threads of the
    checkpoint (\<^verbatim>\<open>cpallocator_t\<close>, \<^verbatim>\<open>deallocator_t\<close>). Checkpointing: a checkpoint as sequential code, and \<^verbatim>\<open>finalize\<close>.
  \<^item> NvmConfig, Recovery: the NVM file, \<^verbatim>\<open>init\<close>, \<^verbatim>\<open>recovery\<close> and \<^verbatim>\<open>escort_init\<close>. The global pointers that \<^verbatim>\<open>init\<close> tests are fields that say
    whether they have been set; a process can initialise the library once (lemma \<open>second_init_fails\<close>). A process after a crash is
    \<open>reopened\<close>: it has the NVM heap and the epoch word of the crashed one. Recovery copies only to pages of the DRAM heap that are mapped,
    and only bytes that are zero in DRAM; \<open>fresh_heap\<close> says that all pages are mapped and zero. NvmFiles: the three files and the room for the blocks
    in the log areas. StartClaims: a first start that is interrupted.
  \<^item> RootTableT: the hash table of the roots, whose buckets and nodes are bytes of the heap. EscortApi: the
    functions of \<^verbatim>\<open>Escort.cpp\<close>, the registration of threads, the loop of \<^verbatim>\<open>checkpointing\<close>. DebugT: the counters and the
    messages of \<^verbatim>\<open>debug\<close>. AlogDebug: the allocator log in a build with \<^verbatim>\<open>DEBUG\<close>.

  \<^bold>\<open>Crash consistency.\<close> CheckpointSteps has the step relation \<open>sys_step\<close>: the operations of user threads, each one step, interleaved
  with the small steps of the checkpointing thread (one context of the wait, one line, one replayed entry)
  and with the passes of the helper threads. LineMachine has the specification (\<open>spec\<close>: a live, a sealed and a durable heap) and
  an abstract machine on lines; RedoLogs, MarkEffect and HeapFrame say what the operations do to logs, flags and heaps;
  CheckpointSim proves that every step is simulated and keeps the invariant \<open>cinv\<close>; CheckpointCorrect draws the
  consequences, CheckpointSeq proves that the sequential code performs runs of the relation, and CheckpointLive that a
  checkpoint completes. HelperParts, HelperActions and HelperThreads let the passes of the helper threads run on threads of their own, action by action, and
  show that this makes no difference to a checkpoint: each works on a part of the state of its own. HelperSteps has the relation \<open>hstep\<close>, in which
  the actions of the helpers also come between the operations of user threads; HelperRecords shows that these do not disturb the data of the closed
  epoch, HelperWork what one action does, HelperInv and HelperGood the invariant of the helpers, HelperFrees which deallocations have been carried out
  (\<open>recording\<close>: an allocator that keeps the list of the addresses it is given back), HelperDemo concrete runs, and HelperClaims the consequences: crash
  consistency, no failure of a helper, what a checkpoint records of the allocations, and that it carries out the delayed deallocations. WellTyped: in a reachable state a call with arguments of the right shape
  returns. What the client must respect is \<open>client_ok\<close>: no region extends past the lines that \<^verbatim>\<open>mark\<close> counts,
  and an operation of the closed epoch does not write a line that the current epoch has written. EpochProtocol treats \<^verbatim>\<open>begin_op\<close> and the
  wait loop at the granularity of single loads and stores, ExecuteRight the right to execute in the same way; this justifies
  the guards of the steps \<open>user_init\<close> and \<open>cp_wait\<close>. CowRace takes apart the bodies of the loops of \<^verbatim>\<open>mark\<close> and of the log loop, one
  step each in the relations above, into their single accesses, and shows which schedules of these lose a line.

  \<^bold>\<open>Allocations, marks, roots, interface.\<close> AllocLogs and AllocCheckpoint: the invariant of the allocator logs and the effect of the
  passes over them; AllocClaims: what follows. MarkTotal: when \<^verbatim>\<open>mark\<close> returns; MarkClaims: what one call does. RootTableSpec: the
  table implements a map on the tables that the code can build (\<open>table_ok\<close>: at most one node in a bucket), and
  cannot build others; RootTableClaims: what follows. CallFrame: what every operation leaves alone;
  ApiClaims: sequences of calls. Demo: a concrete run, on which the theorems are instantiated. This theory: the properties of
  the whole library.

  \<^bold>\<open>Bounds.\<close> Loops of the code that are bounded are structural recursions or folds; the loops over lists of nodes, which may be cyclic, are
  partial functions whose value \<open>None\<close> is the outcome \<open>Diverges\<close>; nothing is cut off by fuel. Epoch numbers stay below \<open>2\<^sup>6\<^sup>2\<close>
  (a hypothesis of the theorems on checkpoints): a larger number would reach the phase bits.

  \<^bold>\<open>Variants and persistency.\<close> OldVersion models what is compiled with \<^verbatim>\<open>OLD_VERSION\<close>: lists and redo logs as arrays without a bound.
  OldLogs, OldCheckpoint and OldEquiv relate each of its operations to that of the version with blocks; OldClaims has the
  equivalence of writes (as long as an array has room; without room the old version goes out of bounds) and of checkpoints. PersistOrder takes apart what the other theories take to be one thing, a store
  to NVM and its becoming durable: a checkpoint as a sequence of stores, write-backs and fences among evictions and events of
  other threads; PersistClaims says which order this enforces and which it does not. MapPersist and MapClaims do the same for the pass that
  records the objects of an epoch in the byte map on NVM and empties the allocator logs.

  \<^bold>\<open>Not modelled.\<close> Write-backs and fences outside PersistOrder and MapPersist, that is, in the
  initialisation; the theorems of the other theories on crashes take every store to NVM as durable at once, in program order.
  The memory allocator (jemalloc, not in the repository) is the parameter \<open>allocator\<close>, the operating system that opens and
  maps the files the parameter \<open>os\<close>. CPU binding, time and sleeping. The class \<^verbatim>\<open>allocatorlog_t\<close> under
  \<^verbatim>\<open>OLD_VERSION\<close>, which does not compile. Races between two user threads inside \<^verbatim>\<open>mark\<close>, whose calls on one line
  the client orders by its locks.
\<close>

section \<open>Crash consistency\<close>

text \<open>In every state that a run of user threads and checkpointing can reach, a crash followed by a
  recovery that follows the method yields exactly the heap that the specification calls durable.\<close>

lemma crash_consistency:
  assumes "quiescent s" and "sys_run al (sys_init s) evs c"
  shows "nvm_image (recover_by_method (sys_st c)) = sp_durable (spec_run evs (heap_image (dram s)))"
  using sys_run_inv [OF assms(2,1)] recovered_durable by blast

text \<open>After the commit of an epoch, whatever happens until the next commit, recovery yields the whole
  DRAM heap as it was when the epoch was closed, provided that no thread was writing for the closed epoch
  after that.\<close>

lemma durable_snapshot:
  assumes "quiescent s" and "sys_run al (sys_init s) es1 c1" and "sys_step al c1 Boundary c2"
    and "sys_run al c2 es2 c3" and "\<And>ev. ev \<in> set es2 \<Longrightarrow> ev = Tau \<or> (\<exists>I d. ev = Write False I d)"
    and "sys_step al c3 Commit c4"
    and "sys_run al c4 es3 c5" and "Commit \<notin> set es3"
  shows "nvm_image (recover_by_method (sys_st c5)) = heap_image (dram (sys_st c1))"
proof -
  have "sys_run al (sys_init s) (es3 @ Commit # es2 @ Boundary # es1) c5"
    using sys_run_trans [OF assms(7) sys_run.run_step [OF sys_run_trans [OF assms(4)
        sys_run.run_step [OF assms(2,3)]] assms(6)]] by simp
  note run = sys_run_inv [OF this assms(1)]
  let ?sp = "spec_run (Boundary # es1) (heap_image (dram s))"
  have "sp_sealed ?sp = sp_live (spec_run es1 (heap_image (dram s)))"
    by (simp add: spec_run_def)
  also have "\<dots> = heap_image (dram (sys_st c1))"
    using sys_run_inv [OF assms(2,1)] by (simp add: lm_inv_def)
  finally have sealed: "sp_sealed ?sp = heap_image (dram (sys_st c1))" .
  have "sp_sealed (foldr spec_step es2 ?sp) = sp_sealed ?sp"
    by (rule sealed_kept) (use assms(5) in blast)
  then show ?thesis
    using recovered_durable [OF conjunct1 [OF run] conjunct2 [OF run]] sealed durable_kept [OF assms(8)]
    by (simp add: spec_run_def)
qed

text \<open>The library refines the specification: what a thread reads in the DRAM heap is the live heap, and
  between two checkpoints the NVM heap is the durable heap.\<close>

lemma refinement:
  assumes "quiescent s" and "sys_run al (sys_init s) evs c"
  shows "heap_image (dram (sys_st c)) = sp_live (spec_run evs (heap_image (dram s))) \<and>
    (\<not> updating (sys_pc c) \<longrightarrow> nvm_image (sys_st c) = sp_durable (spec_run evs (heap_image (dram s))))"
  using sys_run_inv [OF assms(2,1)]
  by (auto simp: lm_inv_def logging_inv_def abs_stage_def updating_def nvm_image_def split: cp_pc.splits)

text \<open>The state of the concrete run after the operation, from which a checkpoint completes.\<close>

lemma demo_run_ended: "sys_run demo_al (sys_init demo_start) [Tau, demo_event, Tau, Tau] (at Cp_Idle 2 (demo_ended 2))"
  using sys_run.run_step [OF demo_run_written demo_step_end] by (simp add: demo_sys_def)

lemma demo_ended_cinv: "cinv (at Cp_Idle 2 (demo_ended 2))"
  using sys_run_inv [OF demo_run_ended demo_start_quiescent] by blast

lemma demo_ended_ready: "round_ready (demo_ended 2)"
proof -
  have "flagged (cur_parity (demo_ended 2)) (demo_ended 2) \<subseteq> {0}"
    by (auto simp: flagged_def cur_parity_def epoch_bit_def demo_defs split: if_splits)
  then have "card (flagged (cur_parity (demo_ended 2)) (demo_ended 2)) \<le> 1"
    using card_mono [of "{0::nat}"] by fastforce
  moreover have "alloc_ok (demo_ended 2)"
    by (rule alloc_okI) (simp_all add: demo_defs alogs_def alog_pool_ok_def pool_ok_def)
  moreover have "plog_room (Plog_Management (demo_ended 2)) (cp_log (demo_ended 2)) = 32768"
    by (simp add: plog_room_def demo_defs LOG_BLOCK_NUM_def)
  ultimately show ?thesis by (simp add: round_ready_def demo_ctx_def userthreadctx_new_def)
qed

lemma demo_ended_line: "heap_image (dram (demo_ended 2)) 0 = demo_line"
  by (simp add: heap_image_def demo_ended_def demo_written_def line_ptr_0 heap_lines_eq)

text \<open>C3: from any state that a run can reach between two checkpoints, a checkpoint completes if no thread is in an
  operation, the redo log pool has room for the modified lines and the bookkeeping of allocations is in
  order; after it the NVM heap equals the DRAM heap, which it leaves as it was, and the epoch is the next.\<close>

theorem checkpoint_completes:
  assumes "quiescent s0" and "sys_run al (sys_init s0) evs (at Cp_Idle e s)"
    and "round_ready s" and "unat (Epoch e) + 1 < 2 ^ 62"
  shows "\<exists>e' s'. checkpoint_round al True e s = Inr (e', s') \<and> Epoch e' = Epoch e + 1 \<and>
    nvm_image s' = heap_image (dram s) \<and> heap_image (dram s') = heap_image (dram s)"
proof -
  note inv = sys_run_inv [OF assms(2,1)]
  obtain e' s' where r: "checkpoint_round al True e s = Inr (e', s')" "Epoch e' = Epoch e + 1"
    using checkpoint_round_total [OF conjunct1 [OF inv] assms(4,3)] by blast
  with round_run_syncs(1,2) [OF checkpoint_round_run [OF r(1) assms(4)] conjunct1 [OF inv] conjunct2 [OF inv]] show ?thesis by blast
qed

theorem checkpoint_completes_witness:
  "\<exists>e' s'. checkpoint_round demo_al True 2 (demo_ended 2) = Inr (e', s') \<and> nvm_image s' 0 = demo_line"
  using checkpoint_completes [OF demo_start_quiescent demo_run_ended demo_ended_ready] demo_ended_line by auto

text \<open>C6: the sequential code of a checkpoint performs a run of the step relation: it closes the epoch, takes steps
  that no client sees, commits, and takes steps that no client sees.\<close>

theorem checkpoint_round_is_run:
  assumes "checkpoint_round al True e s = Inr (e', s')" and "unat (Epoch e) + 1 < 2 ^ 62"
  shows "round_run al (at Cp_Idle e s) (at Cp_Idle e' s')"
  by (rule checkpoint_round_run [OF assms])

theorem checkpoint_round_is_run_witness:
  "\<exists>e' s'. round_run demo_al (at Cp_Idle 2 (demo_ended 2)) (at Cp_Idle e' s')"
proof -
  obtain e' s' where "checkpoint_round demo_al True 2 (demo_ended 2) = Inr (e', s')"
    using checkpoint_round_total [OF demo_ended_cinv _ demo_ended_ready, of demo_al] by auto
  from checkpoint_round_is_run [OF this] show ?thesis by auto
qed

text \<open>C7: the checkpoint with its helper threads, each performing its pass action by action: in whatever order the actions
  of the three threads come, from the start of the phase \<open>Log_Persistence\<close> on no step fails, no thread is started twice or joined
  without having been started, the checkpoint is not stuck before it has taken a fixed number of steps, and then it is in
  the state in which the sequential code, which runs each pass to its end when it starts it, leaves the library.\<close>

theorem helper_threads_agree:
  assumes "alloc_ok s" and "checkpoint_round al True e s = Inr (e', s')"
    and "enter_phase (e + 1) Multi_Epoch_Existence s = Inr (e1, s1)" and "enter_phase e1 Log_Persistence s1 = Inr (e2, s2)"
  shows "\<exists>n. \<forall>k r. csteps al k (round_start e2 s2) r \<longrightarrow> k \<le> n \<and>
    (\<exists>c. r = Inr c \<and> (if k = n then c = round_end s' else \<exists>r'. cstep al c r'))"
proof -
  obtain s3 s4 s5 where d: "dealloc al s2 = Inr s3" and l: "log_persistence True s3 = Inr s4"
    and e: "enter_phase e2 NVM_Heap_Update s4 = Inr (e', s5)" and u: "nvm_heap_update True s5 = Inr s'"
    using assms(2-4) by (auto simp: checkpoint_round_def res_simps)
  have "s2 = s\<lparr>GLOBAL_EPOCH := e2\<rparr>" using assms(3,4) by (auto simp: enter_phase_def res_simps)
  then have "alloc_ok s2" and "Epoch e2 = Epoch (GLOBAL_EPOCH s2)" using assms(1) by (simp_all add: alloc_ok_epoch)
  with d l e u obtain n where "\<And>k r. csteps al k (round_start e2 s2) r \<Longrightarrow> k \<le> n \<and>
      (\<exists>c. r = Inr c \<and> (if k = n then c = round_end s' else \<exists>r'. cstep al c r'))"
    using round_scheduled by metis
  then show ?thesis by blast
qed

theorem helper_threads_agree_witness:
  "\<exists>n. \<forall>k r. csteps demo_al k (round_start demo_logging_epoch (demo_ended demo_logging_epoch)) r \<longrightarrow> k \<le> n \<and> (\<exists>c. r = Inr c)"
proof -
  obtain e' s' where "checkpoint_round demo_al True 2 (demo_ended 2) = Inr (e', s')"
    using checkpoint_round_total [OF demo_ended_cinv _ demo_ended_ready, of demo_al] by auto
  moreover have "alloc_ok (demo_ended 2)" using demo_ended_ready by (simp add: round_ready_def)
  ultimately obtain n where "\<forall>k r. csteps demo_al k (round_start demo_logging_epoch (demo_ended demo_logging_epoch)) r \<longrightarrow> k \<le> n \<and>
      (\<exists>c. r = Inr c \<and> (if k = n then c = round_end s' else \<exists>r'. cstep demo_al c r'))"
    using helper_threads_agree [of "demo_ended 2" demo_al 2 e' s' demo_sealed_epoch "demo_ended demo_sealed_epoch"
        demo_logging_epoch "demo_ended demo_logging_epoch"] demo_enter(1,2) by auto
  then show ?thesis by blast
qed

text \<open>C10: the last checkpoint, in \<^verbatim>\<open>escort_finalize\<close>: if no thread is in an operation, the redo log pool has room and the
  bookkeeping of allocations is in order, it returns, and the NVM heap equals the DRAM heap.\<close>

theorem finalize_completes:
  assumes "quiescent s0" and "sys_run al (sys_init s0) evs (at Cp_Idle e s)"
    and "round_ready s" and "unat (Epoch e) + 1 < 2 ^ 62"
  shows "\<exists>s'. finalize True e s = Inr s' \<and> nvm_image s' = heap_image (dram s) \<and>
    heap_image (dram s') = heap_image (dram s)"
proof -
  note inv = sys_run_inv [OF assms(2,1)]
  obtain s' where s': "finalize True e s = Inr s'" using finalize_total [OF conjunct1 [OF inv] assms(4,3)] by blast
  have "left_previous_epoch (e + 1) ctx" if "ctx \<in> set (ctx_array s)" for ctx
  proof -
    have "2 \<le> unat (Epoch e)" using cinvD(6) [OF conjunct1 [OF inv]] by (simp add: epochs_ok_def Let_def)
    then have "Epoch e \<noteq> 0" by auto
    then show ?thesis
      using that assms(3) Epoch_succ [OF assms(4)]
      by (simp add: left_previous_epoch_def round_ready_def Epoch_def)
  qed
  then obtain e' where "round_run al (at Cp_Idle e s) (at Cp_Idle e' s')" using finalize_run [OF s' assms(4)] by blast
  from round_run_syncs(1,2) [OF this conjunct1 [OF inv] conjunct2 [OF inv]] s' show ?thesis by blast
qed

theorem finalize_completes_witness:
  "\<exists>s'. finalize True 2 (demo_ended 2) = Inr s' \<and> nvm_image s' 0 = demo_line"
  using finalize_completes [OF demo_start_quiescent demo_run_ended demo_ended_ready] demo_ended_line by auto

section \<open>What the recovery mode of the code achieves\<close>

text \<open>C19: after a crash that does not fall into the update of the NVM heap, \<open>escort_init\<close> in recovery mode merges the durable
  heap into the DRAM heap: on every page for which \<^verbatim>\<open>mprotect\<close> succeeds, the bytes that are zero in DRAM become those of
  the durable heap, and the other pages are left as they are. If all pages are mapped and zero, the DRAM heap becomes the durable heap.\<close>

theorem recovery_outside_update:
  assumes "quiescent s" and "sys_run al (sys_init s) evs c" and "\<not> updating (sys_pc c)"
    and "reopened (sys_st c) l" and "escort_init al' bt n True l = Inr l'"
  shows "(\<forall>j < heap_lines. dram l' (line_ptr j) =
      (if bt_mapped bt (j div 64) then copy_line (dram l (line_ptr j)) (sp_durable (spec_run evs (heap_image (dram s))) j)
       else dram l (line_ptr j))) \<and>
    (fresh_heap bt l \<longrightarrow> heap_image (dram l') = sp_durable (spec_run evs (heap_image (dram s))))"
proof -
  have "nvm_image (sys_st c) = sp_durable (spec_run evs (heap_image (dram s)))"
    using sys_run_inv [OF assms(2,1)] assms(3)
    by (auto simp: lm_inv_def logging_inv_def abs_stage_def updating_def nvm_image_def split: cp_pc.splits)
  with recovered_line [OF assms(4,5)] recovered_heap [OF assms(4) _ assms(5)] show ?thesis by auto
qed

theorem recovery_outside_update_witness:
  "\<exists>l'. escort_init demo_al demo_boot 1 True (reboot demo_written) = Inr l' \<and>
    heap_image (dram l') = (\<lambda>_. blank_line)"
proof -
  have g: "GLOBAL_EPOCH demo_written = 2" by (simp add: demo_written_def demo_start_def)
  have "get_phase 2 = Inr NVM_Heap_Update" using get_phase_Epoch [of 2] by simp
  then obtain l' where l': "escort_init demo_al demo_boot 1 True (reboot demo_written) = Inr l'"
    using reboot_recovers [of demo_written] g by auto
  have r: "reopened (sys_st (demo_sys Cp_Idle 2 demo_written)) (reboot demo_written)"
    by (simp add: reboot_reopened demo_written_def demo_start_def)
  have "heap_image (dram l') = sp_durable (spec_run [demo_event, Tau, Tau] (heap_image (dram demo_start)))"
    using recovery_outside_update [OF demo_start_quiescent demo_run_written _ r l'] reboot_fresh(1) by (simp add: updating_def)
  also have "\<dots> = (\<lambda>_. blank_line)"
    by (simp add: spec_run_def demo_event_def spec_init_def demo_start_def heap_image_def fun_eq_iff)
  finally show ?thesis using l' by blast
qed

text \<open>C20: a crash during the update of the NVM heap is not recovered: there is a run, with its epoch
  committed, after which \<open>escort_init\<close> succeeds in recovery mode and sets up a heap other than
  the durable one, because the redo logs are not replayed.\<close>

theorem recovery_loses_commit:
  "\<exists>s evs c (l :: unit library) l'. quiescent s \<and> sys_run demo_al (sys_init s) evs c \<and> reopened (sys_st c) l \<and>
     fresh_heap demo_boot l \<and> escort_init demo_al demo_boot 1 True l = Inr l' \<and>
     heap_image (dram l') \<noteq> sp_durable (spec_run evs (heap_image (dram s)))"
proof -
  have g: "get_phase (GLOBAL_EPOCH (sys_st demo_commit)) = Inr NVM_Heap_Update"
    using get_phase_Epoch [of 3] by (simp add: demo_commit_def)
  obtain l' where l': "escort_init demo_al demo_boot 1 True (reboot (sys_st demo_commit)) = Inr l'"
    using reboot_recovers [OF g] by blast
  have r: "reopened (sys_st demo_commit) (reboot (sys_st demo_commit))"
    by (rule reboot_reopened) (simp add: demo_commit_def demo_logged_def demo_start_def)
  have "heap_image (dram l') 0 \<noteq> sp_durable (spec_run demo_events (heap_image (dram demo_start))) 0"
    using recovered_heap [OF r reboot_fresh(1) l'] demo_nvm demo_durable demo_line_not_blank by simp
  then have "heap_image (dram l') \<noteq> sp_durable (spec_run demo_events (heap_image (dram demo_start)))"
    by auto
  then show ?thesis using demo_start_quiescent demo_run r reboot_fresh(1) l' by blast
qed

text \<open>C21: in recovery mode \<open>escort_init\<close> never writes the NVM heap, whatever phase the crash fell into and whatever the redo logs
  hold: the phase is read from the epoch without its phase bits, so that it is never the one in which the redo logs are replayed,
  and \<open>init_manager\<close> has emptied every block before.\<close>

theorem recovery_never_replays:
  assumes "nc_dram_space (NVM_config l) = DRAM_BASE" and "escort_init al bt n True l = Inr l'"
  shows "nvm l' = nvm l \<and> get_phase (Epoch (GLOBAL_EPOCH l)) \<noteq> Inr Log_Persistence \<and>
    nvm (replay_redo_logs (init_manager bt l)) = nvm l"
  using escort_init_recovery(1) [OF assms(2,1)] get_phase_Epoch replay_after_init_manager by simp

theorem recovery_never_replays_witness:
  "\<exists>s l'. s = demo_logged demo_logging_epoch [] \<and> get_phase (GLOBAL_EPOCH s) = Inr Log_Persistence \<and>
     plog_contents (Plog_Management s) (cp_log s) = [(DRAM_BASE, demo_line)] \<and>
     escort_init demo_al (demo_boot\<lparr>bt_plog_area := pm_area (Plog_Management s)\<rparr>) 1 True (reboot s) = Inr l' \<and>
     nvm l' = (\<lambda>_. blank_line)"
proof -
  let ?s = "demo_logged demo_logging_epoch []"
  have g: "get_phase (GLOBAL_EPOCH ?s) = Inr Log_Persistence"
    by (simp add: demo_logged_def demo_logging_epoch_def) code_simp
  then obtain l' where l': "escort_init demo_al (demo_boot\<lparr>bt_plog_area := pm_area (Plog_Management ?s)\<rparr>) 1 True (reboot ?s) = Inr l'"
    using reboot_recovers by blast
  have "nvm l' = nvm (reboot ?s)"
    using recovery_never_replays [OF _ l'] by (simp add: reboot_def demo_config_sel)
  then have "nvm l' = (\<lambda>_. blank_line)" by (simp add: reboot_def demo_logged_def demo_start_def)
  moreover have "plog_contents (Plog_Management ?s) (cp_log ?s) = [(DRAM_BASE, demo_line)]"
    by (simp add: plog_contents_def contents_def plog_entries_def demo_logged_def)
  ultimately show ?thesis using g l' by blast
qed

text \<open>C34: the first start of the library on a zeroed file and a zeroed DRAM heap leaves it at rest, in epoch 2,
  so that the theorems on runs apply to it.\<close>

theorem first_start:
  assumes "escort_init al bt n False l = Inr l'" and "\<And>a. dram l a = blank_line" and "\<And>a. nvm l a = blank_line"
  shows "quiescent l' \<and> GLOBAL_EPOCH l' = 2 \<and> heap_image (dram l') = (\<lambda>_. blank_line)"
  using first_start_quiescent [OF assms] by blast

theorem first_start_witness:
  "\<exists>l'. escort_init demo_al demo_boot 1 False (reboot demo_start) = Inr l' \<and> quiescent l'"
proof -
  obtain u where u: "init_bitmap demo_boot (reboot demo_start) = Inr u" "\<not> CpMaster_set u"
    using init_bitmap_total [of "reboot demo_start" demo_boot] demo_room reboot_fresh(2) [of demo_start]
    by (auto simp: reboot_def fresh_library_def)
  then obtain l' where l': "escort_init demo_al demo_boot 1 False (reboot demo_start) = Inr l'"
    using u(2) by (simp add: escort_init_def Let_def init_checkpointing_thread_1 init_roottable_def init_manager_def split_beta)
  moreover have "quiescent l'"
    using first_start [OF l'] by (simp add: reboot_def demo_start_def)
  ultimately show ?thesis by blast
qed

end
